(* ===== verification/Prelude.thy ===== *)
theory Prelude
  imports Main "HOL-Library.Word"
begin

text \<open>
  Shared vocabulary of the development: the machine integers of the firmware (an RP2040,
  32 bit, little endian), the error codes of \<open>src/global.h\<close>, the enumerations of
  \<open>src/main.h\<close> and \<open>src/stairway/api/stairway_leds.h\<close> that index the arrays of the
  program, the byte order of stored integers and C strings in fixed buffers.

  An array indexed by one of these enumerations is a function on the enumeration. Any other
  array is a list, and an access outside of it makes the modelled operation \<open>None\<close>.
\<close>

unbundle bit_operations_syntax

section \<open>Machine integers and error codes\<close>

type_synonym u8 = "8 word"
type_synonym u16 = "16 word"
type_synonym u32 = "32 word"
type_synonym u64 = "64 word"

text \<open>\<open>ErrCode\<close> of \<open>src/global.h\<close>; \<open>err_value\<close> gives the numbers of the enum.\<close>

datatype err_code =
    ERR_SUCCESS
  | ERR_FAIL
  | ERR_PARAM_INVALID
  | ERR_PARAM_IS_NULL
  | ERR_ALREADY_INITED
  | ERR_NEED_INIT
  | ERR_OPEN_FILE
  | ERR_MEM_ALLOC_FAIL
  | ERR_OVERFLOW
  | ERR_EMPTY
  | ERR_BUSY

fun err_value :: "err_code \<Rightarrow> u32" where
  "err_value ERR_SUCCESS = 0"
| "err_value ERR_FAIL = 0x80000001"
| "err_value ERR_PARAM_INVALID = 0x80000002"
| "err_value ERR_PARAM_IS_NULL = 0x80000003"
| "err_value ERR_ALREADY_INITED = 0x80000004"
| "err_value ERR_NEED_INIT = 0x80000005"
| "err_value ERR_OPEN_FILE = 0x80000006"
| "err_value ERR_MEM_ALLOC_FAIL = 0x80000007"
| "err_value ERR_OVERFLOW = 0x80000008"
| "err_value ERR_EMPTY = 0x80000009"
| "err_value ERR_BUSY = 0x8000000A"

lemma err_value_success: "err_value e = 0 \<longleftrightarrow> e = ERR_SUCCESS"
  by (cases e) simp_all

section \<open>Enumerations that index arrays\<close>

text \<open>\<open>StairwaySensorType\<close>, \<open>DetectorType\<close> and \<open>EmergencyType\<close>.\<close>

datatype sensor =
    STAIRWAY_SENS_UP_FIRST
  | STAIRWAY_SENS_UP_SECOND
  | STAIRWAY_SENS_DOWN_FIRST
  | STAIRWAY_SENS_DOWN_SECOND

datatype detector_type = DETECTOR_TYPE_UP | DETECTOR_TYPE_DOWN

datatype emergency_type = EMERGENCY_UP | EMERGENCY_DOWN

text \<open>Loops over such an array visit the elements in the order of the enumeration.\<close>

definition all_sensors :: "sensor list" where
  "all_sensors = [STAIRWAY_SENS_UP_FIRST, STAIRWAY_SENS_UP_SECOND,
     STAIRWAY_SENS_DOWN_FIRST, STAIRWAY_SENS_DOWN_SECOND]"

definition all_detectors :: "detector_type list" where
  "all_detectors = [DETECTOR_TYPE_UP, DETECTOR_TYPE_DOWN]"

definition all_emergencies :: "emergency_type list" where
  "all_emergencies = [EMERGENCY_UP, EMERGENCY_DOWN]"

lemma set_all_sensors [simp]: "set all_sensors = UNIV"
  using sensor.exhaust by (auto simp: all_sensors_def)

lemma set_all_detectors [simp]: "set all_detectors = UNIV"
  using detector_type.exhaust by (auto simp: all_detectors_def)

lemma set_all_emergencies [simp]: "set all_emergencies = UNIV"
  using emergency_type.exhaust by (auto simp: all_emergencies_def)

text \<open>
  The library class \<open>enum\<close> makes quantifiers over the three enumerations and equality of
  arrays indexed by them executable.
\<close>

instantiation sensor :: enum
begin

definition enum_sensor :: "sensor list" where
  "enum_sensor = all_sensors"

definition enum_all_sensor :: "(sensor \<Rightarrow> bool) \<Rightarrow> bool" where
  "enum_all_sensor P = list_all P all_sensors"

definition enum_ex_sensor :: "(sensor \<Rightarrow> bool) \<Rightarrow> bool" where
  "enum_ex_sensor P = list_ex P all_sensors"

instance
  by standard
    (simp_all add: enum_sensor_def enum_all_sensor_def enum_ex_sensor_def list_all_iff list_ex_iff,
     simp add: all_sensors_def)

end

instantiation detector_type :: enum
begin

definition enum_detector_type :: "detector_type list" where
  "enum_detector_type = all_detectors"

definition enum_all_detector_type :: "(detector_type \<Rightarrow> bool) \<Rightarrow> bool" where
  "enum_all_detector_type P = list_all P all_detectors"

definition enum_ex_detector_type :: "(detector_type \<Rightarrow> bool) \<Rightarrow> bool" where
  "enum_ex_detector_type P = list_ex P all_detectors"

instance
  by standard
    (simp_all add: enum_detector_type_def enum_all_detector_type_def enum_ex_detector_type_def
       list_all_iff list_ex_iff,
     simp add: all_detectors_def)

end

instantiation emergency_type :: enum
begin

definition enum_emergency_type :: "emergency_type list" where
  "enum_emergency_type = all_emergencies"

definition enum_all_emergency_type :: "(emergency_type \<Rightarrow> bool) \<Rightarrow> bool" where
  "enum_all_emergency_type P = list_all P all_emergencies"

definition enum_ex_emergency_type :: "(emergency_type \<Rightarrow> bool) \<Rightarrow> bool" where
  "enum_ex_emergency_type P = list_ex P all_emergencies"

instance
  by standard
    (simp_all add: enum_emergency_type_def enum_all_emergency_type_def enum_ex_emergency_type_def
       list_all_iff list_ex_iff,
     simp add: all_emergencies_def)

end

section \<open>Collections of facts\<close>

named_theorems step_defs \<open>definitions of the operations, unfolded when one step is analysed\<close>
named_theorems inv_rules \<open>preservation facts of the component invariants\<close>
named_theorems byte_simps \<open>reading and writing of integers in byte buffers\<close>

section \<open>Byte order\<close>

text \<open>Little endian storage of 16 and 32 bit integers, as the RP2040 keeps them in memory.\<close>

definition le16 :: "u16 \<Rightarrow> u8 list" where
  "le16 w = [ucast w, ucast (drop_bit 8 w)]"

definition le32 :: "u32 \<Rightarrow> u8 list" where
  "le32 w = [ucast w, ucast (drop_bit 8 w), ucast (drop_bit 16 w), ucast (drop_bit 24 w)]"

definition rd16 :: "u8 list \<Rightarrow> u16" where
  "rd16 bs = ucast (bs ! 0) OR push_bit 8 (ucast (bs ! 1))"

definition rd32 :: "u8 list \<Rightarrow> u32" where
  "rd32 bs = ucast (bs ! 0) OR push_bit 8 (ucast (bs ! 1))
     OR push_bit 16 (ucast (bs ! 2)) OR push_bit 24 (ucast (bs ! 3))"

lemma length_le16 [simp]: "length (le16 w) = 2"
  by (simp add: le16_def)

lemma length_le32 [simp]: "length (le32 w) = 4"
  by (simp add: le32_def)

lemma rd16_le16 [simp, byte_simps]: "rd16 (le16 w) = w"
  by (rule bit_word_eqI) (auto simp: rd16_def le16_def bit_simps)

lemma rd32_le32 [simp, byte_simps]: "rd32 (le32 w) = w"
proof (rule bit_word_eqI)
  fix n
  assume "n < LENGTH(32)"
  then consider "n < 8" | "8 \<le> n \<and> n < 16" | "16 \<le> n \<and> n < 24" | "24 \<le> n \<and> n < 32"
    by fastforce
  then show "bit (rd32 (le32 w)) n = bit w n"
    by cases (auto simp: rd32_def le32_def bit_simps)
qed

lemma no_high_bits: "8 \<le> k \<Longrightarrow> \<not> bit (a :: u8) (k + n)"
  using bit_imp_le_length [of a "k + n"] by auto

lemma le32_rd32:
  assumes "length bs = 4"
  shows "le32 (rd32 bs) = bs"
proof -
  obtain a b c d where bs: "bs = [a, b, c, d]"
    using assms by (auto simp: numeral_eq_Suc length_Suc_conv)
  show ?thesis
    unfolding bs le32_def rd32_def
    by (auto intro!: bit_word_eqI simp: bit_simps no_high_bits)
qed

lemma rd32_inj: "length bs = 4 \<Longrightarrow> length cs = 4 \<Longrightarrow> rd32 bs = rd32 cs \<Longrightarrow> bs = cs"
  by (metis le32_rd32)

lemma u8_FF_and [simp]: "(255 :: u8) AND b = b"
proof -
  have "(255 :: u8) = - 1" by simp
  then show ?thesis by (simp only: and.left_neutral)
qed

text \<open>A field of a byte image: \<open>n\<close> bytes from offset \<open>off\<close>.\<close>

definition field_at :: "nat \<Rightarrow> nat \<Rightarrow> 'a list \<Rightarrow> 'a list" where
  "field_at off n img = take n (drop off img)"

lemma length_field_at [simp]: "off + n \<le> length img \<Longrightarrow> length (field_at off n img) = n"
  by (simp add: field_at_def)

section \<open>C strings in fixed buffers\<close>

abbreviation NUL :: char where
  "NUL \<equiv> CHR 0x00"

text \<open>\<open>cstr b\<close> is the C string that starts at the beginning of buffer \<open>b\<close>.\<close>

definition cstr :: "string \<Rightarrow> string" where
  "cstr b = takeWhile (\<lambda>c. c \<noteq> NUL) b"

definition strnlen :: "string \<Rightarrow> nat \<Rightarrow> nat" where
  "strnlen b n = length (cstr (take n b))"

text \<open>\<open>strcpy\<close> into a buffer: the characters, the terminator, then what was there.\<close>

definition strcpy :: "string \<Rightarrow> string \<Rightarrow> string" where
  "strcpy dst src = src @ [NUL] @ drop (length src + 1) dst"

lemma NUL_not_in_cstr: "NUL \<notin> set (cstr b)"
  by (auto simp: cstr_def dest: set_takeWhileD)

lemma strnlen_le: "strnlen b n \<le> n"
  by (metis strnlen_def cstr_def length_takeWhile_le length_take min.bounded_iff)

lemma cstr_append_NUL [simp]: "NUL \<notin> set s \<Longrightarrow> cstr (s @ NUL # r) = s"
  unfolding cstr_def by (induction s) auto

lemma length_strcpy: "length src < length dst \<Longrightarrow> length (strcpy dst src) = length dst"
  by (simp add: strcpy_def)

lemma cstr_strcpy [simp]: "NUL \<notin> set src \<Longrightarrow> cstr (strcpy dst src) = src"
  by (simp add: strcpy_def)

text \<open>The bytes of a character buffer.\<close>

definition byte_of_char :: "char \<Rightarrow> u8" where
  "byte_of_char c = of_nat (of_char c)"

definition char_of_byte :: "u8 \<Rightarrow> char" where
  "char_of_byte b = char_of (unat b)"

definition bytes_of_string :: "string \<Rightarrow> u8 list" where
  "bytes_of_string s = map byte_of_char s"

definition string_of_bytes :: "u8 list \<Rightarrow> string" where
  "string_of_bytes bs = map char_of_byte bs"

lemma char_of_byte_of_char [simp]: "char_of_byte (byte_of_char c) = c"
  by (simp add: char_of_byte_def byte_of_char_def unat_of_nat)

lemma byte_of_char_of_byte [simp]: "byte_of_char (char_of_byte b) = b"
proof -
  have "unat b < 256"
    using unsigned_less [of b, where ?'a = nat] by simp
  then show ?thesis
    by (simp add: char_of_byte_def byte_of_char_def)
qed

lemma string_of_bytes_of_string [simp]: "string_of_bytes (bytes_of_string s) = s"
  by (induction s) (simp_all add: string_of_bytes_def bytes_of_string_def)

lemma length_bytes_of_string [simp]: "length (bytes_of_string s) = length s"
  by (simp add: bytes_of_string_def)

lemma length_string_of_bytes [simp]: "length (string_of_bytes bs) = length bs"
  by (simp add: string_of_bytes_def)

section \<open>Generic facts\<close>

lemma inj_funpow:
  fixes f :: "'a \<Rightarrow> 'a"
  assumes "\<And>x y. f x = f y \<Longrightarrow> x = y"
  shows "(f ^^ n) x = (f ^^ n) y \<Longrightarrow> x = y"
proof (induction n)
  case 0
  then show ?case by simp
next
  case (Suc n)
  then show ?case by (auto dest: assms)
qed

lemma list_update_split:
  "i < length xs \<Longrightarrow> xs[i := v] = take i xs @ v # drop (Suc i) xs"
  by (rule upd_conv_take_nth_drop)

section \<open>Saturating byte arithmetic\<close>

text \<open>
  The C code computes a sum or a difference of bytes in \<open>int\<close>, compares it with a bound and
  stores either the bound or the result. On the unsigned values this is \<open>min\<close> or \<open>max\<close>.
\<close>

lemma uint_unat: "uint (w :: 'a::len word) = int (unat w)"
  by simp

lemma clamp_up:
  fixes v a hi :: u8
  shows "unat (if uint v + uint a > uint hi then hi else word_of_int (uint v + uint a)) =
     min (unat hi) (unat v + unat a)"
proof (cases "unat v + unat a > unat hi")
  case True
  then have "int (unat v) + int (unat a) > int (unat hi)" by linarith
  then have "uint v + uint a > uint hi" by (simp only: uint_unat)
  with True show ?thesis by simp
next
  case False
  then have "\<not> int (unat v) + int (unat a) > int (unat hi)" by linarith
  then have le: "\<not> uint v + uint a > uint hi" by (simp only: uint_unat not_less)
  have "unat hi < 256"
    using unsigned_less [of hi, where ?'a = nat] by simp
  then have "unat (v + a) = unat v + unat a"
    using False by (simp add: unat_word_ariths)
  with le False show ?thesis by simp
qed

lemma clamp_down:
  fixes v a lo :: u8
  shows "unat (if uint v - uint a < uint lo then lo else word_of_int (uint v - uint a)) =
     max (unat lo) (unat v - unat a)"
proof (cases "int (unat v) - int (unat a) < int (unat lo)")
  case True
  then have "unat v - unat a \<le> unat lo" by linarith
  moreover have "uint v - uint a < uint lo" using True by (simp only: uint_unat)
  ultimately show ?thesis by simp
next
  case False
  then have "unat a \<le> unat v" "unat lo \<le> unat v - unat a" by linarith+
  moreover have "\<not> uint v - uint a < uint lo" using False by (simp only: uint_unat not_less)
  ultimately show ?thesis by (simp add: unat_sub word_le_nat_alt)
qed
section \<open>Writing into byte buffers\<close>

text \<open>Writing a byte at an index of a buffer.\<close>

definition store :: "nat \<Rightarrow> u8 \<Rightarrow> u8 list \<Rightarrow> u8 list option" where
  "store i v b = (if i < length b then Some (b[i := v]) else None)"

fun stores :: "(nat \<times> u8) list \<Rightarrow> u8 list \<Rightarrow> u8 list option" where
  "stores [] b = Some b"
| "stores ((i, v) # ws) b = (case store i v b of None \<Rightarrow> None | Some b1 \<Rightarrow> stores ws b1)"

lemma store_None: "store i v b = None \<longleftrightarrow> length b \<le> i"
  by (simp add: store_def not_less)

lemma store_length: "store i v b = Some b1 \<Longrightarrow> length b1 = length b"
  by (auto simp: store_def split: if_splits)

lemma store_SomeD: "store i v b = Some b1 \<Longrightarrow> i < length b \<and> length b1 = length b"
  by (auto simp: store_def split: if_splits)

lemma stores_None: "stores ws b = None \<longleftrightarrow> (\<exists>w \<in> set ws. length b \<le> fst w)"
proof (induction ws b rule: stores.induct)
  case (1 b)
  then show ?case by simp
next
  case (2 i v ws b)
  show ?case
  proof (cases "i < length b")
    case True
    with 2 [of "b[i := v]"] show ?thesis by (simp add: store_def)
  qed (simp add: store_def)
qed

lemma stores_length: "stores ws b = Some b1 \<Longrightarrow> length b1 = length b"
  by (induction ws b rule: stores.induct) (auto dest: store_length split: option.splits)

text \<open>Reading a byte of a buffer.\<close>

definition load :: "nat \<Rightarrow> u8 list \<Rightarrow> u8 option" where
  "load i b = (if i < length b then Some (b ! i) else None)"

lemma load_inside [simp]: "i < length b \<Longrightarrow> load i b = Some (b ! i)"
  by (simp add: load_def)

lemma load_outside [simp]: "length b \<le> i \<Longrightarrow> load i b = None"
  by (simp add: load_def)

end
