(* ===== verification/Crc.thy ===== *)
theory Crc
  imports Prelude
begin

text \<open>
  The common theory of the two checksums of the firmware: the CRC-16 of the Modbus frames
  (\<open>crc_chk\<close> of \<open>src/modbus_master/modbus_master.c\<close>) and the CRC-32 of the settings image
  (\<open>settings_crc\<close> of \<open>src/settings/settings.c\<close>). Both keep a register, xor every data byte
  into its low bits and then apply one bit step eight times. The locale \<open>crc_engine\<close> states
  what is needed of the bit step; \<open>Modbus\<close> and \<open>Settings\<close> interpret it with the steps that
  their source functions take.
\<close>

fun repeat_step :: "nat \<Rightarrow> ('a \<Rightarrow> 'a) \<Rightarrow> 'a \<Rightarrow> 'a" where
  "repeat_step 0 f x = x"
| "repeat_step (Suc n) f x = repeat_step n f (f x)"

locale crc_engine =
  fixes bit_step :: "'a::len word \<Rightarrow> 'a word"
  assumes bit_step_inj: "bit_step x = bit_step y \<Longrightarrow> x = y"
    and bit_step_xor: "bit_step (x XOR y) = bit_step x XOR bit_step y"
    and wide: "8 \<le> LENGTH('a)"
begin

lemma repeat_inj: "repeat_step n bit_step x = repeat_step n bit_step y \<Longrightarrow> x = y"
  by (induction n arbitrary: x y) (auto dest: bit_step_inj)

lemma repeat_xor:
  "repeat_step n bit_step (x XOR y) = repeat_step n bit_step x XOR repeat_step n bit_step y"
  by (induction n arbitrary: x y) (auto simp: bit_step_xor)

definition feed :: "u8 \<Rightarrow> 'a word \<Rightarrow> 'a word" where
  "feed b r = repeat_step 8 bit_step (r XOR ucast b)"

lemma feed_inj_reg: "feed b r = feed b r' \<Longrightarrow> r = r'"
  unfolding feed_def by (drule repeat_inj) (metis xor.assoc xor.right_neutral xor_self_eq)

lemma ucast_byte_inj:
  assumes "(ucast (b :: u8) :: 'a word) = ucast c"
  shows "b = c"
proof (rule bit_word_eqI)
  fix n
  assume "n < LENGTH(8)"
  moreover have "bit (ucast b :: 'a word) n = bit (ucast c :: 'a word) n"
    using assms by simp
  ultimately show "bit b n = bit c n"
    using wide by (simp add: bit_simps)
qed

lemma feed_inj_byte: "feed b r = feed c r \<Longrightarrow> b = c"
  unfolding feed_def
  by (drule repeat_inj) (metis ucast_byte_inj xor.assoc xor.left_neutral xor_self_eq)

lemma fold_feed_inj: "fold feed bs r = fold feed bs r' \<Longrightarrow> r = r'"
  by (induction bs arbitrary: r r') (auto dest: feed_inj_reg)

text \<open>A change of one byte of the data changes the register at the end.\<close>

lemma single_byte_detected:
  assumes "b \<noteq> c"
  shows "fold feed (xs @ b # ys) r \<noteq> fold feed (xs @ c # ys) r"
  using assms by (auto dest!: fold_feed_inj feed_inj_byte)

lemma single_byte_update_detected:
  assumes "i < length bs" and "bs ! i \<noteq> c"
  shows "fold feed (bs[i := c]) r \<noteq> fold feed bs r"
proof -
  have "bs[i := c] = take i bs @ c # drop (Suc i) bs"
    using assms(1) by (rule list_update_split)
  moreover have "bs = take i bs @ bs ! i # drop (Suc i) bs"
    using assms(1) by (rule id_take_nth_drop)
  ultimately show ?thesis
    using single_byte_detected assms(2) by metis
qed

text \<open>The register of the xor of two messages is the xor of their registers.\<close>

lemma fold_feed_xor:
  assumes "length bs = length cs"
  shows "fold feed (map2 (XOR) bs cs) (r XOR r') = fold feed bs r XOR fold feed cs r'"
  using assms
proof (induction bs cs arbitrary: r r' rule: list_induct2)
  case Nil
  then show ?case by simp
next
  case (Cons b bs c cs)
  have "feed (b XOR c) (r XOR r') = feed b r XOR feed c r'"
    unfolding feed_def repeat_xor [symmetric]
    by (simp add: unsigned_xor_eq xor.assoc xor.left_commute)
  with Cons.IH show ?case by simp
qed

end

section \<open>Shift registers in Galois form\<close>

text \<open>
  The bit step of a reflected CRC: shift right, and xor the polynomial if the bit shifted out
  was set. It is a permutation of the registers when the polynomial has its top bit set.
\<close>

definition galois_step :: "'a::len word \<Rightarrow> 'a word \<Rightarrow> 'a word" where
  "galois_step poly r = (if bit r 0 then drop_bit 1 r XOR poly else drop_bit 1 r)"

lemma galois_step_inj:
  fixes x y poly :: "'a::len word"
  assumes "bit poly (LENGTH('a) - 1)" and "galois_step poly x = galois_step poly y"
  shows "x = y"
proof -
  have top: "bit (galois_step poly z) (LENGTH('a) - 1) = bit z 0" for z
    using assms(1) by (auto simp: galois_step_def bit_simps)
  have low: "bit x 0 = bit y 0"
    using top [of x] top [of y] assms(2) by simp
  then have "drop_bit 1 x = drop_bit 1 y"
    using assms(2) by (auto simp: galois_step_def split: if_splits)
      (metis xor.assoc xor.right_neutral xor_self_eq)
  then have "bit x (Suc n) = bit y (Suc n)" for n
    by (metis bit_drop_bit_eq comp_apply plus_1_eq_Suc)
  with low have "bit x n = bit y n" for n
    by (cases n) auto
  then show ?thesis by (simp add: bit_eq_iff)
qed

lemma galois_step_xor:
  "galois_step poly (x XOR y) = galois_step poly x XOR galois_step poly (y :: 'a::len word)"
  by (auto simp: galois_step_def bit_simps intro!: bit_word_eqI)

lemma crc_engine_galois:
  fixes poly :: "'a::len word"
  assumes "bit poly (LENGTH('a) - 1)" and "8 \<le> LENGTH('a)"
  shows "crc_engine (galois_step poly)"
  by unfold_locales (use assms galois_step_inj galois_step_xor in blast)+

end
