(* ===== verification/Settings.thy ===== *)
theory Settings
  imports Crc
begin

text \<open>
  The persistent settings: \<open>src/settings/settings.c\<close>, \<open>src/settings/settings_list.h\<close> and
  \<open>src/settings/api/settings_api.h\<close>. The struct is a record with the fields of the source; its
  object representation (what \<open>memcpy\<close>, \<open>memcmp\<close> and the checksum see) is the byte list
  \<open>settings_bytes\<close>, laid out as the ARM ABI does: natural alignment, little endian, 172 bytes,
  the ten padding bytes kept in the extra field \<open>padding\<close>.
\<close>

section \<open>The struct and its layout\<close>

definition SETTINGS_MAGIC :: u32 where "SETTINGS_MAGIC = 0xDEADBEED"
definition SETTINGS_VERSION :: u16 where "SETTINGS_VERSION = 2"
definition SSID_MAX_LEN :: nat where "SSID_MAX_LEN = 33"
definition PASS_MIN_LEN :: nat where "PASS_MIN_LEN = 8"
definition PASS_MAX_LEN :: nat where "PASS_MAX_LEN = 64"
definition LED_COUNT_MAX :: u32 where "LED_COUNT_MAX = 1000"

lemmas settings_consts [simp] =
  SETTINGS_MAGIC_def SETTINGS_VERSION_def SSID_MAX_LEN_def PASS_MIN_LEN_def PASS_MAX_LEN_def
  LED_COUNT_MAX_def

record settings =
  magic :: u32
  version :: u16
  ssize :: u16
  use_light_sensor :: bool
  light_sensor_day_value :: u32
  light_sensor_night_value :: u32
  dist_trigger :: "sensor \<Rightarrow> u16"
  sensor_debouce_time :: u32
  sensor_up_swap :: bool
  sensor_down_swap :: bool
  leds_time_interval :: u32
  leds_off_timeout :: u32
  led_on_value :: u8
  led_off_value :: u8
  led_on_step :: u8
  led_off_step :: u8
  led_count :: u32
  use_emergency :: bool
  emergency_block_ms :: u32
  emergency_cnt :: "emergency_type \<Rightarrow> u32"
  ssid :: string
  pass :: string
  ap_state :: bool
  crc :: u32
  padding :: "u8 list"

text \<open>\<open>sizeof(Settings)\<close> and \<open>offsetof(Settings, crc)\<close>.\<close>

definition sizeof_settings :: nat where "sizeof_settings = 172"
definition offsetof_crc :: nat where "offsetof_crc = 168"

definition byte_of_bool :: "bool \<Rightarrow> u8" where
  "byte_of_bool b = (if b then 1 else 0)"

definition settings_wf :: "settings \<Rightarrow> bool" where
  "settings_wf s \<longleftrightarrow>
     length (ssid s) = SSID_MAX_LEN \<and> length (pass s) = PASS_MAX_LEN \<and> length (padding s) = 10"

definition settings_body :: "settings \<Rightarrow> u8 list" where
  "settings_body s =
     le32 (magic s) @ le16 (version s) @ le16 (ssize s) @
     [byte_of_bool (use_light_sensor s)] @ field_at 0 3 (padding s) @
     le32 (light_sensor_day_value s) @ le32 (light_sensor_night_value s) @
     le16 (dist_trigger s STAIRWAY_SENS_UP_FIRST) @ le16 (dist_trigger s STAIRWAY_SENS_UP_SECOND) @
     le16 (dist_trigger s STAIRWAY_SENS_DOWN_FIRST) @
     le16 (dist_trigger s STAIRWAY_SENS_DOWN_SECOND) @
     le32 (sensor_debouce_time s) @
     [byte_of_bool (sensor_up_swap s), byte_of_bool (sensor_down_swap s)] @
     field_at 3 2 (padding s) @
     le32 (leds_time_interval s) @ le32 (leds_off_timeout s) @
     [led_on_value s, led_off_value s, led_on_step s, led_off_step s] @
     le32 (led_count s) @
     [byte_of_bool (use_emergency s)] @ field_at 5 3 (padding s) @
     le32 (emergency_block_ms s) @
     le32 (emergency_cnt s EMERGENCY_UP) @ le32 (emergency_cnt s EMERGENCY_DOWN) @
     bytes_of_string (ssid s) @ bytes_of_string (pass s) @
     [byte_of_bool (ap_state s)] @ field_at 8 2 (padding s)"

definition settings_bytes :: "settings \<Rightarrow> u8 list" where
  "settings_bytes s = settings_body s @ le32 (crc s)"

definition settings_of_bytes :: "u8 list \<Rightarrow> settings" where
  "settings_of_bytes b =
     \<lparr> magic = rd32 (field_at 0 4 b),
       version = rd16 (field_at 4 2 b),
       ssize = rd16 (field_at 6 2 b),
       use_light_sensor = (b ! 8 \<noteq> 0),
       light_sensor_day_value = rd32 (field_at 12 4 b),
       light_sensor_night_value = rd32 (field_at 16 4 b),
       dist_trigger =
         (\<lambda>i. case i of
            STAIRWAY_SENS_UP_FIRST \<Rightarrow> rd16 (field_at 20 2 b)
          | STAIRWAY_SENS_UP_SECOND \<Rightarrow> rd16 (field_at 22 2 b)
          | STAIRWAY_SENS_DOWN_FIRST \<Rightarrow> rd16 (field_at 24 2 b)
          | STAIRWAY_SENS_DOWN_SECOND \<Rightarrow> rd16 (field_at 26 2 b)),
       sensor_debouce_time = rd32 (field_at 28 4 b),
       sensor_up_swap = (b ! 32 \<noteq> 0),
       sensor_down_swap = (b ! 33 \<noteq> 0),
       leds_time_interval = rd32 (field_at 36 4 b),
       leds_off_timeout = rd32 (field_at 40 4 b),
       led_on_value = b ! 44,
       led_off_value = b ! 45,
       led_on_step = b ! 46,
       led_off_step = b ! 47,
       led_count = rd32 (field_at 48 4 b),
       use_emergency = (b ! 52 \<noteq> 0),
       emergency_block_ms = rd32 (field_at 56 4 b),
       emergency_cnt =
         (\<lambda>i. case i of
            EMERGENCY_UP \<Rightarrow> rd32 (field_at 60 4 b)
          | EMERGENCY_DOWN \<Rightarrow> rd32 (field_at 64 4 b)),
       ssid = string_of_bytes (field_at 68 33 b),
       pass = string_of_bytes (field_at 101 64 b),
       ap_state = (b ! 165 \<noteq> 0),
       crc = rd32 (field_at 168 4 b),
       padding = field_at 9 3 b @ field_at 34 2 b @ field_at 53 3 b @ field_at 166 2 b \<rparr>"

lemma byte_of_bool_neq_0 [simp]: "byte_of_bool b \<noteq> 0 \<longleftrightarrow> b"
  by (simp add: byte_of_bool_def)

lemma length_settings_body [simp]: "settings_wf s \<Longrightarrow> length (settings_body s) = offsetof_crc"
  by (simp add: settings_body_def settings_wf_def offsetof_crc_def)

lemma length_settings_bytes [simp]: "settings_wf s \<Longrightarrow> length (settings_bytes s) = sizeof_settings"
  by (simp add: settings_bytes_def offsetof_crc_def sizeof_settings_def)

section \<open>Round trip of the object representation\<close>

lemma field_at_append1: "off + n \<le> length xs \<Longrightarrow> field_at off n (xs @ ys) = field_at off n xs"
  by (simp add: field_at_def)

lemma field_at_append2:
  "length xs \<le> off \<Longrightarrow> field_at off n (xs @ ys) = field_at (off - length xs) n ys"
  by (simp add: field_at_def)

lemma field_at_all: "length xs = n \<Longrightarrow> field_at 0 n xs = xs"
  by (simp add: field_at_def)

lemma field_at_Cons: "0 < off \<Longrightarrow> field_at off n (x # xs) = field_at (off - 1) n xs"
  by (simp add: field_at_def drop_Cons')

lemmas field_at_simps = field_at_append1 field_at_append2 field_at_all field_at_Cons

lemma padding_pieces:
  "length p = 10 \<Longrightarrow> field_at 0 3 p @ field_at 3 2 p @ field_at 5 3 p @ field_at 8 2 p = p"
  by (auto simp: field_at_def numeral_eq_Suc length_Suc_conv)

lemma sensor_array_eta:
  "(\<lambda>i. case i of STAIRWAY_SENS_UP_FIRST \<Rightarrow> f STAIRWAY_SENS_UP_FIRST
      | STAIRWAY_SENS_UP_SECOND \<Rightarrow> f STAIRWAY_SENS_UP_SECOND
      | STAIRWAY_SENS_DOWN_FIRST \<Rightarrow> f STAIRWAY_SENS_DOWN_FIRST
      | STAIRWAY_SENS_DOWN_SECOND \<Rightarrow> f STAIRWAY_SENS_DOWN_SECOND) = f"
  by (rule ext) (simp split: sensor.split)

lemma emergency_array_eta:
  "(\<lambda>i. case i of EMERGENCY_UP \<Rightarrow> f EMERGENCY_UP | EMERGENCY_DOWN \<Rightarrow> f EMERGENCY_DOWN) = f"
  by (rule ext) (simp split: emergency_type.split)

lemma settings_decode_encode:
  assumes "settings_wf s"
  shows "settings_of_bytes (settings_bytes s) = s"
proof -
  have "length (ssid s) = 33" "length (pass s) = 64" "length (padding s) = 10"
    using assms by (simp_all add: settings_wf_def)
  then show ?thesis
    unfolding settings_of_bytes_def settings_bytes_def settings_body_def
    by (simp add: field_at_simps nth_append sensor_array_eta emergency_array_eta padding_pieces)
qed

lemma settings_of_bytes_wf: "sizeof_settings \<le> length b \<Longrightarrow> settings_wf (settings_of_bytes b)"
  by (simp add: settings_wf_def settings_of_bytes_def sizeof_settings_def)

section \<open>Checksum\<close>

text \<open>One round of the inner loop of \<open>settings_crc\<close>: shift, and xor the polynomial if bit 0 was set.\<close>

definition settings_crc_bit :: "u32 \<Rightarrow> u32" where
  "settings_crc_bit c = drop_bit 1 c XOR (0xEDB88320 AND (0 - (c AND 1)))"

text \<open>\<open>settings_crc\<close> reads the object representation of the struct up to the field \<open>crc\<close>.\<close>

definition settings_crc :: "u8 list \<Rightarrow> u32" where
  "settings_crc data =
     NOT (fold (\<lambda>b c. repeat_step 8 settings_crc_bit (c XOR ucast b)) (take offsetof_crc data) 0xFFFFFFFF)"

text \<open>\<open>settings_is_valid_header\<close>, on the object representation of the struct.\<close>

definition settings_is_valid_header :: "u8 list \<Rightarrow> bool" where
  "settings_is_valid_header b \<longleftrightarrow>
     magic (settings_of_bytes b) = SETTINGS_MAGIC \<and>
     version (settings_of_bytes b) = SETTINGS_VERSION \<and>
     ssize (settings_of_bytes b) = of_nat sizeof_settings \<and>
     crc (settings_of_bytes b) = settings_crc b"

lemma settings_crc_bit_galois: "settings_crc_bit = galois_step 0xEDB88320"
proof
  fix c
  show "settings_crc_bit c = galois_step 0xEDB88320 c"
    by (cases "bit c 0") (simp_all add: settings_crc_bit_def galois_step_def and_one_eq bit_0
        odd_iff_mod_2_eq_one)
qed

interpretation settings_engine: crc_engine settings_crc_bit
  unfolding settings_crc_bit_galois by (rule crc_engine_galois) simp_all

lemma settings_crc_fold:
  "settings_crc data = NOT (fold settings_engine.feed (take offsetof_crc data) 0xFFFFFFFF)"
  by (simp add: settings_crc_def settings_engine.feed_def [abs_def])

lemma settings_crc_single_byte:
  assumes "i < offsetof_crc" and "i < length data" and "data ! i \<noteq> b"
  shows "settings_crc (data[i := b]) \<noteq> settings_crc data"
  using assms
  by (simp add: settings_crc_fold take_update_swap settings_engine.single_byte_update_detected)

lemma settings_crc_cong: "take offsetof_crc b = take offsetof_crc b' \<Longrightarrow> settings_crc b = settings_crc b'"
  by (simp add: settings_crc_def)

section \<open>Default values and validation\<close>

definition cbuf :: "nat \<Rightarrow> string \<Rightarrow> string" where
  "cbuf n s = s @ replicate (n - length s) NUL"

definition default_settings :: settings where
  "default_settings =
     \<lparr> magic = SETTINGS_MAGIC,
       version = SETTINGS_VERSION,
       ssize = of_nat sizeof_settings,
       use_light_sensor = True,
       light_sensor_day_value = 1400,
       light_sensor_night_value = 1000,
       dist_trigger =
         (\<lambda>i. case i of
            STAIRWAY_SENS_UP_FIRST \<Rightarrow> 800
          | STAIRWAY_SENS_UP_SECOND \<Rightarrow> 1000
          | STAIRWAY_SENS_DOWN_FIRST \<Rightarrow> 1000
          | STAIRWAY_SENS_DOWN_SECOND \<Rightarrow> 1000),
       sensor_debouce_time = 2000,
       sensor_up_swap = True,
       sensor_down_swap = False,
       leds_time_interval = 400,
       leds_off_timeout = 20000,
       led_on_value = 150,
       led_off_value = 0,
       led_on_step = 25,
       led_off_step = 25,
       led_count = 18,
       use_emergency = True,
       emergency_block_ms = 1000,
       emergency_cnt = (\<lambda>i. case i of EMERGENCY_UP \<Rightarrow> 2 | EMERGENCY_DOWN \<Rightarrow> 2),
       ssid = cbuf SSID_MAX_LEN ''Stairway'',
       pass = cbuf PASS_MAX_LEN ''12345678'',
       ap_state = True,
       crc = 0,
       padding = replicate 10 0 \<rparr>"

text \<open>The pointer argument is \<open>None\<close> for \<open>NULL\<close>.\<close>

definition settings_validate :: "settings option \<Rightarrow> err_code" where
  "settings_validate sp =
     (case sp of
        None \<Rightarrow> ERR_PARAM_IS_NULL
      | Some s \<Rightarrow>
          if led_count s = 0 \<or> led_count s > LED_COUNT_MAX then ERR_PARAM_INVALID
          else if emergency_cnt s EMERGENCY_UP > led_count s then ERR_PARAM_INVALID
          else if emergency_cnt s EMERGENCY_DOWN > led_count s then ERR_PARAM_INVALID
          else if led_on_step s = 0 \<or> led_off_step s = 0 then ERR_PARAM_INVALID
          else if light_sensor_day_value s < light_sensor_night_value s then ERR_PARAM_INVALID
          else
            let ssid_len = strnlen (ssid s) SSID_MAX_LEN;
                pass_len = strnlen (pass s) PASS_MAX_LEN
            in if ssid_len = 0 \<or> ssid_len \<ge> SSID_MAX_LEN then ERR_PARAM_INVALID
               else if pass_len < PASS_MIN_LEN \<or> pass_len \<ge> PASS_MAX_LEN then ERR_PARAM_INVALID
               else ERR_SUCCESS)"

abbreviation settings_valid :: "settings \<Rightarrow> bool" where
  "settings_valid s \<equiv> settings_validate (Some s) = ERR_SUCCESS"

lemma settings_valid_iff:
  "settings_valid s \<longleftrightarrow>
     0 < led_count s \<and> led_count s \<le> 1000 \<and>
     (\<forall>e. emergency_cnt s e \<le> led_count s) \<and>
     led_on_step s \<noteq> 0 \<and> led_off_step s \<noteq> 0 \<and>
     light_sensor_night_value s \<le> light_sensor_day_value s \<and>
     0 < strnlen (ssid s) 33 \<and> strnlen (ssid s) 33 < 33 \<and>
     8 \<le> strnlen (pass s) 64 \<and> strnlen (pass s) 64 < 64"
proof -
  have "(\<forall>e. emergency_cnt s e \<le> led_count s) \<longleftrightarrow>
      emergency_cnt s EMERGENCY_UP \<le> led_count s \<and> emergency_cnt s EMERGENCY_DOWN \<le> led_count s"
    by (metis emergency_type.exhaust)
  then show ?thesis
    by (auto simp: settings_validate_def Let_def word_neq_0_conv not_less not_le)
qed

text \<open>Validation reads nothing but the fields it names: header, checksum and padding are free.\<close>

definition stamp_header :: "settings \<Rightarrow> settings" where
  "stamp_header s = s\<lparr>magic := SETTINGS_MAGIC, version := SETTINGS_VERSION,
                      ssize := of_nat sizeof_settings\<rparr>"

definition stamp :: "settings \<Rightarrow> settings" where
  "stamp s = (let h = stamp_header s in h\<lparr>crc := settings_crc (settings_bytes h)\<rparr>)"

lemma stamp_valid [simp]: "settings_validate (Some (stamp s)) = settings_validate (Some s)"
  by (simp add: stamp_def stamp_header_def settings_validate_def Let_def)

lemma stamp_wf [simp]: "settings_wf (stamp s) = settings_wf s"
  by (simp add: stamp_def stamp_header_def settings_wf_def Let_def)

lemma default_settings_wf [simp]: "settings_wf default_settings"
  by (simp add: settings_wf_def default_settings_def cbuf_def)

lemma default_settings_valid [simp]: "settings_valid default_settings"
  by (simp add: settings_validate_def default_settings_def cbuf_def Let_def strnlen_def cstr_def)

section \<open>Flash memory\<close>

text \<open>
  The flash of the board and the SDK routines on it are outside of the repository. A
  \<open>flash_hw\<close> gives them: the size of the chip, the two range operations as functions on the
  contents, and whether the two calls of \<open>flash_safe_execute\<close> in one \<open>settings_write\<close>
  return \<open>PICO_OK\<close>; a call that does not return \<open>PICO_OK\<close> has not run its callback. Sector
  and page size are those of the SDK, 4096 and 256 bytes.
\<close>

record flash_hw =
  flash_size_bytes :: nat
  range_erase :: "nat \<Rightarrow> nat \<Rightarrow> (nat \<Rightarrow> u8) \<Rightarrow> (nat \<Rightarrow> u8)"
  range_program :: "nat \<Rightarrow> u8 list \<Rightarrow> (nat \<Rightarrow> u8) \<Rightarrow> (nat \<Rightarrow> u8)"
  erase_rc_ok :: bool
  program_rc_ok :: bool

definition FLASH_SECTOR_SIZE :: nat where "FLASH_SECTOR_SIZE = 4096"
definition FLASH_PAGE_SIZE :: nat where "FLASH_PAGE_SIZE = 256"

definition SETTINGS_OFFSET :: "flash_hw \<Rightarrow> nat" where
  "SETTINGS_OFFSET hw = flash_size_bytes hw - FLASH_SECTOR_SIZE"

text \<open>The documented effect of the two routines on NOR flash.\<close>

definition flash_laws :: "flash_hw \<Rightarrow> bool" where
  "flash_laws hw \<longleftrightarrow>
     (\<forall>off n f a. range_erase hw off n f a = (if off \<le> a \<and> a < off + n then 0xFF else f a)) \<and>
     (\<forall>off d f a. range_program hw off d f a =
        (if off \<le> a \<and> a < off + length d then f a AND d ! (a - off) else f a))"

definition nor_flash :: "bool \<Rightarrow> bool \<Rightarrow> flash_hw" where
  "nor_flash ok1 ok2 =
     \<lparr> flash_size_bytes = 2 * 1024 * 1024,
       range_erase = (\<lambda>off n f a. if off \<le> a \<and> a < off + n then 0xFF else f a),
       range_program = (\<lambda>off d f a.
          if off \<le> a \<and> a < off + length d then f a AND d ! (a - off) else f a),
       erase_rc_ok = ok1,
       program_rc_ok = ok2 \<rparr>"

lemma nor_flash_laws: "flash_laws (nor_flash ok1 ok2)"
  by (simp add: flash_laws_def nor_flash_def)

section \<open>Operations\<close>

text \<open>The statics of \<open>settings.c\<close>: the active settings and the flash contents.\<close>

record settings_store =
  global_settings :: settings
  flash :: "nat \<Rightarrow> u8"

text \<open>The \<open>sizeof(Settings)\<close> bytes at \<open>flash_target_contents\<close>.\<close>

definition flash_target :: "flash_hw \<Rightarrow> (nat \<Rightarrow> u8) \<Rightarrow> u8 list" where
  "flash_target hw f = map (\<lambda>i. f (SETTINGS_OFFSET hw + i)) [0..<sizeof_settings]"

definition call_flash_range_erase :: "flash_hw \<Rightarrow> nat \<Rightarrow> (nat \<Rightarrow> u8) \<Rightarrow> (nat \<Rightarrow> u8)" where
  "call_flash_range_erase hw offset f = range_erase hw offset FLASH_SECTOR_SIZE f"

definition call_flash_range_program ::
    "flash_hw \<Rightarrow> nat \<Rightarrow> u8 list \<Rightarrow> (nat \<Rightarrow> u8) \<Rightarrow> (nat \<Rightarrow> u8)" where
  "call_flash_range_program hw offset data f =
     range_program hw offset (take FLASH_PAGE_SIZE data) f"

definition settings_write :: "flash_hw \<Rightarrow> settings_store \<Rightarrow> err_code \<times> settings_store" where
  "settings_write hw st =
     (let h = (global_settings st)\<lparr>magic := SETTINGS_MAGIC, version := SETTINGS_VERSION,
                                    ssize := of_nat sizeof_settings\<rparr>;
          g = h\<lparr>crc := settings_crc (settings_bytes h)\<rparr>;
          st1 = st\<lparr>global_settings := g\<rparr>
      in if flash_target hw (flash st1) \<noteq> settings_bytes g then
           if \<not> erase_rc_ok hw then (ERR_FAIL, st1)
           else
             let st2 = st1\<lparr>flash := call_flash_range_erase hw (SETTINGS_OFFSET hw) (flash st1)\<rparr>;
                 page = settings_bytes g @ replicate (FLASH_PAGE_SIZE - sizeof_settings) 0xFF
             in if \<not> program_rc_ok hw then (ERR_FAIL, st2)
                else
                  let st3 = st2\<lparr>flash :=
                        call_flash_range_program hw (SETTINGS_OFFSET hw) page (flash st2)\<rparr>
                  in if flash_target hw (flash st3) \<noteq> settings_bytes g then (ERR_FAIL, st3)
                     else (ERR_SUCCESS, st3)
         else (ERR_SUCCESS, st1))"

definition settings_init :: "flash_hw \<Rightarrow> settings_store \<Rightarrow> err_code \<times> settings_store" where
  "settings_init hw st =
     (let img = flash_target hw (flash st);
          st1 = st\<lparr>global_settings := settings_of_bytes img\<rparr>
      in if \<not> settings_is_valid_header img \<or>
            settings_validate (Some (global_settings st1)) \<noteq> ERR_SUCCESS
         then settings_write hw (st1\<lparr>global_settings := default_settings\<rparr>)
         else (ERR_SUCCESS, st1))"

text \<open>\<open>settings_default\<close> also gives the delay it passes to \<open>reboot_request\<close>, if it calls it.\<close>

definition settings_default ::
    "flash_hw \<Rightarrow> bool \<Rightarrow> settings_store \<Rightarrow> err_code \<times> u32 option \<times> settings_store" where
  "settings_default hw restart st =
     (let (err, st1) = settings_write hw (st\<lparr>global_settings := default_settings\<rparr>)
      in if err \<noteq> ERR_SUCCESS then (err, None, st1)
         else (ERR_SUCCESS, if restart then Some 1000 else None, st1))"

definition settings_apply ::
    "flash_hw \<Rightarrow> settings option \<Rightarrow> settings_store \<Rightarrow> err_code \<times> settings_store" where
  "settings_apply hw sp st =
     (case sp of
        None \<Rightarrow> (ERR_PARAM_IS_NULL, st)
      | Some s \<Rightarrow>
          let err = settings_validate (Some s)
          in if err \<noteq> ERR_SUCCESS then (err, st)
             else settings_write hw (st\<lparr>global_settings := s\<rparr>))"

lemma length_flash_target [simp]: "length (flash_target hw f) = sizeof_settings"
  by (simp add: flash_target_def)

lemma settings_write_global: "global_settings (snd (settings_write hw st)) = stamp (global_settings st)"
  by (simp add: settings_write_def stamp_def stamp_header_def Let_def)

section \<open>Writing and reading back\<close>

lemma settings_body_crc [simp]: "settings_body (s\<lparr>crc := c\<rparr>) = settings_body s"
  by (simp add: settings_body_def)

lemma settings_wf_header [simp]: "settings_wf (stamp_header s) = settings_wf s"
  by (simp add: stamp_header_def settings_wf_def)

lemma take_settings_bytes [simp]:
  "settings_wf s \<Longrightarrow> take offsetof_crc (settings_bytes s) = settings_body s"
  by (simp add: settings_bytes_def)

lemma settings_crc_stamp:
  assumes "settings_wf s"
  shows "settings_crc (settings_bytes (stamp s)) = crc (stamp s)"
proof -
  have "settings_body (stamp s) = settings_body (stamp_header s)"
    by (simp add: stamp_def Let_def)
  with assms have "settings_crc (settings_bytes (stamp s)) = settings_crc (settings_bytes (stamp_header s))"
    by (intro settings_crc_cong) simp
  then show ?thesis by (simp add: stamp_def Let_def)
qed

lemma stamp_fields [simp]:
  "magic (stamp s) = SETTINGS_MAGIC" "version (stamp s) = SETTINGS_VERSION"
  "ssize (stamp s) = of_nat sizeof_settings"
  by (simp_all add: stamp_def stamp_header_def Let_def)

lemma stamp_idem [simp]:
  assumes "settings_wf s"
  shows "stamp (stamp s) = stamp s"
proof -
  have "stamp_header (stamp s) = stamp s"
    by (simp add: stamp_def stamp_header_def Let_def)
  then have "stamp (stamp s) = (stamp s)\<lparr>crc := settings_crc (settings_bytes (stamp s))\<rparr>"
    by (simp add: stamp_def [of "stamp s"] Let_def)
  also have "\<dots> = (stamp s)\<lparr>crc := crc (stamp s)\<rparr>"
    by (simp add: settings_crc_stamp assms)
  finally show ?thesis by simp
qed

lemma stamp_header_valid: "settings_wf s \<Longrightarrow> settings_is_valid_header (settings_bytes (stamp s))"
  unfolding settings_is_valid_header_def
  by (simp add: settings_decode_encode settings_crc_stamp del: settings_consts)

text \<open>The outcomes of \<open>settings_write\<close> in terms of \<open>stamp\<close>.\<close>

lemma settings_write_unfold:
  "settings_write hw st =
     (let g = stamp (global_settings st); st1 = st\<lparr>global_settings := g\<rparr>;
          page = settings_bytes g @ replicate (FLASH_PAGE_SIZE - sizeof_settings) 0xFF;
          f2 = call_flash_range_erase hw (SETTINGS_OFFSET hw) (flash st);
          f3 = call_flash_range_program hw (SETTINGS_OFFSET hw) page f2
      in if flash_target hw (flash st) = settings_bytes g then (ERR_SUCCESS, st1)
         else if \<not> erase_rc_ok hw then (ERR_FAIL, st1)
         else if \<not> program_rc_ok hw then (ERR_FAIL, st1\<lparr>flash := f2\<rparr>)
         else if flash_target hw f3 \<noteq> settings_bytes g then (ERR_FAIL, st1\<lparr>flash := f3\<rparr>)
         else (ERR_SUCCESS, st1\<lparr>flash := f3\<rparr>))"
  by (simp add: settings_write_def stamp_def stamp_header_def Let_def)

lemma settings_write_stored:
  assumes "settings_write hw st = (ERR_SUCCESS, st')"
  shows "flash_target hw (flash st') = settings_bytes (global_settings st')"
    and "global_settings st' = stamp (global_settings st)"
  using assms by (auto simp: settings_write_unfold Let_def split: if_splits)

lemma settings_write_unchanged:
  assumes "settings_wf (global_settings st)"
    and "flash_target hw (flash st) = settings_bytes (global_settings st)"
    and "global_settings st = stamp (global_settings st)"
  shows "settings_write hw st = (ERR_SUCCESS, st)"
  using assms by (simp add: settings_write_unfold Let_def)

lemma flash_target_program:
  assumes "flash_laws hw" and "length d = sizeof_settings"
  shows "flash_target hw (call_flash_range_program hw (SETTINGS_OFFSET hw)
           (d @ replicate (FLASH_PAGE_SIZE - sizeof_settings) 0xFF)
           (call_flash_range_erase hw (SETTINGS_OFFSET hw) f)) = d"
  using assms
  by (intro nth_equalityI)
    (simp_all add: flash_target_def call_flash_range_program_def call_flash_range_erase_def
       flash_laws_def FLASH_PAGE_SIZE_def FLASH_SECTOR_SIZE_def sizeof_settings_def nth_append)

section \<open>Correctness of the settings store\<close>

text \<open>
  Whatever the flash contains at power up, and whatever the flash routines do,
  \<open>settings_init\<close> leaves active settings that pass \<open>settings_validate\<close>.
\<close>

theorem settings_init_valid:
  "settings_valid (global_settings (snd (settings_init hw st))) \<and>
   settings_wf (global_settings (snd (settings_init hw st)))"
proof (cases "\<not> settings_is_valid_header (flash_target hw (flash st)) \<or>
    settings_validate (Some (settings_of_bytes (flash_target hw (flash st)))) \<noteq> ERR_SUCCESS")
  case True
  then show ?thesis
    by (simp add: settings_init_def Let_def settings_write_global)
next
  case False
  then show ?thesis
    by (simp add: settings_init_def Let_def settings_of_bytes_wf)
qed

text \<open>
  Settings that were stored survive a restart: after a successful \<open>settings_write\<close> of
  valid settings, \<open>settings_init\<close> on the same flash (with any RAM contents, and even if the
  flash can no longer be written) succeeds and restores exactly the stored settings.
\<close>

theorem settings_survive_restart:
  assumes "settings_wf (global_settings st)" and "settings_valid (global_settings st)"
    and "settings_write hw st = (ERR_SUCCESS, st')"
    and "flash_size_bytes hw' = flash_size_bytes hw"
  shows "settings_init hw' (st'\<lparr>global_settings := ram\<rparr>) = (ERR_SUCCESS, st')"
proof -
  have img: "flash_target hw' (flash st') = settings_bytes (stamp (global_settings st))"
    using settings_write_stored [OF assms(3)] assms(4)
    by (simp add: flash_target_def SETTINGS_OFFSET_def)
  have "settings_of_bytes (settings_bytes (stamp (global_settings st))) = global_settings st'"
    using settings_write_stored(2) [OF assms(3)] assms(1) by (simp add: settings_decode_encode)
  then show ?thesis
    using assms(1,2) settings_write_stored(2) [OF assms(3)]
    by (simp add: settings_init_def img Let_def stamp_header_valid)
qed

text \<open>
  On working flash hardware the write succeeds, stores the image of the active settings
  and changes nothing below the settings sector.
\<close>

theorem settings_write_succeeds:
  assumes "flash_laws hw" and "erase_rc_ok hw" and "program_rc_ok hw"
    and "settings_wf (global_settings st)"
  shows "fst (settings_write hw st) = ERR_SUCCESS \<and>
     flash_target hw (flash (snd (settings_write hw st))) = settings_bytes (stamp (global_settings st)) \<and>
     (\<forall>a < SETTINGS_OFFSET hw. flash (snd (settings_write hw st)) a = flash st a)"
proof -
  have "settings_wf (stamp (global_settings st))"
    using assms(4) by simp
  then have "flash_target hw (call_flash_range_program hw (SETTINGS_OFFSET hw)
           (settings_bytes (stamp (global_settings st)) @
             replicate (FLASH_PAGE_SIZE - sizeof_settings) 0xFF)
           (call_flash_range_erase hw (SETTINGS_OFFSET hw) (flash st))) =
        settings_bytes (stamp (global_settings st))"
    using assms(1) by (intro flash_target_program) simp_all
  moreover have "call_flash_range_program hw (SETTINGS_OFFSET hw) d
           (call_flash_range_erase hw (SETTINGS_OFFSET hw) f) a = f a"
    if "a < SETTINGS_OFFSET hw" for a d f
    using assms(1) that
    by (simp add: call_flash_range_program_def call_flash_range_erase_def flash_laws_def)
  ultimately show ?thesis
    using assms(2,3) by (simp add: settings_write_unfold Let_def)
qed


theorem settings_write_succeeds_witness:
  "fst (settings_write (nor_flash True True)
     \<lparr>global_settings = default_settings, flash = (\<lambda>_. 0xFF)\<rparr>) = ERR_SUCCESS"
  using settings_write_succeeds [OF nor_flash_laws, of True True
      "\<lparr>global_settings = default_settings, flash = (\<lambda>_. 0xFF)\<rparr>"]
  by (simp add: nor_flash_def)

lemma default_write_stored:
  "\<exists>st'. settings_write (nor_flash True True)
     \<lparr>global_settings = default_settings, flash = (\<lambda>_. 0xFF)\<rparr> = (ERR_SUCCESS, st')"
proof -
  let ?hw = "nor_flash True True"
  let ?st = "\<lparr>global_settings = default_settings, flash = (\<lambda>_. 0xFF)\<rparr>"
  have wf: "settings_wf (stamp default_settings)" by simp
  have "flash_target ?hw (call_flash_range_program ?hw (SETTINGS_OFFSET ?hw)
           (settings_bytes (stamp default_settings) @
             replicate (FLASH_PAGE_SIZE - sizeof_settings) 0xFF)
           (call_flash_range_erase ?hw (SETTINGS_OFFSET ?hw) (\<lambda>_. 0xFF))) =
        settings_bytes (stamp default_settings)"
    by (rule flash_target_program [OF nor_flash_laws]) (simp add: wf)
  then show ?thesis
    by (simp add: settings_write_unfold Let_def nor_flash_def)
qed

theorem settings_survive_restart_witness:
  "\<exists>st'. settings_write (nor_flash True True)
       \<lparr>global_settings = default_settings, flash = (\<lambda>_. 0xFF)\<rparr> = (ERR_SUCCESS, st') \<and>
     settings_init (nor_flash False False) (st'\<lparr>global_settings := default_settings\<rparr>) =
       (ERR_SUCCESS, st')"
proof -
  obtain st' where w: "settings_write (nor_flash True True)
       \<lparr>global_settings = default_settings, flash = (\<lambda>_. 0xFF)\<rparr> = (ERR_SUCCESS, st')"
    using default_write_stored by blast
  have "settings_init (nor_flash False False) (st'\<lparr>global_settings := default_settings\<rparr>) =
       (ERR_SUCCESS, st')"
    by (rule settings_survive_restart [OF _ _ w]) (simp_all add: nor_flash_def)
  with w show ?thesis by blast
qed

lemma header_rejects_single_byte:
  assumes "settings_wf s" and "i < sizeof_settings" and "b \<noteq> settings_bytes (stamp s) ! i"
  shows "\<not> settings_is_valid_header ((settings_bytes (stamp s))[i := b])"
proof (cases "i < offsetof_crc")
  case True
  let ?img = "settings_bytes (stamp s)"
  have "settings_crc (?img[i := b]) \<noteq> settings_crc ?img"
    using assms True by (intro settings_crc_single_byte) (auto simp: sizeof_settings_def)
  moreover have "field_at 168 4 (?img[i := b]) = field_at 168 4 ?img"
    using True by (simp add: field_at_def drop_update_swap take_update_swap offsetof_crc_def)
  moreover have "crc (settings_of_bytes ?img) = settings_crc ?img"
    using stamp_header_valid [OF assms(1)] by (simp add: settings_is_valid_header_def)
  ultimately show ?thesis
    by (simp add: settings_is_valid_header_def) (simp add: settings_of_bytes_def)
next
  case False
  let ?img = "settings_bytes (stamp s)"
  have len: "length ?img = 172" using assms(1) by (simp add: sizeof_settings_def)
  have i: "168 \<le> i" "i < 172"
    using False assms(2) by (simp_all add: offsetof_crc_def sizeof_settings_def)
  let ?f = "field_at 168 4 ?img" and ?f' = "field_at 168 4 (?img[i := b])"
  have upd: "?f' = ?f[i - 168 := b]"
    using i by (simp add: field_at_def drop_update_swap take_update_swap)
  have lens: "length ?f = 4" "length ?f' = 4"
    using len by simp_all
  have "?f ! (i - 168) \<noteq> b"
    using i len assms(3) by (simp add: field_at_def)
  moreover have "?f' ! (i - 168) = b"
    using i lens(1) by (simp add: upd)
  ultimately have "?f' \<noteq> ?f" by metis
  then have "rd32 ?f' \<noteq> rd32 ?f"
    using rd32_inj lens by blast
  moreover have "settings_crc (?img[i := b]) = settings_crc ?img"
    using i by (intro settings_crc_cong) (simp add: offsetof_crc_def)
  moreover have "crc (settings_of_bytes ?img) = settings_crc ?img"
    using stamp_header_valid [OF assms(1)] by (simp add: settings_is_valid_header_def)
  ultimately show ?thesis
    by (auto simp: settings_is_valid_header_def settings_of_bytes_def)
qed

text \<open>
  C33: a stored image in which any single byte has changed is not accepted: on the next start
  the checksum or the stored checksum does not match, and the defaults become active.
\<close>

theorem corrupted_image_rejected:
  assumes "settings_wf s" and "i < sizeof_settings" and "b \<noteq> settings_bytes (stamp s) ! i"
    and "flash_target hw (flash st) = (settings_bytes (stamp s))[i := b]"
  shows "global_settings (snd (settings_init hw st)) = stamp default_settings"
  using header_rejects_single_byte [OF assms(1-3)]
  by (simp add: settings_init_def Let_def assms(4) settings_write_global)

lemma flash_target_of_list:
  "length bs = sizeof_settings \<Longrightarrow> flash_target hw (\<lambda>a. bs ! (a - SETTINGS_OFFSET hw)) = bs"
  by (intro nth_equalityI) (simp_all add: flash_target_def)

theorem corrupted_image_rejected_witness:
  "let img = (settings_bytes (stamp default_settings))
         [48 := NOT (settings_bytes (stamp default_settings) ! 48)];
       hw = nor_flash True True;
       st = \<lparr>global_settings = default_settings, flash = (\<lambda>a. img ! (a - SETTINGS_OFFSET hw))\<rparr>
   in global_settings (snd (settings_init hw st)) = stamp default_settings"
proof -
  define hw where "hw = nor_flash True True"
  define img where "img = (settings_bytes (stamp default_settings))
         [48 := NOT (settings_bytes (stamp default_settings) ! 48)]"
  define st where "st = \<lparr>global_settings = default_settings,
       flash = (\<lambda>a. img ! (a - SETTINGS_OFFSET hw))\<rparr>"
  have "flash_target hw (flash st) = img"
    by (simp add: st_def flash_target_of_list img_def)
  moreover have "NOT (w :: u8) \<noteq> w" for w
    by (metis bit_not_iff bit_eq_iff bit_imp_le_length len_gt_0 possible_bit_word)
  ultimately have "global_settings (snd (settings_init hw st)) = stamp default_settings"
    by (intro corrupted_image_rejected [where i = 48 and s = default_settings
          and b = "NOT (settings_bytes (stamp default_settings) ! 48)"])
      (simp_all add: sizeof_settings_def img_def)
  then show ?thesis
    by (simp add: Let_def st_def hw_def img_def)
qed

lemma settings_apply_outcome:
  assumes "settings_apply hw sp st = (err, st')"
  shows "(settings_validate sp \<noteq> ERR_SUCCESS \<longrightarrow> err = settings_validate sp \<and> st' = st) \<and>
     (settings_validate sp = ERR_SUCCESS \<longrightarrow>
        (\<exists>s. sp = Some s \<and> global_settings st' = stamp s) \<and>
        (err = ERR_SUCCESS \<or> err = ERR_FAIL) \<and>
        (err = ERR_SUCCESS \<longrightarrow> flash_target hw (flash st') = settings_bytes (global_settings st')))"
proof (cases sp)
  case None
  then show ?thesis
    using assms by (simp add: settings_apply_def settings_validate_def)
next
  case (Some s)
  show ?thesis
  proof (cases "settings_valid s")
    case True
    then have w: "settings_write hw (st\<lparr>global_settings := s\<rparr>) = (err, st')"
      using assms Some by (simp add: settings_apply_def)
    have "global_settings st' = stamp s"
      using settings_write_global [of hw "st\<lparr>global_settings := s\<rparr>"] w by simp
    moreover have "err = ERR_SUCCESS \<or> err = ERR_FAIL"
      using w by (auto simp: settings_write_unfold Let_def split: if_splits)
    ultimately show ?thesis
      using Some True settings_write_stored(1) [of hw "st\<lparr>global_settings := s\<rparr>" st'] w by auto
  next
    case False
    then show ?thesis
      using assms Some by (simp add: settings_apply_def)
  qed
qed

text \<open>
  \<open>settings_apply\<close> checks first: \<open>NULL\<close> and settings that do not pass validation leave
  the store untouched. Valid settings become active at once, and when the write is reported as
  successful the flash holds their image. A failed write is reported as \<open>ERR_FAIL\<close>, with the
  new settings already active.
\<close>

theorem settings_apply_effect:
  assumes "settings_apply hw sp st = (err, st')"
  shows "(settings_validate sp \<noteq> ERR_SUCCESS \<longrightarrow> err = settings_validate sp \<and> st' = st) \<and>
     (settings_validate sp = ERR_SUCCESS \<longrightarrow>
        (\<exists>s. sp = Some s \<and> global_settings st' = stamp s) \<and>
        (err = ERR_SUCCESS \<or> err = ERR_FAIL) \<and>
        (err = ERR_SUCCESS \<longrightarrow> flash_target hw (flash st') = settings_bytes (global_settings st')))"
  by (rule settings_apply_outcome [OF assms])

theorem settings_apply_effect_witness:
  "let st = \<lparr>global_settings = default_settings, flash = (\<lambda>_. 0xFF)\<rparr>;
       bad = default_settings\<lparr>led_count := 0\<rparr>
   in settings_apply (nor_flash True True) (Some bad) st = (ERR_PARAM_INVALID, st) \<and>
      global_settings (snd (settings_apply (nor_flash False True) (Some default_settings) st)) =
        stamp default_settings"
proof -
  let ?st = "\<lparr>global_settings = default_settings, flash = (\<lambda>_. 0xFF :: u8)\<rparr>"
  let ?bad = "default_settings\<lparr>led_count := 0\<rparr>"
  have bad: "settings_validate (Some ?bad) = ERR_PARAM_INVALID"
    by (simp add: settings_validate_def)
  have "settings_apply (nor_flash True True) (Some ?bad) ?st = (ERR_PARAM_INVALID, ?st)"
    using settings_apply_effect [of "nor_flash True True" "Some ?bad" ?st] bad
    by (metis err_code.distinct(3) prod.collapse)
  moreover have "global_settings (snd (settings_apply (nor_flash False True)
      (Some default_settings) ?st)) = stamp default_settings"
    using settings_apply_effect [of "nor_flash False True" "Some default_settings" ?st]
    by (metis default_settings_valid option.inject prod.collapse)
  ultimately show ?thesis by (simp add: Let_def)
qed

end
