(* ===== verification/Ws2812.thy ===== *)
theory Ws2812
  imports Prelude
begin

text \<open>
  The LED strip driver \<open>src/ws2812_pio/ws2812.c\<close>. The PIO block that shifts the words out is
  hardware: a refresh appends the words it pushes to \<open>frames\<close>. \<open>malloc\<close>, \<open>realloc\<close> and the
  claim of a state machine can fail; whether they do is an argument of the operations that
  call them. The handles of the PIO program are not modelled, nor is the check for a \<open>NULL\<close>
  header: the only caller passes the address of a static. An access outside of the pixel
  buffer makes an operation \<open>None\<close>.
\<close>

section \<open>State and operations\<close>

record ws2812 =
  ws_pin :: u32
  ws_led_count :: u32
  ws_mem :: "u32 list option"
  ws_mem_size :: u32
  frames :: "u32 list list"

definition ws2812_zero :: "ws2812 \<Rightarrow> ws2812" where
  "ws2812_zero h = h\<lparr>ws_pin := 0, ws_led_count := 0, ws_mem := None, ws_mem_size := 0\<rparr>"

text \<open>The word of a pixel: \<open>(g << 16) | (r << 8) | b\<close>.\<close>

definition pixel :: "u8 \<Rightarrow> u8 \<Rightarrow> u8 \<Rightarrow> u32" where
  "pixel r g b = push_bit 16 (ucast g) OR push_bit 8 (ucast r) OR ucast b"

definition ws2812_set_color ::
    "ws2812 \<Rightarrow> u32 \<Rightarrow> u8 \<Rightarrow> u8 \<Rightarrow> u8 \<Rightarrow> (err_code \<times> ws2812) option" where
  "ws2812_set_color h index r g b =
     (case ws_mem h of
        None \<Rightarrow> Some (ERR_NEED_INIT, h)
      | Some m \<Rightarrow>
          if index \<ge> ws_led_count h then Some (ERR_PARAM_INVALID, h)
          else if length m \<le> unat index then None
          else Some (ERR_SUCCESS, h\<lparr>ws_mem := Some (m[unat index := pixel r g b])\<rparr>))"

definition ws2812_refresh :: "ws2812 \<Rightarrow> (err_code \<times> ws2812) option" where
  "ws2812_refresh h =
     (case ws_mem h of
        None \<Rightarrow> Some (ERR_NEED_INIT, h)
      | Some m \<Rightarrow>
          if length m < unat (ws_led_count h) then None
          else Some (ERR_SUCCESS,
                 h\<lparr>frames := frames h @ [map (push_bit 8) (take (unat (ws_led_count h)) m)]\<rparr>))"

text \<open>The loop of \<open>ws2812_clear\<close>, which ignores the results of its calls.\<close>

fun ws2812_clear_loop :: "u32 list \<Rightarrow> ws2812 \<Rightarrow> ws2812 option" where
  "ws2812_clear_loop [] h = Some h"
| "ws2812_clear_loop (i # is) h =
     (case ws2812_set_color h i 0 0 0 of
        None \<Rightarrow> None
      | Some (_, h') \<Rightarrow> ws2812_clear_loop is h')"

text \<open>The values \<open>0, 1, \<dots>, n - 1\<close> of a \<open>uint32_t\<close> loop counter.\<close>

definition upto_u32 :: "u32 \<Rightarrow> u32 list" where
  "upto_u32 n = map of_nat [0..<unat n]"

definition ws2812_clear :: "ws2812 \<Rightarrow> (err_code \<times> ws2812) option" where
  "ws2812_clear h =
     (case ws2812_clear_loop (upto_u32 (ws_led_count h)) h of
        None \<Rightarrow> None
      | Some h1 \<Rightarrow>
          (case ws2812_refresh h1 of
             None \<Rightarrow> None
           | Some (_, h2) \<Rightarrow> Some (ERR_SUCCESS, h2)))"

text \<open>\<open>num_gpios\<close> is \<open>NUM_BANK0_GPIOS\<close> of the SDK; a buffer of \<open>mem_size\<close> bytes holds a quarter as many words.\<close>

definition ws2812_init ::
    "u32 \<Rightarrow> bool \<Rightarrow> bool \<Rightarrow> u32 \<Rightarrow> u32 \<Rightarrow> ws2812 \<Rightarrow> (err_code \<times> ws2812) option" where
  "ws2812_init num_gpios claim_ok malloc_ok pin led_cnt h =
     (if pin \<ge> num_gpios then Some (ERR_PARAM_INVALID, h)
      else if \<not> claim_ok then Some (ERR_PARAM_INVALID, h)
      else
        let h1 = h\<lparr>ws_pin := pin, ws_led_count := led_cnt, ws_mem_size := led_cnt * 4\<rparr>
        in if \<not> malloc_ok then Some (ERR_MEM_ALLOC_FAIL, ws2812_zero h1)
           else
             let h2 = h1\<lparr>ws_mem := Some (replicate (unat (ws_mem_size h1) div 4) 0)\<rparr>
             in (case ws2812_clear h2 of
                   None \<Rightarrow> None
                 | Some (_, h3) \<Rightarrow> Some (ERR_SUCCESS, h3)))"

definition ws2812_deinit :: "ws2812 \<Rightarrow> err_code \<times> ws2812" where
  "ws2812_deinit h = (ERR_SUCCESS, ws2812_zero h)"

definition ws2812_set_led_count ::
    "bool \<Rightarrow> ws2812 \<Rightarrow> u32 \<Rightarrow> (err_code \<times> ws2812) option" where
  "ws2812_set_led_count realloc_ok h led_cnt =
     (if ws_mem h = None then Some (ERR_NEED_INIT, h)
      else if led_cnt = 0 then Some (ERR_PARAM_INVALID, h)
      else
        (case ws2812_clear h of
           None \<Rightarrow> None
         | Some (err, h1) \<Rightarrow>
             if err \<noteq> ERR_SUCCESS then Some (err, h1)
             else
               let mem_size = led_cnt * 4
               in if \<not> realloc_ok then Some (ERR_MEM_ALLOC_FAIL, h1)
                  else Some (ERR_SUCCESS,
                    h1\<lparr>ws_mem := Some (replicate (unat mem_size div 4) 0),
                       ws_mem_size := mem_size, ws_led_count := led_cnt\<rparr>)))"

section \<open>The strip as an array of pixels\<close>

text \<open>
  What a client needs of a strip: writing a pixel inside of the strip succeeds, changes that
  pixel only, and keeps the number of pixels.
\<close>

locale pixel_strip =
  fixes ok :: "'s \<Rightarrow> bool"
    and pixels :: "'s \<Rightarrow> 'p list"
    and enc :: "'c \<Rightarrow> 'p"
    and put :: "nat \<Rightarrow> 'c \<Rightarrow> 's \<Rightarrow> 's option"
  assumes put_ok: "ok s \<Longrightarrow> i < length (pixels s) \<Longrightarrow> \<exists>s'. put i c s = Some s' \<and> ok s'"
    and put_pixels: "ok s \<Longrightarrow> i < length (pixels s) \<Longrightarrow> put i c s = Some s' \<Longrightarrow>
      pixels s' = (pixels s)[i := enc c]"
begin

fun paint :: "nat list \<Rightarrow> (nat \<Rightarrow> 'c) \<Rightarrow> 's \<Rightarrow> 's option" where
  "paint [] f s = Some s"
| "paint (i # is) f s = (case put i (f i) s of None \<Rightarrow> None | Some s' \<Rightarrow> paint is f s')"

text \<open>Painting the rest of a strip from left to right.\<close>

lemma paint_from:
  assumes "ok s" and "length (pixels s) = n" and "k \<le> n"
  shows "\<exists>s'. paint [k..<n] f s = Some s' \<and> ok s' \<and>
    pixels s' = take k (pixels s) @ map (enc \<circ> f) [k..<n]"
  using assms
proof (induction "n - k" arbitrary: k s)
  case 0
  then show ?case by simp
next
  case (Suc d)
  then have k: "k < n" by simp
  then obtain s1 where s1: "put k (f k) s = Some s1" "ok s1"
    using put_ok [OF Suc.prems(1), of k "f k"] Suc.prems(2) by auto
  have p1: "pixels s1 = (pixels s)[k := enc (f k)]"
    using k Suc.prems(2) by (intro put_pixels [OF Suc.prems(1) _ s1(1)]) simp
  have "d = n - Suc k" using Suc.hyps(2) by simp
  then obtain s' where s': "paint [Suc k..<n] f s1 = Some s'" "ok s'"
      "pixels s' = take (Suc k) (pixels s1) @ map (enc \<circ> f) [Suc k..<n]"
    using Suc.hyps(1) [of "Suc k" s1] s1(2) p1 Suc.prems(2) k by auto
  have "take (Suc k) (pixels s1) = take k (pixels s) @ [enc (f k)]"
    using p1 Suc.prems(2) k by (simp add: take_Suc_conv_app_nth)
  then show ?case
    using s1(1) s' k by (simp add: upt_conv_Cons)
qed

lemma paint_all:
  assumes "ok s"
  shows "\<exists>s'. paint [0..<length (pixels s)] f s = Some s' \<and> ok s' \<and>
    pixels s' = map (enc \<circ> f) [0..<length (pixels s)]"
  using paint_from [OF assms, of _ 0 f] by simp

end

text \<open>A driver with a buffer of exactly \<open>led_count\<close> words is such a strip.\<close>

definition ws_ok :: "ws2812 \<Rightarrow> bool" where
  "ws_ok h \<longleftrightarrow> (\<exists>m. ws_mem h = Some m \<and> length m = unat (ws_led_count h))"

definition ws_pixels :: "ws2812 \<Rightarrow> u32 list" where
  "ws_pixels h = (case ws_mem h of None \<Rightarrow> [] | Some m \<Rightarrow> m)"

lemma ws_pixels_upd [simp]: "ws_pixels (h\<lparr>ws_mem := Some m\<rparr>) = m"
  by (simp add: ws_pixels_def)

definition rgb :: "u8 \<times> u8 \<times> u8 \<Rightarrow> u32" where
  "rgb c = (case c of (r, g, b) \<Rightarrow> pixel r g b)"

definition ws_put :: "nat \<Rightarrow> u8 \<times> u8 \<times> u8 \<Rightarrow> ws2812 \<Rightarrow> ws2812 option" where
  "ws_put i c h = (case c of (r, g, b) \<Rightarrow> map_option snd (ws2812_set_color h (of_nat i) r g b))"

lemma index_u32:
  assumes "i < unat (n :: u32)"
  shows "unat (of_nat i :: u32) = i" and "(of_nat i :: u32) < n"
proof -
  have "i < 2 ^ 32"
    using assms unsigned_less [of n, where ?'a = nat] by simp
  then show "unat (of_nat i :: u32) = i"
    by (simp add: unat_of_nat)
  then show "(of_nat i :: u32) < n"
    using assms by (simp add: word_less_nat_alt)
qed

lemma ws2812_set_color_inside:
  assumes "ws_ok h" and "i < unat (ws_led_count h)"
  shows "ws2812_set_color h (of_nat i) r g b =
     Some (ERR_SUCCESS, h\<lparr>ws_mem := Some ((ws_pixels h)[i := pixel r g b])\<rparr>)"
  using assms index_u32 [OF assms(2)]
  by (auto simp: ws2812_set_color_def ws_ok_def ws_pixels_def not_le)

interpretation ws: pixel_strip ws_ok ws_pixels rgb ws_put
proof
  fix h i and c :: "u8 \<times> u8 \<times> u8"
  assume h: "ws_ok h" and "i < length (ws_pixels h)"
  then have i: "i < unat (ws_led_count h)"
    by (auto simp: ws_ok_def ws_pixels_def)
  obtain r g b where c: "c = (r, g, b)" by (cases c)
  show "\<exists>h'. ws_put i c h = Some h' \<and> ws_ok h'"
    using h by (auto simp: ws_put_def c ws2812_set_color_inside [OF h i] ws_ok_def ws_pixels_def)
  show "ws_pixels h' = (ws_pixels h)[i := rgb c]" if "ws_put i c h = Some h'" for h'
    using that by (auto simp: ws_put_def c ws2812_set_color_inside [OF h i] rgb_def)
qed

section \<open>Clearing, resizing and initialising the strip\<close>

lemma ws2812_set_color_frame:
  "ws2812_set_color h i r g b = Some (err, h') \<Longrightarrow>
     ws_led_count h' = ws_led_count h \<and> frames h' = frames h \<and> ws_pin h' = ws_pin h \<and>
     ws_mem_size h' = ws_mem_size h"
  by (auto simp: ws2812_set_color_def split: option.splits if_splits)

lemma clear_loop_frame:
  "ws2812_clear_loop is h = Some h' \<Longrightarrow>
     ws_led_count h' = ws_led_count h \<and> frames h' = frames h \<and> ws_pin h' = ws_pin h \<and>
     ws_mem_size h' = ws_mem_size h"
  by (induction "is" arbitrary: h) (auto split: option.splits dest!: ws2812_set_color_frame)

lemma clear_loop_more: "ws2812_clear_loop is h = Some h' \<Longrightarrow> ws2812.more h' = ws2812.more h"
  by (induction "is" arbitrary: h)
    (auto simp: ws2812_set_color_def split: option.splits if_splits)

lemma clear_loop_paint: "ws2812_clear_loop (map of_nat is) h = ws.paint is (\<lambda>_. (0, 0, 0)) h"
  by (induction "is" arbitrary: h) (auto simp: ws_put_def split: option.splits)

lemma rgb_black [simp]: "rgb (0, 0, 0) = 0"
  by (simp add: rgb_def pixel_def)

lemma ws_ok_pixels: "ws_ok h \<Longrightarrow> ws_mem h = Some (ws_pixels h)"
  by (auto simp: ws_ok_def ws_pixels_def)

lemma ws_ok_length: "ws_ok h \<Longrightarrow> length (ws_pixels h) = unat (ws_led_count h)"
  by (auto simp: ws_ok_def ws_pixels_def)

lemma ws2812_refresh_ok:
  "ws_ok h \<Longrightarrow> ws2812_refresh h =
     Some (ERR_SUCCESS, h\<lparr>frames := frames h @ [map (push_bit 8) (ws_pixels h)]\<rparr>)"
  by (simp add: ws2812_refresh_def ws_ok_pixels ws_ok_length)

lemma ws2812_clear_ok:
  assumes "ws_ok h"
  shows "ws2812_clear h = Some (ERR_SUCCESS,
     h\<lparr>ws_mem := Some (replicate (unat (ws_led_count h)) 0),
       frames := frames h @ [replicate (unat (ws_led_count h)) 0]\<rparr>)"
proof -
  let ?n = "unat (ws_led_count h)"
  obtain h1 where h1: "ws2812_clear_loop (upto_u32 (ws_led_count h)) h = Some h1"
      and ok1: "ws_ok h1" and px1: "ws_pixels h1 = map (rgb \<circ> (\<lambda>_. (0, 0, 0))) [0..<?n]"
    using ws.paint_all [OF assms, of "\<lambda>_. (0, 0, 0)"] ws_ok_length [OF assms]
    by (auto simp: upto_u32_def clear_loop_paint)
  have black: "ws_pixels h1 = replicate ?n 0"
    by (simp add: px1 comp_def map_replicate_const)
  note fr = clear_loop_frame [OF h1]
  have "h1 = h\<lparr>ws_mem := Some (replicate ?n 0)\<rparr>"
    using fr ws_ok_pixels [OF ok1] black clear_loop_more [OF h1] by (intro ws2812.equality) simp_all
  then show ?thesis
    using h1 ws2812_refresh_ok [OF ok1] black by (simp add: ws2812_clear_def)
qed

lemma div4_u32: "unat (n :: u32) \<le> 1000 \<Longrightarrow> unat (n * 4) div 4 = unat n"
  by (simp add: unat_word_ariths)

text \<open>
  Changing the number of LEDs: an allocation failure keeps the old strip (already switched
  off), otherwise the strip is dark at its new length.
\<close>

lemma ws2812_set_led_count_ok:
  assumes "ws_ok h" and "0 < n" and "unat n \<le> 1000"
  shows "ws2812_set_led_count True h n = Some (ERR_SUCCESS,
     h\<lparr>ws_mem := Some (replicate (unat n) 0), ws_mem_size := n * 4, ws_led_count := n,
       frames := frames h @ [replicate (unat (ws_led_count h)) 0]\<rparr>)"
  using assms ws_ok_pixels [OF assms(1)]
  by (auto simp: ws2812_set_led_count_def ws2812_clear_ok div4_u32 Let_def)

lemma ws2812_set_led_count_fail:
  assumes "ws_ok h" and "0 < n"
  shows "ws2812_set_led_count False h n = Some (ERR_MEM_ALLOC_FAIL,
     h\<lparr>ws_mem := Some (replicate (unat (ws_led_count h)) 0),
       frames := frames h @ [replicate (unat (ws_led_count h)) 0]\<rparr>)"
  using assms ws_ok_pixels [OF assms(1)]
  by (auto simp: ws2812_set_led_count_def ws2812_clear_ok Let_def)

lemma ws2812_init_ok:
  assumes "pin < num_gpios" and "unat n \<le> 1000"
  shows "ws2812_init num_gpios True True pin n h = Some (ERR_SUCCESS,
     h\<lparr>ws_pin := pin, ws_led_count := n, ws_mem_size := n * 4,
       ws_mem := Some (replicate (unat n) 0), frames := frames h @ [replicate (unat n) 0]\<rparr>)"
proof -
  let ?h = "h\<lparr>ws_pin := pin, ws_led_count := n, ws_mem_size := n * 4,
    ws_mem := Some (replicate (unat n) 0)\<rparr>"
  have "ws_ok ?h" by (simp add: ws_ok_def)
  then show ?thesis
    using assms ws2812_clear_ok [of ?h] div4_u32 [OF assms(2)]
    by (simp add: ws2812_init_def Let_def not_le)
qed

end
