(* ===== verification/Latest_Wins.thy ===== *)
theory Latest_Wins
  imports Prelude
begin

text \<open>
  Registers that keep the newest of the time-stamped writes they receive. The stairway LEDs are
  such registers (\<open>stairway_leds_set_state\<close>): several light waves run over the same LEDs at the
  same time, and the event that is newest decides, in whatever order the waves arrive; among
  events of the same time it is the one that arrives first. The
  locale states the two laws of one register and derives what a sequence of writes leaves.
\<close>

locale latest_wins =
  fixes time_of :: "'e \<Rightarrow> 't::linorder"
    and value_of :: "'e \<Rightarrow> 'v"
    and put :: "'e \<Rightarrow> 'c \<Rightarrow> 'c"
    and stamp_of :: "'c \<Rightarrow> 't"
    and content :: "'c \<Rightarrow> 'v"
  assumes put_newer: "stamp_of c < time_of e \<Longrightarrow>
      stamp_of (put e c) = time_of e \<and> content (put e c) = value_of e"
    and put_older: "\<not> stamp_of c < time_of e \<Longrightarrow> put e c = c"
begin

lemma stamp_put: "stamp_of (put e c) = max (stamp_of c) (time_of e)"
  by (cases "stamp_of c < time_of e")
    (auto simp: put_newer put_older max_def not_less dest: less_imp_le)

lemma stamp_fold: "stamp_of (fold put es c) = fold max (map time_of es) (stamp_of c)"
  by (induction es arbitrary: c) (simp_all add: stamp_put max.commute)

lemma stamp_fold_Max: "stamp_of (fold put es c) = Max (insert (stamp_of c) (time_of ` set es))"
proof -
  have "fold max xs a = Max (insert a (set xs))" for a and xs :: "'t list"
    by (simp add: Max.set_eq_fold [symmetric])
  then show ?thesis by (simp add: stamp_fold)
qed

text \<open>The content is the old one, or that of a write carrying the final stamp.\<close>

lemma content_fold:
  "(stamp_of (fold put es c) = stamp_of c \<and> content (fold put es c) = content c) \<or>
   (\<exists>e \<in> set es. stamp_of c < time_of e \<and> time_of e = stamp_of (fold put es c) \<and>
      content (fold put es c) = value_of e)"
proof (induction es arbitrary: c)
  case Nil
  then show ?case by simp
next
  case (Cons e es)
  show ?case
  proof (cases "stamp_of c < time_of e")
    case True
    note w = put_newer [OF this]
    from Cons.IH [of "put e c"] show ?thesis
      using w True by (auto intro: less_trans)
  next
    case False
    then show ?thesis
      using Cons.IH [of c] by (auto simp: put_older)
  qed
qed

text \<open>Among the writes that carry the final stamp, the first one decides.\<close>

lemma stamp_mono: "stamp_of c \<le> stamp_of (fold put es c)"
  by (simp add: stamp_fold_Max)

lemma content_first:
  "content (fold put es c) =
     (if stamp_of (fold put es c) = stamp_of c then content c
      else value_of (hd (filter (\<lambda>e. time_of e = stamp_of (fold put es c)) es)))"
proof (induction es arbitrary: c)
  case (Cons e es)
  show ?case
  proof (cases "stamp_of c < time_of e")
    case True
    note w = put_newer [OF this]
    have "time_of e \<le> stamp_of (fold put es (put e c))"
      using stamp_mono [of "put e c" es] w by simp
    then show ?thesis
      using Cons.IH [of "put e c"] w True by auto
  next
    case False
    then show ?thesis
      using Cons.IH [of c] stamp_mono [of c es] by (auto simp: put_older)
  qed
qed simp

text \<open>
  So writes with different times commute, and only the order of writes with the same time matters:
  two sequences with the same writes for each time, in the same order, leave the same stamp and
  the same content.
\<close>

lemma order_irrelevant:
  assumes "\<And>t. filter (\<lambda>e. time_of e = t) es = filter (\<lambda>e. time_of e = t) es'"
  shows "stamp_of (fold put es c) = stamp_of (fold put es' c)"
    and "content (fold put es c) = content (fold put es' c)"
proof -
  have "e \<in> set es \<longleftrightarrow> e \<in> set es'" for e
    using arg_cong [OF assms [of "time_of e"], of set] by auto
  then have set: "set es = set es'" by blast
  show st: "stamp_of (fold put es c) = stamp_of (fold put es' c)"
    by (simp add: stamp_fold_Max set)
  show "content (fold put es c) = content (fold put es' c)"
    unfolding content_first [of es] content_first [of es'] st assms ..
qed

end

end
