(* ===== verification/Stairway_Leds.thy ===== *)
theory Stairway_Leds
  imports Settings Ws2812 Latest_Wins
begin

text \<open>
  The LEDs of the stairway, \<open>src/stairway/stairway_leds.c\<close>: the logical state and the current
  brightness of every LED, the time of the event that set it, and the emergency lights at
  both ends. \<open>stairway_leds_refresh\<close> moves each brightness one step towards its target and
  hands the grey values to the driver of \<open>Ws2812\<close>. An access outside of \<open>buf\<close> (or to a
  \<open>NULL\<close> \<open>buf\<close>) makes an operation \<open>None\<close>; allocation outcomes are arguments.
\<close>

section \<open>State and operations\<close>

record led_state =
  led_value :: u8
  led_on :: bool
  led_ts :: u64

record stairway_leds =
  ws2812_handler :: ws2812
  buf :: "led_state list option"
  emergency_state :: "emergency_type \<Rightarrow> bool"

definition led_zero :: led_state where
  "led_zero = \<lparr>led_value = 0, led_on = False, led_ts = 0\<rparr>"

text \<open>\<open>sizeof(LedState)\<close> is 16: \<open>uint8_t\<close>, \<open>bool\<close>, padding, \<open>uint64_t\<close>.\<close>

definition led_zeros :: "u32 \<Rightarrow> led_state list" where
  "led_zeros n = replicate (unat (16 * n) div 16) led_zero"

definition stairway_leds_init ::
    "u32 \<Rightarrow> bool \<Rightarrow> bool \<Rightarrow> bool \<Rightarrow> settings \<Rightarrow> u32 \<Rightarrow> stairway_leds \<Rightarrow>
     (err_code \<times> stairway_leds) option" where
  "stairway_leds_init num_gpios claim_ok mem_ok buf_ok s pin l =
     (case ws2812_init num_gpios claim_ok mem_ok pin (led_count s) (ws2812_handler l) of
        None \<Rightarrow> None
      | Some (err, h) \<Rightarrow>
          let l1 = l\<lparr>ws2812_handler := h\<rparr>
          in if err \<noteq> ERR_SUCCESS then Some (err, l1)
             else if \<not> buf_ok then
               Some (ERR_MEM_ALLOC_FAIL,
                 l1\<lparr>buf := None, ws2812_handler := snd (ws2812_deinit (ws2812_handler l1))\<rparr>)
             else Some (ERR_SUCCESS, l1\<lparr>buf := Some (led_zeros (led_count s))\<rparr>))"

definition stairway_leds_deinit :: "stairway_leds \<Rightarrow> err_code \<times> stairway_leds" where
  "stairway_leds_deinit l =
     (let (err, h) = ws2812_deinit (ws2812_handler l)
      in if err \<noteq> ERR_SUCCESS then (err, l\<lparr>ws2812_handler := h\<rparr>)
         else (ERR_SUCCESS, l\<lparr>ws2812_handler := h, buf := None\<rparr>))"

text \<open>The range check of \<open>type\<close> cannot fail for a value of the enumeration.\<close>

definition stairway_emergency_leds ::
    "emergency_type \<Rightarrow> bool \<Rightarrow> stairway_leds \<Rightarrow> err_code \<times> stairway_leds" where
  "stairway_emergency_leds type state l =
     (ERR_SUCCESS, l\<lparr>emergency_state := (emergency_state l)(type := state)\<rparr>)"

definition led_set :: "bool \<Rightarrow> u64 \<Rightarrow> led_state \<Rightarrow> led_state" where
  "led_set state event_ts led =
     (if led_ts led < event_ts then led\<lparr>led_on := state, led_ts := event_ts\<rparr> else led)"

definition stairway_leds_set_state ::
    "u32 \<Rightarrow> bool \<Rightarrow> u64 \<Rightarrow> stairway_leds \<Rightarrow> (err_code \<times> stairway_leds) option" where
  "stairway_leds_set_state index state event_ts l =
     (if index \<ge> ws_led_count (ws2812_handler l) then Some (ERR_PARAM_INVALID, l)
      else
        (case buf l of
           None \<Rightarrow> None
         | Some b \<Rightarrow>
             if length b \<le> unat index then None
             else Some (ERR_SUCCESS,
                    l\<lparr>buf := Some (b[unat index := led_set state event_ts (b ! unat index)])\<rparr>)))"

definition stairway_leds_resize ::
    "bool \<Rightarrow> bool \<Rightarrow> u32 \<Rightarrow> stairway_leds \<Rightarrow> (err_code \<times> stairway_leds) option" where
  "stairway_leds_resize buf_ok mem_ok cnt l =
     (if \<not> buf_ok then Some (ERR_MEM_ALLOC_FAIL, l)
      else
        let l1 = l\<lparr>buf := Some (led_zeros cnt)\<rparr>
        in (case ws2812_set_led_count mem_ok (ws2812_handler l1) cnt of
              None \<Rightarrow> None
            | Some (err, h) \<Rightarrow> Some (err, l1\<lparr>ws2812_handler := h\<rparr>)))"

text \<open>
  One LED in the loop of \<open>stairway_leds_refresh\<close>, with the \<open>leds_updated\<close> flag it sets. The
  sums and differences are computed in \<open>int\<close> and fit \<open>int16_t\<close>.
\<close>

definition emergency_lit ::
    "settings \<Rightarrow> (emergency_type \<Rightarrow> bool) \<Rightarrow> u32 \<Rightarrow> u32 \<Rightarrow> bool" where
  "emergency_lit s em cnt i \<longleftrightarrow>
     (em EMERGENCY_DOWN \<and> i < emergency_cnt s EMERGENCY_DOWN) \<or>
     (em EMERGENCY_UP \<and> i + emergency_cnt s EMERGENCY_UP \<ge> cnt)"

definition refresh_led ::
    "settings \<Rightarrow> (emergency_type \<Rightarrow> bool) \<Rightarrow> u32 \<Rightarrow> u32 \<Rightarrow> led_state \<Rightarrow> bool \<times> led_state" where
  "refresh_led s em cnt i led =
     (if (led_on led \<and> led_value led \<noteq> led_on_value s) \<or> emergency_lit s em cnt i then
        let temp = uint (led_value led) + uint (led_on_step s)
        in (True, led\<lparr>led_value := if temp > uint (led_on_value s) then led_on_value s
                                    else word_of_int temp\<rparr>)
      else if \<not> led_on led \<and> led_value led \<noteq> led_off_value s then
        let temp = uint (led_value led) - uint (led_off_step s)
        in (True, led\<lparr>led_value := if temp < uint (led_off_value s) then led_off_value s
                                    else word_of_int temp\<rparr>)
      else (False, led))"

fun refresh_loop ::
    "settings \<Rightarrow> u32 list \<Rightarrow> bool \<Rightarrow> stairway_leds \<Rightarrow> (err_code \<times> bool \<times> stairway_leds) option" where
  "refresh_loop s [] upd l = Some (ERR_SUCCESS, upd, l)"
| "refresh_loop s (i # is) upd l =
     (case buf l of
        None \<Rightarrow> None
      | Some b \<Rightarrow>
          if length b \<le> unat i then None
          else
            let (u, led) = refresh_led s (emergency_state l) (ws_led_count (ws2812_handler l)) i
                             (b ! unat i);
                v = led_value led
            in (case ws2812_set_color (ws2812_handler l) i v v v of
                  None \<Rightarrow> None
                | Some (err, h) \<Rightarrow>
                    let l1 = l\<lparr>buf := Some (b[unat i := led]), ws2812_handler := h\<rparr>
                    in if err \<noteq> ERR_SUCCESS then Some (err, upd \<or> u, l1)
                       else refresh_loop s is (upd \<or> u) l1))"

definition refresh_leds :: "settings \<Rightarrow> stairway_leds \<Rightarrow> (err_code \<times> stairway_leds) option" where
  "refresh_leds s l =
     (case refresh_loop s (upto_u32 (ws_led_count (ws2812_handler l))) False l of
        None \<Rightarrow> None
      | Some (err, leds_updated, l1) \<Rightarrow>
          if err \<noteq> ERR_SUCCESS then Some (err, l1)
          else if leds_updated then
            (case ws2812_refresh (ws2812_handler l1) of
               None \<Rightarrow> None
             | Some (err2, h) \<Rightarrow> Some (err2, l1\<lparr>ws2812_handler := h\<rparr>))
          else Some (ERR_SUCCESS, l1))"

definition stairway_leds_refresh ::
    "bool \<Rightarrow> bool \<Rightarrow> settings \<Rightarrow> stairway_leds \<Rightarrow> (err_code \<times> stairway_leds) option" where
  "stairway_leds_refresh buf_ok mem_ok s l =
     (if led_count s \<noteq> ws_led_count (ws2812_handler l) then
        (case stairway_leds_resize buf_ok mem_ok (led_count s) l of
           None \<Rightarrow> None
         | Some (err, l1) \<Rightarrow> if err \<noteq> ERR_SUCCESS then Some (err, l1) else refresh_leds s l1)
      else refresh_leds s l)"

section \<open>Invariant\<close>

text \<open>
  The driver has one word and \<open>buf\<close> one entry for each LED, and the words are the grey values
  of the current brightness.
\<close>

definition grey :: "u8 \<Rightarrow> u32" where
  "grey v = pixel v v v"

definition leds_inv :: "stairway_leds \<Rightarrow> bool" where
  "leds_inv l \<longleftrightarrow>
     ws_ok (ws2812_handler l) \<and>
     (\<exists>b. buf l = Some b \<and> length b = unat (ws_led_count (ws2812_handler l)) \<and>
        ws_pixels (ws2812_handler l) = map (grey \<circ> led_value) b)"

definition leds_buf :: "stairway_leds \<Rightarrow> led_state list" where
  "leds_buf l = (case buf l of None \<Rightarrow> [] | Some b \<Rightarrow> b)"

section \<open>One refresh\<close>

text \<open>What a refresh does to the buffer, LED by LED.\<close>

definition refreshed :: "settings \<Rightarrow> (emergency_type \<Rightarrow> bool) \<Rightarrow> u32 \<Rightarrow> led_state list \<Rightarrow> led_state list" where
  "refreshed s em cnt b = map (\<lambda>i. snd (refresh_led s em cnt (of_nat i) (b ! i))) [0..<length b]"

definition any_updated :: "settings \<Rightarrow> (emergency_type \<Rightarrow> bool) \<Rightarrow> u32 \<Rightarrow> led_state list \<Rightarrow> bool" where
  "any_updated s em cnt b \<longleftrightarrow> (\<exists>i < length b. fst (refresh_led s em cnt (of_nat i) (b ! i)))"

lemma leds_inv_buf: "leds_inv l \<Longrightarrow> buf l = Some (leds_buf l)"
  by (auto simp: leds_inv_def leds_buf_def)

lemma leds_inv_length: "leds_inv l \<Longrightarrow> length (leds_buf l) = unat (ws_led_count (ws2812_handler l))"
  by (auto simp: leds_inv_def leds_buf_def)

text \<open>
  The loop from LED \<open>k\<close> on. \<open>R i\<close> is the step of LED \<open>i\<close>; the emergency flags and the number of
  LEDs do not change while the loop runs.
\<close>

lemma refresh_loop_ok:
  assumes R: "R = (\<lambda>i. refresh_led s em cnt (of_nat i))"
    and "ws_ok h" and "ws_led_count h = cnt"
    and "ws2812_handler l = h" and "emergency_state l = em" and "buf l = Some b"
    and "length b = n" and "n = unat cnt" and "k \<le> n"
  shows "refresh_loop s (map of_nat [k..<n]) upd l =
     Some (ERR_SUCCESS, upd \<or> (\<exists>i \<in> {k..<n}. fst (R i (b ! i))),
       l\<lparr>buf := Some (take k b @ map (\<lambda>i. snd (R i (b ! i))) [k..<n]),
         ws2812_handler := h\<lparr>ws_mem := Some (take k (ws_pixels h) @
           map (\<lambda>i. grey (led_value (snd (R i (b ! i))))) [k..<n])\<rparr>\<rparr>)"
  using assms(2-)
proof (induction "n - k" arbitrary: k b h l upd)
  case 0
  then have "k = n" by simp
  moreover have "h\<lparr>ws_mem := Some (ws_pixels h)\<rparr> = h"
    using ws_ok_pixels [OF 0(2)] by simp
  ultimately show ?case
    using ws_ok_length [OF 0(2)] 0 by simp
next
  case (Suc d)
  have k: "k < n" using Suc.hyps(2) by simp
  then have kc: "k < unat (ws_led_count h)" using Suc.prems by simp
  obtain u led where r: "R k (b ! k) = (u, led)" by fastforce
  let ?g = "grey (led_value led)"
  let ?h = "h\<lparr>ws_mem := Some ((ws_pixels h)[k := ?g])\<rparr>"
  let ?l = "l\<lparr>buf := Some (b[k := led]), ws2812_handler := ?h\<rparr>"
  have len: "length (ws_pixels h) = n"
    using ws_ok_length [OF Suc.prems(1)] Suc.prems by simp
  have step: "refresh_loop s (map of_nat [k..<n]) upd l =
      refresh_loop s (map of_nat [Suc k..<n]) (upd \<or> u) ?l"
    using k Suc.prems r ws2812_set_color_inside [OF Suc.prems(1) kc] index_u32(1) [OF kc]
    by (simp add: upt_conv_Cons grey_def not_le Let_def R)
  have IH: "refresh_loop s (map of_nat [Suc k..<n]) (upd \<or> u) ?l =
     Some (ERR_SUCCESS, (upd \<or> u) \<or> (\<exists>i \<in> {Suc k..<n}. fst (R i (b[k := led] ! i))),
       ?l\<lparr>buf := Some (take (Suc k) (b[k := led]) @ map (\<lambda>i. snd (R i (b[k := led] ! i))) [Suc k..<n]),
         ws2812_handler := ?h\<lparr>ws_mem := Some (take (Suc k) (ws_pixels ?h) @
           map (\<lambda>i. grey (led_value (snd (R i (b[k := led] ! i))))) [Suc k..<n])\<rparr>\<rparr>)"
    using Suc.hyps(2) Suc.prems k len by (intro Suc.hyps(1)) (simp_all add: ws_ok_def)
  have tb: "take (Suc k) (b[k := led]) = take k b @ [led]"
    using k Suc.prems by (simp add: take_Suc_conv_app_nth)
  have tm: "take (Suc k) ((ws_pixels h)[k := ?g]) = take k (ws_pixels h) @ [?g]"
    using k len by (simp add: take_Suc_conv_app_nth)
  have same: "map (\<lambda>i. f (R i (b[k := led] ! i))) [Suc k..<n] = map (\<lambda>i. f (R i (b ! i))) [Suc k..<n]"
    for f :: "bool \<times> led_state \<Rightarrow> 'z"
    by simp
  have ex: "(\<exists>i \<in> {k..<n}. fst (R i (b ! i))) \<longleftrightarrow>
      u \<or> (\<exists>i \<in> {Suc k..<n}. fst (R i (b[k := led] ! i)))"
  proof -
    have "{k..<n} = insert k {Suc k..<n}" using k by auto
    then show ?thesis using r by simp
  qed
  show ?case
    unfolding step unfolding IH ws_pixels_upd tb tm same unfolding ex upt_conv_Cons [OF k]
    by (simp add: r)
qed

lemma refresh_leds_ok:
  fixes s :: settings
  assumes "leds_inv l"
  defines "cnt \<equiv> ws_led_count (ws2812_handler l)" and "em \<equiv> emergency_state l"
    and "b \<equiv> leds_buf l"
  defines "m \<equiv> map (grey \<circ> led_value) (refreshed s em cnt b)"
  shows "refresh_leds s l = Some (ERR_SUCCESS,
     l\<lparr>buf := Some (refreshed s em cnt b),
       ws2812_handler := (ws2812_handler l)\<lparr>ws_mem := Some m,
         frames := frames (ws2812_handler l) @
           (if any_updated s em cnt b then [map (push_bit 8) m] else [])\<rparr>\<rparr>)"
proof -
  let ?h = "ws2812_handler l"
  have ok: "ws_ok ?h" using assms(1) by (simp add: leds_inv_def)
  have b: "buf l = Some b" "length b = unat cnt"
    using leds_inv_buf [OF assms(1)] leds_inv_length [OF assms(1)] by (simp_all add: b_def cnt_def)
  have u: "(\<exists>i \<in> {0..<unat cnt}. fst (refresh_led s em cnt (of_nat i) (b ! i))) \<longleftrightarrow>
      any_updated s em cnt b"
    using b(2) by (auto simp: any_updated_def)
  have loop: "refresh_loop s (upto_u32 cnt) False l = Some (ERR_SUCCESS, any_updated s em cnt b,
      l\<lparr>buf := Some (refreshed s em cnt b), ws2812_handler := ?h\<lparr>ws_mem := Some m\<rparr>\<rparr>)"
    using refresh_loop_ok [OF refl ok refl refl refl b(1) b(2) [unfolded cnt_def] refl le0,
        of s False]
    by (simp add: upto_u32_def u refreshed_def m_def comp_def b(2) cnt_def [symmetric]
        em_def [symmetric])
  have "ws_ok (?h\<lparr>ws_mem := Some m\<rparr>)"
    using b(2) by (simp add: ws_ok_def m_def refreshed_def cnt_def)
  from ws2812_refresh_ok [OF this]
  show ?thesis
    using loop by (simp add: refresh_leds_def cnt_def [symmetric] ws_pixels_def)
qed

lemma leds_inv_refreshed:
  assumes "leds_inv l" and "length b = unat (ws_led_count (ws2812_handler l))"
  shows "leds_inv (l\<lparr>buf := Some b, ws2812_handler :=
     (ws2812_handler l)\<lparr>ws_mem := Some (map (grey \<circ> led_value) b), frames := fr\<rparr>\<rparr>)"
  using assms by (simp add: leds_inv_def ws_ok_def ws_pixels_def)

lemma length_refreshed [simp]: "length (refreshed s em cnt b) = length b"
  by (simp add: refreshed_def)

lemma grey_0 [simp]: "grey 0 = 0"
  by (simp add: grey_def pixel_def)

lemma led_zeros_small: "unat n \<le> 1000 \<Longrightarrow> led_zeros n = replicate (unat n) led_zero"
  by (simp add: led_zeros_def unat_word_ariths)

text \<open>A resize to a valid number of LEDs restores the invariant, with all LEDs off.\<close>

lemma stairway_leds_resize_ok:
  assumes "leds_inv l" and "0 < n" and "unat n \<le> 1000"
  obtains l' where "stairway_leds_resize True True n l = Some (ERR_SUCCESS, l')"
    and "leds_inv l'" and "leds_buf l' = replicate (unat n) led_zero"
    and "ws_led_count (ws2812_handler l') = n" and "emergency_state l' = emergency_state l"
proof -
  have ok: "ws_ok (ws2812_handler l)" using assms(1) by (simp add: leds_inv_def)
  show thesis
    using that assms ws2812_set_led_count_ok [OF ok assms(2,3)]
    by (simp add: stairway_leds_resize_def led_zeros_small Let_def leds_inv_def leds_buf_def
        ws_ok_def ws_pixels_def led_zero_def)
qed

lemma stairway_leds_init_ok:
  assumes "settings_valid s" and "pin < num_gpios"
  shows "\<exists>l'. stairway_leds_init num_gpios True True True s pin l = Some (ERR_SUCCESS, l') \<and>
     leds_inv l' \<and> ws_led_count (ws2812_handler l') = led_count s \<and>
     leds_buf l' = replicate (unat (led_count s)) led_zero"
proof -
  have n: "unat (led_count s) \<le> 1000"
    using assms(1) by (simp add: settings_valid_iff word_le_nat_alt)
  show ?thesis
    using ws2812_init_ok [OF assms(2) n]
    by (simp add: stairway_leds_init_def Let_def led_zeros_small [OF n] leds_inv_def leds_buf_def
        ws_ok_def ws_pixels_def led_zero_def)
qed

section \<open>Refresh is memory safe and refines the pointwise step\<close>

lemma leds_refresh_total:
  assumes "leds_inv l" and "settings_valid s"
  defines "b \<equiv> (if led_count s = ws_led_count (ws2812_handler l) then leds_buf l
     else replicate (unat (led_count s)) led_zero)"
  shows "\<exists>l'. stairway_leds_refresh True True s l = Some (ERR_SUCCESS, l') \<and> leds_inv l' \<and>
     ws_led_count (ws2812_handler l') = led_count s \<and>
     emergency_state l' = emergency_state l \<and>
     leds_buf l' = refreshed s (emergency_state l) (led_count s) b \<and>
     (any_updated s (emergency_state l) (led_count s) b \<longrightarrow>
        last (frames (ws2812_handler l')) = map (push_bit 8 \<circ> grey \<circ> led_value) (leds_buf l'))"
proof -
  have valid: "0 < led_count s" "unat (led_count s) \<le> 1000"
    using assms(2) by (simp_all add: settings_valid_iff word_le_nat_alt)
  obtain l1 where l1: "leds_inv l1" "leds_buf l1 = b" "ws_led_count (ws2812_handler l1) = led_count s"
      "emergency_state l1 = emergency_state l"
      and run: "stairway_leds_refresh True True s l = refresh_leds s l1"
  proof (cases "led_count s = ws_led_count (ws2812_handler l)")
    case True
    show thesis
      by (rule that [of l]) (simp_all add: assms(1) True stairway_leds_refresh_def b_def)
  next
    case False
    obtain l' where "stairway_leds_resize True True (led_count s) l = Some (ERR_SUCCESS, l')"
        "leds_inv l'" "leds_buf l' = replicate (unat (led_count s)) led_zero"
        "ws_led_count (ws2812_handler l') = led_count s" "emergency_state l' = emergency_state l"
      using stairway_leds_resize_ok [OF assms(1) valid] .
    with False show thesis
      by (intro that [of l']) (simp_all add: stairway_leds_refresh_def b_def)
  qed
  let ?b = "refreshed s (emergency_state l) (led_count s) b"
  let ?m = "map (grey \<circ> led_value) ?b"
  let ?fr = "frames (ws2812_handler l1) @
    (if any_updated s (emergency_state l) (led_count s) b then [map (push_bit 8) ?m] else [])"
  let ?l = "l1\<lparr>buf := Some ?b,
    ws2812_handler := (ws2812_handler l1)\<lparr>ws_mem := Some ?m, frames := ?fr\<rparr>\<rparr>"
  have "refresh_leds s l1 = Some (ERR_SUCCESS, ?l)"
    using refresh_leds_ok [OF l1(1), of s] l1(2-4) by simp
  moreover have "leds_inv ?l"
    using leds_inv_length [OF l1(1)] l1(2) by (intro leds_inv_refreshed [OF l1(1)]) simp
  ultimately show ?thesis
    using l1(3,4) by (intro exI [of _ ?l]) (simp add: run leds_buf_def comp_assoc)
qed

text \<open>
  C19: with valid settings and successful allocations, a refresh never leaves the buffers, also
  when the number of LEDs in the settings has changed. It succeeds, keeps the invariant, and
  replaces every brightness by the result of its own step; if the length changed, all LEDs
  start dark at the new length. A frame is sent exactly when some LED asked for it.
\<close>

theorem stairway_leds_refresh_ok:
  assumes "leds_inv l" and "settings_valid s"
  defines "b \<equiv> (if led_count s = ws_led_count (ws2812_handler l) then leds_buf l
     else replicate (unat (led_count s)) led_zero)"
  shows "\<exists>l'. stairway_leds_refresh True True s l = Some (ERR_SUCCESS, l') \<and> leds_inv l' \<and>
     ws_led_count (ws2812_handler l') = led_count s \<and>
     emergency_state l' = emergency_state l \<and>
     leds_buf l' = refreshed s (emergency_state l) (led_count s) b \<and>
     (any_updated s (emergency_state l) (led_count s) b \<longrightarrow>
        last (frames (ws2812_handler l')) = map (push_bit 8 \<circ> grey \<circ> led_value) (leds_buf l'))"
  unfolding b_def by (rule leds_refresh_total [OF assms(1,2)])

section \<open>Fading\<close>

definition led_lit :: "settings \<Rightarrow> (emergency_type \<Rightarrow> bool) \<Rightarrow> u32 \<Rightarrow> u32 \<Rightarrow> led_state \<Rightarrow> bool" where
  "led_lit s em cnt i led \<longleftrightarrow> led_on led \<or> emergency_lit s em cnt i"

lemma refresh_led_frame [simp]:
  "led_on (snd (refresh_led s em cnt i led)) = led_on led"
  "led_ts (snd (refresh_led s em cnt i led)) = led_ts led"
  by (simp_all add: refresh_led_def Let_def)

lemma led_value_upd: "led_value (led\<lparr>led_value := v\<rparr>) = v"
  by simp

text \<open>One step of a lit and of a dark LED.\<close>

lemma refresh_led_lit:
  assumes "led_lit s em cnt i led" and "led_on_step s \<noteq> 0"
  shows "unat (led_value (snd (refresh_led s em cnt i led))) =
     min (unat (led_on_value s)) (unat (led_value led) + unat (led_on_step s))"
proof (cases "led_value led = led_on_value s \<and> \<not> emergency_lit s em cnt i")
  case True
  with assms show ?thesis by (simp add: refresh_led_def led_lit_def)
next
  case False
  with assms(1) have "refresh_led s em cnt i led =
      (True, led\<lparr>led_value := if uint (led_value led) + uint (led_on_step s) > uint (led_on_value s)
         then led_on_value s else word_of_int (uint (led_value led) + uint (led_on_step s))\<rparr>)"
    unfolding refresh_led_def led_lit_def Let_def by auto
  then show ?thesis
    by (simp only: snd_conv led_value_upd clamp_up)
qed

lemma refresh_led_dark:
  assumes "\<not> led_lit s em cnt i led"
  shows "unat (led_value (snd (refresh_led s em cnt i led))) =
     max (unat (led_off_value s)) (unat (led_value led) - unat (led_off_step s))"
proof (cases "led_value led = led_off_value s")
  case True
  with assms show ?thesis by (simp add: refresh_led_def led_lit_def)
next
  case False
  with assms have "refresh_led s em cnt i led =
      (True, led\<lparr>led_value := if uint (led_value led) - uint (led_off_step s) < uint (led_off_value s)
         then led_off_value s else word_of_int (uint (led_value led) - uint (led_off_step s))\<rparr>)"
    unfolding refresh_led_def led_lit_def Let_def by auto
  then show ?thesis
    by (simp only: snd_conv led_value_upd clamp_down)
qed

fun fade :: "nat \<Rightarrow> settings \<Rightarrow> (emergency_type \<Rightarrow> bool) \<Rightarrow> u32 \<Rightarrow> u32 \<Rightarrow> led_state \<Rightarrow> led_state" where
  "fade 0 s em cnt i led = led"
| "fade (Suc n) s em cnt i led = fade n s em cnt i (snd (refresh_led s em cnt i led))"

lemma led_lit_step [simp]:
  "led_lit s em cnt i (snd (refresh_led s em cnt i led)) = led_lit s em cnt i led"
  by (simp add: led_lit_def)

lemma fade_lit:
  assumes "led_lit s em cnt i led" and "led_on_step s \<noteq> 0"
  shows "unat (led_value (fade (Suc n) s em cnt i led)) =
     min (unat (led_on_value s)) (unat (led_value led) + Suc n * unat (led_on_step s))"
  using assms
proof (induction n arbitrary: led)
  case 0
  then show ?case by (simp add: refresh_led_lit)
next
  case (Suc n)
  have "unat (led_value (fade (Suc (Suc n)) s em cnt i led)) =
      min (unat (led_on_value s))
        (unat (led_value (snd (refresh_led s em cnt i led))) + Suc n * unat (led_on_step s))"
    using Suc.IH [of "snd (refresh_led s em cnt i led)"] Suc.prems by simp
  then show ?case
    using refresh_led_lit [OF Suc.prems] by simp
qed

lemma fade_dark:
  assumes "\<not> led_lit s em cnt i led"
  shows "unat (led_value (fade (Suc n) s em cnt i led)) =
     max (unat (led_off_value s)) (unat (led_value led) - Suc n * unat (led_off_step s))"
  using assms
proof (induction n arbitrary: led)
  case 0
  then show ?case by (simp add: refresh_led_dark)
next
  case (Suc n)
  have "unat (led_value (fade (Suc (Suc n)) s em cnt i led)) =
      max (unat (led_off_value s))
        (unat (led_value (snd (refresh_led s em cnt i led))) - Suc n * unat (led_off_step s))"
    using Suc.IH [of "snd (refresh_led s em cnt i led)"] Suc.prems by simp
  also have "\<dots> = max (unat (led_off_value s)) (unat (led_value led) - Suc (Suc n) * unat (led_off_step s))"
    unfolding refresh_led_dark [OF Suc.prems] by (simp add: max_def) linarith
  finally show ?case .
qed

lemma nth_refreshed:
  "i < length b \<Longrightarrow> refreshed s em cnt b ! i = snd (refresh_led s em cnt (of_nat i) (b ! i))"
  by (simp add: refreshed_def)

text \<open>\<open>n\<close> refreshes in a row, as the main loop calls them while the settings stay the same.\<close>

fun refresh_n :: "nat \<Rightarrow> settings \<Rightarrow> stairway_leds \<Rightarrow> stairway_leds option" where
  "refresh_n 0 s l = Some l"
| "refresh_n (Suc n) s l =
     (case stairway_leds_refresh True True s l of
        None \<Rightarrow> None
      | Some (err, l1) \<Rightarrow> if err \<noteq> ERR_SUCCESS then None else refresh_n n s l1)"

lemma refresh_n_ok:
  assumes "leds_inv l" and "led_count s = ws_led_count (ws2812_handler l)"
  shows "\<exists>l'. refresh_n n s l = Some l' \<and> leds_inv l' \<and>
     ws_led_count (ws2812_handler l') = led_count s \<and>
     (\<forall>i < unat (led_count s). leds_buf l' ! i =
        fade n s (emergency_state l) (led_count s) (of_nat i) (leds_buf l ! i))"
  using assms
proof (induction n arbitrary: l)
  case 0
  then show ?case by simp
next
  case (Suc n)
  let ?em = "emergency_state l"
  let ?b = "refreshed s ?em (led_count s) (leds_buf l)"
  let ?l1 = "l\<lparr>buf := Some ?b, ws2812_handler := (ws2812_handler l)\<lparr>
      ws_mem := Some (map (grey \<circ> led_value) ?b),
      frames := frames (ws2812_handler l) @ (if any_updated s ?em (led_count s) (leds_buf l)
        then [map (push_bit 8) (map (grey \<circ> led_value) ?b)] else [])\<rparr>\<rparr>"
  have len: "length (leds_buf l) = unat (led_count s)"
    using leds_inv_length [OF Suc.prems(1)] Suc.prems(2) by simp
  have run: "stairway_leds_refresh True True s l = Some (ERR_SUCCESS, ?l1)"
    using refresh_leds_ok [OF Suc.prems(1), of s] Suc.prems(2)
    by (simp add: stairway_leds_refresh_def)
  have "leds_inv ?l1"
    using len Suc.prems(2) by (intro leds_inv_refreshed [OF Suc.prems(1)]) simp
  moreover have "led_count s = ws_led_count (ws2812_handler ?l1)"
    using Suc.prems(2) by simp
  ultimately obtain l' where l': "refresh_n n s ?l1 = Some l'" "leds_inv l'"
      "ws_led_count (ws2812_handler l') = led_count s"
      "\<forall>i < unat (led_count s). leds_buf l' ! i =
         fade n s ?em (led_count s) (of_nat i) (leds_buf ?l1 ! i)"
    using Suc.IH [of ?l1] by auto
  have "leds_buf ?l1 ! i = snd (refresh_led s ?em (led_count s) (of_nat i) (leds_buf l ! i))"
    if "i < unat (led_count s)" for i
    using that len by (simp add: leds_buf_def nth_refreshed)
  with l' show ?case
    by (simp only: refresh_n.simps run) simp
qed

text \<open>
  C20: the brightness of every LED after any number of refreshes is in closed form. A lit LED
  (switched on, or inside an active emergency zone) rises by \<open>led_on_step\<close> per refresh up to
  \<open>led_on_value\<close>, any other falls by \<open>led_off_step\<close> down to \<open>led_off_value\<close>; after 255
  refreshes it has reached its target whatever the (valid) steps are.
\<close>

theorem stairway_leds_fade:
  assumes "leds_inv l" and "settings_valid s"
    and "led_count s = ws_led_count (ws2812_handler l)" and "i < unat (led_count s)"
  defines "led \<equiv> leds_buf l ! i"
    and "lit \<equiv> led_lit s (emergency_state l) (led_count s) (of_nat i) (leds_buf l ! i)"
  shows "\<exists>l'. refresh_n (Suc n) s l = Some l' \<and>
     unat (led_value (leds_buf l' ! i)) =
       (if lit then min (unat (led_on_value s)) (unat (led_value led) + Suc n * unat (led_on_step s))
        else max (unat (led_off_value s)) (unat (led_value led) - Suc n * unat (led_off_step s))) \<and>
     (254 \<le> n \<longrightarrow> led_value (leds_buf l' ! i) = (if lit then led_on_value s else led_off_value s))"
proof -
  obtain l' where l': "refresh_n (Suc n) s l = Some l'"
      "leds_buf l' ! i = fade (Suc n) s (emergency_state l) (led_count s) (of_nat i) led"
    using refresh_n_ok [OF assms(1,3), of "Suc n"] assms(4) led_def by blast
  have steps: "1 \<le> unat (led_on_step s)" "1 \<le> unat (led_off_step s)" "led_on_step s \<noteq> 0"
    using assms(2) by (simp_all add: settings_valid_iff unat_gt_0 Suc_le_eq)
  have v: "unat (led_value (leds_buf l' ! i)) =
     (if lit then min (unat (led_on_value s)) (unat (led_value led) + Suc n * unat (led_on_step s))
      else max (unat (led_off_value s)) (unat (led_value led) - Suc n * unat (led_off_step s)))"
    unfolding l'(2) using fade_lit [OF _ steps(3)] fade_dark
    by (cases lit) (simp_all only: lit_def led_def if_True if_False)
  have "led_value (leds_buf l' ! i) = (if lit then led_on_value s else led_off_value s)"
    if "254 \<le> n"
  proof -
    have "255 \<le> Suc n * unat (led_on_step s)" "255 \<le> Suc n * unat (led_off_step s)"
      using that mult_le_mono [of 255 "Suc n" 1] steps by fastforce+
    moreover have "unat (led_on_value s) \<le> 255" "unat (led_value led) \<le> 255"
      using unsigned_less [of "led_on_value s", where ?'a = nat]
        unsigned_less [of "led_value led", where ?'a = nat] by simp_all
    ultimately show ?thesis
      using v by (simp add: word_unat_eq_iff min_def max_def split: if_splits)
  qed
  with l'(1) v show ?thesis by blast
qed

text \<open>The strip of \<open>n\<close> dark LEDs, as \<open>stairway_leds_init\<close> leaves it.\<close>

definition dark_leds :: "u32 \<Rightarrow> stairway_leds" where
  "dark_leds n =
     \<lparr> ws2812_handler = \<lparr> ws_pin = 2, ws_led_count = n, ws_mem = Some (replicate (unat n) 0),
         ws_mem_size = 4 * n, frames = [] \<rparr>,
       buf = Some (replicate (unat n) led_zero),
       emergency_state = (\<lambda>_. False) \<rparr>"

lemma dark_leds_inv [simp]: "leds_inv (dark_leds n)"
  by (simp add: leds_inv_def ws_ok_def ws_pixels_def dark_leds_def led_zero_def)

lemma stairway_leds_refresh_ok_witness:
  "\<exists>l'. stairway_leds_refresh True True default_settings (dark_leds 30) = Some (ERR_SUCCESS, l') \<and>
     length (leds_buf l') = 18"
proof -
  from stairway_leds_refresh_ok [OF dark_leds_inv default_settings_valid, of 30]
  obtain l' where "stairway_leds_refresh True True default_settings (dark_leds 30) =
      Some (ERR_SUCCESS, l')" "leds_inv l'" "ws_led_count (ws2812_handler l') = led_count default_settings"
    by blast
  then show ?thesis
    using leds_inv_length [of l'] by (simp add: default_settings_def)
qed

lemma stairway_leds_fade_witness:
  "\<exists>l'. refresh_n 2 default_settings
     ((dark_leds 18)\<lparr>emergency_state := (\<lambda>e. e = EMERGENCY_DOWN)\<rparr>) = Some l' \<and>
     led_value (leds_buf l' ! 0) = 50"
proof -
  let ?l = "(dark_leds 18)\<lparr>emergency_state := (\<lambda>e. e = EMERGENCY_DOWN)\<rparr>"
  have inv: "leds_inv ?l"
    using dark_leds_inv [of 18] by (simp add: leds_inv_def)
  have b: "leds_buf ?l ! 0 = led_zero"
    by (simp add: leds_buf_def dark_leds_def)
  have cnt: "led_count default_settings = ws_led_count (ws2812_handler ?l)"
    by (simp add: default_settings_def dark_leds_def)
  have pos: "0 < unat (led_count default_settings)"
    by (simp add: default_settings_def)
  have lit: "led_lit default_settings (emergency_state ?l) (led_count default_settings) (of_nat 0) led_zero"
    by (simp add: led_lit_def emergency_lit_def default_settings_def)
  have vals: "unat (led_on_value default_settings) = 150" "unat (led_on_step default_settings) = 25"
      "unat (led_value led_zero) = 0"
    by (simp_all add: default_settings_def led_zero_def)
  obtain l' where l': "refresh_n 2 default_settings ?l = Some l'"
      "unat (led_value (leds_buf l' ! 0)) = 50"
    using stairway_leds_fade [OF inv default_settings_valid cnt pos, of 1] b lit vals
    by (auto simp only: numeral_2_eq_2 One_nat_def) auto
  have "unat (led_value (leds_buf l' ! 0)) = unat (50 :: u8)" using l'(2) by simp
  then show ?thesis using l'(1) by (auto simp only: word_unat_eq_iff)
qed

section \<open>Events\<close>

text \<open>Events in the order in which \<open>stairway_leds_set_state\<close> receives them.\<close>

type_synonym led_event = "u32 \<times> bool \<times> u64"

fun set_states :: "led_event list \<Rightarrow> stairway_leds \<Rightarrow> stairway_leds option" where
  "set_states [] l = Some l"
| "set_states ((index, state, ts) # evs) l =
     (case stairway_leds_set_state index state ts l of
        None \<Rightarrow> None
      | Some (_, l1) \<Rightarrow> set_states evs l1)"

text \<open>One LED is a register that keeps the newest event.\<close>

interpretation led: latest_wins "\<lambda>e. snd (snd e)" "\<lambda>e. fst (snd e)"
    "\<lambda>e. led_set (fst (snd e)) (snd (snd e))" led_ts led_on
  by unfold_locales (simp_all add: led_set_def)

lemma leds_inv_set:
  assumes "leds_inv l" and "i < unat (ws_led_count (ws2812_handler l))"
  shows "leds_inv (l\<lparr>buf := Some ((leds_buf l)[i := led_set state ts (leds_buf l ! i)])\<rparr>)"
proof -
  let ?b = "leds_buf l"
  have len: "i < length ?b" and px: "ws_pixels (ws2812_handler l) = map (grey \<circ> led_value) ?b"
    using assms leds_inv_length [OF assms(1)] by (auto simp: leds_inv_def leds_buf_def)
  have "led_value (led_set state ts (?b ! i)) = led_value (?b ! i)"
    by (simp add: led_set_def)
  then have "map (grey \<circ> led_value) (?b[i := led_set state ts (?b ! i)]) = map (grey \<circ> led_value) ?b"
    using len by (simp add: map_update list_update_same_conv)
  with assms px leds_inv_length [OF assms(1)] show ?thesis
    by (simp add: leds_inv_def)
qed

text \<open>Every LED is changed by its own events only.\<close>

lemma set_states_ok:
  assumes "leds_inv l"
  shows "\<exists>l'. set_states evs l = Some l' \<and> leds_inv l' \<and>
     ws_led_count (ws2812_handler l') = ws_led_count (ws2812_handler l) \<and>
     (\<forall>i < unat (ws_led_count (ws2812_handler l)). leds_buf l' ! i =
        fold (\<lambda>e. led_set (fst (snd e)) (snd (snd e)))
          (filter (\<lambda>e. unat (fst e) = i) evs) (leds_buf l ! i))"
  using assms
proof (induction evs arbitrary: l)
  case Nil
  then show ?case by simp
next
  case (Cons e evs)
  obtain index state ts where e: "e = (index, state, ts)" by (cases e)
  let ?b = "leds_buf l"
  let ?n = "ws_led_count (ws2812_handler l)"
  note b = leds_inv_buf [OF Cons.prems] leds_inv_length [OF Cons.prems]
  show ?case
  proof (cases "index < ?n")
    case False
    then have "set_states (e # evs) l = set_states evs l"
      by (simp add: e stairway_leds_set_state_def not_less)
    moreover have "unat index \<noteq> i" if "i < unat ?n" for i
      using False that by (auto simp: word_less_nat_alt)
    ultimately show ?thesis
      using Cons.IH [OF Cons.prems] by (simp add: e)
  next
    case True
    let ?l = "l\<lparr>buf := Some (?b[unat index := led_set state ts (?b ! unat index)])\<rparr>"
    have i: "unat index < unat ?n" using True by (simp add: word_less_nat_alt)
    have step: "set_states (e # evs) l = set_states evs ?l"
      using True i b by (simp add: e stairway_leds_set_state_def not_le [symmetric])
    from Cons.IH [OF leds_inv_set [OF Cons.prems i, of state ts]] show ?thesis
      unfolding step using b(2) i by (auto simp: e leds_buf_def nth_list_update)
  qed
qed

text \<open>
  C21: several light waves run over the stairs at once, and the order in which events of different
  times arrive does not matter. Each LED ends with the largest time of its own events, or with its
  old state and time if none is newer, and in the state of the first event that carries this time:
  among events of the same time the first one wins. So two sequences that have, for this LED and each
  time, the same events in the same order leave it in the same state, however the events of
  different times and those of the other LEDs are interleaved.
\<close>

theorem set_states_order:
  assumes "leds_inv l" and "i < unat (ws_led_count (ws2812_handler l))"
    and "\<forall>t. filter (\<lambda>e. unat (fst e) = i \<and> snd (snd e) = t) evs =
             filter (\<lambda>e. unat (fst e) = i \<and> snd (snd e) = t) evs'"
  defines "newest \<equiv> Max (insert (led_ts (leds_buf l ! i)) ((\<lambda>e. snd (snd e)) ` {e \<in> set evs. unat (fst e) = i}))"
  shows "\<exists>l1 l2. set_states evs l = Some l1 \<and> set_states evs' l = Some l2 \<and>
     led_ts (leds_buf l1 ! i) = newest \<and>
     led_on (leds_buf l1 ! i) =
       (if newest = led_ts (leds_buf l ! i) then led_on (leds_buf l ! i)
        else fst (snd (hd (filter (\<lambda>e. unat (fst e) = i \<and> snd (snd e) = newest) evs)))) \<and>
     led_ts (leds_buf l2 ! i) = led_ts (leds_buf l1 ! i) \<and>
     led_on (leds_buf l2 ! i) = led_on (leds_buf l1 ! i)"
proof -
  let ?f = "filter (\<lambda>e. unat (fst e) = i)" and ?put = "\<lambda>e. led_set (fst (snd e)) (snd (snd e))"
    and ?old = "leds_buf l ! i"
  have same: "filter (\<lambda>e. snd (snd e) = t) (?f evs) = filter (\<lambda>e. snd (snd e) = t) (?f evs')" for t
    using assms(3) by (simp add: conj_commute)
  obtain l1 where l1: "set_states evs l = Some l1" "leds_buf l1 ! i = fold ?put (?f evs) ?old"
    using set_states_ok [OF assms(1), of evs] assms(2) by blast
  obtain l2 where l2: "set_states evs' l = Some l2" "leds_buf l2 ! i = fold ?put (?f evs') ?old"
    using set_states_ok [OF assms(1), of evs'] assms(2) by blast
  have ts: "led_ts (fold ?put (?f evs) ?old) = newest"
    by (simp add: led.stamp_fold_Max newest_def)
  have on: "led_on (fold ?put (?f evs) ?old) = (if newest = led_ts ?old then led_on ?old
      else fst (snd (hd (filter (\<lambda>e. unat (fst e) = i \<and> snd (snd e) = newest) evs))))"
    unfolding led.content_first ts by (simp add: conj_commute)
  show ?thesis
    using l1 l2 ts on led.order_irrelevant [OF same, of ?old] by simp
qed

text \<open>Two waves cross at LED 3, with a tie at time 20: the first of the two events wins.\<close>

lemma set_states_order_witness:
  "\<exists>l1 l2. set_states [(3, True, 10), (5, True, 10), (3, False, 20), (3, True, 20)] (dark_leds 18) = Some l1 \<and>
     set_states [(3, False, 20), (3, True, 20), (3, True, 10)] (dark_leds 18) = Some l2 \<and>
     led_ts (leds_buf l1 ! 3) = 20 \<and> \<not> led_on (leds_buf l1 ! 3) \<and> \<not> led_on (leds_buf l2 ! 3)"
proof -
  let ?evs = "[(3, True, 10), (5, True, 10), (3, False, 20), (3, True, 20)] :: led_event list"
    and ?evs' = "[(3, False, 20), (3, True, 20), (3, True, 10)] :: led_event list"
  have i: "3 < unat (ws_led_count (ws2812_handler (dark_leds 18)))"
    by (simp add: dark_leds_def)
  have same: "\<forall>t. filter (\<lambda>e. unat (fst e) = 3 \<and> snd (snd e) = t) ?evs =
      filter (\<lambda>e. unat (fst e) = 3 \<and> snd (snd e) = t) ?evs'"
    by simp
  have old: "leds_buf (dark_leds 18) ! 3 = led_zero" by (simp add: leds_buf_def dark_leds_def)
  have mine: "{e \<in> set ?evs. unat (fst e) = 3} = {(3, True, 10), (3, False, 20), (3, True, 20)}" by auto
  show ?thesis
    using set_states_order [OF dark_leds_inv i same] unfolding old mine by (auto simp: led_zero_def)
qed

section \<open>A resize that fails half way\<close>

text \<open>
  \<open>stairway_leds_resize\<close> shrinks \<open>buf\<close> before it asks the driver to shrink. If the second
  allocation fails, the driver keeps its larger number of LEDs: the error is reported, but a
  later event for a LED beyond the new end is accepted by the range check and writes behind
  the end of \<open>buf\<close>.
\<close>

theorem stairway_leds_resize_fail_unsafe:
  assumes "leds_inv l" and "0 < n" and "unat n \<le> 1000" and "n \<le> index"
    and "index < ws_led_count (ws2812_handler l)"
  shows "\<exists>l'. stairway_leds_resize True False n l = Some (ERR_MEM_ALLOC_FAIL, l') \<and>
     \<not> leds_inv l' \<and> stairway_leds_set_state index state ts l' = None"
proof -
  let ?c = "ws_led_count (ws2812_handler l)"
  have ok: "ws_ok (ws2812_handler l)" using assms(1) by (simp add: leds_inv_def)
  have lt: "unat n \<le> unat index" "unat index < unat ?c"
    using assms(4,5) by (simp_all add: word_le_nat_alt word_less_nat_alt)
  let ?l = "l\<lparr>buf := Some (led_zeros n), ws2812_handler := (ws2812_handler l)
      \<lparr>ws_mem := Some (replicate (unat ?c) 0),
       frames := frames (ws2812_handler l) @ [replicate (unat ?c) 0]\<rparr>\<rparr>"
  have "stairway_leds_resize True False n l = Some (ERR_MEM_ALLOC_FAIL, ?l)"
    using ws2812_set_led_count_fail [OF ok assms(2)] by (simp add: stairway_leds_resize_def Let_def)
  moreover have "\<not> leds_inv ?l"
    using lt by (simp add: leds_inv_def led_zeros_small [OF assms(3)])
  moreover have "stairway_leds_set_state index state ts ?l = None"
    using assms(5) lt by (simp add: stairway_leds_set_state_def led_zeros_small [OF assms(3)] not_le)
  ultimately show ?thesis by blast
qed

lemma stairway_leds_resize_fail_unsafe_witness:
  "\<exists>l'. stairway_leds_resize True False 4 (dark_leds 18) = Some (ERR_MEM_ALLOC_FAIL, l') \<and>
     stairway_leds_set_state 4 True 1 l' = None"
proof -
  have "(4 :: u32) < ws_led_count (ws2812_handler (dark_leds 18))"
    by (simp add: dark_leds_def)
  from stairway_leds_resize_fail_unsafe [OF dark_leds_inv _ _ _ this, of 4 True 1]
  show ?thesis by auto
qed

end
