(* ===== verification/Clock.thy ===== *)
theory Clock
  imports Prelude
begin

text \<open>
  The millisecond clock \<open>get_time_ms\<close> of \<open>src/main.c\<close>. The SDK's
  \<open>to_ms_since_boot(get_absolute_time())\<close> gives a 32 bit count that wraps after about 49.7
  days; the function accumulates the differences of consecutive readings into 64 bits. The
  readings the SDK returns are an input: \<open>raw n\<close> is the value of the \<open>n\<close>-th call. Each
  call of \<open>get_time_ms\<close> in the program consumes one reading. The calls inside the logging
  macro \<open>INFO\<close> are left out: they only add readings, and the accumulated total does not
  depend on how many readings lie between two others.
\<close>

record clock =
  last_raw_time :: u32
  total_ms :: u64
  raw :: "nat \<Rightarrow> u32"
  reads :: nat

definition get_time_ms :: "clock \<Rightarrow> u64 \<times> clock" where
  "get_time_ms c =
     (let ts = raw c (reads c);
          delta = ts - last_raw_time c;
          total = total_ms c + ucast delta
      in (total, c\<lparr>last_raw_time := ts, total_ms := total, reads := Suc (reads c)\<rparr>))"

definition clock_init :: "(nat \<Rightarrow> u32) \<Rightarrow> clock" where
  "clock_init rs = \<lparr>last_raw_time = 0, total_ms = 0, raw = rs, reads = 0\<rparr>"

fun read_times :: "nat \<Rightarrow> clock \<Rightarrow> clock" where
  "read_times 0 c = c"
| "read_times (Suc n) c = read_times n (snd (get_time_ms c))"

lemma fst_get_time_ms: "fst (get_time_ms c) = total_ms (snd (get_time_ms c))"
  by (simp add: get_time_ms_def Let_def)

lemma get_time_ms_raw [simp]: "raw (snd (get_time_ms c)) = raw c"
  by (simp add: get_time_ms_def Let_def)

lemma get_time_ms_reads [simp]: "reads (snd (get_time_ms c)) = Suc (reads c)"
  by (simp add: get_time_ms_def Let_def)

section \<open>The clock against the time since boot\<close>

text \<open>
  \<open>boot_ms n\<close> is the true number of milliseconds since boot at the \<open>n\<close>-th reading: it never
  decreases, the SDK returns its low 32 bits, and two consecutive readings (and the first one
  and the boot) are less than \<open>2 ^ 32\<close> ms apart.
\<close>

definition boot_clock :: "(nat \<Rightarrow> nat) \<Rightarrow> (nat \<Rightarrow> u32) \<Rightarrow> bool" where
  "boot_clock boot_ms rs \<longleftrightarrow>
     (\<forall>n. rs n = of_nat (boot_ms n)) \<and>
     boot_ms 0 < 2 ^ 32 \<and>
     (\<forall>n. boot_ms n \<le> boot_ms (Suc n) \<and> boot_ms (Suc n) < boot_ms n + 2 ^ 32)"

text \<open>The state after reading \<open>n\<close>: the last raw value and the total agree with \<open>boot_ms\<close>.\<close>

definition clock_tracks :: "(nat \<Rightarrow> nat) \<Rightarrow> clock \<Rightarrow> bool" where
  "clock_tracks boot_ms c \<longleftrightarrow>
     (let t = (if reads c = 0 then 0 else boot_ms (reads c - 1))
      in last_raw_time c = of_nat t \<and> total_ms c = of_nat t)"

lemma delta_exact:
  assumes "s \<le> t" and "t < s + 2 ^ 32"
  shows "unat ((of_nat t :: u32) - of_nat s) = t - s"
proof -
  have "(of_nat t :: u32) - of_nat s = of_nat (t - s)"
    using assms(1) by (simp add: of_nat_diff)
  moreover have "unat (of_nat (t - s) :: u32) = t - s"
    using assms by (simp only: unat_of_nat) simp
  ultimately show ?thesis by simp
qed

lemma clock_tracks_init: "clock_tracks boot_ms (clock_init rs)"
  by (simp add: clock_tracks_def clock_init_def)

lemma clock_tracks_step:
  assumes "boot_clock boot_ms (raw c)" and "clock_tracks boot_ms c"
  shows "clock_tracks boot_ms (snd (get_time_ms c))"
proof -
  let ?s = "if reads c = 0 then 0 else boot_ms (reads c - 1)"
  let ?t = "boot_ms (reads c)"
  have raw: "raw c (reads c) = of_nat ?t"
    using assms(1) by (simp add: boot_clock_def)
  have near: "?s \<le> ?t" "?t < ?s + 2 ^ 32"
    using assms(1) by (cases "reads c"; simp add: boot_clock_def)+
  have "(ucast ((of_nat ?t :: u32) - of_nat ?s) :: u64) = of_nat (?t - ?s)"
    using delta_exact [OF near] by (metis of_nat_unat)
  then have "(of_nat ?s :: u64) + ucast ((of_nat ?t :: u32) - of_nat ?s) = of_nat ?t"
    using near(1) by (simp add: of_nat_diff)
  then show ?thesis
    using assms(2) raw
    by (simp add: clock_tracks_def get_time_ms_def Let_def)
qed

lemma read_times_raw [simp]: "raw (read_times n c) = raw c"
  by (induction n arbitrary: c) simp_all

lemma read_times_reads [simp]: "reads (read_times n c) = reads c + n"
  by (induction n arbitrary: c) simp_all

lemma clock_tracks_reads:
  "boot_clock boot_ms (raw c) \<Longrightarrow> clock_tracks boot_ms c \<Longrightarrow> clock_tracks boot_ms (read_times n c)"
  by (induction n arbitrary: c) (simp_all add: clock_tracks_step)

text \<open>\<open>c'\<close> is the clock \<open>c\<close> after some readings.\<close>

definition later :: "clock \<Rightarrow> clock \<Rightarrow> bool" where
  "later c c' \<longleftrightarrow> (\<exists>n. c' = read_times n c)"

lemma read_times_add: "read_times n (read_times m c) = read_times (m + n) c"
  by (induction m arbitrary: c) simp_all

lemma later_refl [simp]: "later c c"
  unfolding later_def by (rule exI [of _ 0]) simp

lemma later_read [simp]: "later c (snd (get_time_ms c))"
  unfolding later_def by (rule exI [of _ 1]) simp

lemma later_trans [trans]: "later c c' \<Longrightarrow> later c' c'' \<Longrightarrow> later c c''"
  by (auto simp: later_def read_times_add)

lemma later_step: "later c c' \<Longrightarrow> later c (snd (get_time_ms c'))"
  by (rule later_trans [OF _ later_read])

text \<open>
  \<open>get_time_ms\<close> is a 64 bit clock: as long as two readings are never \<open>2 ^ 32\<close> ms or more
  apart, the \<open>n\<close>-th call returns the true time since boot, past every wrap of the 32 bit
  counter that the SDK provides.
\<close>

theorem get_time_ms_exact:
  assumes "boot_clock boot_ms rs"
  shows "fst (get_time_ms (read_times n (clock_init rs))) = of_nat (boot_ms n)"
proof -
  have "boot_clock boot_ms (raw (clock_init rs))"
    using assms by (simp add: clock_init_def)
  then have "clock_tracks boot_ms (snd (get_time_ms (read_times n (clock_init rs))))"
    by (simp add: clock_tracks_step clock_tracks_reads clock_tracks_init)
  moreover have "reads (snd (get_time_ms (read_times n (clock_init rs)))) = Suc n"
    by (simp add: clock_init_def)
  ultimately show ?thesis
    by (simp add: fst_get_time_ms clock_tracks_def Let_def clock_init_def)
qed

text \<open>A reading every ten days: the 32 bit counter wraps between the fifth and the sixth.\<close>

lemma get_time_ms_exact_witness:
  "fst (get_time_ms (read_times 5 (clock_init (\<lambda>n. of_nat (864000000 * n))))) = 4320000000"
proof -
  have "boot_clock (\<lambda>n. 864000000 * n) (\<lambda>n. of_nat (864000000 * n))"
    by (simp add: boot_clock_def)
  from get_time_ms_exact [OF this, of 5] show ?thesis by simp
qed

end
