(* ===== verification/Modbus.thy ===== *)
theory Modbus
  imports Crc Clock "HOL-Library.While_Combinator"
begin

text \<open>
  The Modbus RTU master \<open>src/modbus_master/modbus_master.c\<close>: building and sending a request,
  the receive interrupt, and the routine that decodes the answer or gives up after the timeout.
  The statics of the file are the fields of \<open>modbus\<close>; \<open>sent\<close> collects the frames written to
  the UART. A callback of type \<open>'cb\<close> is only passed on: the routine returns the call it makes,
  with the memory the two pointer arguments point to. The set-up of the pins and the UART
  (\<open>modbus_master_init\<close>) is in \<open>Hardware\<close>. An access outside of a buffer, or through a \<open>NULL\<close>
  \<open>data\<close>, makes an operation \<open>None\<close>.
\<close>

section \<open>State\<close>

datatype modbus_error =
    MODBUS_ERR_SUCCESS
  | MODBUS_ERR_TIMEOUT
  | MODBUS_ERR_CRC
  | MODBUS_ERR_UNKNOWN

record 'cb modbus_request =
  req_id :: u8
  req_func :: u8
  reg_addr :: u16
  reg_length :: u16
  req_data :: "u8 list option"
  req_timeout :: u32
  req_cb :: "'cb option"

definition SEND_BUF_SIZE :: nat where "SEND_BUF_SIZE = 32"
definition RECEIVE_BUF_SIZE :: nat where "RECEIVE_BUF_SIZE = 256"

record 'cb modbus =
  send_buf :: "u8 list"
  send_counter :: u32
  receive_buf :: "u8 list"
  receive_counter :: u32
  answer_len :: u32
  send_ts :: u64
  busy :: bool
  last_request :: "'cb modbus_request"
  sent :: "u8 list list"

definition modbus_start :: "'cb modbus" where
  "modbus_start =
     \<lparr> send_buf = replicate SEND_BUF_SIZE 0, send_counter = 0,
       receive_buf = replicate RECEIVE_BUF_SIZE 0, receive_counter = 0,
       answer_len = 0, send_ts = 0, busy = False,
       last_request = \<lparr> req_id = 0, req_func = 0, reg_addr = 0, reg_length = 0,
         req_data = None, req_timeout = 0, req_cb = None \<rparr>,
       sent = [] \<rparr>"

text \<open>
  A call of the callback: \<open>raw_answer\<close> and \<open>payload\<close> are the memory from the pointer to the
  end of its buffer.
\<close>

record modbus_call =
  status :: modbus_error
  raw_answer :: "u8 list option"
  raw_len :: u16
  payload :: "u8 list option"
  payload_len :: u8

definition error_call :: "modbus_error \<Rightarrow> modbus_call" where
  "error_call e = \<lparr>status = e, raw_answer = None, raw_len = 0, payload = None, payload_len = 0\<rparr>"

section \<open>Checksum\<close>

definition crc_chk_bit :: "u16 \<Rightarrow> u16" where
  "crc_chk_bit reg_crc =
     (if reg_crc AND 0x01 \<noteq> 0 then drop_bit 1 reg_crc XOR 0xA001 else drop_bit 1 reg_crc)"

fun crc_chk_loop :: "nat \<Rightarrow> u8 list \<Rightarrow> u16 \<Rightarrow> u16 option" where
  "crc_chk_loop 0 dat reg_crc = Some reg_crc"
| "crc_chk_loop (Suc n) [] reg_crc = None"
| "crc_chk_loop (Suc n) (d # dat) reg_crc =
     crc_chk_loop n dat (repeat_step 8 crc_chk_bit (reg_crc XOR ucast d))"

definition crc_chk :: "u8 list \<Rightarrow> u8 \<Rightarrow> u16 option" where
  "crc_chk dat len = crc_chk_loop (unat len) dat 0xFFFF"

section \<open>Sending\<close>

definition hi8 :: "u16 \<Rightarrow> u8" where "hi8 w = ucast (drop_bit 8 w)"
definition lo8 :: "u16 \<Rightarrow> u8" where "lo8 w = ucast w"

text \<open>The copy loop of function 16; the counter and its bound are \<open>uint8_t\<close>.\<close>

fun copy_data :: "nat list \<Rightarrow> u8 list \<Rightarrow> u8 list \<Rightarrow> u8 list option" where
  "copy_data [] dat b = Some b"
| "copy_data (i # is) dat b =
     (if length dat \<le> i then None
      else (case store (7 + i) (dat ! i) b of None \<Rightarrow> None | Some b1 \<Rightarrow> copy_data is dat b1))"

text \<open>
  The \<open>switch\<close> of \<open>modbus_master_send\<close>. The result is the error of the \<open>default\<close> branch or
  the state with the frame (still without checksum), \<open>answer_len\<close> and \<open>send_counter\<close>.
\<close>

definition modbus_build ::
    "'cb modbus_request \<Rightarrow> 'cb modbus \<Rightarrow> (err_code \<times> 'cb modbus) option" where
  "modbus_build request m =
     (case store 0 (req_id request) (send_buf m) of
        None \<Rightarrow> None
      | Some b0 \<Rightarrow>
          if req_func request = 3 \<or> req_func request = 4 then
            (case stores [(1, req_func request), (2, hi8 (reg_addr request)),
                 (3, lo8 (reg_addr request)), (4, hi8 (reg_length request)),
                 (5, lo8 (reg_length request))] b0 of
               None \<Rightarrow> None
             | Some b \<Rightarrow> Some (ERR_SUCCESS, m\<lparr>send_buf := b,
                 answer_len := 5 + ucast (reg_length request) * 2, send_counter := 8\<rparr>))
          else if req_func request = 6 then
            (case req_data request of
               None \<Rightarrow> None
             | Some dat \<Rightarrow>
                 if length dat < 2 then None
                 else
                   (case stores [(1, req_func request), (2, hi8 (reg_addr request)),
                        (3, lo8 (reg_addr request)), (4, dat ! 0), (5, dat ! 1)] b0 of
                      None \<Rightarrow> None
                    | Some b \<Rightarrow> Some (ERR_SUCCESS,
                        m\<lparr>send_buf := b, answer_len := 8, send_counter := 8\<rparr>)))
          else if req_func request = 16 then
            let cnt = lo8 (reg_length request * 2)
            in (case stores [(1, req_func request), (2, hi8 (reg_addr request)),
                     (3, lo8 (reg_addr request)), (4, hi8 (reg_length request)),
                     (5, lo8 (reg_length request)), (6, cnt)] b0 of
                  None \<Rightarrow> None
                | Some b \<Rightarrow>
                    (case copy_data [0..<unat cnt]
                        (case req_data request of None \<Rightarrow> [] | Some dat \<Rightarrow> dat) b of
                       None \<Rightarrow> None
                     | Some b1 \<Rightarrow> Some (ERR_SUCCESS,
                         m\<lparr>send_buf := b1, answer_len := 8, send_counter := 9 + ucast cnt\<rparr>)))
          else Some (ERR_PARAM_INVALID, m\<lparr>send_buf := b0\<rparr>))"

definition modbus_master_send ::
    "'cb modbus_request option \<Rightarrow> 'cb modbus \<Rightarrow> clock \<Rightarrow> (err_code \<times> 'cb modbus \<times> clock) option" where
  "modbus_master_send request m c =
     (case request of
        None \<Rightarrow> Some (ERR_PARAM_IS_NULL, m, c)
      | Some request \<Rightarrow>
          if busy m then Some (ERR_BUSY, m, c)
          else
            (case modbus_build request m of
               None \<Rightarrow> None
             | Some (err, m1) \<Rightarrow>
                 if err \<noteq> ERR_SUCCESS then Some (err, m1, c)
                 else
                   let m2 = m1\<lparr>busy := True\<rparr>; n = send_counter m2
                   in (case crc_chk (send_buf m2) (ucast (n - 2)) of
                         None \<Rightarrow> None
                       | Some crc \<Rightarrow>
                           (case stores [(unat (n - 2), lo8 crc), (unat (n - 1), hi8 crc)] (send_buf m2) of
                              None \<Rightarrow> None
                            | Some b \<Rightarrow>
                                if length b < unat n then None
                                else
                                  let (ts, c1) = get_time_ms c
                                  in Some (ERR_SUCCESS,
                                       m2\<lparr>send_buf := b, receive_counter := 0,
                                          receive_buf := replicate RECEIVE_BUF_SIZE 0,
                                          sent := sent m2 @ [take (unat n) b],
                                          last_request := request, send_ts := ts\<rparr>, c1)))))"

definition modbus_master_get_busy :: "'cb modbus \<Rightarrow> bool" where
  "modbus_master_get_busy m = busy m"

section \<open>Receiving\<close>

text \<open>
  The receive interrupt. \<open>fifo\<close> holds the bytes that \<open>uart_is_readable\<close> and \<open>uart_getc\<close> see
  during this run of the handler. The loop does not read a byte when the buffer is full, so it
  may not end: the result is then \<open>None\<close>. \<open>rx_step\<close> is one turn; the outer \<open>option\<close> of the
  loop state is the memory access.
\<close>

definition rx_step :: "u8 list \<times> 'cb modbus \<Rightarrow> u8 list \<times> 'cb modbus" where
  "rx_step = (\<lambda>(fifo, m).
     if receive_counter m < of_nat (RECEIVE_BUF_SIZE - 1)
     then (tl fifo, m\<lparr>receive_buf := (receive_buf m)[unat (receive_counter m) := hd fifo],
             receive_counter := receive_counter m + 1\<rparr>)
     else (fifo, m))"

definition modbus_master_uart_rx_irq :: "u8 list \<Rightarrow> 'cb modbus \<Rightarrow> 'cb modbus option" where
  "modbus_master_uart_rx_irq fifo m =
     map_option snd (while_option (\<lambda>(fifo, _). fifo \<noteq> []) rx_step (fifo, m))"

text \<open>\<open>decode_modbus\<close> with the call it makes.\<close>

definition cb_call :: "'cb modbus \<Rightarrow> modbus_call \<Rightarrow> ('cb \<times> modbus_call) option" where
  "cb_call m call = (case req_cb (last_request m) of None \<Rightarrow> None | Some cb \<Rightarrow> Some (cb, call))"

definition decode_modbus ::
    "u8 list option \<Rightarrow> u16 \<Rightarrow> 'cb modbus \<Rightarrow> (err_code \<times> ('cb \<times> modbus_call) option) option" where
  "decode_modbus buf sz m =
     (case buf of
        None \<Rightarrow> Some (ERR_PARAM_IS_NULL, None)
      | Some b \<Rightarrow>
          if sz = 0 then Some (ERR_PARAM_INVALID, None)
          else if ucast sz < answer_len m then Some (ERR_PARAM_INVALID, None)
          else if length b < 2 then None
          else if b ! 0 \<noteq> req_id (last_request m) \<or> b ! 1 \<noteq> req_func (last_request m)
          then Some (ERR_FAIL, cb_call m (error_call MODBUS_ERR_UNKNOWN))
          else
            (case crc_chk b (ucast (answer_len m - 2)) of
               None \<Rightarrow> None
             | Some crc \<Rightarrow>
                 let lo = unat (answer_len m - 2); hi = unat (answer_len m - 1)
                 in if length b \<le> lo \<or> length b \<le> hi then None
                    else if crc \<noteq> rd16 [b ! lo, b ! hi]
                    then Some (ERR_FAIL, cb_call m (error_call MODBUS_ERR_CRC))
                    else if b ! 1 = 3 \<or> b ! 1 = 4 then
                      Some (ERR_SUCCESS, cb_call m
                        \<lparr>status = MODBUS_ERR_SUCCESS, raw_answer = Some b,
                         raw_len = ucast (answer_len m), payload = Some (drop 3 b),
                         payload_len = b ! 2\<rparr>)
                    else if b ! 1 = 6 \<or> b ! 1 = 16 then
                      Some (ERR_SUCCESS, cb_call m
                        \<lparr>status = MODBUS_ERR_SUCCESS, raw_answer = Some b,
                         raw_len = ucast (answer_len m), payload = None, payload_len = 0\<rparr>)
                    else Some (ERR_SUCCESS, None)))"

text \<open>
  \<open>modbus_master_routine\<close>. The callback runs before \<open>busy\<close> is cleared; the callbacks of the
  program do not use this module.
\<close>

definition modbus_master_routine ::
    "'cb modbus \<Rightarrow> clock \<Rightarrow> (('cb \<times> modbus_call) option \<times> 'cb modbus \<times> clock) option" where
  "modbus_master_routine m c =
     (if \<not> busy m then Some (None, m, c)
      else
        let (ts, c1) = get_time_ms c; dt = ts - send_ts m
        in if receive_counter m \<ge> answer_len m \<or>
              receive_counter m \<ge> of_nat (RECEIVE_BUF_SIZE - 1) then
             (case decode_modbus (Some (receive_buf m)) (ucast (receive_counter m)) m of
                None \<Rightarrow> None
              | Some (_, call) \<Rightarrow> Some (call, m\<lparr>busy := False\<rparr>, c1))
           else if dt > ucast (req_timeout (last_request m)) then
             Some (cb_call m (error_call MODBUS_ERR_TIMEOUT), m\<lparr>busy := False\<rparr>, c1)
           else Some (None, m, c1))"

section \<open>The checksum as a CRC engine\<close>

lemma crc_chk_bit_galois: "crc_chk_bit = galois_step 0xA001"
proof
  fix r :: u16
  have "r AND 1 \<noteq> 0 \<longleftrightarrow> bit r 0"
    by (simp add: and_one_eq bit_0 mod_2_eq_odd)
  then show "crc_chk_bit r = galois_step 0xA001 r"
    by (simp add: crc_chk_bit_def galois_step_def)
qed

interpretation modbus_engine: crc_engine crc_chk_bit
  unfolding crc_chk_bit_galois by (rule crc_engine_galois) simp_all

abbreviation modbus_crc :: "u8 list \<Rightarrow> u16" where
  "modbus_crc bs \<equiv> fold modbus_engine.feed bs 0xFFFF"

lemma crc_chk_loop_fold:
  "n \<le> length dat \<Longrightarrow> crc_chk_loop n dat r = Some (fold modbus_engine.feed (take n dat) r)"
  by (induction n dat r rule: crc_chk_loop.induct) (simp_all add: modbus_engine.feed_def)

lemma crc_chk_fold:
  "unat n \<le> length dat \<Longrightarrow> crc_chk dat n = Some (modbus_crc (take (unat n) dat))"
  by (simp add: crc_chk_def crc_chk_loop_fold)

text \<open>Shifting out zero bits is a plain shift.\<close>

lemma repeat_galois_shift:
  "(\<And>i. i < n \<Longrightarrow> \<not> bit x i) \<Longrightarrow> repeat_step n (galois_step p) x = drop_bit n (x :: 'a::len word)"
proof (induction n arbitrary: x)
  case 0
  then show ?case by simp
next
  case (Suc n)
  have "\<not> bit x 0" using Suc.prems [of 0] by simp
  then have one: "galois_step p x = drop_bit 1 x"
    by (simp add: galois_step_def)
  have "\<not> bit (drop_bit 1 x) i" if "i < n" for i
    using Suc.prems [of "Suc i"] that by (simp add: bit_drop_bit_eq)
  then have "repeat_step n (galois_step p) (drop_bit 1 x) = drop_bit n (drop_bit 1 x)"
    by (rule Suc.IH)
  then show ?case by (simp only: repeat_step.simps one drop_bit_drop_bit) simp
qed

text \<open>A message followed by its own checksum, low byte first, has the checksum 0.\<close>

lemma modbus_residue:
  "fold modbus_engine.feed [lo8 r, hi8 r] r = 0"
proof -
  have "modbus_engine.feed (lo8 r) r = drop_bit 8 r"
    unfolding modbus_engine.feed_def unfolding crc_chk_bit_galois
  proof (subst repeat_galois_shift)
    show "\<not> bit (r XOR ucast (lo8 r)) i" if "i < 8" for i
      using that by (simp add: lo8_def bit_simps)
    show "drop_bit 8 (r XOR ucast (lo8 r)) = drop_bit 8 r"
      by (rule bit_word_eqI) (auto simp: lo8_def bit_simps)
  qed
  moreover have "modbus_engine.feed (hi8 r) (drop_bit 8 r) = 0"
  proof -
    have "drop_bit 8 r XOR ucast (hi8 r) = 0"
      by (rule bit_word_eqI) (auto simp: hi8_def bit_simps dest: bit_imp_le_length)
    then show ?thesis
      unfolding modbus_engine.feed_def unfolding crc_chk_bit_galois
      by (simp add: repeat_galois_shift)
  qed
  ultimately show ?thesis by simp
qed

lemma rd16_lo_hi [simp]: "rd16 [lo8 w, hi8 w] = w"
  using rd16_le16 [of w] by (simp add: le16_def lo8_def hi8_def)

lemma rd16_inj:
  assumes "rd16 [a, b] = rd16 [c, d]"
  shows "a = c \<and> b = d"
proof -
  have lo: "lo8 (rd16 [x, y]) = x" and hi: "hi8 (rd16 [x, y]) = y" for x y
    using no_high_bits [of 8 x]
    by (auto simp: lo8_def hi8_def rd16_def bit_simps intro!: bit_word_eqI)
  show ?thesis using assms lo hi by metis
qed

section \<open>Invariant\<close>

text \<open>
  The buffers have their sizes and the receive counter stays below the last byte. While a
  request is under way its function is one of the four that \<open>modbus_master_send\<close> accepts, and
  at least five bytes are expected.
\<close>

definition modbus_inv :: "'cb modbus \<Rightarrow> bool" where
  "modbus_inv m \<longleftrightarrow>
     length (send_buf m) = SEND_BUF_SIZE \<and> length (receive_buf m) = RECEIVE_BUF_SIZE \<and>
     unat (receive_counter m) \<le> RECEIVE_BUF_SIZE - 1 \<and>
     (busy m \<longrightarrow> req_func (last_request m) \<in> {3, 4, 6, 16} \<and> 5 \<le> unat (answer_len m))"

lemma modbus_start_inv [inv_rules]: "modbus_inv modbus_start"
  by (simp add: modbus_inv_def modbus_start_def)

text \<open>The receive loop in closed form.\<close>

lemma rx_stuck:
  assumes "fifo \<noteq> []" and "\<not> receive_counter m < of_nat (RECEIVE_BUF_SIZE - 1)"
  shows "while_option (\<lambda>(fifo, _). fifo \<noteq> []) rx_step (fifo, m) = None"
proof (rule ccontr)
  assume "while_option (\<lambda>(fifo, _). fifo \<noteq> []) rx_step (fifo, m) \<noteq> None"
  then obtain t where t: "while_option (\<lambda>(fifo, _). fifo \<noteq> []) rx_step (fifo, m) = Some t"
    by blast
  have "t = (fifo, m)"
    by (rule while_option_rule [where P = "\<lambda>x. x = (fifo, m)", OF _ t])
      (use assms in \<open>simp_all add: rx_step_def\<close>)
  with while_option_stop [OF t] assms(1) show False by simp
qed

lemma rx_loop:
  assumes "unat (receive_counter m) = k" and "k \<le> 255" and "length (receive_buf m) = 256"
  shows "while_option (\<lambda>(fifo, _). fifo \<noteq> []) rx_step (fifo, m) =
     (if fifo = [] \<or> k + length fifo \<le> 255
      then Some ([], m\<lparr>receive_buf := take k (receive_buf m) @ fifo @ drop (k + length fifo) (receive_buf m),
               receive_counter := receive_counter m + of_nat (length fifo)\<rparr>)
      else None)"
  using assms
proof (induction fifo arbitrary: m k)
  case Nil
  then show ?case by (subst while_option_unfold) simp
next
  case (Cons x fifo)
  show ?case
  proof (cases "receive_counter m < 255")
    case False
    then have "k = 255" using Cons.prems by (simp add: word_less_nat_alt)
    with rx_stuck [of "x # fifo" m] False show ?thesis
      by (simp add: RECEIVE_BUF_SIZE_def)
  next
    case True
    then have k: "k < 255" using Cons.prems by (simp add: word_less_nat_alt)
    let ?m = "m\<lparr>receive_buf := (receive_buf m)[k := x], receive_counter := receive_counter m + 1\<rparr>"
    have k1: "unat (receive_counter ?m) = Suc k"
      using Cons.prems(1) k by (simp add: unat_word_ariths)
    have step: "while_option (\<lambda>(fifo, _). fifo \<noteq> []) rx_step (x # fifo, m) =
        while_option (\<lambda>(fifo, _). fifo \<noteq> []) rx_step (fifo, ?m)"
      using True Cons.prems(1) by (subst while_option_unfold) (simp add: rx_step_def RECEIVE_BUF_SIZE_def)
    have "take (Suc k) ((receive_buf m)[k := x]) = take k (receive_buf m) @ [x]"
      using k Cons.prems(3) by (simp add: take_Suc_conv_app_nth)
    then show ?thesis
      unfolding step using Cons.IH [OF k1] k Cons.prems(3)
      by (auto simp: drop_update_cancel add.assoc)
  qed
qed

lemma modbus_rx_irq_outcome':
  assumes "modbus_inv m"
  shows "modbus_master_uart_rx_irq fifo m =
     (let k = unat (receive_counter m)
      in if fifo = [] \<or> k + length fifo \<le> 255
      then Some (m\<lparr>receive_buf := take k (receive_buf m) @ fifo @ drop (k + length fifo) (receive_buf m),
               receive_counter := receive_counter m + of_nat (length fifo)\<rparr>)
      else None)"
  using rx_loop [OF refl, of m fifo] assms
  by (simp add: modbus_master_uart_rx_irq_def modbus_inv_def RECEIVE_BUF_SIZE_def Let_def)

text \<open>
  C36: the receive interrupt stores the bytes of the UART behind those already received, as long
  as they fit into the first 255 bytes of the buffer. If one byte more is waiting, the handler
  neither reads it nor leaves its loop: it never returns, and the whole firmware stops.
\<close>

theorem modbus_rx_irq_outcome:
  assumes "modbus_inv m"
  defines "k \<equiv> unat (receive_counter m)"
  shows "modbus_master_uart_rx_irq fifo m =
     (if fifo = [] \<or> k + length fifo \<le> 255
      then Some (m\<lparr>receive_buf := take k (receive_buf m) @ fifo @ drop (k + length fifo) (receive_buf m),
               receive_counter := receive_counter m + of_nat (length fifo)\<rparr>)
      else None)"
  using modbus_rx_irq_outcome' [OF assms(1)] by (simp add: Let_def k_def)

section \<open>Requests on the wire\<close>

text \<open>The frame of a read request (functions 3 and 4).\<close>

definition read_head :: "'cb modbus_request \<Rightarrow> u8 list" where
  "read_head q = [req_id q, req_func q, hi8 (reg_addr q), lo8 (reg_addr q),
     hi8 (reg_length q), lo8 (reg_length q)]"

definition with_crc :: "u8 list \<Rightarrow> u8 list" where
  "with_crc bs = bs @ [lo8 (modbus_crc bs), hi8 (modbus_crc bs)]"

lemma with_crc_residue: "modbus_crc (with_crc bs) = 0"
  using modbus_residue [of "modbus_crc bs"] by (simp add: with_crc_def)

lemma length_with_crc [simp]: "length (with_crc bs) = length bs + 2"
  by (simp add: with_crc_def)

lemma eight_bytes:
  assumes "8 \<le> length b"
  obtains x0 x1 x2 x3 x4 x5 x6 x7 r where "b = x0 # x1 # x2 # x3 # x4 # x5 # x6 # x7 # r"
  using assms that by (auto simp: eval_nat_numeral Suc_le_length_iff)

lemma length_read_head [simp]: "length (read_head q) = 6"
  by (simp add: read_head_def)

lemma stores_head:
  assumes "8 \<le> length b"
  shows "store 0 v0 b = Some (v0 # drop 1 b)"
    and "stores [(1, v1), (2, v2), (3, v3), (4, v4), (5, v5)] (v0 # drop 1 b) =
      Some ([v0, v1, v2, v3, v4, v5] @ drop 6 b)"
    and "stores [(6, v6), (7, v7)] ([v0, v1, v2, v3, v4, v5] @ drop 6 b) =
      Some ([v0, v1, v2, v3, v4, v5, v6, v7] @ drop 8 b)"
proof -
  obtain x0 x1 x2 x3 x4 x5 x6 x7 r where "b = x0 # x1 # x2 # x3 # x4 # x5 # x6 # x7 # r"
    using eight_bytes [OF assms] .
  then show "store 0 v0 b = Some (v0 # drop 1 b)"
    and "stores [(1, v1), (2, v2), (3, v3), (4, v4), (5, v5)] (v0 # drop 1 b) =
      Some ([v0, v1, v2, v3, v4, v5] @ drop 6 b)"
    and "stores [(6, v6), (7, v7)] ([v0, v1, v2, v3, v4, v5] @ drop 6 b) =
      Some ([v0, v1, v2, v3, v4, v5, v6, v7] @ drop 8 b)"
    by (simp_all add: store_def eval_nat_numeral)
qed

lemma modbus_build_read:
  assumes "8 \<le> length (send_buf m)" and "req_func q = 3 \<or> req_func q = 4"
  shows "modbus_build q m = Some (ERR_SUCCESS, m\<lparr>send_buf := read_head q @ drop 6 (send_buf m),
     answer_len := 5 + ucast (reg_length q) * 2, send_counter := 8\<rparr>)"
  using assms(2)
  by (simp only: modbus_build_def stores_head [OF assms(1)] option.case if_True read_head_def)

lemma modbus_send_read:
  assumes "modbus_inv m" and "\<not> busy m" and "req_func q = 3 \<or> req_func q = 4"
  shows "modbus_master_send (Some q) m c =
     Some (ERR_SUCCESS,
       m\<lparr>send_buf := with_crc (read_head q) @ drop 8 (send_buf m),
         answer_len := 5 + ucast (reg_length q) * 2, send_counter := 8, busy := True,
         receive_counter := 0, receive_buf := replicate RECEIVE_BUF_SIZE 0,
         sent := sent m @ [with_crc (read_head q)], last_request := q,
         send_ts := fst (get_time_ms c)\<rparr>, snd (get_time_ms c))"
proof -
  have len: "length (send_buf m) = 32"
    using assms(1) by (simp add: modbus_inv_def SEND_BUF_SIZE_def)
  then have len8: "8 \<le> length (send_buf m)" by simp
  let ?b = "read_head q @ drop 6 (send_buf m)"
  have crc: "crc_chk ?b 6 = Some (modbus_crc (read_head q))"
    using len by (simp add: crc_chk_fold)
  have st: "stores [(6, lo8 w), (7, hi8 w)] ?b = Some (read_head q @ lo8 w # hi8 w # drop 8 (send_buf m))"
    for w
    unfolding read_head_def stores_head(3) [OF len8] by simp
  show ?thesis
    using assms(2) len modbus_build_read [OF len8 assms(3)]
    by (simp add: modbus_master_send_def Let_def crc st with_crc_def split_beta del: stores.simps)
qed

lemma modbus_send_inv:
  assumes "modbus_inv m" and "\<not> busy m" and "req_func q = 3 \<or> req_func q = 4"
    and "modbus_master_send (Some q) m c = Some (err, m', c')"
  shows "modbus_inv m' \<and> busy m' \<and> last_request m' = q \<and> receive_counter m' = 0 \<and>
     answer_len m' = 5 + ucast (reg_length q) * 2 \<and> receive_buf m' = replicate RECEIVE_BUF_SIZE 0"
proof -
  have "5 \<le> unat (5 + ucast (reg_length q) * 2 :: u32)"
    using unsigned_less [of "reg_length q", where ?'a = nat]
    by (simp add: unat_word_ariths unsigned_ucast_eq take_bit_nat_eq_self)
  then show ?thesis
    using assms modbus_send_read [OF assms(1-3), of c]
    by (auto simp: modbus_inv_def SEND_BUF_SIZE_def)
qed

section \<open>Answers\<close>

text \<open>The bytes of an answer arrive in any number of interrupts.\<close>

fun rx_irqs :: "u8 list list \<Rightarrow> 'cb modbus \<Rightarrow> 'cb modbus option" where
  "rx_irqs [] m = Some m"
| "rx_irqs (fifo # fs) m =
     (case modbus_master_uart_rx_irq fifo m of None \<Rightarrow> None | Some m1 \<Rightarrow> rx_irqs fs m1)"

definition received :: "u8 list \<Rightarrow> 'cb modbus \<Rightarrow> 'cb modbus" where
  "received bs m =
     (let k = unat (receive_counter m)
      in m\<lparr>receive_buf := take k (receive_buf m) @ bs @ drop (k + length bs) (receive_buf m),
           receive_counter := receive_counter m + of_nat (length bs)\<rparr>)"

lemma unat_received:
  assumes "unat (receive_counter m) + length bs \<le> 255"
  shows "unat (receive_counter (received bs m)) = unat (receive_counter m) + length bs"
  using assms by (simp add: received_def Let_def unat_word_ariths unat_of_nat)

lemma received_inv [inv_rules]:
  assumes "modbus_inv m" and "unat (receive_counter m) + length bs \<le> 255"
  shows "modbus_inv (received bs m)"
  using assms unat_received [OF assms(2)]
  by (simp add: modbus_inv_def received_def Let_def RECEIVE_BUF_SIZE_def)

lemma received_append:
  assumes "unat (receive_counter m) + length (xs @ ys) \<le> 255"
    and "length (receive_buf m) = 256"
  shows "received ys (received xs m) = received (xs @ ys) m"
proof -
  let ?k = "unat (receive_counter m)"
  have k: "unat (receive_counter m + of_nat (length xs)) = ?k + length xs"
    using unat_received [of m xs] assms(1) by (simp add: received_def Let_def)
  show ?thesis
    using assms by (simp add: received_def Let_def k ac_simps)
qed

lemma rx_irqs_received:
  assumes "modbus_inv m" and "unat (receive_counter m) + length (concat chunks) \<le> 255"
  shows "rx_irqs chunks m = Some (received (concat chunks) m)"
  using assms
proof (induction chunks arbitrary: m)
  case Nil
  then show ?case by (simp add: received_def Let_def)
next
  case (Cons x chunks)
  have fit: "unat (receive_counter m) + length x \<le> 255" using Cons.prems(2) by simp
  have "modbus_master_uart_rx_irq x m = Some (received x m)"
    using modbus_rx_irq_outcome' [OF Cons.prems(1), of x] fit by (simp add: received_def Let_def)
  moreover have "rx_irqs chunks (received x m) = Some (received (concat chunks) (received x m))"
    using Cons.prems fit by (intro Cons.IH received_inv) (simp_all add: unat_received)
  ultimately show ?case
    using Cons.prems by (simp add: received_append modbus_inv_def RECEIVE_BUF_SIZE_def)
qed

text \<open>The decoder in closed form, for an answer that has arrived completely.\<close>

definition answer_call :: "'cb modbus \<Rightarrow> u8 list \<Rightarrow> modbus_call" where
  "answer_call m b =
     (if b ! 1 = 3 \<or> b ! 1 = 4
      then \<lparr>status = MODBUS_ERR_SUCCESS, raw_answer = Some b, raw_len = ucast (answer_len m),
            payload = Some (drop 3 b), payload_len = b ! 2\<rparr>
      else \<lparr>status = MODBUS_ERR_SUCCESS, raw_answer = Some b, raw_len = ucast (answer_len m),
            payload = None, payload_len = 0\<rparr>)"

definition frame_ok :: "nat \<Rightarrow> u8 list \<Rightarrow> bool" where
  "frame_ok n b \<longleftrightarrow> take n b = with_crc (take (n - 2) b)"

lemma frame_ok_iff:
  assumes "2 \<le> n" and "n \<le> length b"
  shows "frame_ok n b \<longleftrightarrow> modbus_crc (take (n - 2) b) = rd16 [b ! (n - 2), b ! (n - 1)]"
proof -
  obtain k where n: "n = Suc (Suc k)" using assms(1) by (metis add_2_eq_Suc le_Suc_ex)
  have "take n b = take (n - 2) b @ [b ! (n - 2), b ! (n - 1)]"
    using assms(2) by (simp add: n take_Suc_conv_app_nth)
  then have "frame_ok n b \<longleftrightarrow>
      [b ! (n - 2), b ! (n - 1)] = [lo8 (modbus_crc (take (n - 2) b)), hi8 (modbus_crc (take (n - 2) b))]"
    by (simp add: frame_ok_def with_crc_def)
  then show ?thesis
    using rd16_inj [of "b ! (n - 2)" "b ! (n - 1)"] rd16_lo_hi by (metis list.inject)
qed

lemma decode_modbus_complete:
  assumes "modbus_inv m" and "busy m" and "length b = 256"
    and "answer_len m \<le> ucast sz" and "unat (answer_len m) \<le> 255"
  shows "decode_modbus (Some b) sz m =
     (if b ! 0 \<noteq> req_id (last_request m) \<or> b ! 1 \<noteq> req_func (last_request m)
      then Some (ERR_FAIL, cb_call m (error_call MODBUS_ERR_UNKNOWN))
      else if \<not> frame_ok (unat (answer_len m)) b
      then Some (ERR_FAIL, cb_call m (error_call MODBUS_ERR_CRC))
      else Some (ERR_SUCCESS, cb_call m (answer_call m b)))"
proof -
  let ?n = "unat (answer_len m)"
  have n: "5 \<le> ?n" "req_func (last_request m) \<in> {3, 4, 6, 16}"
    using assms(1,2) by (simp_all add: modbus_inv_def)
  have sub: "unat (answer_len m - 2) = ?n - 2" "unat (answer_len m - 1) = ?n - 1"
    using n(1) by (simp_all add: unat_sub word_le_nat_alt)
  have "unat (ucast (answer_len m - 2) :: u8) = ?n - 2"
    using assms(5) by (simp add: unsigned_ucast_eq sub take_bit_nat_eq_self)
  then have crc: "crc_chk b (ucast (answer_len m - 2)) = Some (modbus_crc (take (?n - 2) b))"
    using assms(3,5) by (simp add: crc_chk_fold)
  have sz: "sz \<noteq> 0" using assms(4) n(1) by auto
  have ok: "frame_ok ?n b \<longleftrightarrow> modbus_crc (take (?n - 2) b) = rd16 [b ! (?n - 2), b ! (?n - 1)]"
    using n(1) assms(3,5) by (intro frame_ok_iff) simp_all
  show ?thesis
    using assms(3-5) n by (auto simp: decode_modbus_def sz crc sub Let_def ok answer_call_def not_le)
qed

lemma with_crc_corrupted:
  assumes "i < length bs + 2" and "x \<noteq> with_crc bs ! i"
  shows "\<not> frame_ok (length bs + 2) ((with_crc bs)[i := x])"
proof (cases "i < length bs")
  case True
  have a: "(with_crc bs)[i := x] = bs[i := x] @ [lo8 (modbus_crc bs), hi8 (modbus_crc bs)]"
    using True by (simp add: with_crc_def list_update_append)
  have "modbus_crc (bs[i := x]) \<noteq> modbus_crc bs"
    using modbus_engine.single_byte_update_detected [OF True, of x] True assms(2)
    by (simp add: with_crc_def nth_append)
  then have "\<not> (lo8 (modbus_crc bs) = lo8 (modbus_crc (bs[i := x])) \<and>
      hi8 (modbus_crc bs) = hi8 (modbus_crc (bs[i := x])))"
    using rd16_lo_hi by metis
  then show ?thesis
    unfolding a unfolding frame_ok_def with_crc_def by simp
next
  case False
  have "take (length bs) ((with_crc bs)[i := x]) = bs"
    using False by (simp add: with_crc_def list_update_append)
  moreover have "(with_crc bs)[i := x] \<noteq> with_crc bs"
    using assms by (metis length_with_crc nth_list_update_eq)
  ultimately show ?thesis
    by (simp add: frame_ok_def)
qed

lemma routine_complete:
  assumes "modbus_inv m" and "busy m" and "answer_len m \<le> receive_counter m"
    and "unat (answer_len m) \<le> 255"
  shows "modbus_master_routine m c =
     map_option (\<lambda>r. (snd r, m\<lparr>busy := False\<rparr>, snd (get_time_ms c)))
       (decode_modbus (Some (receive_buf m)) (ucast (receive_counter m)) m)"
  using assms
  by (simp add: modbus_master_routine_def Let_def split_beta split: option.split)

lemma size_u16:
  assumes "modbus_inv m" and "answer_len m \<le> receive_counter m"
  shows "answer_len m \<le> ucast (ucast (receive_counter m) :: u16)"
proof -
  have "unat (receive_counter m) < 2 ^ 16"
    using assms(1) by (simp add: modbus_inv_def RECEIVE_BUF_SIZE_def)
  then have "ucast (ucast (receive_counter m) :: u16) = receive_counter m"
    by (simp add: word_unat_eq_iff unsigned_ucast_eq unsigned_take_bit_eq take_bit_nat_eq_self)
  with assms(2) show ?thesis by simp
qed

lemma modbus_routine_total:
  assumes "modbus_inv m" and "busy m" and "unat (answer_len m) \<le> 255"
    and "req_cb (last_request m) = Some f"
  shows "\<exists>m' call. modbus_master_routine m c = Some (call, m', snd (get_time_ms c)) \<and>
     modbus_inv m' \<and> (busy m' \<longleftrightarrow> call = None) \<and>
     (call = None \<longleftrightarrow> receive_counter m < answer_len m \<and>
        fst (get_time_ms c) - send_ts m \<le> ucast (req_timeout (last_request m)))"
proof (cases "answer_len m \<le> receive_counter m")
  case True
  have len: "length (receive_buf m) = 256"
    using assms(1) by (simp add: modbus_inv_def RECEIVE_BUF_SIZE_def)
  have "modbus_inv (m\<lparr>busy := False\<rparr>)" using assms(1) by (simp add: modbus_inv_def)
  then show ?thesis
    using routine_complete [OF assms(1,2) True assms(3), of c] True
      decode_modbus_complete [OF assms(1,2) len size_u16 [OF assms(1) True] assms(3)]
    by (auto simp: cb_call_def assms(4) not_less)
next
  case False
  have "\<not> receive_counter m \<ge> 255"
    using False assms(3) by (auto simp: word_le_nat_alt)
  moreover have "modbus_inv (m\<lparr>busy := False\<rparr>)" using assms(1) by (simp add: modbus_inv_def)
  ultimately show ?thesis
    using False assms(1,2,4)
    by (auto simp: modbus_master_routine_def Let_def split_beta RECEIVE_BUF_SIZE_def cb_call_def
        not_le not_less)
qed


text \<open>The answer of a device to a read request, for the data bytes \<open>dat\<close>.\<close>

definition read_answer :: "'cb modbus_request \<Rightarrow> u8 list \<Rightarrow> u8 list" where
  "read_answer q dat = with_crc ([req_id q, req_func q, of_nat (length dat)] @ dat)"

text \<open>Request, answer in any number of interrupts, routine.\<close>

definition exchange ::
    "'cb modbus_request \<Rightarrow> u8 list list \<Rightarrow> 'cb modbus \<Rightarrow> clock \<Rightarrow>
     (('cb \<times> modbus_call) option \<times> 'cb modbus \<times> clock) option" where
  "exchange q chunks m c =
     (case modbus_master_send (Some q) m c of
        None \<Rightarrow> None
      | Some (err, m1, c1) \<Rightarrow>
          (case rx_irqs chunks m1 of
             None \<Rightarrow> None
           | Some m2 \<Rightarrow> modbus_master_routine m2 c1))"

lemma exchange_read:
  assumes "modbus_inv m" and "\<not> busy m" and "req_func q = 3 \<or> req_func q = 4"
    and "unat (reg_length q) \<le> 125" and "req_cb q = Some f"
    and "length (concat chunks) = 5 + 2 * unat (reg_length q)"
  defines "b \<equiv> concat chunks @ replicate (256 - length (concat chunks)) 0"
  shows "\<exists>m' c'. exchange q chunks m c = Some
     (Some (f,
        if b ! 0 \<noteq> req_id q \<or> b ! 1 \<noteq> req_func q then error_call MODBUS_ERR_UNKNOWN
        else if \<not> frame_ok (length (concat chunks)) (concat chunks) then error_call MODBUS_ERR_CRC
        else \<lparr>status = MODBUS_ERR_SUCCESS, raw_answer = Some b,
              raw_len = 5 + 2 * reg_length q, payload = Some (drop 3 b), payload_len = b ! 2\<rparr>),
      m', c') \<and> modbus_inv m' \<and> \<not> busy m'"
proof -
  let ?bs = "concat chunks"
  obtain m1 c1 where send: "modbus_master_send (Some q) m c = Some (ERR_SUCCESS, m1, c1)"
    using modbus_send_read [OF assms(1-3)] by simp
  note m1 = modbus_send_inv [OF assms(1-3) send]
  let ?m = "received ?bs m1"
  have fit: "unat (receive_counter m1) + length ?bs \<le> 255"
    using m1 assms(4,6) by simp
  have rx: "rx_irqs chunks m1 = Some ?m"
    using m1 fit by (intro rx_irqs_received) simp_all
  have al: "unat (answer_len ?m) = 5 + 2 * unat (reg_length q)"
    using m1 assms(4)
    by (simp add: received_def Let_def unat_word_ariths unsigned_ucast_eq take_bit_nat_eq_self)
  have m2: "busy ?m" "last_request ?m = q" "receive_buf ?m = b"
    using m1 assms(6) by (simp_all add: received_def Let_def b_def RECEIVE_BUF_SIZE_def)
  have inv: "modbus_inv ?m" using m1 fit by (intro received_inv) simp_all
  have le: "answer_len ?m \<le> receive_counter ?m"
    using unat_received [OF fit] m1 assms(6) by (simp add: word_le_nat_alt al)
  have alb: "unat (answer_len ?m) \<le> 255" using al assms(4) by simp
  have blen: "length b = 256" using assms(4,6) by (simp add: b_def)
  have tb: "frame_ok (length ?bs) b = frame_ok (length ?bs) ?bs"
    by (simp add: frame_ok_def b_def)
  have al16: "ucast (answer_len ?m) = 5 + 2 * reg_length q"
    using al assms(4)
    by (simp add: word_unat_eq_iff unsigned_ucast_eq unat_word_ariths take_bit_nat_eq_self)
  have dec: "decode_modbus (Some b) (ucast (receive_counter ?m)) ?m =
     (if b ! 0 \<noteq> req_id q \<or> b ! 1 \<noteq> req_func q
      then Some (ERR_FAIL, cb_call ?m (error_call MODBUS_ERR_UNKNOWN))
      else if \<not> frame_ok (length ?bs) ?bs then Some (ERR_FAIL, cb_call ?m (error_call MODBUS_ERR_CRC))
      else Some (ERR_SUCCESS, cb_call ?m (answer_call ?m b)))"
    using decode_modbus_complete [OF inv m2(1) blen size_u16 [OF inv le] alb] al tb assms(6)
    by (simp only: m2)
  have "modbus_inv (?m\<lparr>busy := False\<rparr>)" using inv by (simp add: modbus_inv_def)
  then show ?thesis
    using routine_complete [OF inv m2(1) le alb, of c1] assms(3)
    by (auto simp: exchange_def send rx m2 dec cb_call_def assms(5) answer_call_def al16)
qed

text \<open>
  C27: a complete exchange. A free master that sends a read request (function 3 or 4, at most
  125 registers) and receives the device's answer, in any number of interrupts, calls the
  callback once with \<open>MODBUS_ERR_SUCCESS\<close> and exactly the data bytes of the device, and is free
  again.
\<close>

theorem modbus_read_exchange:
  assumes "modbus_inv m" and "\<not> busy m" and "req_func q = 3 \<or> req_func q = 4"
    and "unat (reg_length q) \<le> 125" and "req_cb q = Some f"
    and "length dat = 2 * unat (reg_length q)" and "concat chunks = read_answer q dat"
  shows "\<exists>m' c' call mem. exchange q chunks m c = Some (Some (f, call), m', c') \<and>
     modbus_inv m' \<and> \<not> busy m' \<and> status call = MODBUS_ERR_SUCCESS \<and>
     unat (payload_len call) = length dat \<and> payload call = Some mem \<and>
     take (length dat) mem = dat"
proof -
  have len: "length (concat chunks) = 5 + 2 * unat (reg_length q)"
    using assms(6) by (simp add: assms(7) read_answer_def)
  have ok: "frame_ok (length (concat chunks)) (concat chunks)"
    by (simp add: frame_ok_def assms(7) read_answer_def with_crc_def)
  have pl: "unat (of_nat (length dat) :: u8) = length dat"
    unfolding unat_of_nat using assms(4,6) by simp
  show ?thesis
    using exchange_read [OF assms(1-5) len, of c] ok pl
    by (auto simp: assms(7) read_answer_def with_crc_def)
qed

lemma corrupted_answer_call:
  assumes "modbus_inv m" and "\<not> busy m" and "req_func q = 3 \<or> req_func q = 4"
    and "unat (reg_length q) \<le> 125" and "req_cb q = Some f"
    and "length dat = 2 * unat (reg_length q)"
    and "i < length (read_answer q dat)" and "x \<noteq> read_answer q dat ! i"
    and "concat chunks = (read_answer q dat)[i := x]"
  shows "\<exists>m' c' call. exchange q chunks m c = Some (Some (f, call), m', c') \<and>
     status call \<in> {MODBUS_ERR_UNKNOWN, MODBUS_ERR_CRC} \<and> payload call = None"
proof -
  let ?n = "5 + 2 * unat (reg_length q)"
  have len: "length (concat chunks) = ?n"
    using assms(6) by (simp add: assms(9) read_answer_def)
  have "\<not> frame_ok ?n (concat chunks)"
    using with_crc_corrupted [OF assms(7,8) [unfolded read_answer_def length_with_crc]] assms(6)
    by (simp add: assms(9) read_answer_def eval_nat_numeral)
  then show ?thesis
    using exchange_read [OF assms(1-5) len, of c] by (auto simp: error_call_def len)
qed

text \<open>
  C28: a transmission error in any single byte of the answer, the header and the checksum
  included, is detected: the callback is told of an error and gets no data.
\<close>

theorem modbus_corrupted_answer:
  assumes "modbus_inv m" and "\<not> busy m" and "req_func q = 3 \<or> req_func q = 4"
    and "unat (reg_length q) \<le> 125" and "req_cb q = Some f"
    and "length dat = 2 * unat (reg_length q)"
    and "i < length (read_answer q dat)" and "x \<noteq> read_answer q dat ! i"
    and "concat chunks = (read_answer q dat)[i := x]"
  shows "\<exists>m' c' call. exchange q chunks m c = Some (Some (f, call), m', c') \<and>
     status call \<in> {MODBUS_ERR_UNKNOWN, MODBUS_ERR_CRC} \<and> payload call = None"
  by (rule corrupted_answer_call [OF assms])

section \<open>The size of the send buffer\<close>

lemma copy_data_None:
  "copy_data is dat b = None \<longleftrightarrow> (\<exists>i \<in> set is. length dat \<le> i \<or> length b \<le> 7 + i)"
  by (induction "is" dat b rule: copy_data.induct)
    (auto simp: store_def not_le)

lemma copy_data_length: "copy_data is dat b = Some b1 \<Longrightarrow> length b1 = length b"
  by (induction "is" dat b rule: copy_data.induct)
    (auto dest: store_length split: option.splits if_splits)

lemma modbus_build_write:
  assumes "length (send_buf m) = 32" and "req_func q = 16" and "req_data q = Some dat"
    and "unat (lo8 (reg_length q * 2)) \<le> length dat"
  shows "if unat (lo8 (reg_length q * 2)) \<le> 25
     then \<exists>b. modbus_build q m = Some (ERR_SUCCESS,
            m\<lparr>send_buf := b, answer_len := 8, send_counter := 9 + ucast (lo8 (reg_length q * 2))\<rparr>) \<and>
          length b = 32
     else modbus_build q m = None"
proof -
  let ?cnt = "lo8 (reg_length q * 2)"
  obtain b0 where b0: "store 0 (req_id q) (send_buf m) = Some b0" "length b0 = 32"
    using store_None [of 0 "req_id q" "send_buf m"] store_length assms(1) by fastforce
  let ?ws = "[(1, req_func q), (2, hi8 (reg_addr q)), (3, lo8 (reg_addr q)),
    (4, hi8 (reg_length q)), (5, lo8 (reg_length q)), (6, ?cnt)]"
  obtain b1 where b1: "stores ?ws b0 = Some b1" "length b1 = 32"
    using stores_None [of ?ws b0] stores_length [of ?ws b0] b0(2) by (cases "stores ?ws b0") simp_all
  have c: "copy_data [0..<unat ?cnt] dat b1 = None \<longleftrightarrow> \<not> unat ?cnt \<le> 25"
    unfolding copy_data_None b1(2) using assms(4) by (auto intro!: bexI [of _ 25])
  show ?thesis
    using c copy_data_length [of "[0..<unat ?cnt]" dat b1] b1
    by (cases "copy_data [0..<unat ?cnt] dat b1")
      (auto simp: modbus_build_def b0(1) assms(2,3) Let_def simp del: stores.simps)
qed

text \<open>
  Function 16 (write several registers) is only safe for up to 11 registers, although the
  request carries up to 123: from 12 on, \<open>modbus_master_send\<close> writes the data or the checksum
  behind the end of the 32 byte \<open>send_buf\<close>.
\<close>

theorem modbus_write_overflow:
  assumes "modbus_inv m" and "\<not> busy m" and "req_func q = 16"
    and "req_data q = Some dat" and "unat (reg_length q) \<le> 123"
    and "length dat = 2 * unat (reg_length q)"
  shows "modbus_master_send (Some q) m c = None \<longleftrightarrow> 12 \<le> unat (reg_length q)"
proof -
  let ?r = "unat (reg_length q)"
  let ?cnt = "lo8 (reg_length q * 2)"
  have cnt: "unat ?cnt = 2 * ?r"
    using assms(5) by (simp add: lo8_def unsigned_ucast_eq unsigned_take_bit_eq unat_word_ariths
        take_bit_nat_eq_self)
  have len: "length (send_buf m) = 32"
    using assms(1) by (simp add: modbus_inv_def SEND_BUF_SIZE_def)
  note build = modbus_build_write [OF len assms(3,4)]
  show ?thesis
  proof (cases "2 * ?r \<le> 25")
    case False
    then show ?thesis
      using build assms(2,6) by (simp add: cnt modbus_master_send_def)
  next
    case True
    define n :: u32 where "n = 9 + ucast ?cnt"
    have n: "unat n = 9 + 2 * ?r" "unat (n - 2) = 7 + 2 * ?r" "unat (n - 1) = 8 + 2 * ?r"
      using True by (simp_all add: n_def unat_word_ariths unsigned_ucast_eq take_bit_nat_eq_self cnt
          unat_sub word_le_nat_alt)
    obtain b where b: "modbus_build q m = Some (ERR_SUCCESS,
        m\<lparr>send_buf := b, answer_len := 8, send_counter := n\<rparr>)" "length b = 32"
      using build assms(6) True by (auto simp: cnt n_def)
    have "unat (ucast (n - 2) :: u8) = 7 + 2 * ?r"
      using True by (simp add: unsigned_ucast_eq n take_bit_nat_eq_self)
    then obtain crc where crc: "crc_chk b (ucast (n - 2)) = Some crc"
      using True b(2) by (simp add: crc_chk_fold)
    have st: "stores [(unat (n - 2), lo8 crc), (unat (n - 1), hi8 crc)] b = None \<longleftrightarrow> 12 \<le> ?r"
      using True b(2) unfolding stores_None n by auto
    show ?thesis
      using assms(2) st stores_length [of "[(unat (n - 2), lo8 crc), (unat (n - 1), hi8 crc)]" b] True b(2)
      by (cases "stores [(unat (n - 2), lo8 crc), (unat (n - 1), hi8 crc)] b")
        (simp_all add: modbus_master_send_def b(1) Let_def crc n split_beta del: stores.simps)
  qed
qed

section \<open>Concrete exchanges\<close>

definition sample_request :: "nat modbus_request" where
  "sample_request = \<lparr>req_id = 2, req_func = 3, reg_addr = 0, reg_length = 1, req_data = None,
     req_timeout = 100, req_cb = Some 7\<rparr>"

lemma modbus_read_exchange_witness:
  "\<exists>m' c' call. exchange sample_request [[2], read_answer sample_request [1, 44] ! 1 # drop 2 (read_answer sample_request [1, 44])]
     modbus_start (clock_init (\<lambda>_. 5)) = Some (Some (7, call), m', c') \<and>
     status call = MODBUS_ERR_SUCCESS"
proof -
  have "concat [[2], read_answer sample_request [1, 44] ! 1 # drop 2 (read_answer sample_request [1, 44])] =
      read_answer sample_request [1, 44]"
    by (simp add: read_answer_def with_crc_def sample_request_def)
  from modbus_read_exchange [OF modbus_start_inv _ _ _ _ _ this, of 7 "clock_init (\<lambda>_. 5)"]
  show ?thesis
    by (auto simp: sample_request_def modbus_start_def)
qed

lemma modbus_corrupted_answer_witness:
  "\<exists>m' c' call. exchange sample_request [(read_answer sample_request [1, 44])[3 := 2]]
     modbus_start (clock_init (\<lambda>_. 5)) = Some (Some (7, call), m', c') \<and> payload call = None"
proof -
  have "concat [(read_answer sample_request [1, 44])[3 := 2]] = (read_answer sample_request [1, 44])[3 := 2]"
    by simp
  from modbus_corrupted_answer [OF modbus_start_inv _ _ _ _ _ _ _ this, of 7 "clock_init (\<lambda>_. 5)"]
  show ?thesis
    by (auto simp: sample_request_def modbus_start_def read_answer_def with_crc_def)
qed

lemma modbus_rx_irq_outcome_witness:
  "modbus_master_uart_rx_irq (replicate 256 0) (modbus_start :: nat modbus) = None"
  using modbus_rx_irq_outcome [OF modbus_start_inv, of "replicate 256 0"]
  by (simp add: modbus_start_def)

lemma modbus_write_overflow_witness:
  "modbus_master_send (Some (sample_request\<lparr>req_func := 16, reg_length := 12,
     req_data := Some (replicate 24 0)\<rparr>)) modbus_start (clock_init (\<lambda>_. 5)) = None"
  using modbus_write_overflow [OF modbus_start_inv, of "sample_request\<lparr>req_func := 16,
     reg_length := 12, req_data := Some (replicate 24 0)\<rparr>" "replicate 24 0" "clock_init (\<lambda>_. 5)"]
  by (simp add: modbus_start_def)


end
