(* ===== verification/Sensors.thy ===== *)
theory Sensors
  imports Settings Modbus
begin

text \<open>
  The distance sensors, \<open>src/stairway/stairway_sensors.c\<close>: two Modbus devices with two sensors
  each. \<open>stairway_sensors_routine\<close> polls the devices in turn, \<open>sensor_parse\<close> (the body of the
  two callbacks) stores an answer by physical sensor, and \<open>stairway_sensors_get\<close> gives the
  values by logical sensor, with the swap of the settings. The variant with
  \<open>EMULATE_SENSORS\<close> is not compiled. Arrays indexed by \<open>StairwaySensorType\<close> and \<open>DevId\<close> are
  functions.
\<close>

section \<open>State\<close>

datatype dev_id = DEV_ID_UP | DEV_ID_DOWN

record sensors_get =
  sens_dist :: "sensor \<Rightarrow> u16"
  sens_signal :: "sensor \<Rightarrow> u16"
  sens_state :: "sensor \<Rightarrow> bool"
  sens_error :: "sensor \<Rightarrow> bool"

record sensors =
  sensors_values :: sensors_get
  dev_error :: "dev_id \<Rightarrow> bool"
  request_ts :: u64
  next_dev :: dev_id

definition sensors_get_zero :: sensors_get where
  "sensors_get_zero = \<lparr>sens_dist = (\<lambda>_. 0), sens_signal = (\<lambda>_. 0), sens_state = (\<lambda>_. False),
     sens_error = (\<lambda>_. False)\<rparr>"

definition sensors_start :: sensors where
  "sensors_start = \<lparr>sensors_values = sensors_get_zero, dev_error = (\<lambda>_. False), request_ts = 0,
     next_dev = DEV_ID_UP\<rparr>"

definition MAX_RANGE :: u16 where "MAX_RANGE = 4000"
definition SIGNAL_THRESHOLD :: u16 where "SIGNAL_THRESHOLD = 15"
definition SENSOR_PAYLOAD_LEN :: u8 where "SENSOR_PAYLOAD_LEN = 12"
definition POLL_INTERVAL_MS :: u64 where "POLL_INTERVAL_MS = 40"

fun dev_first_sensor :: "dev_id \<Rightarrow> sensor" where
  "dev_first_sensor DEV_ID_UP = STAIRWAY_SENS_UP_FIRST"
| "dev_first_sensor DEV_ID_DOWN = STAIRWAY_SENS_DOWN_FIRST"

text \<open>The element of the enumeration \<open>n\<close> places after a sensor.\<close>

fun sensor_index :: "sensor \<Rightarrow> nat" where
  "sensor_index STAIRWAY_SENS_UP_FIRST = 0"
| "sensor_index STAIRWAY_SENS_UP_SECOND = 1"
| "sensor_index STAIRWAY_SENS_DOWN_FIRST = 2"
| "sensor_index STAIRWAY_SENS_DOWN_SECOND = 3"

definition sensor_plus :: "sensor \<Rightarrow> nat \<Rightarrow> sensor" where
  "sensor_plus s n = all_sensors ! (sensor_index s + n)"

lemma dev_sensors [simp]:
  "sensor_plus STAIRWAY_SENS_UP_FIRST 0 = STAIRWAY_SENS_UP_FIRST"
  "sensor_plus STAIRWAY_SENS_UP_FIRST (Suc 0) = STAIRWAY_SENS_UP_SECOND"
  "sensor_plus STAIRWAY_SENS_DOWN_FIRST 0 = STAIRWAY_SENS_DOWN_FIRST"
  "sensor_plus STAIRWAY_SENS_DOWN_FIRST (Suc 0) = STAIRWAY_SENS_DOWN_SECOND"
  by (simp_all add: sensor_plus_def all_sensors_def eval_nat_numeral)

section \<open>Receiving\<close>

text \<open>A big endian register of the payload: \<open>(payload[i] << 8) | payload[i + 1]\<close>.\<close>

definition be16 :: "u8 list \<Rightarrow> nat \<Rightarrow> u16" where
  "be16 p i = push_bit 8 (ucast (p ! i)) OR ucast (p ! Suc i)"

definition sensor_parse ::
    "dev_id \<Rightarrow> modbus_error \<Rightarrow> u8 list option \<Rightarrow> u8 list option \<Rightarrow> u8 \<Rightarrow> sensors \<Rightarrow>
     (err_code \<times> sensors) option" where
  "sensor_parse dev st raw_ans pl plen s =
     (if st \<noteq> MODBUS_ERR_SUCCESS then
        Some (ERR_FAIL, s\<lparr>dev_error := (dev_error s)(dev := True)\<rparr>)
      else
        (case raw_ans of
           None \<Rightarrow> None
         | Some r \<Rightarrow>
             if length r \<le> 1 then None
             else if r ! 1 = 3 \<or> r ! 1 = 4 then
               if plen < SENSOR_PAYLOAD_LEN then Some (ERR_FAIL, s)
               else
                 (case pl of
                    None \<Rightarrow> None
                  | Some p \<Rightarrow>
                      if length p < 12 then None
                      else
                        let first = sensor_plus (dev_first_sensor dev) 0;
                            second = sensor_plus (dev_first_sensor dev) 1;
                            error = be16 p 10;
                            v = sensors_values s
                        in Some (ERR_SUCCESS,
                             s\<lparr>dev_error := (dev_error s)(dev := False),
                               sensors_values := v
                                 \<lparr>sens_dist := (sens_dist v)(first := be16 p 2, second := be16 p 4),
                                  sens_signal := (sens_signal v)(first := be16 p 6, second := be16 p 8),
                                  sens_error := (sens_error v)(first := error AND 1 = 1,
                                    second := error AND 2 = 2)\<rparr>\<rparr>))
             else Some (ERR_SUCCESS, s)))"

text \<open>The two callbacks; a callback is identified by its device.\<close>

definition sensor_cb :: "dev_id \<Rightarrow> modbus_call \<Rightarrow> sensors \<Rightarrow> (err_code \<times> sensors) option" where
  "sensor_cb dev call s = sensor_parse dev (status call) (raw_answer call) (payload call) (payload_len call) s"

fun request :: "dev_id \<Rightarrow> dev_id modbus_request" where
  "request DEV_ID_UP = \<lparr>req_id = 2, req_func = 3, reg_addr = 0, reg_length = 6, req_data = None,
     req_timeout = 100, req_cb = Some DEV_ID_UP\<rparr>"
| "request DEV_ID_DOWN = \<lparr>req_id = 1, req_func = 3, reg_addr = 0, reg_length = 6, req_data = None,
     req_timeout = 100, req_cb = Some DEV_ID_DOWN\<rparr>"

section \<open>Polling\<close>

text \<open>\<open>(next_dev + 1) % DEV_ID_MAX\<close>\<close>

fun dev_succ :: "dev_id \<Rightarrow> dev_id" where
  "dev_succ DEV_ID_UP = DEV_ID_DOWN"
| "dev_succ DEV_ID_DOWN = DEV_ID_UP"

definition run_callback ::
    "(dev_id \<times> modbus_call) option \<Rightarrow> sensors \<Rightarrow> sensors option" where
  "run_callback call s =
     (case call of None \<Rightarrow> Some s | Some (dev, c) \<Rightarrow> map_option snd (sensor_cb dev c s))"

definition stairway_sensors_routine ::
    "sensors \<Rightarrow> dev_id modbus \<Rightarrow> clock \<Rightarrow> (sensors \<times> dev_id modbus \<times> clock) option" where
  "stairway_sensors_routine s m c =
     (case modbus_master_routine m c of
        None \<Rightarrow> None
      | Some (call, m1, c1) \<Rightarrow>
          (case run_callback call s of
             None \<Rightarrow> None
           | Some s1 \<Rightarrow>
               let (ts, c2) = get_time_ms c1
               in if \<not> modbus_master_get_busy m1 \<and> ts - request_ts s1 \<ge> POLL_INTERVAL_MS then
                    (case modbus_master_send (Some (request (next_dev s1))) m1 c2 of
                       None \<Rightarrow> None
                     | Some (_, m2, c3) \<Rightarrow>
                         Some (s1\<lparr>request_ts := ts, next_dev := dev_succ (next_dev s1)\<rparr>, m2, c3))
                  else Some (s1, m1, c2)))"

section \<open>Reading\<close>

text \<open>One turn of the loop of \<open>fill_device_values\<close>, and the loop.\<close>

definition fill_device_value ::
    "settings \<Rightarrow> sensors \<Rightarrow> dev_id \<Rightarrow> bool \<Rightarrow> nat \<Rightarrow> sensors_get \<Rightarrow> sensors_get" where
  "fill_device_value st s dev swap i v =
     (let first = dev_first_sensor dev;
          dst = sensor_plus first i;
          src = if swap then sensor_plus first (1 - i) else dst
      in if dev_error s dev then
           v\<lparr>sens_error := (sens_error v)(dst := True), sens_state := (sens_state v)(dst := False),
             sens_dist := (sens_dist v)(dst := 0), sens_signal := (sens_signal v)(dst := 0)\<rparr>
         else
           let dist = if sens_signal (sensors_values s) src \<ge> SIGNAL_THRESHOLD
                      then sens_dist (sensors_values s) src else MAX_RANGE
           in v\<lparr>sens_error := (sens_error v)(dst := sens_error (sensors_values s) src),
                sens_signal := (sens_signal v)(dst := sens_signal (sensors_values s) src),
                sens_dist := (sens_dist v)(dst := dist),
                sens_state := (sens_state v)(dst := dist < dist_trigger st dst)\<rparr>)"

definition fill_device_values ::
    "settings \<Rightarrow> sensors \<Rightarrow> sensors_get \<Rightarrow> dev_id \<Rightarrow> bool \<Rightarrow> sensors_get" where
  "fill_device_values st s v dev swap = fold (fill_device_value st s dev swap) [0..<2] v"

definition stairway_sensors_get ::
    "settings \<Rightarrow> sensors \<Rightarrow> sensors_get option \<Rightarrow> err_code \<times> sensors_get option" where
  "stairway_sensors_get st s value =
     (case value of
        None \<Rightarrow> (ERR_PARAM_IS_NULL, None)
      | Some v \<Rightarrow>
          (ERR_SUCCESS,
           Some (fill_device_values st s (fill_device_values st s v DEV_ID_UP (sensor_up_swap st))
             DEV_ID_DOWN (sensor_down_swap st))))"

section \<open>Logical sensors\<close>

fun dev_of :: "sensor \<Rightarrow> dev_id" where
  "dev_of STAIRWAY_SENS_UP_FIRST = DEV_ID_UP"
| "dev_of STAIRWAY_SENS_UP_SECOND = DEV_ID_UP"
| "dev_of STAIRWAY_SENS_DOWN_FIRST = DEV_ID_DOWN"
| "dev_of STAIRWAY_SENS_DOWN_SECOND = DEV_ID_DOWN"

fun partner :: "sensor \<Rightarrow> sensor" where
  "partner STAIRWAY_SENS_UP_FIRST = STAIRWAY_SENS_UP_SECOND"
| "partner STAIRWAY_SENS_UP_SECOND = STAIRWAY_SENS_UP_FIRST"
| "partner STAIRWAY_SENS_DOWN_FIRST = STAIRWAY_SENS_DOWN_SECOND"
| "partner STAIRWAY_SENS_DOWN_SECOND = STAIRWAY_SENS_DOWN_FIRST"

fun swapped :: "settings \<Rightarrow> dev_id \<Rightarrow> bool" where
  "swapped st DEV_ID_UP = sensor_up_swap st"
| "swapped st DEV_ID_DOWN = sensor_down_swap st"

text \<open>The physical sensor behind a logical one, and the distance that is reported for it.\<close>

definition physical :: "settings \<Rightarrow> sensor \<Rightarrow> sensor" where
  "physical st l = (if swapped st (dev_of l) then partner l else l)"

definition reported_dist :: "sensors \<Rightarrow> sensor \<Rightarrow> u16" where
  "reported_dist s p =
     (if sens_signal (sensors_values s) p \<ge> SIGNAL_THRESHOLD then sens_dist (sensors_values s) p
      else MAX_RANGE)"

lemma sensors_get_rows:
  "\<exists>r. stairway_sensors_get st s (Some v) = (ERR_SUCCESS, Some r) \<and>
     (\<forall>l. let p = physical st l; failed = dev_error s (dev_of l) in
        sens_error r l = (failed \<or> sens_error (sensors_values s) p) \<and>
        sens_state r l = (\<not> failed \<and> reported_dist s p < dist_trigger st l) \<and>
        sens_dist r l = (if failed then 0 else reported_dist s p) \<and>
        sens_signal r l = (if failed then 0 else sens_signal (sensors_values s) p))"
proof -
  define r where "r = fill_device_values st s (fill_device_values st s v DEV_ID_UP (sensor_up_swap st))
    DEV_ID_DOWN (sensor_down_swap st)"
  have two: "[0..<2] = [0, Suc 0]" by (simp add: eval_nat_numeral)
  have "let p = physical st l; failed = dev_error s (dev_of l) in
      sens_error r l = (failed \<or> sens_error (sensors_values s) p) \<and>
      sens_state r l = (\<not> failed \<and> reported_dist s p < dist_trigger st l) \<and>
      sens_dist r l = (if failed then 0 else reported_dist s p) \<and>
      sens_signal r l = (if failed then 0 else sens_signal (sensors_values s) p)" for l
    unfolding r_def
    by (cases l; cases "dev_error s DEV_ID_UP"; cases "dev_error s DEV_ID_DOWN")
      (simp_all add: fill_device_values_def fill_device_value_def two Let_def physical_def
        reported_dist_def)
  moreover have "stairway_sensors_get st s (Some v) = (ERR_SUCCESS, Some r)"
    by (simp add: stairway_sensors_get_def r_def)
  ultimately show ?thesis by blast
qed

lemma sensors_get_state:
  "\<exists>r. stairway_sensors_get st s (Some v) = (ERR_SUCCESS, Some r) \<and>
     sens_state r l = (\<not> dev_error s (dev_of l) \<and>
       reported_dist s (physical st l) < dist_trigger st l)"
  using sensors_get_rows [of st s v] by (auto simp: Let_def)

text \<open>
  \<open>stairway_sensors_get\<close> as a table over the four logical sensors, whatever the output
  structure held before. The sensors of a failed device report an error, no detection and
  zeros; any other reports the physical sensor behind it, and is active when the distance is
  below the trigger distance of the logical sensor.
\<close>

theorem stairway_sensors_get_table:
  "\<exists>r. stairway_sensors_get st s (Some v) = (ERR_SUCCESS, Some r) \<and>
     (\<forall>l. let p = physical st l; failed = dev_error s (dev_of l) in
        sens_error r l = (failed \<or> sens_error (sensors_values s) p) \<and>
        sens_state r l = (\<not> failed \<and> reported_dist s p < dist_trigger st l) \<and>
        sens_dist r l = (if failed then 0 else reported_dist s p) \<and>
        sens_signal r l = (if failed then 0 else sens_signal (sensors_values s) p))"
  by (rule sensors_get_rows)

text \<open>
  A weak signal is meant to report "nothing in range" (comment in \<open>fill_device_values\<close>), but
  it is reported as the distance 4000, and nothing bounds the configured trigger distance:
  with a trigger above 4000 a working sensor with a weak signal is active.
\<close>

theorem weak_signal_active:
  assumes "\<not> dev_error s (dev_of l)" and "dist_trigger st l > MAX_RANGE"
    and "sens_signal (sensors_values s) (physical st l) < SIGNAL_THRESHOLD"
  shows "\<exists>r. stairway_sensors_get st s (Some v) = (ERR_SUCCESS, Some r) \<and> sens_state r l"
proof -
  obtain r where r: "stairway_sensors_get st s (Some v) = (ERR_SUCCESS, Some r)"
      "sens_state r l = (\<not> dev_error s (dev_of l) \<and>
         reported_dist s (physical st l) < dist_trigger st l)"
    using sensors_get_state [of st s v l] by blast
  with assms show ?thesis by (auto simp: reported_dist_def not_le [symmetric])
qed

lemma weak_signal_active_witness:
  "settings_valid (default_settings\<lparr>dist_trigger := (\<lambda>_. 5000)\<rparr>) \<and>
   (\<exists>r. stairway_sensors_get (default_settings\<lparr>dist_trigger := (\<lambda>_. 5000)\<rparr>) sensors_start
      (Some sensors_get_zero) = (ERR_SUCCESS, Some r) \<and> sens_state r STAIRWAY_SENS_UP_FIRST)"
  using weak_signal_active [of sensors_start STAIRWAY_SENS_UP_FIRST
      "default_settings\<lparr>dist_trigger := (\<lambda>_. 5000)\<rparr>" sensors_get_zero]
  by (simp add: sensors_start_def sensors_get_zero_def MAX_RANGE_def SIGNAL_THRESHOLD_def
      settings_valid_iff [of "default_settings\<lparr>dist_trigger := (\<lambda>_. 5000)\<rparr>"]
      default_settings_valid [unfolded settings_valid_iff])

section \<open>Polling a device\<close>

lemma be16_payload: "be16 (drop 3 b) i = push_bit 8 (ucast (b ! (3 + i))) OR ucast (b ! (4 + i))"
  if "4 + i < length b"
  using that by (simp add: be16_def add.commute [of i])

text \<open>The shape of the call of a read request.\<close>

lemma routine_call_shape:
  assumes "modbus_inv m" and "unat (answer_len m) \<le> 255"
    and "modbus_master_routine m c = Some (Some (f, call), m', c')"
    and "status call = MODBUS_ERR_SUCCESS"
  shows "\<exists>b. raw_answer call = Some b \<and> length b = 256 \<and>
     (b ! 1 = 3 \<or> b ! 1 = 4 \<longrightarrow> payload call = Some (drop 3 b))"
proof -
  have busy: "busy m"
    using assms(3) by (auto simp: modbus_master_routine_def split: if_splits)
  have len: "length (receive_buf m) = 256"
    using assms(1) by (simp add: modbus_inv_def RECEIVE_BUF_SIZE_def)
  show ?thesis
  proof (cases "answer_len m \<le> receive_counter m")
    case True
    from assms(3,4) routine_complete [OF assms(1) busy True assms(2), of c]
      decode_modbus_complete [OF assms(1) busy len size_u16 [OF assms(1) True] assms(2)] len
    show ?thesis
      by (auto simp: cb_call_def error_call_def answer_call_def split: if_splits option.splits)
  next
    case False
    then have "\<not> receive_counter m \<ge> 255"
      using assms(2) by (auto simp: word_le_nat_alt)
    with False assms(3,4) busy show ?thesis
      by (auto simp: modbus_master_routine_def Let_def split_beta RECEIVE_BUF_SIZE_def cb_call_def
          error_call_def split: if_splits option.splits)
  qed
qed

lemma run_callback_total:
  assumes "modbus_inv m" and "unat (answer_len m) \<le> 255"
    and "modbus_master_routine m c = Some (call, m', c')"
  shows "\<exists>s'. run_callback call s = Some s' \<and> next_dev s' = next_dev s \<and> request_ts s' = request_ts s"
proof (cases call)
  case None
  then show ?thesis by (simp add: run_callback_def)
next
  case (Some fc)
  obtain f k where fc: "fc = (f, k)" by fastforce
  show ?thesis
  proof (cases "status k = MODBUS_ERR_SUCCESS")
    case False
    then show ?thesis by (simp add: run_callback_def Some fc sensor_cb_def sensor_parse_def)
  next
    case True
    obtain b where b: "raw_answer k = Some b" "length b = 256"
        "b ! 1 = 3 \<or> b ! 1 = 4 \<longrightarrow> payload k = Some (drop 3 b)"
      using routine_call_shape [OF assms(1,2) assms(3) [unfolded Some fc] True] by blast
    then show ?thesis
      by (auto simp: run_callback_def Some fc sensor_cb_def sensor_parse_def True Let_def)
  qed
qed

text \<open>
  The master belongs to the sensors: a request under way is one of the two of the table
  \<open>request\<close>, and 17 bytes are expected.
\<close>

definition sensors_inv :: "dev_id modbus \<Rightarrow> bool" where
  "sensors_inv m \<longleftrightarrow> modbus_inv m \<and>
     (busy m \<longrightarrow> last_request m \<in> {request DEV_ID_UP, request DEV_ID_DOWN} \<and> answer_len m = 17)"

lemma request_fields [simp]:
  "req_func (request d) = 3" "reg_length (request d) = 6" "req_cb (request d) = Some d"
  "req_timeout (request d) = 100"
  by (cases d; simp)+

lemma sensors_inv_start [inv_rules]: "sensors_inv modbus_start"
  using modbus_start_inv by (simp add: sensors_inv_def modbus_start_def)

lemma routine_idle: "\<not> busy m \<Longrightarrow> modbus_master_routine m c = Some (None, m, c)"
  by (simp add: modbus_master_routine_def)

lemma sensors_inv_routine:
  assumes "sensors_inv m"
  shows "\<exists>call m' c'. modbus_master_routine m c = Some (call, m', c') \<and> sensors_inv m' \<and>
     sent m' = sent m \<and> (busy m' \<longrightarrow> busy m) \<and>
     (\<exists>s'. run_callback call s = Some s' \<and> next_dev s' = next_dev s \<and> request_ts s' = request_ts s)"
proof (cases "busy m")
  case False
  then show ?thesis using assms by (simp add: routine_idle run_callback_def)
next
  case True
  have inv: "modbus_inv m" and al: "unat (answer_len m) \<le> 255"
    using assms True by (simp_all add: sensors_inv_def)
  obtain f where f: "req_cb (last_request m) = Some f"
    using assms True by (auto simp: sensors_inv_def)
  obtain m' call where r: "modbus_master_routine m c = Some (call, m', snd (get_time_ms c))"
      "modbus_inv m'"
    using modbus_routine_total [OF inv True al f, of c] by blast
  then have "m' = m \<or> m' = m\<lparr>busy := False\<rparr>"
    by (auto simp: modbus_master_routine_def Let_def split_beta split: if_splits option.splits)
  then show ?thesis
    using r run_callback_total [OF inv al r(1)] assms True by (auto simp: sensors_inv_def)
qed

lemma sensors_routine_ok:
  assumes "sensors_inv m"
  shows "\<exists>s' m' c'. stairway_sensors_routine s m c = Some (s', m', c') \<and> sensors_inv m' \<and>
     (sent m' = sent m \<and> next_dev s' = next_dev s \<and> request_ts s' = request_ts s \<or>
      sent m' = sent m @ [with_crc (read_head (request (next_dev s)))] \<and>
      next_dev s' = dev_succ (next_dev s) \<and> busy m' \<and>
      last_request m' = request (next_dev s) \<and> POLL_INTERVAL_MS \<le> request_ts s' - request_ts s)"
proof -
  obtain call m1 c1 s1 where r: "modbus_master_routine m c = Some (call, m1, c1)" "sensors_inv m1"
      "sent m1 = sent m" "run_callback call s = Some s1" "next_dev s1 = next_dev s"
      "request_ts s1 = request_ts s"
    using sensors_inv_routine [OF assms, of c s] by blast
  obtain ts c2 where ts: "get_time_ms c1 = (ts, c2)" by fastforce
  show ?thesis
  proof (cases "\<not> busy m1 \<and> ts - request_ts s1 \<ge> POLL_INTERVAL_MS")
    case False
    then show ?thesis
      using r ts by (auto simp: stairway_sensors_routine_def modbus_master_get_busy_def)
  next
    case True
    have inv: "modbus_inv m1" using r(2) by (simp add: sensors_inv_def)
    obtain m2 c3 where send: "modbus_master_send (Some (request (next_dev s1))) m1 c2 =
        Some (ERR_SUCCESS, m2, c3)" "sent m2 = sent m1 @ [with_crc (read_head (request (next_dev s1)))]"
      using modbus_send_read [OF inv, of "request (next_dev s1)" c2] True by simp
    have "sensors_inv m2 \<and> busy m2 \<and> last_request m2 = request (next_dev s1)"
      using modbus_send_inv [OF inv _ _ send(1)] True by (cases "next_dev s1") (simp_all add: sensors_inv_def)
    then show ?thesis
      using True r ts send
      by (auto simp: stairway_sensors_routine_def modbus_master_get_busy_def)
  qed
qed

text \<open>
  C37: the polling routine never accesses memory outside of the buffers and keeps the
  invariant. In one call it either sends nothing, or the master is free, at least 40 ms have
  passed since the last request, and it sends the request of the device whose turn it is;
  then it is the other device's turn, whatever became of the last request. So the
  two devices are polled alternately.
\<close>

theorem stairway_sensors_poll:
  assumes "sensors_inv m"
  shows "\<exists>s' m' c'. stairway_sensors_routine s m c = Some (s', m', c') \<and> sensors_inv m' \<and>
     (sent m' = sent m \<and> next_dev s' = next_dev s \<and> request_ts s' = request_ts s \<or>
      sent m' = sent m @ [with_crc (read_head (request (next_dev s)))] \<and>
      next_dev s' = dev_succ (next_dev s) \<and> busy m' \<and>
      last_request m' = request (next_dev s) \<and> POLL_INTERVAL_MS \<le> request_ts s' - request_ts s)"
  by (rule sensors_routine_ok [OF assms])

text \<open>
  A good answer of twelve data bytes, received in any number of interrupts after the
  request, becomes the distances, signals and error bits of the two sensors of the device;
  the device is marked as working and the sensors of the other device are untouched.
\<close>

theorem sensor_answer_stored:
  assumes "modbus_inv m" and "\<not> busy m" and "length dat = 12"
    and "concat chunks = read_answer (request dev) dat"
  shows "\<exists>call m' c' s'. exchange (request dev) chunks m c = Some (call, m', c') \<and>
     run_callback call s = Some s' \<and> dev_error s' = (dev_error s)(dev := False) \<and>
     (\<forall>l. sens_dist (sensors_values s') l =
        (if l = sensor_plus (dev_first_sensor dev) 0 then be16 dat 2
         else if l = sensor_plus (dev_first_sensor dev) 1 then be16 dat 4
         else sens_dist (sensors_values s) l) \<and>
      sens_signal (sensors_values s') l =
        (if l = sensor_plus (dev_first_sensor dev) 0 then be16 dat 6
         else if l = sensor_plus (dev_first_sensor dev) 1 then be16 dat 8
         else sens_signal (sensors_values s) l) \<and>
      sens_error (sensors_values s') l =
        (if l = sensor_plus (dev_first_sensor dev) 0 then be16 dat 10 AND 1 = 1
         else if l = sensor_plus (dev_first_sensor dev) 1 then be16 dat 10 AND 2 = 2
         else sens_error (sensors_values s) l))"
proof -
  let ?bs = "concat chunks"
  define b where "b = ?bs @ replicate (256 - length ?bs) 0"
  have len: "length ?bs = 5 + 2 * unat (reg_length (request dev))"
    using assms(3) by (simp add: assms(4) read_answer_def)
  have ok: "frame_ok (length ?bs) ?bs"
    by (simp add: frame_ok_def assms(4) read_answer_def with_crc_def)
  have b_facts: "b ! 0 = req_id (request dev)" "b ! 1 = 3" "b ! 2 = 12" "length b = 256"
    "\<And>i. i < 11 \<Longrightarrow> be16 (drop 3 b) i = be16 dat i"
    using assms(3) by (simp_all add: assms(4) read_answer_def with_crc_def be16_def nth_append b_def)
  define k where "k = \<lparr>status = MODBUS_ERR_SUCCESS, raw_answer = Some b,
    raw_len = 5 + 2 * reg_length (request dev), payload = Some (drop 3 b), payload_len = b ! 2\<rparr>"
  obtain m' c' where ex: "exchange (request dev) chunks m c = Some (Some (dev, k), m', c')"
    using exchange_read [OF assms(1,2) _ _ _ len, of dev c] ok b_facts(1,2) by (auto simp: k_def b_def)
  obtain err s' where cb: "sensor_cb dev k s = Some (err, s')"
      "dev_error s' = (dev_error s)(dev := False)"
      "sensors_values s' = (sensors_values s)
        \<lparr>sens_dist := (sens_dist (sensors_values s))(sensor_plus (dev_first_sensor dev) 0 := be16 dat 2,
           sensor_plus (dev_first_sensor dev) 1 := be16 dat 4),
         sens_signal := (sens_signal (sensors_values s))(sensor_plus (dev_first_sensor dev) 0 := be16 dat 6,
           sensor_plus (dev_first_sensor dev) 1 := be16 dat 8),
         sens_error := (sens_error (sensors_values s))
           (sensor_plus (dev_first_sensor dev) 0 := be16 dat 10 AND 1 = 1,
            sensor_plus (dev_first_sensor dev) 1 := be16 dat 10 AND 2 = 2)\<rparr>"
    using b_facts by (simp add: sensor_cb_def k_def sensor_parse_def SENSOR_PAYLOAD_LEN_def Let_def)
  have "sensor_plus (dev_first_sensor dev) 0 \<noteq> sensor_plus (dev_first_sensor dev) 1"
    by (cases dev) simp_all
  with ex cb show ?thesis
    by (auto simp: run_callback_def)
qed

text \<open>
  An answer with a wrong byte marks the device as failed: both of its logical sensors then
  report an error and no detection, so a corrupted answer never triggers the lights.
\<close>

theorem sensor_answer_corrupted:
  assumes "modbus_inv m" and "\<not> busy m" and "length dat = 12"
    and "i < length (read_answer (request dev) dat)" and "x \<noteq> read_answer (request dev) dat ! i"
    and "concat chunks = (read_answer (request dev) dat)[i := x]" and "dev_of l = dev"
  shows "\<exists>call m' c' s' r. exchange (request dev) chunks m c = Some (call, m', c') \<and>
     run_callback call s = Some s' \<and> sensors_values s' = sensors_values s \<and>
     stairway_sensors_get st s' (Some v) = (ERR_SUCCESS, Some r) \<and>
     sens_error r l \<and> \<not> sens_state r l"
proof -
  have len: "length dat = 2 * unat (reg_length (request dev))"
    using assms(3) by simp
  obtain call m' c' where ex: "exchange (request dev) chunks m c = Some (Some (dev, call), m', c')"
      "status call \<noteq> MODBUS_ERR_SUCCESS"
    using corrupted_answer_call [OF assms(1,2) _ _ _ len assms(4-6), of dev c] by auto
  define s' where "s' = s\<lparr>dev_error := (dev_error s)(dev := True)\<rparr>"
  have "run_callback (Some (dev, call)) s = Some s'"
    using ex(2) by (simp add: run_callback_def sensor_cb_def sensor_parse_def s'_def)
  moreover obtain r where "stairway_sensors_get st s' (Some v) = (ERR_SUCCESS, Some r)"
      "sens_error r l \<and> \<not> sens_state r l"
    using sensors_get_rows [of st s' v] assms(7) by (auto simp: s'_def Let_def)
  ultimately show ?thesis
    using ex(1) by (auto simp: s'_def)
qed

lemma stairway_sensors_poll_witness:
  "\<exists>s' m' c'. stairway_sensors_routine sensors_start modbus_start (clock_init (\<lambda>_. 50)) = Some (s', m', c') \<and>
     sensors_inv m'"
  using stairway_sensors_poll [OF sensors_inv_start, of sensors_start "clock_init (\<lambda>_. 50)"]
  by blast

definition sample_data :: "u8 list" where
  "sample_data = [0, 1, 2, 188, 3, 232, 0, 100, 0, 20, 0, 0]"

lemma sensor_answer_stored_witness:
  "\<exists>call m' c' s'. exchange (request DEV_ID_UP) [read_answer (request DEV_ID_UP) sample_data]
       modbus_start (clock_init (\<lambda>_. 50)) = Some (call, m', c') \<and>
     run_callback call sensors_start = Some s' \<and>
     sens_dist (sensors_values s') STAIRWAY_SENS_UP_FIRST = 700"
proof -
  have "concat [read_answer (request DEV_ID_UP) sample_data] = read_answer (request DEV_ID_UP) sample_data"
    and "be16 sample_data 2 = 700" and "length sample_data = 12"
    by (simp_all add: be16_def sample_data_def)
  then show ?thesis
    using sensor_answer_stored [OF modbus_start_inv, of sample_data
        "[read_answer (request DEV_ID_UP) sample_data]" DEV_ID_UP "clock_init (\<lambda>_. 50)" sensors_start]
    by (auto simp: modbus_start_def)
qed

lemma sensor_answer_corrupted_witness:
  "\<exists>call m' c' s' r. exchange (request DEV_ID_UP) [(read_answer (request DEV_ID_UP) sample_data)[5 := 0]]
       modbus_start (clock_init (\<lambda>_. 50)) = Some (call, m', c') \<and>
     run_callback call sensors_start = Some s' \<and>
     stairway_sensors_get default_settings s' (Some sensors_get_zero) = (ERR_SUCCESS, Some r) \<and>
     sens_error r STAIRWAY_SENS_UP_SECOND"
proof -
  have "concat [(read_answer (request DEV_ID_UP) sample_data)[5 := 0]] =
      (read_answer (request DEV_ID_UP) sample_data)[5 := 0]"
    and "length sample_data = 12" and "5 < length (read_answer (request DEV_ID_UP) sample_data)"
    and "0 \<noteq> read_answer (request DEV_ID_UP) sample_data ! 5"
    by (simp_all add: read_answer_def with_crc_def sample_data_def)
  with sensor_answer_corrupted [OF modbus_start_inv, of sample_data 5 DEV_ID_UP 0
      "[(read_answer (request DEV_ID_UP) sample_data)[5 := 0]]" STAIRWAY_SENS_UP_SECOND
      "clock_init (\<lambda>_. 50)" sensors_start default_settings sensors_get_zero]
  show ?thesis by (auto simp: modbus_start_def)
qed

end
