(* ===== verification/Light.thy ===== *)
theory Light
  imports Settings Clock "HOL-Library.Signed_Division"
begin

text \<open>
  The light sensor, \<open>src/light_sensor/light_sensor.c\<close>: every 10 ms one ADC sample enters a
  recursive filter in signed integer arithmetic (C's division truncates towards zero,
  \<open>sdiv\<close>), and the voltage drives a trigger with hysteresis. \<open>adc\<close> is the value that the SDK's
  \<open>adc_read\<close> returns when it is called; the converter of the RP2040 has 12 bits.
\<close>

section \<open>Operations\<close>

definition FILTER_N :: int where "FILTER_N = 32"
definition SAMPLE_PERIOD_MS :: u64 where "SAMPLE_PERIOD_MS = 10"
definition INT32_MAX :: int where "INT32_MAX = 2147483647"

record light =
  filtered_adc :: int
  light_trigger :: bool
  sample_ts :: u64

definition light_start :: light where
  "light_start = \<lparr>filtered_adc = INT32_MAX, light_trigger = False, sample_ts = 0\<rparr>"

text \<open>\<open>light_sensor_init\<close>: the check of the pin, five inputs exist; what it calls is in \<open>Hardware\<close>.\<close>

definition light_sensor_init :: "u32 \<Rightarrow> err_code" where
  "light_sensor_init pin = (if pin \<ge> 5 then ERR_PARAM_INVALID else ERR_SUCCESS)"

definition light_sample :: "u16 \<Rightarrow> light \<Rightarrow> light" where
  "light_sample adc l =
     (if filtered_adc l \<noteq> INT32_MAX
      then l\<lparr>filtered_adc := filtered_adc l + (uint adc - filtered_adc l) sdiv FILTER_N\<rparr>
      else l\<lparr>filtered_adc := uint adc\<rparr>)"

definition light_voltage :: "light \<Rightarrow> u32" where
  "light_voltage l = word_of_int (3300 * filtered_adc l sdiv (push_bit 12 1))"

text \<open>The result is the trigger and the voltage, stored where the arguments are not \<open>NULL\<close>.\<close>

definition light_sensor_get_data ::
    "settings \<Rightarrow> u16 \<Rightarrow> light \<Rightarrow> clock \<Rightarrow> (bool \<times> u32) \<times> light \<times> clock" where
  "light_sensor_get_data s adc l c =
     (let (ts, c1) = get_time_ms c;
          l1 = (if filtered_adc l = INT32_MAX \<or> ts - sample_ts l \<ge> SAMPLE_PERIOD_MS
                then light_sample adc (l\<lparr>sample_ts := ts\<rparr>) else l);
          voltage = light_voltage l1;
          l2 = (if voltage > light_sensor_day_value s then l1\<lparr>light_trigger := True\<rparr>
                else if voltage < light_sensor_night_value s then l1\<lparr>light_trigger := False\<rparr>
                else l1)
      in ((light_trigger l2, voltage), l2, c1))"

section \<open>The filter\<close>

lemma sdiv_32:
  fixes d :: int
  shows "0 \<le> d \<Longrightarrow> d sdiv 32 = d div 32" and "d < 0 \<Longrightarrow> d sdiv 32 = - (- d div 32)"
  by (simp_all add: signed_divide_int_def sgn_if)

text \<open>One sample moves the filter towards the sample, never past it.\<close>

lemma filter_step_between:
  fixes f a :: int
  shows "f \<le> a \<Longrightarrow> f \<le> f + (a - f) sdiv 32 \<and> f + (a - f) sdiv 32 \<le> a"
    and "a \<le> f \<Longrightarrow> a \<le> f + (a - f) sdiv 32 \<and> f + (a - f) sdiv 32 \<le> f"
proof -
  assume "f \<le> a"
  then have "(a - f) sdiv 32 = (a - f) div 32" "0 \<le> (a - f) div 32" "(a - f) div 32 \<le> a - f"
    by (simp_all add: sdiv_32)
  then show "f \<le> f + (a - f) sdiv 32 \<and> f + (a - f) sdiv 32 \<le> a" by simp
next
  assume "a \<le> f"
  then have "(a - f) sdiv 32 = - ((f - a) div 32)"
    by (cases "a = f") (simp_all add: sdiv_32)
  moreover have "0 \<le> (f - a) div 32"
    using \<open>a \<le> f\<close> by simp
  moreover have "(f - a) div 32 \<le> f - a"
    using \<open>a \<le> f\<close> by linarith
  ultimately show "a \<le> f + (a - f) sdiv 32 \<and> f + (a - f) sdiv 32 \<le> f" by simp
qed

text \<open>The distance to a constant sample shrinks by a 32nd, rounded down.\<close>

lemma filter_step_dist:
  fixes f a :: int
  shows "\<bar>a - (f + (a - f) sdiv 32)\<bar> = \<bar>a - f\<bar> - \<bar>a - f\<bar> div 32"
proof (cases "a < f")
  case True
  then have e: "(a - f) sdiv 32 = - ((f - a) div 32)" by (simp add: sdiv_32)
  have "(f - a) div 32 \<le> f - a" using True by linarith
  then have "\<bar>a - (f + (a - f) sdiv 32)\<bar> = (f - a) - (f - a) div 32" unfolding e by simp
  then show ?thesis using True by simp
next
  case False
  then have e: "(a - f) sdiv 32 = (a - f) div 32" by (simp add: sdiv_32)
  have "(a - f) div 32 \<le> a - f" using False by linarith
  then have "\<bar>a - (f + (a - f) sdiv 32)\<bar> = (a - f) - (a - f) div 32" unfolding e by simp
  then show ?thesis using False by simp
qed

definition light_inv :: "light \<Rightarrow> bool" where
  "light_inv l \<longleftrightarrow> filtered_adc l = INT32_MAX \<or> 0 \<le> filtered_adc l \<and> filtered_adc l \<le> 4095"

lemma light_start_inv [inv_rules]: "light_inv light_start"
  by (simp add: light_inv_def light_start_def)

lemma light_sample_inv [inv_rules]:
  assumes "light_inv l" and "adc \<le> 4095"
  shows "0 \<le> filtered_adc (light_sample adc l) \<and> filtered_adc (light_sample adc l) \<le> 4095"
proof -
  have a: "0 \<le> uint adc" "uint adc \<le> 4095"
    using assms(2) by (simp_all add: word_le_def)
  show ?thesis
  proof (cases "filtered_adc l = INT32_MAX")
    case True
    then show ?thesis using a by (simp add: light_sample_def)
  next
    case False
    define f where "f = filtered_adc l"
    have f: "0 \<le> f" "f \<le> 4095" using False assms(1) by (simp_all add: light_inv_def f_def)
    have "filtered_adc (light_sample adc l) = f + (uint adc - f) sdiv 32"
      using False by (simp add: light_sample_def FILTER_N_def f_def)
    moreover have "0 \<le> f + (uint adc - f) sdiv 32 \<and> f + (uint adc - f) sdiv 32 \<le> 4095"
      using a f filter_step_between(1) [of f "uint adc"] filter_step_between(2) [of "uint adc" f]
      by (cases "f \<le> uint adc") linarith+
    ultimately show ?thesis by simp
  qed
qed

text \<open>
  Hysteresis. For any sample of the 12 bit converter, the reported voltage is at most
  3299 mV, so nothing overflows; the trigger is set above the day value, cleared below the
  night value, and keeps its state in between.
\<close>

theorem light_hysteresis:
  assumes "light_inv l" and "adc \<le> 4095"
  shows "\<exists>t v l' c'. light_sensor_get_data s adc l c = ((t, v), l', c') \<and>
     v \<le> 3299 \<and> int (unat v) = 3300 * filtered_adc l' div 4096 \<and> light_inv l' \<and>
     t = (if v > light_sensor_day_value s then True
          else if v < light_sensor_night_value s then False else light_trigger l)"
proof -
  obtain ts c1 where c: "get_time_ms c = (ts, c1)" by fastforce
  define l1 where "l1 = (if filtered_adc l = INT32_MAX \<or> ts - sample_ts l \<ge> SAMPLE_PERIOD_MS
      then light_sample adc (l\<lparr>sample_ts := ts\<rparr>) else l)"
  have f: "0 \<le> filtered_adc l1" "filtered_adc l1 \<le> 4095" "light_trigger l1 = light_trigger l"
  proof -
    have "light_inv (l\<lparr>sample_ts := ts\<rparr>)" using assms(1) by (simp add: light_inv_def)
    then have "0 \<le> filtered_adc l1 \<and> filtered_adc l1 \<le> 4095"
      using light_sample_inv [OF _ assms(2)] assms(1) unfolding l1_def
      by (auto simp: light_inv_def)
    then show "0 \<le> filtered_adc l1" "filtered_adc l1 \<le> 4095" by simp_all
    show "light_trigger l1 = light_trigger l" by (simp add: l1_def light_sample_def)
  qed
  have r: "0 \<le> 3300 * filtered_adc l1 div 4096" "3300 * filtered_adc l1 div 4096 \<le> 3299"
    using f by linarith+
  have sd: "3300 * filtered_adc l1 sdiv 4096 = 3300 * filtered_adc l1 div 4096"
    using f by (cases "filtered_adc l1 = 0") (simp_all add: signed_divide_int_def sgn_if)
  define v where "v = light_voltage l1"
  have "v = word_of_int (3300 * filtered_adc l1 div 4096)"
    unfolding v_def light_voltage_def by (simp only: push_bit_eq_mult) (simp add: sd [simplified])
  moreover have "uint (word_of_int k :: u32) = k" if "0 \<le> k" "k \<le> 3299" for k
    using that by (simp add: uint_word_of_int)
  ultimately have iv: "int (unat v) = 3300 * filtered_adc l1 div 4096"
    using r by (simp only: uint_unat [symmetric])
  have "int (unat v) \<le> 3299"
    unfolding iv by (rule r(2))
  then have "v \<le> 3299"
    by (simp add: word_le_def uint_unat [symmetric])
  define l2 where "l2 = (if v > light_sensor_day_value s then l1\<lparr>light_trigger := True\<rparr>
      else if v < light_sensor_night_value s then l1\<lparr>light_trigger := False\<rparr> else l1)"
  have run: "light_sensor_get_data s adc l c = ((light_trigger l2, v), l2, c1)"
    by (simp add: light_sensor_get_data_def c Let_def l2_def v_def l1_def)
  have "filtered_adc l2 = filtered_adc l1" by (simp add: l2_def)
  then show ?thesis
    using run \<open>v \<le> 3299\<close> iv f by (auto simp: l2_def light_inv_def)
qed

lemma light_hysteresis_witness:
  "\<exists>t v l' c'. light_sensor_get_data default_settings 1800 light_start (clock_init (\<lambda>_. 20)) =
     ((t, v), l', c') \<and> v \<le> 3299"
  using light_hysteresis [OF light_start_inv, of 1800 default_settings "clock_init (\<lambda>_. 20)"]
  by auto

fun light_samples :: "nat \<Rightarrow> u16 \<Rightarrow> light \<Rightarrow> light" where
  "light_samples 0 adc l = l"
| "light_samples (Suc n) adc l = light_samples n adc (light_sample adc l)"

text \<open>The remaining distance after \<open>n\<close> samples.\<close>

fun shrink :: "nat \<Rightarrow> int \<Rightarrow> int" where
  "shrink 0 d = d"
| "shrink (Suc n) d = shrink n (d - d div 32)"

lemma shrink_mono: "d \<le> e \<Longrightarrow> shrink n d \<le> shrink n e"
proof (induction n arbitrary: d e)
  case (Suc n)
  have "d - d div 32 \<le> e - e div 32" using Suc.prems by linarith
  then show ?case using Suc.IH by simp
qed simp

lemma shrink_fixed: "0 \<le> d \<Longrightarrow> d \<le> 31 \<Longrightarrow> shrink n d = d"
  by (induction n) simp_all

lemma shrink_add: "shrink (m + n) d = shrink n (shrink m d)"
  by (induction m arbitrary: d) simp_all

lemma shrink_nonneg: "0 \<le> d \<Longrightarrow> 0 \<le> shrink n d"
proof (induction n arbitrary: d)
  case (Suc n)
  have "0 \<le> d - d div 32" using Suc.prems by linarith
  then show ?case using Suc.IH by simp
qed simp

lemma shrink_4095: "shrink 190 4095 \<le> 31"
  by code_simp

lemma shrink_settled: "0 \<le> d \<Longrightarrow> d \<le> 4095 \<Longrightarrow> shrink (190 + n) d \<le> 31"
  using shrink_mono [of d 4095 190] shrink_4095 shrink_nonneg [of d 190]
  by (simp add: shrink_add shrink_fixed)

lemma light_samples_dist:
  assumes "0 \<le> filtered_adc l" and "filtered_adc l \<le> 4095" and "adc \<le> 4095"
  shows "0 \<le> filtered_adc (light_samples n adc l) \<and> filtered_adc (light_samples n adc l) \<le> 4095 \<and>
     \<bar>uint adc - filtered_adc (light_samples n adc l)\<bar> = shrink n \<bar>uint adc - filtered_adc l\<bar>"
  using assms(1,2)
proof (induction n arbitrary: l)
  case 0
  then show ?case by simp
next
  case (Suc n)
  have inv: "light_inv l" using Suc.prems by (simp add: light_inv_def)
  have "filtered_adc l \<noteq> INT32_MAX" using Suc.prems by (simp add: INT32_MAX_def)
  then have step: "filtered_adc (light_sample adc l) = filtered_adc l + (uint adc - filtered_adc l) sdiv 32"
    by (simp add: light_sample_def FILTER_N_def)
  show ?case
    using Suc.IH [of "light_sample adc l"] light_sample_inv [OF inv assms(3)]
      filter_step_dist [of "uint adc" "filtered_adc l"]
    by (simp add: step)
qed

text \<open>
  C38: under constant light the filter settles. Whatever its state, after 191 samples (about two
  seconds) it is within 31 counts of the sample, because the truncating division has a dead
  band of that size, and from then on it no longer moves.
\<close>

theorem light_filter_settles:
  assumes "light_inv l" and "adc \<le> 4095" and "191 \<le> n"
  shows "\<bar>uint adc - filtered_adc (light_samples n adc l)\<bar> \<le> 31 \<and>
     light_sample adc (light_samples n adc l) = light_samples n adc l"
proof -
  let ?l = "light_sample adc l"
  obtain k where "n = 191 + k"
    using assms(3) le_Suc_ex by blast
  then have n: "n = Suc (190 + k)" by simp
  have a: "0 \<le> uint adc" "uint adc \<le> 4095"
    using assms(2) by (simp_all add: word_le_def)
  have f: "0 \<le> filtered_adc ?l" "filtered_adc ?l \<le> 4095"
    using light_sample_inv [OF assms(1,2)] by simp_all
  let ?r = "light_samples n adc l"
  have r: "0 \<le> filtered_adc ?r \<and> filtered_adc ?r \<le> 4095"
      "\<bar>uint adc - filtered_adc ?r\<bar> = shrink (190 + k) \<bar>uint adc - filtered_adc ?l\<bar>"
    using light_samples_dist [OF f assms(2), of "190 + k"]
    unfolding n light_samples.simps by blast+
  have near: "\<bar>uint adc - filtered_adc ?r\<bar> \<le> 31"
    unfolding r(2) using a f by (intro shrink_settled) linarith+
  have "(uint adc - filtered_adc ?r) sdiv 32 = 0"
    using near sdiv_32 [of "uint adc - filtered_adc ?r"]
    by (cases "0 \<le> uint adc - filtered_adc ?r") (simp_all add: div_pos_pos_trivial)
  moreover have "filtered_adc ?r \<noteq> INT32_MAX" using r(1) by (simp add: INT32_MAX_def)
  ultimately show ?thesis
    using near by (simp add: light_sample_def FILTER_N_def)
qed

lemma light_filter_settles_witness:
  "\<bar>uint (2000 :: u16) - filtered_adc (light_samples 191 2000 light_start)\<bar> \<le> 31"
  using light_filter_settles [OF light_start_inv, of 2000 191] by simp

end
