(* ===== verification/Controller.thy ===== *)
theory Controller
  imports Stairway_Leds Sensors Light
begin

text \<open>
  The main loop of \<open>src/main.c\<close>, one definition per section of its body, in the order of the
  source: the button, the sensor values, the block by light, the two detectors (the state
  machines that count people), the start of the light waves, the timeout, the emergency
  lights, and the tick that advances the waves. The statics of the file (and of \<open>main\<close>) are
  the fields of \<open>controller\<close>; the four waves, each a flag, a time and a counter, are grouped
  in the record \<open>wave\<close>. Every call of \<open>get_time_ms\<close> reads the clock; the log output of
  \<open>INFO\<close> is left out.
\<close>

section \<open>State\<close>

datatype detector_state =
    DETECTOR_STATE_IDLE
  | DETECTOR_STATE_FIRST_LOCK
  | DETECTOR_STATE_SECOND_LOCK
  | DETECTOR_STATE_INC
  | DETECTOR_STATE_DEC

record sensor_status =
  current :: bool
  trigger :: bool
  sensor_ts :: u64

record detector =
  det_state :: detector_state
  det_ts :: u64

text \<open>\<open>people_count\<close> and \<open>prev_people_count\<close> are \<open>int32_t\<close>, kept as integers.\<close>

record status =
  detector :: "detector_type \<Rightarrow> detector"
  sensor_state :: "sensor \<Rightarrow> sensor_status"
  sensor_distance :: "sensor \<Rightarrow> u16"
  sensor_error_cnt :: "sensor \<Rightarrow> u32"
  people_count :: int
  prev_people_count :: int
  people_ts :: u64
  light_value :: u32
  block_by_light :: bool
  light_state :: bool
  test_mode :: bool

record wave =
  wave_run :: bool
  wave_ts :: u64
  wave_cnt :: u32

record controller =
  status :: status
  prev_ts :: u64
  detector_block_ts :: "detector_type \<Rightarrow> u64"
  emergency_sensor_on_ts :: "emergency_type \<Rightarrow> u64"
  emergency_on :: "emergency_type \<Rightarrow> bool"
  led_on_up :: wave
  led_on_down :: wave
  led_off_up :: wave
  led_off_down :: wave
  last_det :: detector_type
  reboot_ts :: u64
  error_led_state :: bool
  sen_prev_error :: "sensor \<Rightarrow> bool"
  sen_error_log_ts :: "sensor \<Rightarrow> u64"
  button_prev_ts :: u64
  button_debounce :: u32
  button_state :: bool
  last_test_mode :: bool
  refresh_ts :: u64
  led_error_ts :: u64

definition wave_start :: wave where
  "wave_start = \<lparr>wave_run = False, wave_ts = 0, wave_cnt = 0\<rparr>"

definition status_start :: status where
  "status_start =
     \<lparr> detector = (\<lambda>_. \<lparr>det_state = DETECTOR_STATE_IDLE, det_ts = 0\<rparr>),
       sensor_state = (\<lambda>_. \<lparr>current = False, trigger = False, sensor_ts = 0\<rparr>),
       sensor_distance = (\<lambda>_. 0), sensor_error_cnt = (\<lambda>_. 0), people_count = 0,
       prev_people_count = 0, people_ts = 0, light_value = 0, block_by_light = False,
       light_state = False, test_mode = False \<rparr>"

definition controller_start :: controller where
  "controller_start =
     \<lparr> status = status_start, prev_ts = 0, detector_block_ts = (\<lambda>_. 0),
       emergency_sensor_on_ts = (\<lambda>_. 0), emergency_on = (\<lambda>_. False),
       led_on_up = wave_start, led_on_down = wave_start, led_off_up = wave_start,
       led_off_down = wave_start, last_det = DETECTOR_TYPE_UP, reboot_ts = 0,
       error_led_state = False, sen_prev_error = (\<lambda>_. False), sen_error_log_ts = (\<lambda>_. 0),
       button_prev_ts = 0, button_debounce = 0, button_state = False, last_test_mode = False,
       refresh_ts = 0, led_error_ts = 0 \<rparr>"

fun emergency_sensor :: "emergency_type \<Rightarrow> sensor" where
  "emergency_sensor EMERGENCY_UP = STAIRWAY_SENS_UP_FIRST"
| "emergency_sensor EMERGENCY_DOWN = STAIRWAY_SENS_DOWN_FIRST"

fun emergency_detector :: "emergency_type \<Rightarrow> detector_type" where
  "emergency_detector EMERGENCY_UP = DETECTOR_TYPE_UP"
| "emergency_detector EMERGENCY_DOWN = DETECTOR_TYPE_DOWN"

definition BUTTON_POLL_PERIOD :: u64 where "BUTTON_POLL_PERIOD = 500"
definition BUTTON_DEBOUNCE_CNT :: u32 where "BUTTON_DEBOUNCE_CNT = 3"
definition EMERGENCY_CONFIRM_MS :: u64 where "EMERGENCY_CONFIRM_MS = 150"

section \<open>Reboot and button\<close>

definition reboot_request :: "u32 \<Rightarrow> controller \<Rightarrow> clock \<Rightarrow> controller \<times> clock" where
  "reboot_request delay_ms k c =
     (let (t, c1) = get_time_ms c in (k\<lparr>reboot_ts := t + ucast delay_ms\<rparr>, c1))"

text \<open>Whether the loop calls \<open>watchdog_reboot\<close>.\<close>

definition reboot_due :: "u64 \<Rightarrow> controller \<Rightarrow> bool" where
  "reboot_due ts k \<longleftrightarrow> reboot_ts k \<noteq> 0 \<and> ts \<ge> reboot_ts k"

text \<open>\<open>pressed\<close> is the result of \<open>get_bootsel_button\<close>, read only when a poll is due.\<close>

definition button_step :: "u64 \<Rightarrow> bool \<Rightarrow> controller \<Rightarrow> bool \<times> controller" where
  "button_step ts pressed k =
     (if ts - button_prev_ts k > BUTTON_POLL_PERIOD then
        let k1 = k\<lparr>button_prev_ts := ts\<rparr>
        in if pressed then
             if button_debounce k1 < BUTTON_DEBOUNCE_CNT then
               (False, k1\<lparr>button_debounce := button_debounce k1 + 1\<rparr>)
             else if \<not> button_state k1 then
               (True, k1\<lparr>button_state := True, button_debounce := 0\<rparr>)
             else (False, k1)
           else (False, k1\<lparr>button_debounce := 0, button_state := False\<rparr>)
      else (False, k))"

section \<open>Sensor values\<close>

text \<open>One turn of the loop over the sensors, and the loop.\<close>

definition sensor_update ::
    "sensors_get \<Rightarrow> u64 \<Rightarrow> sensor \<Rightarrow> controller \<times> clock \<Rightarrow> controller \<times> clock" where
  "sensor_update v ts i = (\<lambda>(k, c).
     let st = status k; ss = sensor_state st i;
         k1 = (if sens_error v i then
                 k\<lparr>sen_error_log_ts := (if ts - sen_error_log_ts k i > 1000
                     then (sen_error_log_ts k)(i := ts) else sen_error_log_ts k),
                   error_led_state := True,
                   status := st\<lparr>sensor_state := (sensor_state st)(i := ss\<lparr>current := False\<rparr>),
                     sensor_error_cnt := (if \<not> sen_prev_error k i
                       then (sensor_error_cnt st)(i := sensor_error_cnt st i + 1)
                       else sensor_error_cnt st)\<rparr>\<rparr>
               else
                 k\<lparr>status := st\<lparr>sensor_state := (sensor_state st)(i := ss\<lparr>current := sens_state v i\<rparr>),
                     sensor_distance := (sensor_distance st)(i := sens_dist v i)\<rparr>\<rparr>);
         st1 = status k1; ss1 = sensor_state st1 i;
         ss2 = (if current ss1 then ss1\<lparr>trigger := True\<rparr> else ss1);
         (t, c1) = get_time_ms c
     in (k1\<lparr>status := st1\<lparr>sensor_state := (sensor_state st1)(i := ss2\<lparr>sensor_ts := t\<rparr>)\<rparr>,
            sen_prev_error := (sen_prev_error k1)(i := sens_error v i)\<rparr>, c1))"

definition sensors_update ::
    "sensors_get \<Rightarrow> u64 \<Rightarrow> controller \<times> clock \<Rightarrow> controller \<times> clock" where
  "sensors_update v ts kc = fold (sensor_update v ts) all_sensors kc"

section \<open>Block by light\<close>

definition light_block :: "settings \<Rightarrow> status \<Rightarrow> status" where
  "light_block s st =
     (if light_state st \<and> use_light_sensor s then
        if people_count st = 0 \<and> \<not> block_by_light st then st\<lparr>block_by_light := True\<rparr> else st
      else if block_by_light st then st\<lparr>block_by_light := False\<rparr> else st)"

section \<open>Detectors\<close>

fun sens_first :: "detector_type \<Rightarrow> sensor" where
  "sens_first DETECTOR_TYPE_UP = STAIRWAY_SENS_UP_FIRST"
| "sens_first DETECTOR_TYPE_DOWN = STAIRWAY_SENS_DOWN_FIRST"

fun sens_second :: "detector_type \<Rightarrow> sensor" where
  "sens_second DETECTOR_TYPE_UP = STAIRWAY_SENS_UP_SECOND"
| "sens_second DETECTOR_TYPE_DOWN = STAIRWAY_SENS_DOWN_SECOND"

definition set_detector ::
    "detector_type \<Rightarrow> detector_state \<Rightarrow> status \<times> clock \<Rightarrow> status \<times> clock" where
  "set_detector i s = (\<lambda>(st, c).
     let (t, c1) = get_time_ms c
     in (st\<lparr>detector := (detector st)(i := \<lparr>det_state = s, det_ts = t\<rparr>)\<rparr>, c1))"

text \<open>
  The guard \<open>quiet && (get_time_ms() - detector.ts) > debounce\<close>: the clock is read only if the
  sensors are quiet.
\<close>

definition quiet_for ::
    "bool \<Rightarrow> u32 \<Rightarrow> detector_type \<Rightarrow> status \<times> clock \<Rightarrow> bool \<times> clock" where
  "quiet_for quiet debounce i = (\<lambda>(st, c).
     if quiet then
       let (t, c1) = get_time_ms c in (t - det_ts (detector st i) > ucast debounce, c1)
     else (False, c))"

text \<open>The \<open>switch\<close> over the state of one detector.\<close>

definition detector_switch ::
    "settings \<Rightarrow> detector_type \<Rightarrow> status \<times> clock \<Rightarrow> status \<times> clock" where
  "detector_switch s i = (\<lambda>(st, c).
     let first = current (sensor_state st (sens_first i));
         second = current (sensor_state st (sens_second i))
     in case det_state (detector st i) of
          DETECTOR_STATE_IDLE \<Rightarrow>
            if first then set_detector i DETECTOR_STATE_FIRST_LOCK (st, c)
            else if second then set_detector i DETECTOR_STATE_SECOND_LOCK (st, c)
            else (st, c)
        | DETECTOR_STATE_FIRST_LOCK \<Rightarrow>
            let (idle, c1) = quiet_for (\<not> first) (sensor_debouce_time s) i (st, c)
            in if idle then set_detector i DETECTOR_STATE_IDLE (st, c1)
               else if second then
                 let (st1, c2) = set_detector i DETECTOR_STATE_INC (st, c1)
                 in (st1\<lparr>people_count := people_count st1 + 1,
                        people_ts := det_ts (detector st1 i)\<rparr>, c2)
               else (st, c1)
        | DETECTOR_STATE_SECOND_LOCK \<Rightarrow>
            let (idle, c1) = quiet_for (\<not> second) (sensor_debouce_time s) i (st, c)
            in if idle then set_detector i DETECTOR_STATE_IDLE (st, c1)
               else if first then
                 let (st1, c2) = set_detector i DETECTOR_STATE_DEC (st, c1)
                 in (if people_count st1 \<noteq> 0 then
                       st1\<lparr>people_count := people_count st1 - 1,
                           people_ts := det_ts (detector st1 i)\<rparr>
                     else st1, c2)
               else (st, c1)
        | _ \<Rightarrow>
            let (idle, c1) = quiet_for (\<not> first \<and> \<not> second) (sensor_debouce_time s) i (st, c)
            in if idle then set_detector i DETECTOR_STATE_IDLE (st, c1) else (st, c1))"

definition detector_step ::
    "settings \<Rightarrow> sensors_get \<Rightarrow> detector_type \<Rightarrow> status \<times> clock \<Rightarrow> status \<times> clock" where
  "detector_step s v i = (\<lambda>(st, c).
     if block_by_light st then set_detector i DETECTOR_STATE_IDLE (st, c)
     else if sens_error v (sens_first i) \<or> sens_error v (sens_second i) then (st, c)
     else detector_switch s i (st, c))"

definition detectors_step ::
    "settings \<Rightarrow> sensors_get \<Rightarrow> status \<times> clock \<Rightarrow> status \<times> clock" where
  "detectors_step s v stc = fold (detector_step s v) all_detectors stc"

section \<open>Start of the waves\<close>

definition start_wave :: "settings \<Rightarrow> wave \<Rightarrow> clock \<Rightarrow> wave \<times> clock" where
  "start_wave s w c =
     (if wave_cnt w \<noteq> led_count s then
        let (t, c1) = get_time_ms c in (w\<lparr>wave_run := True, wave_ts := t\<rparr>, c1)
      else (w, c))"

definition on_events :: "settings \<Rightarrow> controller \<times> clock \<Rightarrow> controller \<times> clock" where
  "on_events s = (\<lambda>(k, c).
     let (k1, c1) =
           (if det_state (detector (status k) DETECTOR_TYPE_UP) = DETECTOR_STATE_INC then
              let (w, c1) = start_wave s (led_on_up k) c
              in (k\<lparr>last_det := DETECTOR_TYPE_UP, led_on_up := w\<rparr>, c1)
            else (k, c))
     in if det_state (detector (status k1) DETECTOR_TYPE_DOWN) = DETECTOR_STATE_INC then
          let (w, c2) = start_wave s (led_on_down k1) c1
          in (k1\<lparr>last_det := DETECTOR_TYPE_DOWN, led_on_down := w\<rparr>, c2)
        else (k1, c1))"

definition off_events :: "settings \<Rightarrow> controller \<times> clock \<Rightarrow> controller \<times> clock" where
  "off_events s = (\<lambda>(k, c).
     let (k1, c1) =
           (if det_state (detector (status k) DETECTOR_TYPE_UP) = DETECTOR_STATE_DEC \<and>
               people_count (status k) = 0 then
              let (w, c1) = start_wave s (led_off_up k) c in (k\<lparr>led_off_up := w\<rparr>, c1)
            else (k, c))
     in if det_state (detector (status k1) DETECTOR_TYPE_DOWN) = DETECTOR_STATE_DEC \<and>
           people_count (status k1) = 0 then
          let (w, c2) = start_wave s (led_off_down k1) c1 in (k1\<lparr>led_off_down := w\<rparr>, c2)
        else (k1, c1))"

definition count_events :: "settings \<Rightarrow> controller \<times> clock \<Rightarrow> controller \<times> clock" where
  "count_events s = (\<lambda>(k, c).
     if prev_people_count (status k) \<noteq> people_count (status k) then
       let (k1, c1) =
             (if people_count (status k) > prev_people_count (status k) then on_events s (k, c)
              else if people_count (status k) < prev_people_count (status k) then off_events s (k, c)
              else (k, c))
       in (k1\<lparr>status := (status k1)\<lparr>prev_people_count := people_count (status k1)\<rparr>\<rparr>, c1)
     else (k, c))"

definition leave_timeout :: "settings \<Rightarrow> controller \<times> clock \<Rightarrow> controller \<times> clock" where
  "leave_timeout s = (\<lambda>(k, c).
     if people_count (status k) > 0 \<and> \<not> wave_run (led_on_up k) \<and> \<not> wave_run (led_on_down k) \<and>
        \<not> wave_run (led_off_up k) \<and> \<not> wave_run (led_off_down k) then
       let (t, c1) = get_time_ms c
       in if t - people_ts (status k) > ucast (leds_off_timeout s) then
            let k1 = k\<lparr>status := (status k)\<lparr>prev_people_count := 0, people_count := 0\<rparr>\<rparr>;
                (t2, c2) = get_time_ms c1
            in if last_det k1 = DETECTOR_TYPE_UP
               then (k1\<lparr>led_off_down := (led_off_down k1)\<lparr>wave_run := True, wave_ts := t2\<rparr>\<rparr>, c2)
               else (k1\<lparr>led_off_up := (led_off_up k1)\<lparr>wave_run := True, wave_ts := t2\<rparr>\<rparr>, c2)
          else (k, c1)
     else (k, c))"

section \<open>Emergency lights\<close>

definition block_stamp :: "detector_type \<Rightarrow> controller \<times> clock \<Rightarrow> controller \<times> clock" where
  "block_stamp i = (\<lambda>(k, c).
     if det_state (detector (status k) i) = DETECTOR_STATE_SECOND_LOCK then
       let (t, c1) = get_time_ms c in (k\<lparr>detector_block_ts := (detector_block_ts k)(i := t)\<rparr>, c1)
     else (k, c))"

definition block_stamps :: "controller \<times> clock \<Rightarrow> controller \<times> clock" where
  "block_stamps kc = fold block_stamp all_detectors kc"

definition emergency_step ::
    "settings \<Rightarrow> u64 \<Rightarrow> emergency_type \<Rightarrow> controller \<times> stairway_leds \<Rightarrow> controller \<times> stairway_leds" where
  "emergency_step s ts i = (\<lambda>(k, l).
     if \<not> current (sensor_state (status k) (emergency_sensor i)) then
       (k\<lparr>emergency_sensor_on_ts := (emergency_sensor_on_ts k)(i := 0)\<rparr>, l)
     else
       let k1 = (if emergency_sensor_on_ts k i = 0
                 then k\<lparr>emergency_sensor_on_ts := (emergency_sensor_on_ts k)(i := ts)\<rparr> else k)
       in if \<not> block_by_light (status k1) \<and> use_emergency s \<and> \<not> emergency_on k1 i \<and>
             ts - emergency_sensor_on_ts k1 i \<ge> EMERGENCY_CONFIRM_MS \<and>
             ts - detector_block_ts k1 (emergency_detector i) > ucast (emergency_block_ms s) then
            (k1\<lparr>emergency_on := (emergency_on k1)(i := True)\<rparr>, snd (stairway_emergency_leds i True l))
          else (k1, l))"

definition emergency_steps ::
    "settings \<Rightarrow> u64 \<Rightarrow> controller \<times> stairway_leds \<Rightarrow> controller \<times> stairway_leds" where
  "emergency_steps s ts kl = fold (emergency_step s ts) all_emergencies kl"

section \<open>The tick of the waves\<close>

definition emergency_off_step ::
    "emergency_type \<Rightarrow> controller \<times> stairway_leds \<Rightarrow> controller \<times> stairway_leds" where
  "emergency_off_step i = (\<lambda>(k, l).
     if emergency_on k i \<and> \<not> current (sensor_state (status k) (emergency_sensor i)) then
       (k\<lparr>emergency_on := (emergency_on k)(i := False)\<rparr>, snd (stairway_emergency_leds i False l))
     else (k, l))"

lemma unat_succ:
  assumes "cnt < (lim :: u32)"
  shows "unat (cnt + 1) = Suc (unat cnt)"
proof -
  have "unat cnt + 1 < 2 ^ 32"
    using assms unsigned_less [of lim, where ?'a = nat] by (simp add: word_less_nat_alt)
  then show ?thesis by (simp add: unat_word_ariths)
qed

text \<open>
  The inner loop that skips the LEDs of the emergency zone: \<open>pos\<close> is the LED for a value of the
  counter. The result is the calls of \<open>stairway_leds_set_state\<close> and the counter.
\<close>

function skip_zone ::
    "u32 \<Rightarrow> u32 \<Rightarrow> (u32 \<Rightarrow> u32) \<Rightarrow> u64 \<Rightarrow> u32 \<Rightarrow> led_event list \<times> u32" where
  "skip_zone zone lim pos ts cnt =
     (if cnt < zone \<and> cnt < lim then
        let (evs, cnt') = skip_zone zone lim pos ts (cnt + 1)
        in ((pos cnt, True, ts) # evs, cnt')
      else ([], cnt))"
  by pat_completeness auto
termination
proof (relation "measure (\<lambda>(zone, lim, pos, ts, cnt). unat lim - unat cnt)")
  show "wf (measure (\<lambda>(zone, lim, pos, ts, cnt). unat lim - unat cnt))" by simp
  fix zone lim cnt :: u32 and pos :: "u32 \<Rightarrow> u32" and ts :: u64
  assume "cnt < zone \<and> cnt < lim"
  then have "unat cnt < unat lim" "unat (cnt + 1) = unat cnt + 1"
    using unat_succ [of cnt lim] by (simp_all add: word_less_nat_alt)
  then show "((zone, lim, pos, ts, cnt + 1), (zone, lim, pos, ts, cnt)) \<in>
      measure (\<lambda>(zone, lim, pos, ts, cnt). unat lim - unat cnt)"
    by simp
qed

declare skip_zone.simps [simp del]

text \<open>\<open>mirrored\<close> is \<open>settings->led_count - cnt - 1\<close>: the waves that start at the upper end.\<close>

definition mirrored :: "settings \<Rightarrow> u32 \<Rightarrow> u32" where
  "mirrored s cnt = led_count s - cnt - 1"

text \<open>One tick of a wave that switches on, with the emergency zone \<open>zone\<close>, or off.\<close>

definition wave_on_tick ::
    "settings \<Rightarrow> u32 \<Rightarrow> (u32 \<Rightarrow> u32) \<Rightarrow> wave \<Rightarrow> led_event list \<times> wave" where
  "wave_on_tick s zone pos w =
     (if wave_run w then
        if wave_cnt w < led_count s then
          let (evs, cnt) = (if use_emergency s
                then skip_zone zone (led_count s - 1) pos (wave_ts w) (wave_cnt w)
                else ([], wave_cnt w))
          in (evs @ [(pos cnt, True, wave_ts w)], w\<lparr>wave_cnt := cnt + 1\<rparr>)
        else ([], w\<lparr>wave_cnt := 0, wave_run := False\<rparr>)
      else ([], w))"

definition wave_off_tick ::
    "settings \<Rightarrow> (u32 \<Rightarrow> u32) \<Rightarrow> wave \<Rightarrow> led_event list \<times> wave" where
  "wave_off_tick s pos w =
     (if wave_run w then
        if wave_cnt w < led_count s then
          ([(pos (wave_cnt w), False, wave_ts w)], w\<lparr>wave_cnt := wave_cnt w + 1\<rparr>)
        else ([], w\<lparr>wave_cnt := 0, wave_run := False\<rparr>)
      else ([], w))"

definition wave_tick ::
    "settings \<Rightarrow> u64 \<Rightarrow> controller \<times> stairway_leds \<Rightarrow> (controller \<times> stairway_leds) option" where
  "wave_tick s ts = (\<lambda>(k, l).
     if ts - prev_ts k > ucast (leds_time_interval s) then
       let (k1, l1) = fold emergency_off_step all_emergencies (k\<lparr>prev_ts := ts\<rparr>, l);
           (e1, w1) = wave_on_tick s (emergency_cnt s EMERGENCY_UP) (mirrored s) (led_on_up k1);
           (e2, w2) = wave_off_tick s (\<lambda>cnt. cnt) (led_off_up k1);
           (e3, w3) = wave_on_tick s (emergency_cnt s EMERGENCY_DOWN) (\<lambda>cnt. cnt) (led_on_down k1);
           (e4, w4) = wave_off_tick s (mirrored s) (led_off_down k1)
       in map_option (\<lambda>l2. (k1\<lparr>led_on_up := w1, led_off_up := w2, led_on_down := w3,
              led_off_down := w4\<rparr>, l2))
            (set_states (e1 @ e2 @ e3 @ e4) l1)
     else Some (k, l))"

section \<open>Test mode, refresh and error LED\<close>

fun test_loop ::
    "bool \<Rightarrow> u32 list \<Rightarrow> stairway_leds \<times> clock \<Rightarrow> (stairway_leds \<times> clock) option" where
  "test_loop state [] lc = Some lc"
| "test_loop state (i # is) (l, c) =
     (let (t, c1) = get_time_ms c
      in case stairway_leds_set_state i state t l of
           None \<Rightarrow> None
         | Some (_, l1) \<Rightarrow> test_loop state is (l1, c1))"

definition test_step ::
    "settings \<Rightarrow> controller \<times> stairway_leds \<times> clock \<Rightarrow> (controller \<times> stairway_leds \<times> clock) option" where
  "test_step s = (\<lambda>(k, l, c).
     if last_test_mode k \<noteq> test_mode (status k) then
       map_option (\<lambda>(l1, c1). (k\<lparr>last_test_mode := test_mode (status k)\<rparr>, l1, c1))
         (test_loop (test_mode (status k)) (upto_u32 (led_count s)) (l, c))
     else Some (k, l, c))"

text \<open>\<open>buf_ok\<close> and \<open>mem_ok\<close>: whether the allocations of a resize succeed.\<close>

definition refresh_step ::
    "bool \<Rightarrow> bool \<Rightarrow> settings \<Rightarrow> controller \<times> stairway_leds \<times> clock \<Rightarrow>
     (controller \<times> stairway_leds \<times> clock) option" where
  "refresh_step buf_ok mem_ok s = (\<lambda>(k, l, c).
     let (t, c1) = get_time_ms c
     in if t - refresh_ts k > 2 then
          let (t2, c2) = get_time_ms c1
          in map_option (\<lambda>(_, l1). (k\<lparr>refresh_ts := t2\<rparr>, l1, c2))
               (stairway_leds_refresh buf_ok mem_ok s l)
        else Some (k, l, c1))"

text \<open>
  The LED of the board. The result is the level it is driven to, if it is; \<open>ap\<close> is the result
  of \<open>net_ap_get_state\<close>.
\<close>

definition error_led_step :: "bool \<Rightarrow> controller \<times> clock \<Rightarrow> bool option \<times> controller \<times> clock" where
  "error_led_step ap = (\<lambda>(k, c).
     let (on, c1) =
           (if error_led_state k then
              let (t, c1) = get_time_ms c in (t - led_error_ts k > 1000, c1)
            else (False, c))
     in if on then
          let (t, c2) = get_time_ms c1 in (Some (\<not> ap), k\<lparr>led_error_ts := t\<rparr>, c2)
        else
          let (t, c2) = get_time_ms c1
          in (if t - led_error_ts k > 500 then Some ap else None, k, c2))"

section \<open>One pass\<close>

text \<open>
  The part of the loop body after the sensors have been read: \<open>ts\<close> is the time read at the top
  of the body, \<open>env_light\<close> the result of \<open>light_sensor_get_data\<close>, \<open>env_sens\<close> that of
  \<open>stairway_sensors_get\<close>. The error LED at the end of the body touches nothing that the next
  pass reads except its own time stamp.
\<close>

record env =
  env_settings :: settings
  env_light :: "bool \<times> u32"
  env_sens :: sensors_get
  env_buf_ok :: bool
  env_mem_ok :: bool
  env_ap :: bool

definition count_pass :: "env \<Rightarrow> u64 \<Rightarrow> controller \<times> clock \<Rightarrow> controller \<times> clock" where
  "count_pass e ts = (\<lambda>(k, c).
     let s = env_settings e; v = env_sens e;
         k0 = k\<lparr>error_led_state := False,
                status := (status k)\<lparr>light_state := fst (env_light e), light_value := snd (env_light e)\<rparr>\<rparr>;
         (k1, c1) = sensors_update v ts (k0, c);
         (st, c2) = detectors_step s v (light_block s (status k1), c1);
         (k2, c3) = count_events s (k1\<lparr>status := st\<rparr>, c2)
     in leave_timeout s (k2, c3))"

definition controller_pass ::
    "env \<Rightarrow> u64 \<Rightarrow> controller \<times> stairway_leds \<times> clock \<Rightarrow>
     (bool option \<times> controller \<times> stairway_leds \<times> clock) option" where
  "controller_pass e ts = (\<lambda>(k, l, c).
     let s = env_settings e;
         (k1, c1) = count_pass e ts (k, c);
         (k2, c2) = block_stamps (k1, c1);
         (k3, l1) = emergency_steps s ts (k2, l)
     in case wave_tick s ts (k3, l1) of
          None \<Rightarrow> None
        | Some (k4, l2) \<Rightarrow>
            (case test_step s (k4, l2, c2) of
               None \<Rightarrow> None
             | Some klc \<Rightarrow>
                 (case refresh_step (env_buf_ok e) (env_mem_ok e) s klc of
                    None \<Rightarrow> None
                  | Some (k5, l3, c3) \<Rightarrow>
                      let (level, k6, c4) = error_led_step (env_ap e) (k5, c3)
                      in Some (level, k6, l3, c4))))"

end
