(* ===== verification/Counting.thy ===== *)
theory Counting
  imports Controller
begin

text \<open>
  What the detectors of \<open>Controller\<close> count: each passage is counted once and in the right
  direction, the number of people is never negative, and nothing is counted while the light blocks
  the program.
\<close>

section \<open>The detectors as an automaton\<close>

text \<open>
  What a detector has to do in one pass, with the change of the count: \<open>first\<close> and \<open>second\<close> are
  the current values of its sensors, \<open>late\<close> tells that its last change of state is longer ago
  than the debounce time. In every situation exactly one rule applies.
\<close>

inductive det_moves :: "bool \<Rightarrow> bool \<Rightarrow> bool \<Rightarrow> detector_state \<Rightarrow> int \<Rightarrow> detector_state \<Rightarrow> bool" where
  rest: "\<not> first \<Longrightarrow> \<not> second \<Longrightarrow>
    det_moves first second late DETECTOR_STATE_IDLE 0 DETECTOR_STATE_IDLE"
| enter_first: "first \<Longrightarrow> det_moves first second late DETECTOR_STATE_IDLE 0 DETECTOR_STATE_FIRST_LOCK"
| enter_second: "\<not> first \<Longrightarrow> second \<Longrightarrow>
    det_moves first second late DETECTOR_STATE_IDLE 0 DETECTOR_STATE_SECOND_LOCK"
| wait_first: "\<not> second \<Longrightarrow> first \<or> \<not> late \<Longrightarrow>
    det_moves first second late DETECTOR_STATE_FIRST_LOCK 0 DETECTOR_STATE_FIRST_LOCK"
| wait_second: "\<not> first \<Longrightarrow> second \<or> \<not> late \<Longrightarrow>
    det_moves first second late DETECTOR_STATE_SECOND_LOCK 0 DETECTOR_STATE_SECOND_LOCK"
| count_in: "second \<Longrightarrow> first \<or> \<not> late \<Longrightarrow>
    det_moves first second late DETECTOR_STATE_FIRST_LOCK 1 DETECTOR_STATE_INC"
| count_out: "first \<Longrightarrow> second \<or> \<not> late \<Longrightarrow>
    det_moves first second late DETECTOR_STATE_SECOND_LOCK (- 1) DETECTOR_STATE_DEC"
| give_up_first: "\<not> first \<Longrightarrow> late \<Longrightarrow>
    det_moves first second late DETECTOR_STATE_FIRST_LOCK 0 DETECTOR_STATE_IDLE"
| give_up_second: "\<not> second \<Longrightarrow> late \<Longrightarrow>
    det_moves first second late DETECTOR_STATE_SECOND_LOCK 0 DETECTOR_STATE_IDLE"
| stay_in: "first \<or> second \<or> \<not> late \<Longrightarrow>
    det_moves first second late DETECTOR_STATE_INC 0 DETECTOR_STATE_INC"
| stay_out: "first \<or> second \<or> \<not> late \<Longrightarrow>
    det_moves first second late DETECTOR_STATE_DEC 0 DETECTOR_STATE_DEC"
| done_in: "\<not> first \<Longrightarrow> \<not> second \<Longrightarrow> late \<Longrightarrow>
    det_moves first second late DETECTOR_STATE_INC 0 DETECTOR_STATE_IDLE"
| done_out: "\<not> first \<Longrightarrow> \<not> second \<Longrightarrow> late \<Longrightarrow>
    det_moves first second late DETECTOR_STATE_DEC 0 DETECTOR_STATE_IDLE"

inductive_simps moves_from_idle: "det_moves first second late DETECTOR_STATE_IDLE d s"
inductive_simps moves_from_first: "det_moves first second late DETECTOR_STATE_FIRST_LOCK d s"
inductive_simps moves_from_second: "det_moves first second late DETECTOR_STATE_SECOND_LOCK d s"
inductive_simps moves_from_inc: "det_moves first second late DETECTOR_STATE_INC d s"
inductive_simps moves_from_dec: "det_moves first second late DETECTOR_STATE_DEC d s"
inductive_cases moves_in: "det_moves first second late s 1 s'"
inductive_cases moves_out: "det_moves first second late s (- 1) s'"

lemmas moves_from = moves_from_idle moves_from_first moves_from_second moves_from_inc moves_from_dec

lemma moves_unique:
  "det_moves first second late s d s' \<Longrightarrow> det_moves first second late s e t \<Longrightarrow> e = d \<and> t = s'"
  by (cases s) (auto simp: moves_from)

lemma moves_exist: "\<exists>d s'. det_moves first second late s d s'"
  by (cases s; cases first; cases second; cases late) (auto simp: moves_from)

lemma set_detector_eq:
  "set_detector i d (st, c) =
     (st\<lparr>detector := (detector st)(i := \<lparr>det_state = d, det_ts = fst (get_time_ms c)\<rparr>)\<rparr>,
      snd (get_time_ms c))"
  by (simp add: set_detector_def split_beta)

lemma quiet_for_eq:
  "quiet_for q t i (st, c) =
     (q \<and> fst (get_time_ms c) - det_ts (detector st i) > ucast t, if q then snd (get_time_ms c) else c)"
  by (simp add: quiet_for_def split_beta)

text \<open>The count never falls below zero.\<close>

definition count_after :: "int \<Rightarrow> int \<Rightarrow> int" where
  "count_after p d = (if p = 0 \<and> d = - 1 then 0 else p + d)"

lemma count_after_simps [simp]:
  "count_after p 0 = p" "count_after p 1 = p + 1"
  "count_after p (- 1) = (if p = 0 then 0 else p - 1)"
  by (simp_all add: count_after_def)

lemma detector_switch_moves:
  assumes "detector_switch s i (st, c) = (st', c')"
  shows "\<exists>d. det_moves (current (sensor_state st (sens_first i)))
       (current (sensor_state st (sens_second i)))
       (fst (get_time_ms c) - det_ts (detector st i) > ucast (sensor_debouce_time s))
       (det_state (detector st i)) d (det_state (detector st' i)) \<and>
     people_count st' = count_after (people_count st) d"
proof -
  let ?late = "fst (get_time_ms c) - det_ts (detector st i) > ucast (sensor_debouce_time s)"
  let ?f = "current (sensor_state st (sens_first i))"
  let ?s = "current (sensor_state st (sens_second i))"
  let ?d = "det_state (detector st i)"
  define d :: int where "d = (if ?d = DETECTOR_STATE_FIRST_LOCK \<and> ?s \<and> (?f \<or> \<not> ?late) then 1
    else if ?d = DETECTOR_STATE_SECOND_LOCK \<and> ?f \<and> (?s \<or> \<not> ?late) then - 1 else 0)"
  have "det_moves ?f ?s ?late ?d d (det_state (detector st' i)) \<and>
      people_count st' = count_after (people_count st) d"
    using assms
    by (cases ?d; cases ?f; cases ?s; cases ?late)
      (auto simp: detector_switch_def quiet_for_eq set_detector_eq d_def moves_from)
  then show ?thesis by blast
qed

text \<open>
  A change of state carries the time of the last reading of the clock in this pass, a change of the
  count, too.
\<close>

lemma detector_switch_stamps:
  assumes "detector_switch s i (st, c) = (st', c')"
  shows "detector st' i = (if det_state (detector st' i) = det_state (detector st i) then detector st i
       else \<lparr>det_state = det_state (detector st' i), det_ts = total_ms c'\<rparr>) \<and>
     people_ts st' = (if people_count st' = people_count st then people_ts st else total_ms c')"
  using assms
  by (cases "det_state (detector st i)"; cases "current (sensor_state st (sens_first i))";
      cases "current (sensor_state st (sens_second i))")
    (auto simp: detector_switch_def quiet_for_eq set_detector_eq fst_get_time_ms split: if_splits)

lemma detector_switch_frame:
  assumes "detector_switch s i (st, c) = (st', c')"
  shows "block_by_light st' = block_by_light st \<and> sensor_state st' = sensor_state st \<and>
     prev_people_count st' = prev_people_count st \<and> test_mode st' = test_mode st \<and>
     (\<forall>j. j \<noteq> i \<longrightarrow> detector st' j = detector st j)"
  using assms
  by (cases "det_state (detector st i)"; cases "current (sensor_state st (sens_first i))";
      cases "current (sensor_state st (sens_second i))")
    (auto simp: detector_switch_def quiet_for_eq set_detector_eq split: if_splits)

section \<open>One detector\<close>

lemma detector_step_cases:
  "detector_step s v i (st, c) =
     (if block_by_light st then set_detector i DETECTOR_STATE_IDLE (st, c)
      else if sens_error v (sens_first i) \<or> sens_error v (sens_second i) then (st, c)
      else detector_switch s i (st, c))"
  by (simp add: detector_step_def)

lemma detector_step_frame:
  assumes "detector_step s v i (st, c) = (st', c')"
  shows "block_by_light st' = block_by_light st \<and> sensor_state st' = sensor_state st \<and>
     prev_people_count st' = prev_people_count st \<and> test_mode st' = test_mode st \<and>
     (\<forall>j. j \<noteq> i \<longrightarrow> detector st' j = detector st j)"
  using assms detector_switch_frame [of s i st c st' c']
  by (auto simp: detector_step_cases set_detector_eq split: if_splits)

text \<open>
  C18: the detector of the code does in every pass what the automaton \<open>det_moves\<close> prescribes, and
  the automaton is deterministic. While the light does not block the program and the two sensors
  work, the new state and the change of the count are the only ones that \<open>det_moves\<close> allows for the
  values of the two sensors and the comparison of the elapsed time with the debounce time: one
  person in when the second sensor follows the first, one person out when the first follows the
  second (the count stops at zero). A change of state or of the count carries the time of the
  last reading. While the light blocks, the detector is made idle and does not count; with a faulty
  sensor it is frozen. The other detector is not touched.
\<close>

theorem detector_step_refines:
  assumes "detector_step s v i (st, c) = (st', c')"
  defines "late \<equiv> fst (get_time_ms c) - det_ts (detector st i) > ucast (sensor_debouce_time s)"
    and "first \<equiv> current (sensor_state st (sens_first i))"
    and "second \<equiv> current (sensor_state st (sens_second i))"
  shows "(if block_by_light st then
       detector st' i = \<lparr>det_state = DETECTOR_STATE_IDLE, det_ts = total_ms c'\<rparr> \<and>
       people_count st' = people_count st
     else if sens_error v (sens_first i) \<or> sens_error v (sens_second i) then st' = st
     else \<exists>d. (\<forall>e t. det_moves first second late (det_state (detector st i)) e t \<longleftrightarrow>
            e = d \<and> t = det_state (detector st' i)) \<and>
          people_count st' = count_after (people_count st) d \<and>
          detector st' i = (if det_state (detector st' i) = det_state (detector st i) then detector st i
            else \<lparr>det_state = det_state (detector st' i), det_ts = total_ms c'\<rparr>) \<and>
          people_ts st' = (if people_count st' = people_count st then people_ts st else total_ms c')) \<and>
     (\<forall>j. j \<noteq> i \<longrightarrow> detector st' j = detector st j)"
proof (cases "block_by_light st \<or> sens_error v (sens_first i) \<or> sens_error v (sens_second i)")
  case True
  show ?thesis
  proof (cases "block_by_light st")
    case True
    then have "st' = st\<lparr>detector := (detector st)(i := \<lparr>det_state = DETECTOR_STATE_IDLE, det_ts = total_ms c'\<rparr>)\<rparr>"
      using assms(1) by (auto simp: detector_step_cases set_detector_eq fst_get_time_ms)
    with True show ?thesis by simp
  next
    case False
    then have "st' = st" using assms(1) \<open>block_by_light st \<or> _ \<or> _\<close> by (simp add: detector_step_cases)
    with False True show ?thesis by simp
  qed
next
  case False
  then have r: "detector_switch s i (st, c) = (st', c')"
    using assms(1) by (simp add: detector_step_cases)
  obtain d where d: "det_moves first second late (det_state (detector st i)) d (det_state (detector st' i))"
      "people_count st' = count_after (people_count st) d"
    using detector_switch_moves [OF r] by (auto simp: late_def first_def second_def)
  have "\<forall>e t. det_moves first second late (det_state (detector st i)) e t \<longleftrightarrow>
      e = d \<and> t = det_state (detector st' i)"
    using moves_unique [OF d(1)] d(1) by blast
  moreover have "\<forall>j. j \<noteq> i \<longrightarrow> detector st' j = detector st j"
    using detector_step_frame [OF assms(1)] by simp
  moreover note detector_switch_stamps [THEN conjunct1, OF r] detector_switch_stamps [THEN conjunct2, OF r]
  moreover have "\<not> block_by_light st" "\<not> (sens_error v (sens_first i) \<or> sens_error v (sens_second i))"
    using False by simp_all
  ultimately show ?thesis
    unfolding if_not_P [OF \<open>\<not> block_by_light st\<close>]
      if_not_P [OF \<open>\<not> (sens_error v (sens_first i) \<or> sens_error v (sens_second i))\<close>]
    using d(2) by (intro conjI exI [of _ d]) assumption+
qed

text \<open>
  A detector that has seen a person at its first sensor at the time 5, in two passes at the time 9:
  with both sensors active the person is counted, with none active the detector waits. At the time
  9000, later than the debounce time, it gives up.
\<close>

definition waiting_status :: "bool \<Rightarrow> status" where
  "waiting_status b = status_start\<lparr>
     sensor_state := (\<lambda>_. \<lparr>current = b, trigger = b, sensor_ts = 0\<rparr>),
     detector := (\<lambda>_. \<lparr>det_state = DETECTOR_STATE_FIRST_LOCK, det_ts = 5\<rparr>)\<rparr>"

lemma detector_step_refines_witness:
  "\<exists>st1 c1 st2 c2 st3 c3.
     detector_step default_settings sensors_get_zero DETECTOR_TYPE_UP
       (waiting_status True, clock_init (\<lambda>_. 9)) = (st1, c1) \<and>
     det_state (detector st1 DETECTOR_TYPE_UP) = DETECTOR_STATE_INC \<and> people_count st1 = 1 \<and>
     detector_step default_settings sensors_get_zero DETECTOR_TYPE_UP
       (waiting_status False, clock_init (\<lambda>_. 9)) = (st2, c2) \<and>
     det_state (detector st2 DETECTOR_TYPE_UP) = DETECTOR_STATE_FIRST_LOCK \<and> people_count st2 = 0 \<and>
     detector_step default_settings sensors_get_zero DETECTOR_TYPE_UP
       (waiting_status False, clock_init (\<lambda>_. 9000)) = (st3, c3) \<and>
     det_state (detector st3 DETECTOR_TYPE_UP) = DETECTOR_STATE_IDLE \<and> people_count st3 = 0"
proof -
  let ?i = DETECTOR_TYPE_UP and ?w = waiting_status
    and ?step = "detector_step default_settings sensors_get_zero DETECTOR_TYPE_UP"
  have w: "det_state (detector (?w b) j) = DETECTOR_STATE_FIRST_LOCK" "det_ts (detector (?w b) j) = 5"
      "current (sensor_state (?w b) x) = b" "block_by_light (?w b) = False" "people_count (?w b) = 0"
      "sens_error sensors_get_zero x = False" for b j x
    by (simp_all add: waiting_status_def status_start_def sensors_get_zero_def)
  have t: "fst (get_time_ms (clock_init (\<lambda>_. u))) = ucast u" for u :: u32
    by (simp add: get_time_ms_def clock_init_def Let_def)
  have run: "det_state (detector st' ?i) = s' \<and> people_count st' = count_after 0 d"
    if r: "?step (?w b, clock_init (\<lambda>_. u)) = (st', c')"
      and m: "det_moves b b ((ucast u :: u64) - 5 > ucast (sensor_debouce_time default_settings)) DETECTOR_STATE_FIRST_LOCK d s'"
    for b u st' c' d s'
  proof -
    obtain d' where "\<forall>e t. det_moves b b ((ucast u :: u64) - 5 > ucast (sensor_debouce_time default_settings))
          DETECTOR_STATE_FIRST_LOCK e t \<longleftrightarrow> e = d' \<and> t = det_state (detector st' ?i)"
        "people_count st' = count_after 0 d'"
      using conjunct1 [OF detector_step_refines [OF r, unfolded w t]] unfolding if_False simp_thms
      by (elim exE conjE) (erule (1) that)
    then show ?thesis using m by auto
  qed
  obtain st1 c1 st2 c2 st3 c3 where r: "?step (?w True, clock_init (\<lambda>_. 9)) = (st1, c1)"
      "?step (?w False, clock_init (\<lambda>_. 9)) = (st2, c2)" "?step (?w False, clock_init (\<lambda>_. 9000)) = (st3, c3)"
    by fastforce
  have "det_state (detector st1 ?i) = DETECTOR_STATE_INC \<and> people_count st1 = 1"
    using run [OF r(1), of 1 DETECTOR_STATE_INC] by (simp add: moves_from_first)
  moreover have "det_state (detector st2 ?i) = DETECTOR_STATE_FIRST_LOCK \<and> people_count st2 = 0"
    using run [OF r(2), of 0 DETECTOR_STATE_FIRST_LOCK] by (simp add: moves_from_first default_settings_def)
  moreover have "det_state (detector st3 ?i) = DETECTOR_STATE_IDLE \<and> people_count st3 = 0"
    using run [OF r(3), of 0 DETECTOR_STATE_IDLE] by (simp add: moves_from_first default_settings_def)
  ultimately show ?thesis using r by blast
qed

lemma moves_nonneg:
  "det_moves f g late s d s' \<Longrightarrow> 0 \<le> p \<Longrightarrow> 0 \<le> count_after p d"
  by (erule det_moves.cases) (auto simp: count_after_def)

lemma detector_step_nonneg:
  assumes "detector_step s v i (st, c) = (st', c')" and "0 \<le> people_count st"
  shows "0 \<le> people_count st'"
  using assms detector_switch_moves [of s i st c st' c'] moves_nonneg
  by (auto simp: detector_step_cases set_detector_eq split: if_splits)

lemma detector_step_blocked:
  assumes "detector_step s v i (st, c) = (st', c')" and "block_by_light st"
  shows "people_count st' = people_count st \<and> det_state (detector st' i) = DETECTOR_STATE_IDLE"
  using assms by (auto simp: detector_step_cases set_detector_eq)

section \<open>Passages\<close>

text \<open>A detector that sees the given values of its two sensors, pass after pass.\<close>

definition see :: "detector_type \<Rightarrow> bool \<Rightarrow> bool \<Rightarrow> status \<Rightarrow> status" where
  "see i f g st = st\<lparr>sensor_state := (sensor_state st)
     (sens_first i := (sensor_state st (sens_first i))\<lparr>current := f\<rparr>,
      sens_second i := (sensor_state st (sens_second i))\<lparr>current := g\<rparr>)\<rparr>"

lemma see_fields [simp]:
  "people_count (see i f g st) = people_count st" "detector (see i f g st) = detector st"
  "current (sensor_state (see i f g st) (sens_first i)) = f"
  "current (sensor_state (see i f g st) (sens_second i)) = g"
  by (cases i; simp add: see_def)+

fun detector_run ::
    "settings \<Rightarrow> detector_type \<Rightarrow> (bool \<times> bool) list \<Rightarrow> status \<times> clock \<Rightarrow> int list \<times> status \<times> clock" where
  "detector_run s i [] (st, c) = ([], st, c)"
| "detector_run s i ((f, g) # obs) (st, c) =
     (let (st1, c1) = detector_switch s i (see i f g st, c);
          (ds, stc) = detector_run s i obs (st1, c1)
      in ((people_count st1 - people_count st) # ds, stc))"

text \<open>Once it has counted, a detector stays until both sensors are quiet.\<close>

lemma counted_stays:
  assumes "f \<or> g" and "det_state (detector st i) \<in> {DETECTOR_STATE_INC, DETECTOR_STATE_DEC}"
    and "detector_switch s i (see i f g st, c) = (st1, c1)"
  shows "det_state (detector st1 i) = det_state (detector st i) \<and> people_count st1 = people_count st"
  using assms detector_switch_moves [OF assms(3)]
  by (auto simp: moves_from_inc moves_from_dec)

lemma counted_run:
  assumes "\<forall>x \<in> set obs. fst x \<or> snd x"
    and "det_state (detector st i) \<in> {DETECTOR_STATE_INC, DETECTOR_STATE_DEC}"
  shows "\<exists>st' c'. detector_run s i obs (st, c) = (replicate (length obs) 0, st', c') \<and>
     det_state (detector st' i) = det_state (detector st i) \<and> people_count st' = people_count st"
  using assms
proof (induction obs arbitrary: st c)
  case Nil
  then show ?case by simp
next
  case (Cons x obs)
  obtain f g where x: "x = (f, g)" by (cases x)
  obtain st1 c1 where r: "detector_switch s i (see i f g st, c) = (st1, c1)" by fastforce
  have st1: "det_state (detector st1 i) = det_state (detector st i)" "people_count st1 = people_count st"
    using counted_stays [OF _ Cons.prems(2) r] Cons.prems(1) x by auto
  with Cons.IH [of st1 c1] Cons.prems x obtain st' c' where
    "detector_run s i obs (st1, c1) = (replicate (length obs) 0, st', c')"
    "det_state (detector st' i) = det_state (detector st i)" "people_count st' = people_count st"
    by auto
  then show ?case using r st1 by (simp add: x)
qed

text \<open>
  A person is counted at most once: however long somebody stays in front of the sensors of
  a detector, in whatever order they fire, the count changes at most once as long as at
  least one of them is active.
\<close>

theorem passage_counted_once:
  assumes "\<forall>x \<in> set obs. fst x \<or> snd x"
  shows "length (filter (\<lambda>d. d \<noteq> 0) (fst (detector_run s i obs (st, c)))) \<le> 1"
  using assms
proof (induction obs arbitrary: st c)
  case Nil
  then show ?case by simp
next
  case (Cons x obs)
  obtain f g where x: "x = (f, g)" by (cases x)
  obtain st1 c1 where r: "detector_switch s i (see i f g st, c) = (st1, c1)" by fastforce
  obtain late d where d: "det_moves f g late (det_state (detector st i)) d (det_state (detector st1 i))"
      "people_count st1 = count_after (people_count st) d"
    using detector_switch_moves [OF r] by auto
  show ?case
  proof (cases "d = 0")
    case True
    then show ?thesis
      using Cons d r x by (simp add: split_beta)
  next
    case False
    with d(1) have "det_state (detector st1 i) \<in> {DETECTOR_STATE_INC, DETECTOR_STATE_DEC}"
      by (cases rule: det_moves.cases) auto
    then have "\<exists>st' c'. detector_run s i obs (st1, c1) = (replicate (length obs) 0, st', c')"
      using counted_run [of obs st1 i s c1] Cons.prems by fastforce
    then show ?thesis using r by (auto simp: x)
  qed
qed

lemma passage_counted_once_witness:
  "length (filter (\<lambda>d. d \<noteq> 0) (fst (detector_run default_settings DETECTOR_TYPE_UP
     [(True, False), (True, True), (False, True), (True, True)] (status_start, clock_init (\<lambda>_. 9))))) \<le> 1"
  by (rule passage_counted_once) simp

text \<open>The state in which a passage has begun, and the one in which it has been counted.\<close>

definition locked :: "bool \<Rightarrow> detector_state" where
  "locked way_in = (if way_in then DETECTOR_STATE_FIRST_LOCK else DETECTOR_STATE_SECOND_LOCK)"

definition counted :: "bool \<Rightarrow> detector_state" where
  "counted way_in = (if way_in then DETECTOR_STATE_INC else DETECTOR_STATE_DEC)"

lemma run_append:
  "detector_run s i (xs @ ys) (st, c) =
     (let (ds, st1, c1) = detector_run s i xs (st, c); (es, stc) = detector_run s i ys (st1, c1)
      in (ds @ es, stc))"
  by (induction xs arbitrary: st c) (auto simp: split_beta)

lemma enter_switch:
  assumes "det_state (detector st i) = DETECTOR_STATE_IDLE"
    and "detector_switch s i (see i way_in (\<not> way_in) st, c) = (st1, c1)"
  shows "det_state (detector st1 i) = locked way_in \<and> people_count st1 = people_count st"
  using assms by (cases way_in) (auto simp: detector_switch_def set_detector_eq locked_def)

lemma wait_switch:
  assumes "det_state (detector st i) = locked way_in"
    and "detector_switch s i (see i way_in (\<not> way_in) st, c) = (st1, c1)"
  shows "det_state (detector st1 i) = locked way_in \<and> people_count st1 = people_count st"
  using assms by (cases way_in) (auto simp: detector_switch_def quiet_for_eq set_detector_eq locked_def)

lemma count_switch:
  assumes "det_state (detector st i) = locked way_in"
    and "detector_switch s i (see i True True st, c) = (st1, c1)"
  shows "det_state (detector st1 i) = counted way_in \<and>
     people_count st1 = count_after (people_count st) (if way_in then 1 else - 1)"
  using assms
  by (cases way_in) (auto simp: detector_switch_def quiet_for_eq set_detector_eq locked_def counted_def)

lemma wait_run:
  assumes "det_state (detector st i) = locked way_in"
  shows "\<exists>st' c'. detector_run s i (replicate n (way_in, \<not> way_in)) (st, c) = (replicate n 0, st', c') \<and>
     det_state (detector st' i) = locked way_in \<and> people_count st' = people_count st"
  using assms
proof (induction n arbitrary: st c)
  case 0
  then show ?case by simp
next
  case (Suc n)
  obtain st1 c1 where r: "detector_switch s i (see i way_in (\<not> way_in) st, c) = (st1, c1)"
    by fastforce
  note st1 = wait_switch [OF Suc.prems r]
  with Suc.IH [of st1 c1] obtain st' c' where
    "detector_run s i (replicate n (way_in, \<not> way_in)) (st1, c1) = (replicate n 0, st', c')"
    "det_state (detector st' i) = locked way_in" "people_count st' = people_count st"
    by auto
  with r st1 show ?case by simp
qed

text \<open>
  C1: a passage is counted, exactly once and in the right direction. A detector at rest sees a
  person that comes to one sensor, then stands before both, then leaves in any manner with a
  sensor active in each pass: the count changes by one in exactly the first pass with both
  sensors active, up if the \<open>FIRST\<close> sensor led (somebody enters) and down, not below zero,
  if the \<open>SECOND\<close> one led; how long each phase lasts does not matter.
\<close>

theorem passage_counted:
  assumes "det_state (detector st i) = DETECTOR_STATE_IDLE" and "\<forall>x \<in> set rest. fst x \<or> snd x"
  defines "p \<equiv> people_count st"
  shows "\<exists>st' c'. detector_run s i
       (replicate (Suc a) (way_in, \<not> way_in) @ (True, True) # rest) (st, c) =
       (replicate (Suc a) 0 @ (count_after p (if way_in then 1 else - 1) - p) # replicate (length rest) 0,
        st', c') \<and>
     people_count st' = count_after p (if way_in then 1 else - 1)"
proof -
  obtain st1 c1 where r1: "detector_switch s i (see i way_in (\<not> way_in) st, c) = (st1, c1)"
    by fastforce
  note st1 = enter_switch [OF assms(1) r1]
  then obtain st2 c2 where
    r2: "detector_run s i (replicate a (way_in, \<not> way_in)) (st1, c1) = (replicate a 0, st2, c2)" and
    st2: "det_state (detector st2 i) = locked way_in" "people_count st2 = p"
    using wait_run [of st1 i way_in s a c1] by (auto simp: p_def)
  obtain st3 c3 where r3: "detector_switch s i (see i True True st2, c2) = (st3, c3)"
    by fastforce
  note st3 = count_switch [OF st2(1) r3]
  have "det_state (detector st3 i) \<in> {DETECTOR_STATE_INC, DETECTOR_STATE_DEC}"
    using st3 by (simp add: counted_def)
  from counted_run [OF assms(2) this, of s c3] obtain st4 c4 where
    r4: "detector_run s i rest (st3, c3) = (replicate (length rest) 0, st4, c4)" and
    st4: "people_count st4 = people_count st3"
    by blast
  have "detector_run s i (replicate (Suc a) (way_in, \<not> way_in)) (st, c) = (replicate (Suc a) 0, st2, c2)"
    using r1 r2 st1 by simp
  then show ?thesis
    unfolding run_append using r3 r4 st2(2) st3 st4 by (simp del: replicate_Suc)
qed

lemma passage_counted_witness:
  "\<exists>st' c'. detector_run default_settings DETECTOR_TYPE_DOWN
     [(True, False), (True, False), (True, True), (False, True)] (status_start, clock_init (\<lambda>_. 9)) =
     ([0, 0, 1, 0], st', c') \<and> people_count st' = 1"
  using passage_counted [of status_start DETECTOR_TYPE_DOWN "[(False, True)]" default_settings 1 True
      "clock_init (\<lambda>_. 9)"]
  by (auto simp: status_start_def)

section \<open>The count over whole passes\<close>

lemma sensor_update_frame:
  assumes "sensor_update v ts i (k, c) = (k', c')"
  shows "detector (status k') = detector (status k) \<and> people_count (status k') = people_count (status k) \<and>
     prev_people_count (status k') = prev_people_count (status k) \<and>
     block_by_light (status k') = block_by_light (status k) \<and>
     test_mode (status k') = test_mode (status k) \<and>
     led_on_up k' = led_on_up k \<and> led_on_down k' = led_on_down k \<and>
     led_off_up k' = led_off_up k \<and> led_off_down k' = led_off_down k \<and>
     emergency_on k' = emergency_on k \<and> last_det k' = last_det k"
  using assms by (cases "sens_error v i") (auto simp: sensor_update_def Let_def split_beta)

lemma sensors_update_frame:
  assumes "fold (sensor_update v ts) is (k, c) = (k', c')"
  shows "detector (status k') = detector (status k) \<and> people_count (status k') = people_count (status k) \<and>
     prev_people_count (status k') = prev_people_count (status k) \<and>
     block_by_light (status k') = block_by_light (status k) \<and>
     test_mode (status k') = test_mode (status k) \<and>
     led_on_up k' = led_on_up k \<and> led_on_down k' = led_on_down k \<and>
     led_off_up k' = led_off_up k \<and> led_off_down k' = led_off_down k \<and>
     emergency_on k' = emergency_on k \<and> last_det k' = last_det k"
  using assms
proof (induction "is" arbitrary: k c)
  case (Cons i "is")
  obtain k1 c1 where r: "sensor_update v ts i (k, c) = (k1, c1)" by fastforce
  with Cons.prems Cons.IH [of k1 c1] sensor_update_frame [OF r] show ?case by simp
qed simp

lemma sensors_update_light:
  assumes "fold (sensor_update v ts) is (k, c) = (k', c')"
  shows "light_state (status k') = light_state (status k)"
  using assms
proof (induction "is" arbitrary: k c)
  case (Cons i "is")
  obtain k1 c1 where r: "sensor_update v ts i (k, c) = (k1, c1)" by fastforce
  then have "light_state (status k1) = light_state (status k)"
    by (cases "sens_error v i") (auto simp: sensor_update_def Let_def split_beta)
  with r Cons.prems Cons.IH [of k1 c1] show ?case by simp
qed simp

text \<open>
  Between two passes: the count is not negative, the last count has been dealt with, and by
  daylight there is nobody and no detector is active.
\<close>

definition count_inv :: "controller \<Rightarrow> bool" where
  "count_inv k \<longleftrightarrow>
     0 \<le> people_count (status k) \<and> prev_people_count (status k) = people_count (status k) \<and>
     (block_by_light (status k) \<longrightarrow> people_count (status k) = 0 \<and>
        (\<forall>i. det_state (detector (status k) i) = DETECTOR_STATE_IDLE))"

lemma light_block_frame:
  "people_count (light_block s st) = people_count st"
  "prev_people_count (light_block s st) = prev_people_count st"
  "detector (light_block s st) = detector st"
  "(block_by_light st \<longrightarrow> people_count st = 0) \<Longrightarrow>
     block_by_light (light_block s st) \<longrightarrow> people_count (light_block s st) = 0"
  by (auto simp: light_block_def)

lemma detectors_step_inv:
  assumes "detectors_step s v (st, c) = (st', c')" and "0 \<le> people_count st"
    and "block_by_light st \<longrightarrow> people_count st = 0"
  shows "0 \<le> people_count st' \<and> block_by_light st' = block_by_light st \<and>
     (block_by_light st' \<longrightarrow> people_count st' = 0 \<and> (\<forall>i. det_state (detector st' i) = DETECTOR_STATE_IDLE))"
proof -
  obtain st1 c1 where r1: "detector_step s v DETECTOR_TYPE_UP (st, c) = (st1, c1)" by fastforce
  then have r2: "detector_step s v DETECTOR_TYPE_DOWN (st1, c1) = (st', c')"
    using assms(1) by (simp add: detectors_step_def all_detectors_def)
  note f1 = detector_step_frame [OF r1] and f2 = detector_step_frame [OF r2]
  have "0 \<le> people_count st'"
    using detector_step_nonneg [OF r2] detector_step_nonneg [OF r1 assms(2)] by simp
  moreover have "people_count st' = 0 \<and> det_state (detector st' i) = DETECTOR_STATE_IDLE"
    if "block_by_light st'" for i
    using that f1 f2 detector_step_blocked [OF r1] detector_step_blocked [OF r2] assms(3)
    by (cases i) auto
  ultimately show ?thesis using f1 f2 by simp
qed

lemma detectors_step_prev:
  assumes "detectors_step s v (st, c) = (st', c')"
  shows "prev_people_count st' = prev_people_count st"
proof -
  obtain st1 c1 where r1: "detector_step s v DETECTOR_TYPE_UP (st, c) = (st1, c1)" by fastforce
  then have "detector_step s v DETECTOR_TYPE_DOWN (st1, c1) = (st', c')"
    using assms by (simp add: detectors_step_def all_detectors_def)
  from detector_step_frame [OF r1] detector_step_frame [OF this] show ?thesis by simp
qed

text \<open>Each detector counts at most one person in a pass.\<close>

lemma detector_step_bound:
  assumes "detector_step s v i (st, c) = (st', c')"
  shows "people_count st' \<le> people_count st + 1"
proof -
  have "count_after p d \<le> p + 1" if "det_moves f g late a d b" for f g late a d b and p :: int
    using that by (cases rule: det_moves.cases) (auto simp: count_after_def)
  then show ?thesis
    using assms detector_switch_moves [of s i st c st' c']
    by (fastforce simp: detector_step_cases set_detector_eq split: if_splits)
qed

lemma detectors_step_bound:
  assumes "detectors_step s v (st, c) = (st', c')"
  shows "people_count st' \<le> people_count st + 2"
proof -
  obtain st1 c1 where r1: "detector_step s v DETECTOR_TYPE_UP (st, c) = (st1, c1)" by fastforce
  then have "detector_step s v DETECTOR_TYPE_DOWN (st1, c1) = (st', c')"
    using assms by (simp add: detectors_step_def all_detectors_def)
  from detector_step_bound [OF r1] detector_step_bound [OF this] show ?thesis by simp
qed

lemma on_events_status:
  "on_events s (k, c) = (k', c') \<Longrightarrow> status k' = status k"
  by (auto simp: on_events_def start_wave_def split_beta split: if_splits)

lemma off_events_status:
  "off_events s (k, c) = (k', c') \<Longrightarrow> status k' = status k"
  by (auto simp: off_events_def start_wave_def split_beta split: if_splits)

lemma count_events_status:
  assumes "count_events s (k, c) = (k', c')"
  shows "status k' = (status k)\<lparr>prev_people_count := people_count (status k)\<rparr>"
proof -
  obtain k1 c1 where on: "on_events s (k, c) = (k1, c1)" by fastforce
  obtain k2 c2 where off: "off_events s (k, c) = (k2, c2)" by fastforce
  show ?thesis
    using assms on_events_status [OF on] off_events_status [OF off]
    by (auto simp: count_events_def on off split: if_splits)
qed

lemma leave_timeout_status:
  assumes "leave_timeout s (k, c) = (k', c')"
  shows "status k' = status k \<or>
     status k' = (status k)\<lparr>prev_people_count := 0, people_count := 0\<rparr>"
  using assms by (auto simp: leave_timeout_def Let_def split_beta split: if_splits)

text \<open>Nothing behind the counting touches the status.\<close>

lemma count_pass_inv [inv_rules]:
  assumes "count_inv k" and "count_pass e ts (k, c) = (k', c')"
  shows "count_inv k'"
proof -
  let ?s = "env_settings e" and ?v = "env_sens e"
  let ?k0 = "k\<lparr>error_led_state := False,
    status := (status k)\<lparr>light_state := fst (env_light e), light_value := snd (env_light e)\<rparr>\<rparr>"
  obtain k1 c1 where r1: "sensors_update ?v ts (?k0, c) = (k1, c1)" by fastforce
  obtain st c2 where r2: "detectors_step ?s ?v (light_block ?s (status k1), c1) = (st, c2)" by fastforce
  obtain k2 c3 where r3: "count_events ?s (k1\<lparr>status := st\<rparr>, c2) = (k2, c3)" by fastforce
  have r4: "leave_timeout ?s (k2, c3) = (k', c')"
    using assms(2) by (simp add: count_pass_def Let_def r1 r2 r3)
  have k1: "0 \<le> people_count (status k1)" "block_by_light (status k1) \<longrightarrow> people_count (status k1) = 0"
    using sensors_update_frame [OF r1 [unfolded sensors_update_def]] assms(1)
    by (simp_all add: count_inv_def)
  have st: "0 \<le> people_count st" "block_by_light st \<longrightarrow> people_count st = 0 \<and>
      (\<forall>i. det_state (detector st i) = DETECTOR_STATE_IDLE)"
    using detectors_step_inv [OF r2] k1 light_block_frame(1,4) [where s = ?s and st = "status k1"]
    by auto
  show ?thesis
    using leave_timeout_status [OF r4] count_events_status [OF r3] st
    by (auto simp: count_inv_def)
qed

text \<open>
  A pass adds two persons at most, and the light blocks it exactly when the stairs are empty and
  the sensor that is in use sees daylight.
\<close>

lemma count_pass_bound:
  assumes "count_inv k" and "count_pass e ts (k, c) = (k', c')"
  shows "people_count (status k') \<le> people_count (status k) + 2"
    and "block_by_light (status k') \<longleftrightarrow>
      fst (env_light e) \<and> use_light_sensor (env_settings e) \<and> people_count (status k) = 0"
proof -
  let ?s = "env_settings e" and ?v = "env_sens e"
  let ?k0 = "k\<lparr>error_led_state := False,
    status := (status k)\<lparr>light_state := fst (env_light e), light_value := snd (env_light e)\<rparr>\<rparr>"
  obtain k1 c1 where r1: "sensors_update ?v ts (?k0, c) = (k1, c1)" by fastforce
  obtain st c2 where r2: "detectors_step ?s ?v (light_block ?s (status k1), c1) = (st, c2)" by fastforce
  obtain k2 c3 where r3: "count_events ?s (k1\<lparr>status := st\<rparr>, c2) = (k2, c3)" by fastforce
  have r4: "leave_timeout ?s (k2, c3) = (k', c')"
    using assms(2) by (simp add: count_pass_def Let_def r1 r2 r3)
  note k1 = sensors_update_frame [OF r1 [unfolded sensors_update_def]]
  have inv: "0 \<le> people_count (status k)" "block_by_light (status k) \<longrightarrow> people_count (status k) = 0"
    using assms(1) by (simp_all add: count_inv_def)
  have st: "0 \<le> people_count st" "block_by_light st = block_by_light (light_block ?s (status k1))"
    using detectors_step_inv [OF r2] k1 inv light_block_frame(1,4) [where s = ?s and st = "status k1"] by auto
  have "people_count st \<le> people_count (status k) + 2"
    using detectors_step_bound [OF r2] k1 by (simp add: light_block_frame)
  then show "people_count (status k') \<le> people_count (status k) + 2"
    using leave_timeout_status [OF r4] count_events_status [OF r3] inv(1) by auto
  have "light_state (status k1) = fst (env_light e)"
    using sensors_update_light [OF r1 [unfolded sensors_update_def]] by simp
  moreover have "people_count (status k1) = people_count (status k)"
      "block_by_light (status k1) = block_by_light (status k)"
    using k1 by simp_all
  moreover have "block_by_light (status k') = block_by_light st"
    using leave_timeout_status [OF r4] count_events_status [OF r3] by (elim disjE) simp_all
  ultimately show "block_by_light (status k') \<longleftrightarrow>
      fst (env_light e) \<and> use_light_sensor ?s \<and> people_count (status k) = 0"
    using st(2) inv(2) by (auto simp: light_block_def)
qed

text \<open>While the light blocks the program, the counting starts no wave.\<close>

lemma count_pass_blocked:
  assumes "count_inv k" and "count_pass e ts (k, c) = (k', c')" and "block_by_light (status k')"
  shows "led_on_up k' = led_on_up k \<and> led_on_down k' = led_on_down k \<and>
     led_off_up k' = led_off_up k \<and> led_off_down k' = led_off_down k"
proof -
  let ?s = "env_settings e" and ?v = "env_sens e"
  let ?k0 = "k\<lparr>error_led_state := False,
    status := (status k)\<lparr>light_state := fst (env_light e), light_value := snd (env_light e)\<rparr>\<rparr>"
  obtain k1 c1 where r1: "sensors_update ?v ts (?k0, c) = (k1, c1)" by fastforce
  obtain st c2 where r2: "detectors_step ?s ?v (light_block ?s (status k1), c1) = (st, c2)" by fastforce
  obtain k2 c3 where r3: "count_events ?s (k1\<lparr>status := st\<rparr>, c2) = (k2, c3)" by fastforce
  have r4: "leave_timeout ?s (k2, c3) = (k', c')"
    using assms(2) by (simp add: count_pass_def Let_def r1 r2 r3)
  note k1 = sensors_update_frame [OF r1 [unfolded sensors_update_def]]
  have "block_by_light st"
    using assms(3) leave_timeout_status [OF r4] count_events_status [OF r3] by (elim disjE) simp_all
  then have "people_count st = 0" "prev_people_count st = 0"
    using detectors_step_inv [OF r2] detectors_step_prev [OF r2] k1 assms(1)
      light_block_frame [where s = ?s and st = "status k1"]
      count_pass_bound(2) [OF assms(1,2)] assms(3)
    by (auto simp: count_inv_def)
  then have "k2 = k1\<lparr>status := st\<rparr>" using r3 by (simp add: count_events_def)
  then have "k' = k1\<lparr>status := st\<rparr>" using r4 \<open>people_count st = 0\<close> by (simp add: leave_timeout_def)
  then show ?thesis using k1 by simp
qed

lemma controller_start_count_inv [inv_rules]: "count_inv controller_start"
  by (simp add: count_inv_def controller_start_def status_start_def)

text \<open>The rest of a pass does not touch the status.\<close>

lemma block_stamp_frame:
  "block_stamp i (k, c) = (k', c') \<Longrightarrow> status k' = status k \<and> emergency_on k' = emergency_on k \<and>
     led_on_up k' = led_on_up k \<and> led_on_down k' = led_on_down k \<and>
     led_off_up k' = led_off_up k \<and> led_off_down k' = led_off_down k"
  by (auto simp: block_stamp_def split_beta split: if_splits)

lemma block_stamps_frame:
  assumes "block_stamps (k, c) = (k', c')"
  shows "status k' = status k \<and> emergency_on k' = emergency_on k \<and>
     led_on_up k' = led_on_up k \<and> led_on_down k' = led_on_down k \<and>
     led_off_up k' = led_off_up k \<and> led_off_down k' = led_off_down k"
proof -
  obtain k1 c1 where r1: "block_stamp DETECTOR_TYPE_UP (k, c) = (k1, c1)" by fastforce
  then have r2: "block_stamp DETECTOR_TYPE_DOWN (k1, c1) = (k', c')"
    using assms by (simp add: block_stamps_def all_detectors_def)
  show ?thesis
    using block_stamp_frame [OF r1] block_stamp_frame [OF r2] by simp
qed

lemma emergency_step_frame:
  "emergency_step s ts i (k, l) = (k', l') \<Longrightarrow> status k' = status k \<and>
     led_on_up k' = led_on_up k \<and> led_on_down k' = led_on_down k \<and>
     led_off_up k' = led_off_up k \<and> led_off_down k' = led_off_down k"
  by (auto simp: emergency_step_def Let_def split: if_splits)

lemma emergency_steps_frame:
  assumes "emergency_steps s ts (k, l) = (k', l')"
  shows "status k' = status k \<and>
     led_on_up k' = led_on_up k \<and> led_on_down k' = led_on_down k \<and>
     led_off_up k' = led_off_up k \<and> led_off_down k' = led_off_down k"
proof -
  obtain k1 l1 where r1: "emergency_step s ts EMERGENCY_UP (k, l) = (k1, l1)" by fastforce
  then have r2: "emergency_step s ts EMERGENCY_DOWN (k1, l1) = (k', l')"
    using assms by (simp add: emergency_steps_def all_emergencies_def)
  show ?thesis
    using emergency_step_frame [OF r1] emergency_step_frame [OF r2] by simp
qed

lemma emergency_off_frame:
  "emergency_off_step i (k, l) = (k', l') \<Longrightarrow> status k' = status k \<and>
     led_on_up k' = led_on_up k \<and> led_on_down k' = led_on_down k \<and>
     led_off_up k' = led_off_up k \<and> led_off_down k' = led_off_down k"
  by (auto simp: emergency_off_step_def split: if_splits)

lemma wave_tick_frame:
  assumes "wave_tick s ts (k, l) = Some (k', l')"
  shows "status k' = status k"
proof -
  obtain k1 l1 where r1: "emergency_off_step EMERGENCY_UP (k\<lparr>prev_ts := ts\<rparr>, l) = (k1, l1)" by fastforce
  obtain k2 l2 where r2: "emergency_off_step EMERGENCY_DOWN (k1, l1) = (k2, l2)" by fastforce
  have "status k2 = status k"
    using emergency_off_frame [OF r1] emergency_off_frame [OF r2] by simp
  then show ?thesis
    using assms
    by (auto simp: wave_tick_def r1 r2 all_emergencies_def Let_def split_beta split: if_splits)
qed

lemma controller_pass_status:
  assumes "controller_pass e ts (k, l, c) = Some (level, k', l', c')"
  shows "status k' = status (fst (count_pass e ts (k, c)))"
proof -
  let ?s = "env_settings e"
  obtain k1 c1 where r1: "count_pass e ts (k, c) = (k1, c1)" by fastforce
  obtain k2 c2 where r2: "block_stamps (k1, c1) = (k2, c2)" by fastforce
  obtain k3 l1 where r3: "emergency_steps ?s ts (k2, l) = (k3, l1)" by fastforce
  obtain k4 l2 where r4: "wave_tick ?s ts (k3, l1) = Some (k4, l2)"
    using assms by (auto simp: controller_pass_def Let_def r1 r2 r3 split: option.splits)
  obtain k5 l3 c3 where r5: "test_step ?s (k4, l2, c2) = Some (k5, l3, c3)"
    using assms by (auto simp: controller_pass_def Let_def r1 r2 r3 r4 split: option.splits)
  obtain k6 l4 c4 where r6: "refresh_step (env_buf_ok e) (env_mem_ok e) ?s (k5, l3, c3) = Some (k6, l4, c4)"
    using assms by (auto simp: controller_pass_def Let_def r1 r2 r3 r4 r5 split: option.splits)
  have k': "k' = fst (snd (error_led_step (env_ap e) (k6, c4)))"
    using assms by (simp add: controller_pass_def Let_def r1 r2 r3 r4 r5 r6 split_beta)
  have "status k' = status k6"
    unfolding k' by (auto simp: error_led_step_def split_beta)
  also have "status k6 = status k5"
    using r6 by (auto simp: refresh_step_def split_beta split: if_splits)
  also have "status k5 = status k4"
    using r5 by (auto simp: test_step_def split: if_splits)
  also have "status k4 = status k1"
    using wave_tick_frame [OF r4] emergency_steps_frame [OF r3] block_stamps_frame [OF r2] by auto
  finally show ?thesis using r1 by simp
qed

end
