(* ===== verification/Waves.thy ===== *)
theory Waves
  imports Counting
begin

text \<open>
  The light waves of \<open>Controller\<close>: a wave that has been started reaches every LED of the
  stairs, once each and in order, and ends. The last section shows an arrival for which no
  wave is started.
\<close>

fun wave_ticks :: "nat \<Rightarrow> (wave \<Rightarrow> led_event list \<times> wave) \<Rightarrow> wave \<Rightarrow> led_event list \<times> wave" where
  "wave_ticks 0 tick w = ([], w)"
| "wave_ticks (Suc n) tick w =
     (let (e1, w1) = tick w; (e2, w2) = wave_ticks n tick w1 in (e1 @ e2, w2))"

lemma unat_of_nat_le:
  assumes "j \<le> unat (n :: u32)"
  shows "unat (of_nat j :: u32) = j"
proof -
  have "j < 2 ^ 32"
    using assms unsigned_less [of n, where ?'a = nat] by simp
  then show ?thesis by (simp add: unat_of_nat)
qed

section \<open>One tick\<close>

text \<open>The inner loop in closed form.\<close>

lemma skip_zone_closed:
  "skip_zone zone lim pos ts cnt =
     (let m = max (unat cnt) (min (unat zone) (unat lim))
      in (map (\<lambda>k. (pos (of_nat k), True, ts)) [unat cnt..<m], of_nat m))"
proof (induction zone lim pos ts cnt rule: skip_zone.induct)
  case (1 zone lim pos ts cnt)
  show ?case
  proof (cases "cnt < zone \<and> cnt < lim")
    case False
    then have "max (unat cnt) (min (unat zone) (unat lim)) = unat cnt"
      by (auto simp: word_less_nat_alt)
    then show ?thesis
      using False by (subst skip_zone.simps) (auto simp: Let_def)
  next
    case True
    let ?m = "max (unat cnt) (min (unat zone) (unat lim))"
    have u: "unat (cnt + 1) = Suc (unat cnt)" using unat_succ [of cnt lim] True by simp
    have m: "max (Suc (unat cnt)) (min (unat zone) (unat lim)) = ?m" "unat cnt < ?m"
      using True by (auto simp: word_less_nat_alt)
    have "skip_zone zone lim pos ts cnt =
        (let (evs, cnt') = skip_zone zone lim pos ts (cnt + 1) in ((pos cnt, True, ts) # evs, cnt'))"
      using True by (subst skip_zone.simps) simp
    then show ?thesis
      using 1 True m(2) by (simp add: u m(1) Let_def upt_conv_Cons)
  qed
qed

definition wave_led :: "(u32 \<Rightarrow> u32) \<Rightarrow> bool \<Rightarrow> u64 \<Rightarrow> nat \<Rightarrow> led_event" where
  "wave_led pos b ts k = (pos (of_nat k), b, ts)"

text \<open>
  What both kinds of waves have in common: a tick of a running wave handles the next LEDs, at
  least one; a finished wave stops; a stopped one does nothing.
\<close>

definition wave_law :: "nat \<Rightarrow> (nat \<Rightarrow> u64 \<Rightarrow> led_event) \<Rightarrow> (wave \<Rightarrow> led_event list \<times> wave) \<Rightarrow> bool" where
  "wave_law n ev tick \<longleftrightarrow>
     (\<forall>w. \<not> wave_run w \<longrightarrow> tick w = ([], w)) \<and>
     (\<forall>w. wave_run w \<longrightarrow> unat (wave_cnt w) = n \<longrightarrow> tick w = ([], w\<lparr>wave_cnt := 0, wave_run := False\<rparr>)) \<and>
     (\<forall>w. wave_run w \<longrightarrow> unat (wave_cnt w) < n \<longrightarrow>
        (\<exists>j'. unat (wave_cnt w) < j' \<and> j' \<le> n \<and>
           tick w = (map (\<lambda>k. ev k (wave_ts w)) [unat (wave_cnt w)..<j'], w\<lparr>wave_cnt := of_nat j'\<rparr>)))"

lemma wave_on_law:
  assumes "0 < led_count s"
  shows "wave_law (unat (led_count s)) (\<lambda>k ts. wave_led pos True ts k) (wave_on_tick s zone pos)"
  unfolding wave_law_def
proof (intro conjI allI impI)
  fix w :: wave
  let ?n = "unat (led_count s)"
  let ?j = "unat (wave_cnt w)"
  assume run: "wave_run w" and j: "?j < ?n"
  have n1: "unat (led_count s - 1) = ?n - 1"
    using assms by (simp add: unat_sub word_le_nat_alt word_less_nat_alt)
  define m where "m = (if use_emergency s then max ?j (min (unat zone) (?n - 1)) else ?j)"
  have m: "?j \<le> m" "m < ?n" using j by (auto simp: m_def)
  have um: "unat (of_nat m :: u32) = m" using m(2) by (intro unat_of_nat_le [of _ "led_count s"]) simp
  have "wave_on_tick s zone pos w =
      (map (\<lambda>k. wave_led pos True (wave_ts w) k) [?j..<m] @ [wave_led pos True (wave_ts w) m],
       w\<lparr>wave_cnt := of_nat m + 1\<rparr>)"
    using run j by (simp add: wave_on_tick_def word_less_nat_alt skip_zone_closed n1 m_def Let_def wave_led_def)
  also have "\<dots> = (map (\<lambda>k. wave_led pos True (wave_ts w) k) [?j..<Suc m], w\<lparr>wave_cnt := of_nat (Suc m)\<rparr>)"
    using m by (simp add: add.commute)
  finally show "\<exists>j'. ?j < j' \<and> j' \<le> ?n \<and> wave_on_tick s zone pos w =
      (map (\<lambda>k. wave_led pos True (wave_ts w) k) [?j..<j'], w\<lparr>wave_cnt := of_nat j'\<rparr>)"
    using m by (intro exI [of _ "Suc m"]) simp
qed (auto simp: wave_on_tick_def word_less_nat_alt)

lemma wave_off_law:
  shows "wave_law (unat (led_count s)) (\<lambda>k ts. wave_led pos False ts k) (wave_off_tick s pos)"
  unfolding wave_law_def
proof (intro conjI allI impI)
  fix w :: wave
  let ?n = "unat (led_count s)"
  let ?j = "unat (wave_cnt w)"
  assume run: "wave_run w" and j: "?j < ?n"
  then have "wave_off_tick s pos w =
      (map (\<lambda>k. wave_led pos False (wave_ts w) k) [?j..<Suc ?j], w\<lparr>wave_cnt := of_nat (Suc ?j)\<rparr>)"
    by (simp add: wave_off_tick_def word_less_nat_alt wave_led_def add.commute)
  then show "\<exists>j'. ?j < j' \<and> j' \<le> ?n \<and> wave_off_tick s pos w =
      (map (\<lambda>k. wave_led pos False (wave_ts w) k) [?j..<j'], w\<lparr>wave_cnt := of_nat j'\<rparr>)"
    using j by (intro exI [of _ "Suc ?j"]) simp
qed (auto simp: wave_off_tick_def word_less_nat_alt)

section \<open>A whole wave\<close>

lemma wave_stopped:
  assumes "wave_law n ev tick" and "\<not> wave_run w"
  shows "wave_ticks N tick w = ([], w)"
  using assms by (induction N) (simp_all add: wave_law_def)

lemma wave_ticks_complete:
  assumes "wave_law n ev tick" and "wave_run w" and "unat (wave_cnt w) = j" and "j \<le> n"
    and "n < 2 ^ 32" and "n - j < N"
  shows "wave_ticks N tick w =
     (map (\<lambda>k. ev k (wave_ts w)) [j..<n], w\<lparr>wave_cnt := 0, wave_run := False\<rparr>)"
  using assms(2-)
proof (induction N arbitrary: w j)
  case 0
  then show ?case by simp
next
  case (Suc N)
  show ?case
  proof (cases "j = n")
    case True
    then have "tick w = ([], w\<lparr>wave_cnt := 0, wave_run := False\<rparr>)"
      using assms(1) Suc.prems by (simp add: wave_law_def)
    then show ?thesis
      using wave_stopped [OF assms(1)] True by simp
  next
    case False
    then obtain j' where j': "j < j'" "j' \<le> n"
        "tick w = (map (\<lambda>k. ev k (wave_ts w)) [j..<j'], w\<lparr>wave_cnt := of_nat j'\<rparr>)"
      using assms(1) Suc.prems unfolding wave_law_def by (metis le_neq_implies_less)
    have "unat (of_nat j' :: u32) = j'"
      using j' Suc.prems by (simp add: unat_of_nat)
    then have "wave_ticks N tick (w\<lparr>wave_cnt := of_nat j'\<rparr>) =
        (map (\<lambda>k. ev k (wave_ts w)) [j'..<n], w\<lparr>wave_cnt := 0, wave_run := False\<rparr>)"
      using Suc.IH [of "w\<lparr>wave_cnt := of_nat j'\<rparr>" j'] Suc.prems j' by simp
    moreover have "[j..<n] = [j..<j'] @ [j'..<n]"
      using j' by (metis le_add_diff_inverse less_imp_le upt_add_eq_append)
    ultimately show ?thesis using j'(3) by simp
  qed
qed

text \<open>The LEDs of a wave, from either end: every LED once.\<close>

definition wave_pos :: "settings \<Rightarrow> bool \<Rightarrow> u32 \<Rightarrow> u32" where
  "wave_pos s up = (if up then mirrored s else (\<lambda>cnt. cnt))"

lemma wave_pos_index:
  assumes "k < unat (led_count s)"
  shows "unat (wave_pos s up (of_nat k)) = (if up then unat (led_count s) - 1 - k else k)"
proof -
  let ?n = "led_count s"
  have k: "unat (of_nat k :: u32) = k" using assms by (intro unat_of_nat_le [of _ ?n]) simp
  have "of_nat k < ?n" using assms k by (simp add: word_less_nat_alt)
  then have "unat (?n - of_nat k) = unat ?n - k"
    using k by (simp add: unat_sub less_imp_le)
  moreover from this have "unat (?n - of_nat k - 1) = unat ?n - k - 1"
    using assms by (simp add: unat_sub word_le_nat_alt)
  ultimately show ?thesis using k by (simp add: wave_pos_def mirrored_def)
qed

lemma image_const: "x \<in> A \<Longrightarrow> \<forall>e \<in> A. P e \<and> h e = t \<Longrightarrow> h ` A = {t}"
  by auto

lemma wave_leds_state:
  assumes "leds_inv l" and "led_count s = ws_led_count (ws2812_handler l)"
    and "\<forall>i < unat (led_count s). led_ts (leds_buf l ! i) < t"
  shows "\<exists>l'. set_states (map (wave_led (wave_pos s up) b t) [0..<unat (led_count s)]) l = Some l' \<and>
     leds_inv l' \<and>
     (\<forall>i < unat (led_count s). led_on (leds_buf l' ! i) = b \<and> led_ts (leds_buf l' ! i) = t)"
proof -
  let ?n = "unat (led_count s)"
  let ?evs = "map (wave_led (wave_pos s up) b t) [0..<?n]"
  obtain l' where l': "set_states ?evs l = Some l'" "leds_inv l'"
    "\<forall>i < ?n. leds_buf l' ! i = fold (\<lambda>e. led_set (fst (snd e)) (snd (snd e)))
       (filter (\<lambda>e. unat (fst e) = i) ?evs) (leds_buf l ! i)"
    using set_states_ok [OF assms(1), of ?evs] unfolding assms(2) by blast
  have "led_on (leds_buf l' ! i) = b \<and> led_ts (leds_buf l' ! i) = t" if i: "i < ?n" for i
  proof -
    let ?f = "filter (\<lambda>e. unat (fst e) = i) ?evs"
    let ?c = "fold (\<lambda>e. led_set (fst (snd e)) (snd (snd e))) ?f (leds_buf l ! i)"
    let ?k = "if up then ?n - 1 - i else i"
    have all: "\<forall>e \<in> set ?f. fst (snd e) = b \<and> snd (snd e) = t"
      by (auto simp: wave_led_def)
    have k: "?k < ?n" "unat (wave_pos s up (of_nat ?k)) = i"
      using i wave_pos_index [of ?k s up] by auto
    then have "wave_led (wave_pos s up) b t ?k \<in> set ?f"
      by (simp add: wave_led_def)
    then have times: "(\<lambda>e. snd (snd e)) ` set ?f = {t}" by (rule image_const [OF _ all])
    have old: "led_ts (leds_buf l ! i) < t" using assms(3) i by simp
    have stamp: "led_ts ?c = t"
      unfolding led.stamp_fold_Max times using old by (auto simp: max_def)
    have "led_ts ?c \<noteq> led_ts (leds_buf l ! i)" unfolding stamp using old by simp
    then obtain e where "e \<in> set ?f" "led_on ?c = fst (snd e)"
      using led.content_fold [of ?f "leds_buf l ! i"] by blast
    then have "led_on ?c = b" using all by blast
    with stamp l'(3) i show ?thesis by (simp only:)
  qed
  with l' show ?thesis by blast
qed

text \<open>
  A wave lights the whole stairs. From the start of a wave, after one tick per LED and one
  more (with the emergency zone it may be less), every LED has been switched on with the time
  of the event, provided no newer event has reached it; the index is never out of range and
  the wave has ended.
\<close>

theorem wave_on_complete:
  assumes "leds_inv l" and "settings_valid s" and "led_count s = ws_led_count (ws2812_handler l)"
    and "wave_run w" and "wave_cnt w = 0" and "unat (led_count s) < N"
    and "\<forall>i < unat (led_count s). led_ts (leds_buf l ! i) < wave_ts w"
  shows "\<exists>evs l'. wave_ticks N (wave_on_tick s zone (wave_pos s up)) w =
       (evs, w\<lparr>wave_cnt := 0, wave_run := False\<rparr>) \<and> set_states evs l = Some l' \<and>
     (\<forall>i < unat (led_count s). led_on (leds_buf l' ! i) \<and> led_ts (leds_buf l' ! i) = wave_ts w)"
proof -
  have "0 < led_count s" using assms(2) by (simp add: settings_valid_iff)
  from wave_on_law [OF this, of "wave_pos s up" zone]
  have "wave_ticks N (wave_on_tick s zone (wave_pos s up)) w =
      (map (wave_led (wave_pos s up) True (wave_ts w)) [0..<unat (led_count s)],
       w\<lparr>wave_cnt := 0, wave_run := False\<rparr>)"
    using wave_ticks_complete [OF _ assms(4), where j = 0] assms(5,6)
      unsigned_less [of "led_count s", where ?'a = nat] by simp
  then show ?thesis
    using wave_leds_state [OF assms(1,3,7), of up True] by auto
qed

text \<open>In the same way a wave that switches off leaves every LED off.\<close>

theorem wave_off_complete:
  assumes "leds_inv l" and "led_count s = ws_led_count (ws2812_handler l)"
    and "wave_run w" and "wave_cnt w = 0" and "unat (led_count s) < N"
    and "\<forall>i < unat (led_count s). led_ts (leds_buf l ! i) < wave_ts w"
  shows "\<exists>evs l'. wave_ticks N (wave_off_tick s (wave_pos s up)) w =
       (evs, w\<lparr>wave_cnt := 0, wave_run := False\<rparr>) \<and> set_states evs l = Some l' \<and>
     (\<forall>i < unat (led_count s). \<not> led_on (leds_buf l' ! i) \<and> led_ts (leds_buf l' ! i) = wave_ts w)"
proof -
  have "wave_ticks N (wave_off_tick s (wave_pos s up)) w =
      (map (wave_led (wave_pos s up) False (wave_ts w)) [0..<unat (led_count s)],
       w\<lparr>wave_cnt := 0, wave_run := False\<rparr>)"
    using wave_ticks_complete [OF wave_off_law [of s "wave_pos s up"] assms(3), where j = 0] assms(4,5)
      unsigned_less [of "led_count s", where ?'a = nat] by simp
  then show ?thesis
    using wave_leds_state [OF assms(1,2,6), of up False] by auto
qed

definition sample_wave :: wave where
  "sample_wave = \<lparr>wave_run = True, wave_ts = 50, wave_cnt = 0\<rparr>"

lemma dark_leds_old: "led_ts (leds_buf (dark_leds 18) ! i) < 50" if "i < 18"
  using that by (simp add: leds_buf_def dark_leds_def led_zero_def)

lemma wave_on_complete_witness:
  "\<exists>evs l'. wave_ticks 19 (wave_on_tick default_settings 2 (wave_pos default_settings True)) sample_wave =
     (evs, sample_wave\<lparr>wave_cnt := 0, wave_run := False\<rparr>) \<and>
     set_states evs (dark_leds 18) = Some l' \<and> led_on (leds_buf l' ! 17)"
proof -
  have cnt: "led_count default_settings = ws_led_count (ws2812_handler (dark_leds 18))"
      "unat (led_count default_settings) = 18"
    by (simp_all add: default_settings_def dark_leds_def)
  have w: "wave_run sample_wave" "wave_cnt sample_wave = 0" "wave_ts sample_wave = 50"
    by (simp_all add: sample_wave_def)
  have "17 < unat (led_count default_settings)" "unat (led_count default_settings) < 19"
      "\<forall>i < unat (led_count default_settings). led_ts (leds_buf (dark_leds 18) ! i) < wave_ts sample_wave"
    using dark_leds_old unfolding cnt(2) w(3) by simp_all
  with wave_on_complete [OF dark_leds_inv default_settings_valid cnt(1) w(1,2), of 19 2 True]
  show ?thesis by blast
qed

lemma wave_off_complete_witness:
  "\<exists>evs l'. wave_ticks 20 (wave_off_tick default_settings (wave_pos default_settings False)) sample_wave =
     (evs, sample_wave\<lparr>wave_cnt := 0, wave_run := False\<rparr>) \<and>
     set_states evs (dark_leds 18) = Some l' \<and> \<not> led_on (leds_buf l' ! 0)"
proof -
  have cnt: "led_count default_settings = ws_led_count (ws2812_handler (dark_leds 18))"
      "unat (led_count default_settings) = 18"
    by (simp_all add: default_settings_def dark_leds_def)
  have w: "wave_run sample_wave" "wave_cnt sample_wave = 0" "wave_ts sample_wave = 50"
    by (simp_all add: sample_wave_def)
  have "0 < unat (led_count default_settings)" "unat (led_count default_settings) < 20"
      "\<forall>i < unat (led_count default_settings). led_ts (leds_buf (dark_leds 18) ! i) < wave_ts sample_wave"
    using dark_leds_old unfolding cnt(2) w(3) by simp_all
  with wave_off_complete [OF dark_leds_inv cnt(1) w(1,2), of 20 False]
  show ?thesis by blast
qed

section \<open>An arrival without light\<close>

text \<open>
  An arrival that meets a wave in its last interval is lost. When the counter of the running
  wave has reached \<open>led_count\<close>, all its LEDs have been set, but the wave still counts as
  running until the next tick: the arrival neither restarts it nor renews its time, and the
  count is marked as dealt with. The next tick ends the wave without switching on any LED, so
  whatever a switch-off wave with a newer time has darkened in between stays dark.
\<close>

theorem arrival_lost:
  assumes "prev_people_count (status k) < people_count (status k)"
    and "det_state (detector (status k) DETECTOR_TYPE_UP) = DETECTOR_STATE_INC"
    and "det_state (detector (status k) DETECTOR_TYPE_DOWN) \<noteq> DETECTOR_STATE_INC"
    and "wave_run (led_on_up k)" and "wave_cnt (led_on_up k) = led_count s"
  shows "\<exists>k'. count_events s (k, c) = (k', c) \<and>
     prev_people_count (status k') = people_count (status k') \<and>
     led_on_up k' = led_on_up k \<and> led_on_down k' = led_on_down k \<and>
     wave_on_tick s zone pos (led_on_up k') = ([], (led_on_up k)\<lparr>wave_cnt := 0, wave_run := False\<rparr>)"
  using assms
  by (auto simp: count_events_def on_events_def start_wave_def wave_on_tick_def)

text \<open>
  A run of the default settings: at 7100 ms a person leaves while the wave of the arrival at
  0 ms is finishing, at 7400 ms the next person arrives from below.
\<close>

definition lost_controller :: controller where
  "lost_controller = controller_start
     \<lparr> status := status_start\<lparr>people_count := 1,
         detector := (\<lambda>i. if i = DETECTOR_TYPE_UP then \<lparr>det_state = DETECTOR_STATE_INC, det_ts = 7400\<rparr>
           else \<lparr>det_state = DETECTOR_STATE_IDLE, det_ts = 0\<rparr>)\<rparr>,
       led_on_up := \<lparr>wave_run = True, wave_ts = 1, wave_cnt = 18\<rparr>,
       led_off_up := \<lparr>wave_run = True, wave_ts = 7100, wave_cnt = 1\<rparr> \<rparr>"

lemma arrival_lost_witness:
  "\<exists>k'. count_events default_settings (lost_controller, clock_init (\<lambda>_. 7400)) =
       (k', clock_init (\<lambda>_. 7400)) \<and> people_count (status k') = 1 \<and>
     wave_on_tick default_settings 2 (mirrored default_settings) (led_on_up k') =
       ([], \<lparr>wave_run = False, wave_ts = 1, wave_cnt = 0\<rparr>)"
proof -
  have "prev_people_count (status lost_controller) < people_count (status lost_controller)"
    and "det_state (detector (status lost_controller) DETECTOR_TYPE_UP) = DETECTOR_STATE_INC"
    and "det_state (detector (status lost_controller) DETECTOR_TYPE_DOWN) \<noteq> DETECTOR_STATE_INC"
    and "wave_run (led_on_up lost_controller)"
    and "wave_cnt (led_on_up lost_controller) = led_count default_settings"
    by (simp_all add: lost_controller_def status_start_def default_settings_def)
  from arrival_lost [OF this, of "clock_init (\<lambda>_. 7400)" 2 "mirrored default_settings"]
  show ?thesis
    by (auto simp: count_events_def on_events_def start_wave_def lost_controller_def status_start_def
        controller_start_def default_settings_def)
qed

end
