(* ===== verification/Emergency.thy ===== *)
theory Emergency
  imports Counting
begin

text \<open>
  The emergency lights of \<open>Controller\<close>, and the memory safety of a whole pass of the main
  loop: whatever the sensors report, no pass accesses the LED buffers out of bounds, and the
  controller's view of the emergency lights is that of the LED module.
\<close>

section \<open>A pass is memory safe\<close>

lemma set_state_frame:
  "stairway_leds_set_state i b t l = Some (err, l') \<Longrightarrow> emergency_state l' = emergency_state l \<and>
     ws2812_handler l' = ws2812_handler l"
  by (auto simp: stairway_leds_set_state_def split: if_splits option.splits)

lemma set_states_frame:
  "set_states evs l = Some l' \<Longrightarrow> emergency_state l' = emergency_state l"
  by (induction evs l rule: set_states.induct) (auto split: option.splits dest: set_state_frame)

lemma set_state_total:
  assumes "leds_inv l"
  shows "\<exists>err l'. stairway_leds_set_state i b t l = Some (err, l') \<and> leds_inv l'"
proof (cases "i < ws_led_count (ws2812_handler l)")
  case False
  then show ?thesis using assms by (simp add: stairway_leds_set_state_def not_less)
next
  case True
  then have "unat i < unat (ws_led_count (ws2812_handler l))" by (simp add: word_less_nat_alt)
  then show ?thesis
    using True leds_inv_set [OF assms, of "unat i" b t] leds_inv_buf [OF assms] leds_inv_length [OF assms]
    by (simp add: stairway_leds_set_state_def not_le [symmetric])
qed

lemma test_loop_total:
  assumes "leds_inv l"
  shows "\<exists>l' c'. test_loop b is (l, c) = Some (l', c') \<and> leds_inv l' \<and> emergency_state l' = emergency_state l"
  using assms
proof (induction "is" arbitrary: l c)
  case Nil
  then show ?case by simp
next
  case (Cons i "is")
  obtain t c1 where c: "get_time_ms c = (t, c1)" by fastforce
  obtain err l1 where r: "stairway_leds_set_state i b t l = Some (err, l1)" "leds_inv l1"
    using set_state_total [OF Cons.prems] by blast
  with Cons.IH [of l1 c1] set_state_frame [OF r(1)] show ?case by (auto simp: c)
qed

lemma emergency_leds_simps [simp]:
  "leds_inv (snd (stairway_emergency_leds i b l)) = leds_inv l"
  "emergency_state (snd (stairway_emergency_leds i b l)) = (emergency_state l)(i := b)"
  by (simp_all add: stairway_emergency_leds_def leds_inv_def)

text \<open>The controller and the LED module agree on the emergency lights.\<close>

definition agree :: "controller \<Rightarrow> stairway_leds \<Rightarrow> bool" where
  "agree k l \<longleftrightarrow> leds_inv l \<and> emergency_on k = emergency_state l"

lemma emergency_step_agree [inv_rules]:
  "agree k l \<Longrightarrow> emergency_step s ts i (k, l) = (k', l') \<Longrightarrow> agree k' l'"
  by (auto simp: agree_def emergency_step_def Let_def split: if_splits)

lemma emergency_steps_agree [inv_rules]:
  assumes "agree k l" and "emergency_steps s ts (k, l) = (k', l')"
  shows "agree k' l'"
proof -
  obtain k1 l1 where r1: "emergency_step s ts EMERGENCY_UP (k, l) = (k1, l1)" by fastforce
  then have r2: "emergency_step s ts EMERGENCY_DOWN (k1, l1) = (k', l')"
    using assms(2) by (simp add: emergency_steps_def all_emergencies_def)
  show ?thesis
    by (rule emergency_step_agree [OF emergency_step_agree [OF assms(1) r1] r2])
qed

lemma emergency_off_agree [inv_rules]:
  "agree k l \<Longrightarrow> emergency_off_step i (k, l) = (k', l') \<Longrightarrow> agree k' l'"
  by (auto simp: agree_def emergency_off_step_def split: if_splits)

lemma wave_tick_total:
  assumes "agree k l"
  shows "\<exists>k' l'. wave_tick s ts (k, l) = Some (k', l') \<and> agree k' l'"
proof (cases "ts - prev_ts k > ucast (leds_time_interval s)")
  case False
  then show ?thesis using assms by (simp add: wave_tick_def)
next
  case True
  have a0: "agree (k\<lparr>prev_ts := ts\<rparr>) l" using assms by (simp add: agree_def)
  obtain k1 l1 where r1: "emergency_off_step EMERGENCY_UP (k\<lparr>prev_ts := ts\<rparr>, l) = (k1, l1)" by fastforce
  obtain k2 l2 where r2: "emergency_off_step EMERGENCY_DOWN (k1, l1) = (k2, l2)" by fastforce
  have a2: "agree k2 l2"
    by (rule emergency_off_agree [OF emergency_off_agree [OF a0 r1] r2])
  obtain evs where evs: "evs =
      fst (wave_on_tick s (emergency_cnt s EMERGENCY_UP) (mirrored s) (led_on_up k2)) @
      fst (wave_off_tick s (\<lambda>cnt. cnt) (led_off_up k2)) @
      fst (wave_on_tick s (emergency_cnt s EMERGENCY_DOWN) (\<lambda>cnt. cnt) (led_on_down k2)) @
      fst (wave_off_tick s (mirrored s) (led_off_down k2))"
    by blast
  obtain l3 where l3: "set_states evs l2 = Some l3" "leds_inv l3"
    using set_states_ok [of l2 evs] a2 by (auto simp: agree_def)
  have "emergency_state l3 = emergency_state l2" by (rule set_states_frame [OF l3(1)])
  then show ?thesis
    using True l3 a2
    by (auto simp: wave_tick_def all_emergencies_def r1 r2 Let_def split_beta evs agree_def)
qed

lemma count_pass_emergency:
  assumes "count_pass e ts (k, c) = (k', c')"
  shows "emergency_on k' = emergency_on k"
proof -
  let ?s = "env_settings e" and ?v = "env_sens e"
  let ?k0 = "k\<lparr>error_led_state := False,
    status := (status k)\<lparr>light_state := fst (env_light e), light_value := snd (env_light e)\<rparr>\<rparr>"
  obtain k1 c1 where r1: "sensors_update ?v ts (?k0, c) = (k1, c1)" by fastforce
  obtain st c2 where r2: "detectors_step ?s ?v (light_block ?s (status k1), c1) = (st, c2)" by fastforce
  obtain k2 c3 where r3: "count_events ?s (k1\<lparr>status := st\<rparr>, c2) = (k2, c3)" by fastforce
  have r4: "leave_timeout ?s (k2, c3) = (k', c')"
    using assms by (simp add: count_pass_def Let_def r1 r2 r3)
  have "emergency_on k' = emergency_on k2"
    using r4 by (auto simp: leave_timeout_def Let_def split_beta split: if_splits)
  moreover have "emergency_on k2 = emergency_on k1"
    using r3
    by (auto simp: count_events_def on_events_def off_events_def Let_def split_beta split: if_splits)
  ultimately show ?thesis
    using sensors_update_frame [OF r1 [unfolded sensors_update_def]] by simp
qed

lemma controller_pass_total:
  assumes "leds_inv l" and "emergency_on k = emergency_state l"
    and "settings_valid (env_settings e)" and "env_buf_ok e" and "env_mem_ok e"
  shows "\<exists>level k' l' c'. controller_pass e ts (k, l, c) = Some (level, k', l', c') \<and>
     leds_inv l' \<and> emergency_on k' = emergency_state l'"
proof -
  let ?s = "env_settings e"
  obtain k1 c1 where r1: "count_pass e ts (k, c) = (k1, c1)" by fastforce
  obtain k2 c2 where r2: "block_stamps (k1, c1) = (k2, c2)" by fastforce
  obtain k3 l1 where r3: "emergency_steps ?s ts (k2, l) = (k3, l1)" by fastforce
  have a2: "agree k2 l"
    using assms(1,2) count_pass_emergency [OF r1] block_stamps_frame [OF r2] by (simp add: agree_def)
  obtain k4 l2 where r4: "wave_tick ?s ts (k3, l1) = Some (k4, l2)" "agree k4 l2"
    using wave_tick_total [OF emergency_steps_agree [OF a2 r3]] by blast
  obtain k5 l3 c3 where r5: "test_step ?s (k4, l2, c2) = Some (k5, l3, c3)" "agree k5 l3"
  proof (cases "last_test_mode k4 = test_mode (status k4)")
    case True
    then show thesis using that r4(2) by (simp add: test_step_def)
  next
    case False
    obtain l' c' where "test_loop (test_mode (status k4)) (upto_u32 (led_count ?s)) (l2, c2) = Some (l', c')"
        "leds_inv l'" "emergency_state l' = emergency_state l2"
      using test_loop_total r4(2) by (metis agree_def)
    then show thesis
      using that False r4(2) by (simp add: test_step_def agree_def)
  qed
  obtain k6 l4 c4 where r6: "refresh_step True True ?s (k5, l3, c3) = Some (k6, l4, c4)" "agree k6 l4"
  proof -
    obtain t c5 where t: "get_time_ms c3 = (t, c5)" by fastforce
    obtain l' where l': "stairway_leds_refresh True True ?s l3 = Some (ERR_SUCCESS, l')" "leds_inv l'"
        "emergency_state l' = emergency_state l3"
      using leds_refresh_total [OF _ assms(3), of l3] r5(2) by (auto simp: agree_def)
    show thesis
      using that r5(2) l' by (cases "t - refresh_ts k5 > 2") (auto simp: refresh_step_def t split_beta agree_def)
  qed
  have "emergency_on (fst (snd (error_led_step (env_ap e) (k6, c4)))) = emergency_on k6"
    by (auto simp: error_led_step_def split_beta)
  then show ?thesis
    using r4(1) r5(1) r6 assms(4,5)
    by (auto simp: controller_pass_def Let_def r1 r2 r3 split_beta agree_def)
qed

text \<open>
  C8: a pass of the main loop is memory safe and complete. With valid settings, the LED buffers
  in their invariant and successful allocations, it never accesses memory outside of the
  buffers, whatever the sensors, the light sensor and the clock deliver and however the
  settings have changed since the last pass; it keeps the invariant, and the controller and
  the LED module agree on the emergency lights afterwards as before.
\<close>

theorem controller_pass_safe:
  assumes "leds_inv l" and "emergency_on k = emergency_state l"
    and "settings_valid (env_settings e)" and "env_buf_ok e" and "env_mem_ok e"
  shows "\<exists>level k' l' c'. controller_pass e ts (k, l, c) = Some (level, k', l', c') \<and>
     leds_inv l' \<and> emergency_on k' = emergency_state l'"
  by (rule controller_pass_total [OF assms])

lemma controller_pass_safe_witness:
  "\<exists>level k' l' c'. controller_pass
     \<lparr>env_settings = default_settings, env_light = (False, 0), env_sens = sensors_get_zero,
      env_buf_ok = True, env_mem_ok = True, env_ap = True\<rparr> 700
     (controller_start, dark_leds 30, clock_init (\<lambda>_. 700)) = Some (level, k', l', c') \<and> leds_inv l'"
proof -
  have "emergency_on controller_start = emergency_state (dark_leds 30)"
    by (simp add: controller_start_def dark_leds_def)
  from controller_pass_safe [OF dark_leds_inv this, of "\<lparr>env_settings = default_settings,
      env_light = (False, 0), env_sens = sensors_get_zero, env_buf_ok = True, env_mem_ok = True,
      env_ap = True\<rparr>" 700 "clock_init (\<lambda>_. 700)"]
  show ?thesis by auto
qed

section \<open>Confirmation\<close>

text \<open>The passes of one emergency light: settings, time and status of each pass.\<close>

type_synonym emergency_obs = "settings \<times> u64 \<times> status"

fun emergency_run ::
    "emergency_type \<Rightarrow> emergency_obs list \<Rightarrow> controller \<times> stairway_leds \<Rightarrow> controller \<times> stairway_leds" where
  "emergency_run e [] kl = kl"
| "emergency_run e ((s, ts, st) # obs) kl =
     emergency_run e obs (emergency_step s ts e ((fst kl)\<lparr>status := st\<rparr>, snd kl))"

definition active :: "emergency_type \<Rightarrow> emergency_obs \<Rightarrow> bool" where
  "active e x = (case x of (s, ts, st) \<Rightarrow> current (sensor_state st (emergency_sensor e)))"

definition obs_time :: "emergency_obs \<Rightarrow> u64" where
  "obs_time x = fst (snd x)"

lemma emergency_run_append:
  "emergency_run e (xs @ ys) kl = emergency_run e ys (emergency_run e xs kl)"
  by (induction e xs kl rule: emergency_run.induct) simp_all

text \<open>The time stamp, when set, is that of the first pass of the current activity.\<close>

definition stamp_ok :: "emergency_type \<Rightarrow> emergency_obs list \<Rightarrow> u64 \<Rightarrow> bool" where
  "stamp_ok e obs t \<longleftrightarrow> t = 0 \<or>
     (\<exists>j < length obs. obs_time (obs ! j) = t \<and> (\<forall>i. j \<le> i \<and> i < length obs \<longrightarrow> active e (obs ! i)))"

lemma stamp_ok_keep:
  assumes "stamp_ok e obs t" and "active e x"
  shows "stamp_ok e (obs @ [x]) t"
proof (cases "t = 0")
  case False
  then obtain j where "j < length obs" "obs_time (obs ! j) = t"
      "\<forall>i. j \<le> i \<and> i < length obs \<longrightarrow> active e (obs ! i)"
    using assms(1) by (auto simp: stamp_ok_def)
  with assms(2) show ?thesis
    unfolding stamp_ok_def
    by (intro disjI2 exI [of _ j]) (auto simp: nth_append less_Suc_eq)
qed (simp add: stamp_ok_def)

lemma stamp_ok_new:
  assumes "active e x"
  shows "stamp_ok e (obs @ [x]) (obs_time x)"
  unfolding stamp_ok_def
  by (intro disjI2 exI [of _ "length obs"]) (use assms in \<open>auto simp: nth_append less_Suc_eq\<close>)

lemma emergency_run_stamp:
  assumes "emergency_sensor_on_ts k e = 0"
  shows "stamp_ok e obs (emergency_sensor_on_ts (fst (emergency_run e obs (k, l))) e)"
proof (induction obs rule: rev_induct)
  case Nil
  then show ?case using assms by (simp add: stamp_ok_def)
next
  case (snoc x obs)
  obtain s ts st where x: "x = (s, ts, st)" by (cases x)
  obtain k1 l1 where r: "emergency_run e obs (k, l) = (k1, l1)" by fastforce
  have ih: "stamp_ok e obs (emergency_sensor_on_ts k1 e)" using snoc r by simp
  show ?case
  proof (cases "active e x")
    case False
    then show ?thesis
      by (simp add: emergency_run_append r x active_def emergency_step_def stamp_ok_def)
  next
    case True
    have "emergency_sensor_on_ts (fst (emergency_step s ts e (k1\<lparr>status := st\<rparr>, l1))) e =
        (if emergency_sensor_on_ts k1 e = 0 then ts else emergency_sensor_on_ts k1 e)"
      using True by (simp add: emergency_step_def Let_def x active_def)
    then show ?thesis
      using stamp_ok_keep [OF ih True] stamp_ok_new [OF True, of obs]
      by (simp add: emergency_run_append r x obs_time_def)
  qed
qed

text \<open>
  C17: an emergency light comes on only after its \<open>FIRST\<close> sensor has been active in every pass
  for at least 150 ms, when the emergency lights are enabled, it is dark, and the detector has
  not been in \<open>SECOND_LOCK\<close> (somebody coming from the stairs) for longer than
  \<open>emergency_block_ms\<close>. A single false reading never switches it on.
\<close>

theorem emergency_confirmed:
  assumes "emergency_sensor_on_ts k e = 0"
    and "\<not> emergency_on (fst (emergency_run e obs (k, l))) e"
    and "emergency_run e (obs @ [(s, ts, st)]) (k, l) = (k', l')" and "emergency_on k' e"
  shows "\<not> block_by_light st \<and> use_emergency s \<and>
     ts - detector_block_ts k' (emergency_detector e) > ucast (emergency_block_ms s) \<and>
     (\<exists>j \<le> length obs. EMERGENCY_CONFIRM_MS \<le> ts - obs_time ((obs @ [(s, ts, st)]) ! j) \<and>
        (\<forall>i. j \<le> i \<and> i \<le> length obs \<longrightarrow> active e ((obs @ [(s, ts, st)]) ! i)))"
proof -
  let ?x = "(s, ts, st)"
  obtain k1 l1 where r: "emergency_run e obs (k, l) = (k1, l1)" by fastforce
  have step: "emergency_step s ts e (k1\<lparr>status := st\<rparr>, l1) = (k', l')"
    using assms(3) by (simp add: emergency_run_append r)
  have off: "\<not> emergency_on k1 e" using assms(2) r by simp
  have on: "\<not> block_by_light st" "use_emergency s"
      "ts - detector_block_ts k' (emergency_detector e) > ucast (emergency_block_ms s)"
      "EMERGENCY_CONFIRM_MS \<le> ts - emergency_sensor_on_ts k' e" "active e ?x"
    using step off assms(4)
    by (auto simp: emergency_step_def Let_def active_def split: if_splits)
  have "stamp_ok e (obs @ [?x]) (emergency_sensor_on_ts k' e)"
    using emergency_run_stamp [OF assms(1), of "obs @ [?x]" l] assms(3) by simp
  moreover have "stamp_ok e (obs @ [?x]) ts"
    using stamp_ok_new [OF on(5), of obs] by (simp add: obs_time_def)
  moreover have "emergency_sensor_on_ts k' e = 0 \<Longrightarrow> ts = 0"
    using step on(5) by (auto simp: emergency_step_def Let_def active_def split: if_splits)
  ultimately obtain j where "j < length (obs @ [?x])"
      "obs_time ((obs @ [?x]) ! j) = emergency_sensor_on_ts k' e"
      "\<forall>i. j \<le> i \<and> i < length (obs @ [?x]) \<longrightarrow> active e ((obs @ [?x]) ! i)"
    using on(4) unfolding stamp_ok_def EMERGENCY_CONFIRM_MS_def by force
  then show ?thesis using on by (auto simp: less_Suc_eq_le)
qed

definition obs_at :: "u64 \<Rightarrow> emergency_obs" where
  "obs_at t = (default_settings, t, status_start\<lparr>sensor_state :=
     (\<lambda>_. \<lparr>current = True, trigger = True, sensor_ts = t\<rparr>)\<rparr>)"

lemma emergency_confirmed_witness:
  "\<exists>k' l'. emergency_run EMERGENCY_DOWN [obs_at 5000, obs_at 5100, obs_at 5150]
     (controller_start, dark_leds 18) = (k', l') \<and>
   emergency_on k' EMERGENCY_DOWN \<and>
   (\<exists>j \<le> 2. EMERGENCY_CONFIRM_MS \<le> 5150 - obs_time ([obs_at 5000, obs_at 5100, obs_at 5150] ! j))"
proof -
  obtain k' l' where r: "emergency_run EMERGENCY_DOWN ([obs_at 5000, obs_at 5100] @
      [(default_settings, 5150, snd (snd (obs_at 5150)))]) (controller_start, dark_leds 18) = (k', l')"
    by fastforce
  have on: "emergency_on k' EMERGENCY_DOWN"
    using r by (auto simp: obs_at_def emergency_step_def Let_def controller_start_def status_start_def
        EMERGENCY_CONFIRM_MS_def default_settings_def)
  have "emergency_sensor_on_ts controller_start EMERGENCY_DOWN = 0"
      "\<not> emergency_on (fst (emergency_run EMERGENCY_DOWN [obs_at 5000, obs_at 5100]
        (controller_start, dark_leds 18))) EMERGENCY_DOWN"
    by (simp_all add: obs_at_def emergency_step_def Let_def controller_start_def status_start_def
        EMERGENCY_CONFIRM_MS_def default_settings_def)
  from emergency_confirmed [OF this r on] obtain j where "j \<le> 2"
      "EMERGENCY_CONFIRM_MS \<le> 5150 - obs_time ([obs_at 5000, obs_at 5100, obs_at 5150] ! j)"
    by (auto simp: obs_at_def numeral_2_eq_2)
  with r on show ?thesis by (auto simp: obs_at_def)
qed

end
