(* ===== verification/Lights.thy ===== *)
theory Lights
  imports Waves Emergency
begin

text \<open>
  From the sensors to the lights: what the passes of the controller make of a person who enters or
  leaves. The parts are those of \<open>Counting\<close> (a passage is counted), \<open>Waves\<close> (a wave reaches
  every LED) and \<open>Stairway_Leds\<close>; here they are put together over whole passes, with the
  clock, the interval between two ticks, the emergency lights and the refresh in between.
\<close>

section \<open>The clock goes forward\<close>

text \<open>The total of 64 bits does not wrap.\<close>

definition clock_forward :: "clock \<Rightarrow> bool" where
  "clock_forward c \<longleftrightarrow> (\<forall>n. total_ms (read_times n c) \<le> total_ms (read_times (Suc n) c))"

lemma later_forward:
  assumes "clock_forward c" and "later c c'"
  shows "clock_forward c'" and "total_ms c \<le> total_ms c'"
proof -
  obtain m where m: "c' = read_times m c" using assms(2) by (auto simp: later_def)
  have step: "total_ms (read_times n c) \<le> total_ms (read_times (Suc n) c)" for n
    using assms(1) by (simp only: clock_forward_def)
  have "total_ms (read_times n c') \<le> total_ms (read_times (Suc n) c')" for n
    using step [of "m + n"] unfolding m read_times_add by simp
  then show "clock_forward c'" by (simp only: clock_forward_def) simp
  have "total_ms (read_times 0 c) \<le> total_ms (read_times m c)"
    by (induction m) (use step order_trans in blast)+
  then show "total_ms c \<le> total_ms c'" by (simp add: m)
qed

text \<open>So it is for a clock that counts the milliseconds since boot, for 584 million years.\<close>

lemma clock_forward_boot:
  assumes "boot_clock boot_ms rs" and "\<forall>n. boot_ms n < 2 ^ 64"
  shows "clock_forward (clock_init rs)"
proof -
  have total: "total_ms (read_times n (clock_init rs)) = of_nat (if n = 0 then 0 else boot_ms (n - 1))" for n
  proof -
    have "clock_tracks boot_ms (read_times n (clock_init rs))"
      using clock_tracks_reads [of boot_ms "clock_init rs" n] clock_tracks_init assms(1)
      by (simp add: clock_init_def)
    then show ?thesis by (simp add: clock_tracks_def Let_def clock_init_def)
  qed
  have "(of_nat a :: u64) \<le> of_nat b" if "a \<le> b" "b < 2 ^ 64" for a b
    using that by (simp add: word_le_nat_alt unat_of_nat)
  moreover have "boot_ms n \<le> boot_ms (Suc n)" for n using assms(1) by (simp add: boot_clock_def)
  ultimately show ?thesis
    using assms(2) by (simp only: clock_forward_def total) (simp split: nat.split nat_diff_split)
qed

section \<open>The four waves\<close>

text \<open>\<open>on\<close>: whether the wave switches on; the detector it belongs to.\<close>

fun the_wave :: "bool \<Rightarrow> detector_type \<Rightarrow> controller \<Rightarrow> wave" where
  "the_wave True DETECTOR_TYPE_UP k = led_on_up k"
| "the_wave True DETECTOR_TYPE_DOWN k = led_on_down k"
| "the_wave False DETECTOR_TYPE_UP k = led_off_up k"
| "the_wave False DETECTOR_TYPE_DOWN k = led_off_down k"

fun tick_of :: "settings \<Rightarrow> bool \<Rightarrow> detector_type \<Rightarrow> wave \<Rightarrow> led_event list \<times> wave" where
  "tick_of s True DETECTOR_TYPE_UP w = wave_on_tick s (emergency_cnt s EMERGENCY_UP) (mirrored s) w"
| "tick_of s True DETECTOR_TYPE_DOWN w = wave_on_tick s (emergency_cnt s EMERGENCY_DOWN) (\<lambda>cnt. cnt) w"
| "tick_of s False DETECTOR_TYPE_UP w = wave_off_tick s (\<lambda>cnt. cnt) w"
| "tick_of s False DETECTOR_TYPE_DOWN w = wave_off_tick s (mirrored s) w"

text \<open>Whether the wave runs from the last LED down.\<close>

definition downwards :: "bool \<Rightarrow> detector_type \<Rightarrow> bool" where
  "downwards on i \<longleftrightarrow> (on = (i = DETECTOR_TYPE_UP))"

lemma tick_of_law:
  assumes "0 < led_count s"
  shows "wave_law (unat (led_count s)) (\<lambda>k ts. wave_led (wave_pos s (downwards on i)) on ts k) (tick_of s on i)"
proof -
  have *: "tick_of s True DETECTOR_TYPE_UP = wave_on_tick s (emergency_cnt s EMERGENCY_UP) (mirrored s)"
      "tick_of s True DETECTOR_TYPE_DOWN = wave_on_tick s (emergency_cnt s EMERGENCY_DOWN) (\<lambda>cnt. cnt)"
      "tick_of s False DETECTOR_TYPE_UP = wave_off_tick s (\<lambda>cnt. cnt)"
      "tick_of s False DETECTOR_TYPE_DOWN = wave_off_tick s (mirrored s)"
    by (simp_all add: fun_eq_iff)
  show ?thesis
    by (cases on; cases i) (simp_all add: * downwards_def wave_pos_def wave_on_law [OF assms] wave_off_law)
qed

section \<open>How far a wave has come\<close>

text \<open>The LED that a wave sets as its \<open>k\<close>-th; each is set by one \<open>k\<close>.\<close>

definition led_index :: "settings \<Rightarrow> bool \<Rightarrow> nat \<Rightarrow> nat" where
  "led_index s up k = (if up then unat (led_count s) - 1 - k else k)"

text \<open>The first \<open>j\<close> LEDs of the wave have been set with its time, the others carry older times.\<close>

definition swept :: "settings \<Rightarrow> bool \<Rightarrow> bool \<Rightarrow> u64 \<Rightarrow> nat \<Rightarrow> stairway_leds \<Rightarrow> bool" where
  "swept s on up t j l \<longleftrightarrow>
     leds_inv l \<and> ws_led_count (ws2812_handler l) = led_count s \<and>
     (\<forall>k < unat (led_count s). let x = leds_buf l ! led_index s up k
        in if k < j then led_on x = on \<and> led_ts x = t else led_ts x < t)"

lemma filter_upt: "filter (\<lambda>m. m = k) [a..<b] = (if a \<le> k \<and> k < b then [k] else [])"
  by (induction b) auto

lemma swept_step:
  assumes "swept s on up t j l" and "j \<le> j'" and "j' \<le> unat (led_count s)"
  shows "\<exists>l'. set_states (map (wave_led (wave_pos s up) on t) [j..<j']) l = Some l' \<and> swept s on up t j' l'"
proof -
  let ?n = "unat (led_count s)" and ?evs = "map (wave_led (wave_pos s up) on t) [j..<j']"
  have l: "leds_inv l" "ws_led_count (ws2812_handler l) = led_count s" using assms(1) by (simp_all add: swept_def)
  obtain l' where l': "set_states ?evs l = Some l'" "leds_inv l'" "ws_led_count (ws2812_handler l') = led_count s"
      "\<forall>i < ?n. leds_buf l' ! i = fold (\<lambda>e. led_set (fst (snd e)) (snd (snd e)))
         (filter (\<lambda>e. unat (fst e) = i) ?evs) (leds_buf l ! i)"
    using set_states_ok [OF l(1), of ?evs] unfolding l(2) by blast
  have index: "unat (wave_pos s up (of_nat k)) = led_index s up k" "led_index s up k < ?n" if "k < ?n" for k
    using that wave_pos_index [OF that, of up] by (auto simp: led_index_def)
  have one: "filter (\<lambda>e. unat (fst e) = led_index s up k) ?evs =
      (if j \<le> k \<and> k < j' then [wave_led (wave_pos s up) on t k] else [])" if "k < ?n" for k
  proof -
    have "filter (\<lambda>m. unat (wave_pos s up (of_nat m)) = led_index s up k) [j..<j'] = filter (\<lambda>m. m = k) [j..<j']"
      using that assms(3) index by (intro filter_cong) (auto simp: led_index_def split: if_splits)
    then show ?thesis by (simp add: filter_map o_def wave_led_def filter_upt)
  qed
  have "let x = leds_buf l' ! led_index s up k in if k < j' then led_on x = on \<and> led_ts x = t else led_ts x < t"
    if k: "k < ?n" for k
  proof -
    let ?x = "leds_buf l ! led_index s up k"
    have "leds_buf l' ! led_index s up k =
        (if j \<le> k \<and> k < j' then led_set on t ?x else ?x)"
      using l'(4) index(2) [OF k] one [OF k] by (simp add: wave_led_def)
    moreover have "if k < j then led_on ?x = on \<and> led_ts ?x = t else led_ts ?x < t"
      using assms(1) k by (simp add: swept_def Let_def)
    ultimately show ?thesis using assms(2) by (auto simp: led_set_def Let_def split: if_splits)
  qed
  then show ?thesis using l' by (auto simp: swept_def)
qed

section \<open>The rest of a pass\<close>

text \<open>What the sections between the counting and the tick leave alone.\<close>

definition kept :: "controller \<Rightarrow> controller \<Rightarrow> bool" where
  "kept k k' \<longleftrightarrow> status k' = status k \<and> prev_ts k' = prev_ts k \<and> last_test_mode k' = last_test_mode k \<and>
     (\<forall>on i. the_wave on i k' = the_wave on i k)"

lemma the_wave_cong:
  "led_on_up k' = led_on_up k \<Longrightarrow> led_on_down k' = led_on_down k \<Longrightarrow> led_off_up k' = led_off_up k \<Longrightarrow>
     led_off_down k' = led_off_down k \<Longrightarrow> the_wave on i k' = the_wave on i k"
  by (cases on; cases i) simp_all

lemma kept_refl [simp]: "kept k k" by (simp add: kept_def)

lemma kept_trans: "kept k k1 \<Longrightarrow> kept k1 k2 \<Longrightarrow> kept k k2" by (simp add: kept_def)

text \<open>The same LEDs, but for their brightness and the emergency lights.\<close>

definition same_leds :: "stairway_leds \<Rightarrow> stairway_leds \<Rightarrow> bool" where
  "same_leds l l' \<longleftrightarrow> leds_inv l' \<and> ws_led_count (ws2812_handler l') = ws_led_count (ws2812_handler l) \<and>
     (\<forall>i < unat (ws_led_count (ws2812_handler l)).
        led_on (leds_buf l' ! i) = led_on (leds_buf l ! i) \<and> led_ts (leds_buf l' ! i) = led_ts (leds_buf l ! i))"

lemma same_leds_refl: "leds_inv l \<Longrightarrow> same_leds l l" by (simp add: same_leds_def)

lemma same_leds_trans: "same_leds l l1 \<Longrightarrow> same_leds l1 l2 \<Longrightarrow> same_leds l l2" by (simp add: same_leds_def)

lemma same_leds_emergency: "leds_inv l \<Longrightarrow> same_leds l (snd (stairway_emergency_leds i b l))"
  by (simp add: same_leds_def stairway_emergency_leds_def leds_inv_def leds_buf_def)

lemma swept_same: "swept s on up t j l \<Longrightarrow> same_leds l l' \<Longrightarrow> swept s on up t j l'"
  unfolding swept_def same_leds_def
  by (auto simp: led_index_def Let_def split: if_splits)

lemma block_stamp_kept: "kept (fst kc) (fst (block_stamp i kc)) \<and> later (snd kc) (snd (block_stamp i kc))"
  by (cases kc) (auto simp: block_stamp_def kept_def split_beta intro!: the_wave_cong)

lemma block_stamps_kept:
  "block_stamps (k, c) = (k', c') \<Longrightarrow> kept k k' \<and> later c c'"
  using block_stamp_kept [of "(k, c)" DETECTOR_TYPE_UP]
    block_stamp_kept [of "block_stamp DETECTOR_TYPE_UP (k, c)" DETECTOR_TYPE_DOWN]
  by (auto simp: block_stamps_def all_detectors_def intro: kept_trans later_trans)

lemma emergency_step_kept:
  "leds_inv l \<Longrightarrow> emergency_step s ts i (k, l) = (k', l') \<Longrightarrow> kept k k' \<and> same_leds l l'"
  using same_leds_emergency [of l]
  by (auto simp: emergency_step_def kept_def same_leds_refl Let_def split: if_splits intro!: the_wave_cong)

lemma emergency_steps_kept:
  assumes "leds_inv l" and "emergency_steps s ts (k, l) = (k', l')"
  shows "kept k k' \<and> same_leds l l'"
proof -
  obtain k1 l1 where r1: "emergency_step s ts EMERGENCY_UP (k, l) = (k1, l1)" by fastforce
  then have r2: "emergency_step s ts EMERGENCY_DOWN (k1, l1) = (k', l')"
    using assms(2) by (simp add: emergency_steps_def all_emergencies_def)
  have f1: "kept k k1" "same_leds l l1" using emergency_step_kept [OF assms(1) r1] by simp_all
  then have "leds_inv l1" by (simp add: same_leds_def)
  then show ?thesis
    using emergency_step_kept [OF _ r2] f1 kept_trans same_leds_trans by blast
qed

lemma emergency_off_kept:
  "leds_inv l \<Longrightarrow> emergency_off_step i (k, l) = (k', l') \<Longrightarrow> kept k k' \<and> same_leds l l'"
  using same_leds_emergency [of l]
  by (auto simp: emergency_off_step_def kept_def same_leds_refl split: if_splits intro!: the_wave_cong)

text \<open>A refresh changes the brightness only, when the number of LEDs is that of the settings.\<close>

lemma refresh_step_kept:
  assumes "leds_inv l" and "settings_valid s" and "ws_led_count (ws2812_handler l) = led_count s"
  shows "\<exists>k' l' c'. refresh_step True True s (k, l, c) = Some (k', l', c') \<and> kept k k' \<and> same_leds l l' \<and> later c c'"
proof -
  obtain t c1 where t: "get_time_ms c = (t, c1)" by fastforce
  obtain l' where l': "stairway_leds_refresh True True s l = Some (ERR_SUCCESS, l')" "leds_inv l'"
      "ws_led_count (ws2812_handler l') = led_count s"
      "leds_buf l' = refreshed s (emergency_state l) (led_count s) (leds_buf l)"
    using leds_refresh_total [OF assms(1,2)] assms(3) by auto
  have "same_leds l l'"
    using l'(2-4) assms(3) leds_inv_length [OF assms(1)] by (simp add: same_leds_def nth_refreshed)
  moreover have "later c c1" "later c (snd (get_time_ms c1))"
    using later_read [of c] later_step [of c c1] by (simp_all add: t)
  ultimately show ?thesis
    using l'(1) same_leds_refl [OF assms(1)]
    by (cases "t - refresh_ts k > 2")
      (auto simp: refresh_step_def t split_beta kept_def intro!: the_wave_cong)
qed

lemma error_led_step_kept:
  "error_led_step ap (k, c) = (level, k', c') \<Longrightarrow> kept k k' \<and> later c c'"
  by (auto simp: error_led_step_def kept_def split_beta later_step split: if_splits intro!: the_wave_cong)

section \<open>A tick\<close>

text \<open>The tick: the four waves make their events, in this order.\<close>

definition all_waves :: "(bool \<times> detector_type) list" where
  "all_waves = [(True, DETECTOR_TYPE_UP), (False, DETECTOR_TYPE_UP), (True, DETECTOR_TYPE_DOWN),
                (False, DETECTOR_TYPE_DOWN)]"

definition tick_events :: "settings \<Rightarrow> controller \<Rightarrow> led_event list" where
  "tick_events s k = concat (map (\<lambda>(on, i). fst (tick_of s on i (the_wave on i k))) all_waves)"

definition tick_due :: "settings \<Rightarrow> u64 \<Rightarrow> u64 \<Rightarrow> bool" where
  "tick_due s prev ts \<longleftrightarrow> ts - prev > ucast (leds_time_interval s)"

lemma wave_tick_parts:
  assumes "leds_inv l"
  shows "\<exists>l0. same_leds l l0 \<and> wave_tick s ts (k, l) =
     (if tick_due s (prev_ts k) ts then
        map_option (\<lambda>l'. ((fst (fold emergency_off_step all_emergencies (k\<lparr>prev_ts := ts\<rparr>, l)))
          \<lparr>led_on_up := snd (tick_of s True DETECTOR_TYPE_UP (led_on_up k)),
           led_off_up := snd (tick_of s False DETECTOR_TYPE_UP (led_off_up k)),
           led_on_down := snd (tick_of s True DETECTOR_TYPE_DOWN (led_on_down k)),
           led_off_down := snd (tick_of s False DETECTOR_TYPE_DOWN (led_off_down k))\<rparr>, l'))
          (set_states (tick_events s k) l0)
      else Some (k, l)) \<and>
     kept (k\<lparr>prev_ts := ts\<rparr>) (fst (fold emergency_off_step all_emergencies (k\<lparr>prev_ts := ts\<rparr>, l)))"
proof -
  obtain k1 l1 where r1: "emergency_off_step EMERGENCY_UP (k\<lparr>prev_ts := ts\<rparr>, l) = (k1, l1)" by fastforce
  obtain k2 l2 where r2: "emergency_off_step EMERGENCY_DOWN (k1, l1) = (k2, l2)" by fastforce
  have f1: "kept (k\<lparr>prev_ts := ts\<rparr>) k1" "same_leds l l1" using emergency_off_kept [OF assms r1] by simp_all
  then have "leds_inv l1" by (simp add: same_leds_def)
  then have f2: "kept (k\<lparr>prev_ts := ts\<rparr>) k2" "same_leds l l2"
    using emergency_off_kept [OF _ r2] f1 kept_trans same_leds_trans by blast+
  have run: "fold emergency_off_step all_emergencies (k\<lparr>prev_ts := ts\<rparr>, l) = (k2, l2)"
    by (simp add: all_emergencies_def r1 r2)
  have waves: "the_wave on i k2 = the_wave on i (k\<lparr>prev_ts := ts\<rparr>)" for on i
    using f2(1) by (simp add: kept_def)
  have w: "led_on_up k2 = led_on_up k" "led_on_down k2 = led_on_down k" "led_off_up k2 = led_off_up k"
      "led_off_down k2 = led_off_down k"
    using waves [of True DETECTOR_TYPE_UP] waves [of True DETECTOR_TYPE_DOWN] waves [of False DETECTOR_TYPE_UP]
      waves [of False DETECTOR_TYPE_DOWN] by simp_all
  show ?thesis
    using f2 unfolding run
    by (intro exI [of _ l2])
      (simp add: wave_tick_def tick_due_def run w tick_events_def all_waves_def split_beta Let_def)
qed

text \<open>
  A pass behind the counting, with settings that have not changed and no change of the test mode:
  the LEDs get the events of the tick, if one is due, and the waves advance.
\<close>

lemma rest_of_pass:
  assumes "count_pass e ts (k, c) = (k1, c1)" and "env_settings e = s" and "env_buf_ok e" and "env_mem_ok e"
    and "settings_valid s" and "leds_inv l" and "ws_led_count (ws2812_handler l) = led_count s"
    and "last_test_mode k1 = test_mode (status k1)"
  defines "due \<equiv> tick_due s (prev_ts k1) ts"
  shows "\<exists>level k' l' c' l0 l1. controller_pass e ts (k, l, c) = Some (level, k', l', c') \<and> later c1 c' \<and>
     status k' = status k1 \<and> last_test_mode k' = last_test_mode k1 \<and>
     prev_ts k' = (if due then ts else prev_ts k1) \<and>
     (\<forall>on i. the_wave on i k' = (if due then snd (tick_of s on i (the_wave on i k1)) else the_wave on i k1)) \<and>
     same_leds l l0 \<and> set_states (if due then tick_events s k1 else []) l0 = Some l1 \<and> same_leds l1 l'"
proof -
  obtain k2 c2 where r2: "block_stamps (k1, c1) = (k2, c2)" by fastforce
  obtain k3 l3 where r3: "emergency_steps s ts (k2, l) = (k3, l3)" by fastforce
  have k3: "kept k1 k3" and c2: "later c1 c2" and l3: "same_leds l l3"
    using block_stamps_kept [OF r2] emergency_steps_kept [OF assms(6) r3] kept_trans by blast+
  have inv3: "leds_inv l3" using l3 by (simp add: same_leds_def)
  have events: "tick_events s k3 = tick_events s k1" "prev_ts k3 = prev_ts k1"
    using k3 by (simp_all add: tick_events_def kept_def)
  define k0 where "k0 = fst (fold emergency_off_step all_emergencies (k3\<lparr>prev_ts := ts\<rparr>, l3))"
  define kt where "kt = k0\<lparr>led_on_up := snd (tick_of s True DETECTOR_TYPE_UP (led_on_up k3)),
       led_off_up := snd (tick_of s False DETECTOR_TYPE_UP (led_off_up k3)),
       led_on_down := snd (tick_of s True DETECTOR_TYPE_DOWN (led_on_down k3)),
       led_off_down := snd (tick_of s False DETECTOR_TYPE_DOWN (led_off_down k3))\<rparr>"
  define k4 where "k4 = (if due then kt else k3)"
  obtain l0 where l0: "same_leds l3 l0" "wave_tick s ts (k3, l3) =
      (if due then map_option (\<lambda>l'. (kt, l')) (set_states (tick_events s k1) l0) else Some (k3, l3))"
      "kept (k3\<lparr>prev_ts := ts\<rparr>) k0"
    using wave_tick_parts [OF inv3, of s ts k3] unfolding events due_def [symmetric] k0_def [symmetric] kt_def [symmetric]
    by blast
  have waves3: "the_wave on i k3 = the_wave on i k1" for on i using k3 by (simp add: kept_def)
  have wavest: "the_wave on i kt = snd (tick_of s on i (the_wave on i k1))" for on i
    unfolding waves3 [symmetric] kt_def by (cases on; cases i) simp_all
  have kt: "status kt = status k3" "last_test_mode kt = last_test_mode k3" "prev_ts kt = ts"
    using l0(3) by (simp_all add: kt_def kept_def)
  have k4: "status k4 = status k1" "last_test_mode k4 = last_test_mode k1" "prev_ts k4 = (if due then ts else prev_ts k1)"
    using kt k3 by (simp_all add: k4_def kept_def)
  have waves4: "the_wave on i k4 = (if due then snd (tick_of s on i (the_wave on i k1)) else the_wave on i k1)" for on i
    by (simp add: k4_def wavest waves3)
  define l00 where "l00 = (if due then l0 else l3)"
  have l00: "same_leds l l00" using l3 l0(1) same_leds_trans by (simp add: l00_def)
  then have "leds_inv l00" "ws_led_count (ws2812_handler l00) = led_count s"
    using assms(7) by (simp_all add: same_leds_def)
  then obtain l1 where l1: "set_states (if due then tick_events s k1 else []) l00 = Some l1" "leds_inv l1"
      "ws_led_count (ws2812_handler l1) = led_count s"
    using set_states_ok [of l00 "if due then tick_events s k1 else []"] by auto
  then have tick: "wave_tick s ts (k3, l3) = Some (k4, l1)"
    using l0(2) by (cases due) (simp_all add: l00_def k4_def)
  have test: "test_step s (k4, l1, c2) = Some (k4, l1, c2)"
    using assms(8) k4(1,2) by (simp add: test_step_def)
  obtain k5 l5 c5 where r5: "refresh_step True True s (k4, l1, c2) = Some (k5, l5, c5)" "kept k4 k5"
      "same_leds l1 l5" "later c2 c5"
    using refresh_step_kept [OF l1(2) assms(5) l1(3)] by blast
  obtain level k6 c6 where r6: "error_led_step (env_ap e) (k5, c5) = (level, k6, c6)"
    by (metis prod_cases3)
  have k6: "kept k4 k6" "later c1 c6"
    using error_led_step_kept [OF r6] r5(2,4) c2 kept_trans later_trans by blast+
  have "controller_pass e ts (k, l, c) = Some (level, k6, l5, c6)"
    using tick test r5(1) r6 assms(2-4) by (simp add: controller_pass_def Let_def assms(1) r2 r3)
  moreover have "status k6 = status k1 \<and> last_test_mode k6 = last_test_mode k1 \<and>
      prev_ts k6 = (if due then ts else prev_ts k1) \<and>
      (\<forall>on i. the_wave on i k6 = (if due then snd (tick_of s on i (the_wave on i k1)) else the_wave on i k1))"
    using k6(1) k4 waves4 by (simp add: kept_def)
  ultimately show ?thesis using k6(2) l00 l1(1) r5(3) by blast
qed

section \<open>The counting part of a pass\<close>

text \<open>A pass at night with working sensors; what it sees at a detector.\<close>

definition good_env :: "settings \<Rightarrow> env \<Rightarrow> bool" where
  "good_env s e \<longleftrightarrow> env_settings e = s \<and> env_buf_ok e \<and> env_mem_ok e \<and> (\<forall>x. \<not> sens_error (env_sens e) x) \<and>
     \<not> (fst (env_light e) \<and> use_light_sensor s)"

definition seen :: "env \<Rightarrow> detector_type \<Rightarrow> bool \<times> bool" where
  "seen e i = (sens_state (env_sens e) (sens_first i), sens_state (env_sens e) (sens_second i))"

fun other :: "detector_type \<Rightarrow> detector_type" where
  "other DETECTOR_TYPE_UP = DETECTOR_TYPE_DOWN"
| "other DETECTOR_TYPE_DOWN = DETECTOR_TYPE_UP"

lemma other_neq [simp]: "other i \<noteq> i" "i \<noteq> other i" by (cases i; simp)+

text \<open>Fields of the controller that the counting part leaves alone.\<close>

definition tick_frame :: "controller \<Rightarrow> controller \<Rightarrow> bool" where
  "tick_frame k k' \<longleftrightarrow> prev_ts k' = prev_ts k \<and> last_test_mode k' = last_test_mode k \<and>
     test_mode (status k') = test_mode (status k)"

lemma sensor_update_seen:
  assumes "\<not> sens_error v x" and "sensor_update v ts x (k, c) = (k', c')"
  shows "current (sensor_state (status k') y) = (if y = x then sens_state v x else current (sensor_state (status k) y)) \<and>
     light_state (status k') = light_state (status k) \<and> people_ts (status k') = people_ts (status k) \<and> tick_frame k k' \<and> later c c'"
  using assms by (auto simp: sensor_update_def tick_frame_def Let_def split_beta split: if_splits)

lemma sensors_update_seen:
  assumes "\<forall>x. \<not> sens_error v x" and "sensors_update v ts (k, c) = (k', c')"
  shows "(\<forall>x. current (sensor_state (status k') x) = sens_state v x) \<and>
     light_state (status k') = light_state (status k) \<and> people_ts (status k') = people_ts (status k) \<and> tick_frame k k' \<and> later c c'"
proof -
  have "(\<forall>x. current (sensor_state (status k') x) =
        (if x \<in> set xs then sens_state v x else current (sensor_state (status k) x))) \<and>
      light_state (status k') = light_state (status k) \<and> people_ts (status k') = people_ts (status k) \<and> tick_frame k k' \<and> later c c'"
    if "fold (sensor_update v ts) xs (k, c) = (k', c')" for xs k c
    using that
  proof (induction xs arbitrary: k c)
    case (Cons x xs)
    obtain k1 c1 where r: "sensor_update v ts x (k, c) = (k1, c1)" by fastforce
    have "fold (sensor_update v ts) xs (k1, c1) = (k', c')" using Cons.prems r by simp
    note ih = Cons.IH [OF this]
    have u: "sens_error v x = False" using assms(1) by simp
    show ?case
      using ih sensor_update_seen [of v x ts k c k1 c1, OF _ r] u later_trans [of c c1 c']
      by (auto simp: tick_frame_def)
  qed (simp add: tick_frame_def)
  from this [OF assms(2) [unfolded sensors_update_def]] show ?thesis
    by (metis set_all_sensors UNIV_I)
qed

lemma detector_switch_later: "detector_switch s i (st, c) = (st', c') \<Longrightarrow> later c c'"
  by (cases "det_state (detector st i)"; cases "current (sensor_state st (sens_first i))";
      cases "current (sensor_state st (sens_second i))")
    (auto simp: detector_switch_def quiet_for_eq set_detector_eq later_step split: if_splits)

lemma detector_switch_nobody:
  "det_state (detector st i) = DETECTOR_STATE_IDLE \<Longrightarrow> \<not> current (sensor_state st (sens_first i)) \<Longrightarrow>
     \<not> current (sensor_state st (sens_second i)) \<Longrightarrow> detector_switch s i (st, c) = (st, c)"
  by (simp add: detector_switch_def)

text \<open>When nobody is at the other detector, only one detector moves.\<close>

lemma detectors_step_only:
  assumes "\<not> block_by_light st" and "\<forall>x. \<not> sens_error v x"
    and "det_state (detector st (other i)) = DETECTOR_STATE_IDLE"
    and "\<not> current (sensor_state st (sens_first (other i)))" and "\<not> current (sensor_state st (sens_second (other i)))"
  shows "detectors_step s v (st, c) = detector_switch s i (st, c)"
proof -
  obtain st1 c1 where r: "detector_switch s i (st, c) = (st1, c1)" by fastforce
  have st1: "\<not> block_by_light st1" "detector st1 (other i) = detector st (other i)" "sensor_state st1 = sensor_state st"
    using detector_switch_frame [OF r] assms(1) by simp_all
  have "detector_switch s (other i) (st1, c1) = (st1, c1)" "detector_switch s (other i) (st, c) = (st, c)"
    using assms(3-5) st1 by (simp_all add: detector_switch_nobody)
  then show ?thesis
    using assms(1,2) st1 r
    by (cases i) (simp_all add: detectors_step_def all_detectors_def detector_step_cases)
qed

lemma count_pass_seen:
  assumes "good_env s e"
  shows "\<exists>k1 st c1. tick_frame k k1 \<and> (\<forall>on i. the_wave on i k1 = the_wave on i k) \<and> later c c1 \<and>
     last_det k1 = last_det k \<and> detector st = detector (status k) \<and> people_count st = people_count (status k) \<and>
     prev_people_count st = prev_people_count (status k) \<and> test_mode st = test_mode (status k) \<and>
     people_ts st = people_ts (status k) \<and> \<not> block_by_light st \<and>
     (\<forall>i. (current (sensor_state st (sens_first i)), current (sensor_state st (sens_second i))) = seen e i) \<and>
     count_pass e ts (k, c) =
       (let (st2, c2) = detectors_step s (env_sens e) (st, c1)
        in leave_timeout s (count_events s (k1\<lparr>status := st2\<rparr>, c2)))"
proof -
  let ?k0 = "k\<lparr>error_led_state := False,
    status := (status k)\<lparr>light_state := fst (env_light e), light_value := snd (env_light e)\<rparr>\<rparr>"
  obtain k1 c1 where r: "sensors_update (env_sens e) ts (?k0, c) = (k1, c1)" by fastforce
  let ?st = "light_block s (status k1)"
  have e: "env_settings e = s" "\<forall>x. \<not> sens_error (env_sens e) x" "\<not> (fst (env_light e) \<and> use_light_sensor s)"
    using assms by (simp_all add: good_env_def)
  note seen = sensors_update_seen [OF e(2) r] and frame = sensors_update_frame [OF r [unfolded sensors_update_def]]
  have "light_state (status k1) = fst (env_light e)" using seen by simp
  then have st: "\<not> block_by_light ?st" "sensor_state ?st = sensor_state (status k1)" "test_mode ?st = test_mode (status k1)"
      "people_ts ?st = people_ts (status k1)"
    using e(3) by (auto simp: light_block_def)
  have k1: "tick_frame k k1" using seen by (simp add: tick_frame_def)
  moreover have "\<forall>on i. the_wave on i k1 = the_wave on i k"
    using frame by (auto intro!: the_wave_cong)
  moreover have "count_pass e ts (k, c) =
      (let (st2, c2) = detectors_step s (env_sens e) (?st, c1)
       in leave_timeout s (count_events s (k1\<lparr>status := st2\<rparr>, c2)))"
    by (simp add: count_pass_def Let_def e(1) r split_beta)
  ultimately show ?thesis
    using seen frame st
    by (intro exI [of _ k1] exI [of _ ?st] exI [of _ c1]) (simp add: light_block_frame seen_def)
qed

lemma wave_runs_iff:
  "(\<exists>on i. wave_run (the_wave on i k)) \<longleftrightarrow>
     wave_run (led_on_up k) \<or> wave_run (led_on_down k) \<or> wave_run (led_off_up k) \<or> wave_run (led_off_down k)"
proof
  assume "\<exists>on i. wave_run (the_wave on i k)"
  then obtain on i where "wave_run (the_wave on i k)" by blast
  then show "wave_run (led_on_up k) \<or> wave_run (led_on_down k) \<or> wave_run (led_off_up k) \<or> wave_run (led_off_down k)"
    by (cases on; cases i) simp_all
qed (metis the_wave.simps)

lemma leave_timeout_none:
  "people_count (status k) \<le> 0 \<or> (\<exists>on i. wave_run (the_wave on i k)) \<Longrightarrow> leave_timeout s (k, c) = (k, c)"
  unfolding wave_runs_iff by (auto simp: leave_timeout_def)

lemma count_events_none:
  "prev_people_count (status k) = people_count (status k) \<Longrightarrow> count_events s (k, c) = (k, c)"
  by (simp add: count_events_def)

text \<open>What the controller knows between two passes while only the detector \<open>i\<close> is in use.\<close>

definition watching :: "detector_type \<Rightarrow> detector_state set \<Rightarrow> int \<Rightarrow> controller \<Rightarrow> bool" where
  "watching i D p k \<longleftrightarrow>
     det_state (detector (status k) i) \<in> D \<and> det_state (detector (status k) (other i)) = DETECTOR_STATE_IDLE \<and>
     people_count (status k) = p \<and> prev_people_count (status k) = p"

text \<open>The detector alone moves, if nobody is at the other one.\<close>

lemma count_pass_switch:
  assumes "good_env s e" and "watching i D p k" and "seen e (other i) = (False, False)"
  shows "\<exists>k1 st c1 st2 c2. tick_frame k k1 \<and> (\<forall>on i. the_wave on i k1 = the_wave on i k) \<and> later c c2 \<and>
     last_det k1 = last_det k \<and> detector st = detector (status k) \<and> people_count st = p \<and>
     people_ts st = people_ts (status k) \<and>
     current (sensor_state st (sens_first i)) = fst (seen e i) \<and>
     current (sensor_state st (sens_second i)) = snd (seen e i) \<and>
     detector_switch s i (st, c1) = (st2, c2) \<and>
     det_state (detector st2 (other i)) = DETECTOR_STATE_IDLE \<and> prev_people_count st2 = p \<and>
     test_mode st2 = test_mode (status k) \<and>
     count_pass e ts (k, c) = leave_timeout s (count_events s (k1\<lparr>status := st2\<rparr>, c2))"
proof -
  obtain k1 st c1 where k1: "tick_frame k k1" "\<forall>on i. the_wave on i k1 = the_wave on i k" "later c c1"
      "last_det k1 = last_det k" and st: "detector st = detector (status k)" "people_count st = people_count (status k)"
      "prev_people_count st = prev_people_count (status k)" "test_mode st = test_mode (status k)"
      "people_ts st = people_ts (status k)" "\<not> block_by_light st"
      "\<forall>i. (current (sensor_state st (sens_first i)), current (sensor_state st (sens_second i))) = seen e i"
      and run: "count_pass e ts (k, c) = (let (st2, c2) = detectors_step s (env_sens e) (st, c1)
        in leave_timeout s (count_events s (k1\<lparr>status := st2\<rparr>, c2)))"
    using count_pass_seen [OF assms(1), of k c ts] by blast
  obtain st2 c2 where sw: "detector_switch s i (st, c1) = (st2, c2)" by fastforce
  have w: "det_state (detector st (other i)) = DETECTOR_STATE_IDLE" "people_count st = p" "prev_people_count st = p"
    using assms(2) st by (simp_all add: watching_def)
  have o: "\<not> current (sensor_state st (sens_first (other i)))" "\<not> current (sensor_state st (sens_second (other i)))"
    using spec [OF st(7), of "other i"] assms(3) by simp_all
  have "detectors_step s (env_sens e) (st, c1) = (st2, c2)"
    using detectors_step_only [OF st(6) _ w(1) o, of "env_sens e" s c1] assms(1) sw by (simp add: good_env_def)
  then have "count_pass e ts (k, c) = leave_timeout s (count_events s (k1\<lparr>status := st2\<rparr>, c2))"
    by (simp add: run)
  moreover have "detector st2 (other i) = detector st (other i)" "prev_people_count st2 = p" "test_mode st2 = test_mode (status k)"
    using detector_switch_frame [OF sw] w st(4) by simp_all
  moreover have "later c c2" using k1(3) detector_switch_later [OF sw] by (rule later_trans)
  moreover have "current (sensor_state st (sens_first i)) = fst (seen e i)"
      "current (sensor_state st (sens_second i)) = snd (seen e i)"
    using spec [OF st(7), of i] by (metis fst_conv snd_conv)+
  ultimately show ?thesis
    using k1 st(1,5) w sw
    by (intro exI [of _ k1] exI [of _ st] exI [of _ c1] exI [of _ st2] exI [of _ c2]) simp
qed

text \<open>A pass that counts nobody leaves the waves alone.\<close>

lemma calm_pass:
  assumes "good_env s e" and "watching i D p k" and "seen e (other i) = (False, False)"
    and "D \<subseteq> {DETECTOR_STATE_INC, DETECTOR_STATE_DEC} \<or> D = {DETECTOR_STATE_IDLE} \<and> seen e i = (False, False)"
    and "p \<le> 0 \<or> (\<exists>on i. wave_run (the_wave on i k))"
  shows "\<exists>k' c'. count_pass e ts (k, c) = (k', c') \<and> later c c' \<and> tick_frame k k' \<and>
     (\<forall>on i. the_wave on i k' = the_wave on i k) \<and>
     (watching i D p k' \<or> watching i {DETECTOR_STATE_IDLE} p k' \<and> seen e i = (False, False))"
proof -
  obtain k1 st c1 st2 c2 where k1: "tick_frame k k1" "\<forall>on i. the_wave on i k1 = the_wave on i k" "later c c2"
      and st: "detector st = detector (status k)" "people_count st = p"
      "current (sensor_state st (sens_first i)) = fst (seen e i)"
      "current (sensor_state st (sens_second i)) = snd (seen e i)"
      and sw: "detector_switch s i (st, c1) = (st2, c2)"
      and st2: "det_state (detector st2 (other i)) = DETECTOR_STATE_IDLE" "prev_people_count st2 = p"
      "test_mode st2 = test_mode (status k)"
      and run: "count_pass e ts (k, c) = leave_timeout s (count_events s (k1\<lparr>status := st2\<rparr>, c2))"
    using count_pass_switch [OF assms(1-3), of c ts] by blast
  have D: "det_state (detector st i) \<in> D" using assms(2) st(1) by (simp add: watching_def)
  have moved: "people_count st2 = p \<and> (det_state (detector st2 i) \<in> D \<or>
      det_state (detector st2 i) = DETECTOR_STATE_IDLE \<and> seen e i = (False, False))"
  proof (cases "D = {DETECTOR_STATE_IDLE} \<and> seen e i = (False, False)")
    case True
    then have "detector_switch s i (st, c1) = (st, c1)"
      using D st by (intro detector_switch_nobody) simp_all
    then show ?thesis using sw st(2) D by simp
  next
    case False
    then have "det_state (detector st i) \<in> {DETECTOR_STATE_INC, DETECTOR_STATE_DEC}" using assms(4) D by auto
    then show ?thesis
      using detector_switch_moves [OF sw] D st(2-4)
      by (cases "seen e i") (auto simp: moves_from_inc moves_from_dec)
  qed
  let ?k' = "k1\<lparr>status := st2\<rparr>"
  have waves: "the_wave on i ?k' = the_wave on i k" for on i
    using k1(2) by (cases on; cases i) (auto dest: spec [of _ True] spec [of _ False], (metis the_wave.simps)+)
  have "count_pass e ts (k, c) = (?k', c2)"
    using run count_events_none [of ?k' s c2] leave_timeout_none [of ?k' s c2] moved st2(2) assms(5) waves by simp
  moreover have "tick_frame k ?k'" using k1(1) st2(3) by (simp add: tick_frame_def)
  moreover have "watching i D p ?k' \<or> watching i {DETECTOR_STATE_IDLE} p ?k' \<and> seen e i = (False, False)"
    using moved st2(1,2) by (auto simp: watching_def)
  ultimately show ?thesis using k1(3) waves by blast
qed

text \<open>A pass in which a person stands at the first sensor only, on the way to or from the stairs.\<close>

lemma coming_pass:
  assumes "good_env s e" and "watching i {DETECTOR_STATE_IDLE, locked way_in} p k"
    and "seen e (other i) = (False, False)" and "seen e i = (way_in, \<not> way_in)"
    and "p \<le> 0 \<or> (\<exists>on i. wave_run (the_wave on i k))"
  shows "\<exists>k' c'. count_pass e ts (k, c) = (k', c') \<and> later c c' \<and> tick_frame k k' \<and>
     (\<forall>on i. the_wave on i k' = the_wave on i k) \<and> watching i {locked way_in} p k'"
proof -
  obtain k1 st c1 st2 c2 where k1: "tick_frame k k1" "\<forall>on i. the_wave on i k1 = the_wave on i k" "later c c2"
      and st: "detector st = detector (status k)" "people_count st = p"
      "current (sensor_state st (sens_first i)) = fst (seen e i)"
      "current (sensor_state st (sens_second i)) = snd (seen e i)"
      and sw: "detector_switch s i (st, c1) = (st2, c2)"
      and st2: "det_state (detector st2 (other i)) = DETECTOR_STATE_IDLE" "prev_people_count st2 = p"
      "test_mode st2 = test_mode (status k)"
      and run: "count_pass e ts (k, c) = leave_timeout s (count_events s (k1\<lparr>status := st2\<rparr>, c2))"
    using count_pass_switch [OF assms(1-3), of c ts] by blast
  have "det_state (detector st i) = DETECTOR_STATE_IDLE \<or> det_state (detector st i) = locked way_in"
    using assms(2) st(1) by (simp add: watching_def)
  then have moved: "det_state (detector st2 i) = locked way_in" "people_count st2 = p"
    using sw st(2-4) assms(4)
    by (cases way_in; auto simp: detector_switch_def quiet_for_eq set_detector_eq locked_def)+
  let ?k' = "k1\<lparr>status := st2\<rparr>"
  have waves: "the_wave on i ?k' = the_wave on i k" for on i
    using k1(2) by (cases on; cases i) (auto dest: spec [of _ True] spec [of _ False], (metis the_wave.simps)+)
  have "count_pass e ts (k, c) = (?k', c2)"
    using run count_events_none [of ?k' s c2] leave_timeout_none [of ?k' s c2] moved st2(2) assms(5) waves by simp
  moreover have "tick_frame k ?k'" using k1(1) st2(3) by (simp add: tick_frame_def)
  ultimately show ?thesis
    using k1(3) waves moved st2(1,2) by (auto simp: watching_def)
qed

text \<open>
  The pass that counts: it starts one wave, with the time of one of its readings of the clock. The
  wave that switches off is started when the last person leaves.
\<close>

definition all_stopped :: "controller \<Rightarrow> bool" where
  "all_stopped k \<longleftrightarrow> (\<forall>on i. \<not> wave_run (the_wave on i k) \<and> wave_cnt (the_wave on i k) = 0)"

definition only_wave :: "bool \<Rightarrow> detector_type \<Rightarrow> wave \<Rightarrow> controller \<Rightarrow> bool" where
  "only_wave on i w k \<longleftrightarrow> the_wave on i k = w \<and>
     (\<forall>on' i'. (on', i') \<noteq> (on, i) \<longrightarrow> \<not> wave_run (the_wave on' i' k) \<and> wave_cnt (the_wave on' i' k) = 0)"

lemma all_four:
  "(\<forall>on i. P on i) \<longleftrightarrow>
     P True DETECTOR_TYPE_UP \<and> P True DETECTOR_TYPE_DOWN \<and> P False DETECTOR_TYPE_UP \<and> P False DETECTOR_TYPE_DOWN"
proof
  assume *: "P True DETECTOR_TYPE_UP \<and> P True DETECTOR_TYPE_DOWN \<and> P False DETECTOR_TYPE_UP \<and> P False DETECTOR_TYPE_DOWN"
  show "\<forall>on i. P on i"
  proof (intro allI)
    fix on i
    show "P on i" using * by (cases on; cases i) simp_all
  qed
qed simp

lemmas four_waves = all_stopped_def only_wave_def all_four

lemma only_stopped:
  assumes "only_wave on i w k" and "\<not> wave_run w" and "wave_cnt w = 0"
  shows "all_stopped k"
  unfolding all_stopped_def
proof (intro allI)
  fix on' i'
  show "\<not> wave_run (the_wave on' i' k) \<and> wave_cnt (the_wave on' i' k) = 0"
    using assms unfolding only_wave_def by (cases "(on', i') = (on, i)") auto
qed

lemma count_events_start:
  assumes "all_stopped k" and "0 < led_count s" and "det_state (detector (status k) i) = counted way_in"
    and "det_state (detector (status k) (other i)) = DETECTOR_STATE_IDLE"
    and "if way_in then prev_people_count (status k) < people_count (status k)
         else 0 < prev_people_count (status k) \<and> people_count (status k) = 0"
  shows "\<exists>k'. count_events s (k, c) = (k', snd (get_time_ms c)) \<and>
     only_wave way_in i \<lparr>wave_run = True, wave_ts = fst (get_time_ms c), wave_cnt = 0\<rparr> k' \<and>
     status k' = (status k)\<lparr>prev_people_count := people_count (status k)\<rparr> \<and> tick_frame k k'"
proof -
  have cnt: "wave_cnt (the_wave way_in i k) \<noteq> led_count s"
    using assms(1,2) by (auto simp: all_stopped_def)
  show ?thesis
    using assms cnt
    by (cases way_in; cases i)
      (simp_all add: count_events_def on_events_def off_events_def start_wave_def counted_def split_beta
        four_waves tick_frame_def)
qed

lemma counting_pass:
  assumes "good_env s e" and "watching i {locked way_in} p k" and "seen e (other i) = (False, False)"
    and "seen e i = (True, True)" and "all_stopped k" and "0 < led_count s"
    and "if way_in then 0 \<le> p else p = 1"
  shows "\<exists>k' c' ct. count_pass e ts (k, c) = (k', c') \<and> later c ct \<and> later c c' \<and> tick_frame k k' \<and>
     only_wave way_in i \<lparr>wave_run = True, wave_ts = fst (get_time_ms ct), wave_cnt = 0\<rparr> k' \<and>
     watching i {counted way_in} (count_after p (if way_in then 1 else - 1)) k'"
proof -
  let ?q = "count_after p (if way_in then 1 else - 1)"
  obtain k1 st c1 st2 c2 where k1: "tick_frame k k1" "\<forall>on i. the_wave on i k1 = the_wave on i k" "later c c2"
      and st: "detector st = detector (status k)" "people_count st = p"
      "current (sensor_state st (sens_first i)) = fst (seen e i)"
      "current (sensor_state st (sens_second i)) = snd (seen e i)"
      and sw: "detector_switch s i (st, c1) = (st2, c2)"
      and st2: "det_state (detector st2 (other i)) = DETECTOR_STATE_IDLE" "prev_people_count st2 = p"
      "test_mode st2 = test_mode (status k)"
      and run: "count_pass e ts (k, c) = leave_timeout s (count_events s (k1\<lparr>status := st2\<rparr>, c2))"
    using count_pass_switch [OF assms(1-3), of c ts] by blast
  have "det_state (detector st i) = locked way_in" using assms(2) st(1) by (simp add: watching_def)
  then have moved: "det_state (detector st2 i) = counted way_in" "people_count st2 = ?q"
    using sw st(2-4) assms(4)
    by (cases way_in; auto simp: detector_switch_def quiet_for_eq set_detector_eq locked_def counted_def count_after_def)+
  let ?k1 = "k1\<lparr>status := st2\<rparr>"
  have stop: "all_stopped ?k1" using assms(5) k1(2) by (simp add: four_waves)
  have cnt: "if way_in then prev_people_count (status ?k1) < people_count (status ?k1)
         else 0 < prev_people_count (status ?k1) \<and> people_count (status ?k1) = 0"
    using assms(7) moved(2) st2(2) by (auto simp: count_after_def)
  obtain k' where k': "count_events s (?k1, c2) = (k', snd (get_time_ms c2))"
      "only_wave way_in i \<lparr>wave_run = True, wave_ts = fst (get_time_ms c2), wave_cnt = 0\<rparr> k'"
      "status k' = st2\<lparr>prev_people_count := people_count st2\<rparr>" "tick_frame ?k1 k'"
    using count_events_start [OF stop assms(6) _ _ cnt] moved(1) st2(1) by auto
  have "leave_timeout s (k', snd (get_time_ms c2)) = (k', snd (get_time_ms c2))"
    by (rule leave_timeout_none, rule disjI2, rule exI [of _ way_in], rule exI [of _ i])
      (use k'(2) in \<open>simp add: only_wave_def\<close>)
  then have "count_pass e ts (k, c) = (k', snd (get_time_ms c2))" using run k'(1) by simp
  moreover have "tick_frame k k'" using k1(1) k'(4) st2(3) by (simp add: tick_frame_def)
  moreover have "watching i {counted way_in} ?q k'"
    using k'(3) moved st2(1) by (simp add: watching_def)
  ultimately show ?thesis using k1(3) later_step [OF k1(3)] k'(2) by blast
qed

section \<open>One wave, pass after pass\<close>

text \<open>
  How far the controller is with a wave of \<open>n\<close> LEDs that was started at the time \<open>t\<close>: it has
  set \<open>j\<close> LEDs and still runs, or, one stage behind the last LED, it has ended.
\<close>

definition wave_stage ::
    "settings \<Rightarrow> bool \<Rightarrow> detector_type \<Rightarrow> u64 \<Rightarrow> nat \<Rightarrow> controller \<Rightarrow> stairway_leds \<Rightarrow> bool" where
  "wave_stage s on i t j k l \<longleftrightarrow>
     swept s on (downwards on i) t (min j (unat (led_count s))) l \<and>
     (if j \<le> unat (led_count s) then only_wave on i \<lparr>wave_run = True, wave_ts = t, wave_cnt = of_nat j\<rparr> k
      else all_stopped k)"

lemma stopped_tick:
  assumes "0 < led_count s" and "\<not> wave_run w"
  shows "tick_of s on i w = ([], w)"
  using tick_of_law [OF assms(1), of on i] assms(2) by (simp add: wave_law_def)

text \<open>A wave that switches off goes one LED further in each tick, it has no zone to skip.\<close>

lemma off_tick_cnt:
  "wave_run w \<Longrightarrow> wave_cnt w < led_count s \<Longrightarrow> wave_cnt (snd (tick_of s False i w)) = wave_cnt w + 1"
  by (cases i) (simp_all add: wave_off_tick_def)

lemma stage_tick:
  assumes "0 < led_count s" and "j \<le> unat (led_count s)"
    and "only_wave on i \<lparr>wave_run = True, wave_ts = t, wave_cnt = of_nat j\<rparr> k"
  shows "\<exists>j' > j. j' \<le> Suc (unat (led_count s)) \<and>
     tick_events s k = map (wave_led (wave_pos s (downwards on i)) on t) [j..<min j' (unat (led_count s))] \<and>
     (\<forall>k'. (\<forall>on i. the_wave on i k' = snd (tick_of s on i (the_wave on i k))) \<longrightarrow>
        (if j' \<le> unat (led_count s) then only_wave on i \<lparr>wave_run = True, wave_ts = t, wave_cnt = of_nat j'\<rparr> k'
         else all_stopped k')) \<and> (on \<or> j' = Suc j)"
proof -
  let ?n = "unat (led_count s)" and ?w = "\<lparr>wave_run = True, wave_ts = t, wave_cnt = of_nat j\<rparr>"
  have cnt: "unat (of_nat j :: u32) = j" using assms(2) by (rule unat_of_nat_le)
  have idle: "\<not> wave_run (the_wave on' i' k) \<and> wave_cnt (the_wave on' i' k) = 0" if "(on', i') \<noteq> (on, i)" for on' i'
    using assms(3) that unfolding only_wave_def by blast
  then have stopped: "tick_of s on' i' (the_wave on' i' k) = ([], the_wave on' i' k)" "wave_cnt (the_wave on' i' k) = 0"
      "\<not> wave_run (the_wave on' i' k)" if "(on', i') \<noteq> (on, i)" for on' i'
    using stopped_tick [OF assms(1)] that by blast+
  have w: "the_wave on i k = ?w" using assms(3) by (simp add: only_wave_def)
  have events: "tick_events s k = fst (tick_of s on i ?w)"
    using stopped(1) [of True DETECTOR_TYPE_UP] stopped(1) [of True DETECTOR_TYPE_DOWN]
      stopped(1) [of False DETECTOR_TYPE_UP] stopped(1) [of False DETECTOR_TYPE_DOWN]
    unfolding tick_events_def all_waves_def w [symmetric] by (cases on; cases i) simp_all
  have other_waves: "only_wave on i (snd (tick_of s on i ?w)) k'"
    if "\<forall>on i. the_wave on i k' = snd (tick_of s on i (the_wave on i k))" for k'
    using that stopped by (simp add: only_wave_def w)
  note law = tick_of_law [OF assms(1), of on i, unfolded wave_law_def]
  show ?thesis
  proof (cases "j < ?n")
    case True
    then obtain j' where j': "j < j'" "j' \<le> ?n" "tick_of s on i ?w =
        (map (\<lambda>m. wave_led (wave_pos s (downwards on i)) on t m) [j..<j'], ?w\<lparr>wave_cnt := of_nat j'\<rparr>)"
      using conjunct2 [OF conjunct2 [OF law], THEN spec, of ?w] cnt by auto
    moreover have "j' = Suc j" if "\<not> on"
    proof -
      have "(of_nat j :: u32) < led_count s" using True cnt by (simp add: word_less_nat_alt)
      then have "(of_nat j' :: u32) = of_nat (Suc j)"
        using off_tick_cnt [of ?w s i] that j'(3) by (simp add: add.commute)
      then have "unat (of_nat j' :: u32) = unat (of_nat (Suc j) :: u32)" by simp
      then show ?thesis
        using unat_of_nat_le [OF j'(2)] unat_of_nat_le [of "Suc j" "led_count s"] True by simp
    qed
    ultimately show ?thesis using other_waves events by (intro exI [of _ j']) (auto simp: min_absorb1)
  next
    case False
    then have j: "j = ?n" using assms(2) by simp
    then have tick: "tick_of s on i ?w = ([], ?w\<lparr>wave_cnt := 0, wave_run := False\<rparr>)"
      using conjunct1 [OF conjunct2 [OF law], THEN spec, of ?w] cnt by simp
    have "all_stopped k'" if "\<forall>on i. the_wave on i k' = snd (tick_of s on i (the_wave on i k))" for k'
      by (rule only_stopped [OF other_waves [OF that]]) (simp_all add: tick)
    then show ?thesis using events tick j by (intro exI [of _ "Suc j"]) simp
  qed
qed

text \<open>
  One pass: a tick that is due takes the wave at least one LED further, and a wave that switches off
  exactly one.
\<close>

lemma stage_rest:
  assumes "count_pass e ts (k, c) = (k1, c1)" and "good_env s e" and "settings_valid s"
    and "last_test_mode k1 = test_mode (status k1)" and "wave_stage s on i t j k1 l" and "j \<le> unat (led_count s)"
  defines "due \<equiv> tick_due s (prev_ts k1) ts"
  shows "\<exists>level k' l' c' j'. controller_pass e ts (k, l, c) = Some (level, k', l', c') \<and> later c1 c' \<and>
     status k' = status k1 \<and> last_test_mode k' = last_test_mode k1 \<and>
     prev_ts k' = (if due then ts else prev_ts k1) \<and> wave_stage s on i t j' k' l' \<and>
     j' \<le> Suc (unat (led_count s)) \<and> (if due then j < j' \<and> (on \<or> j' = Suc j) else j' = j)"
proof -
  let ?n = "unat (led_count s)" and ?pos = "wave_pos s (downwards on i)"
  have wave: "only_wave on i \<lparr>wave_run = True, wave_ts = t, wave_cnt = of_nat j\<rparr> k1"
      and sw: "swept s on (downwards on i) t j l"
    using assms(5,6) by (simp_all add: wave_stage_def min_absorb1)
  then have l: "leds_inv l" "ws_led_count (ws2812_handler l) = led_count s" by (simp_all add: swept_def)
  have e: "env_settings e = s" "env_buf_ok e" "env_mem_ok e" using assms(2) by (simp_all add: good_env_def)
  have n: "0 < led_count s" using assms(3) by (simp add: settings_valid_iff)
  obtain level k' l' c' l0 l1 where r: "controller_pass e ts (k, l, c) = Some (level, k', l', c')" "later c1 c'"
      and k': "status k' = status k1" "last_test_mode k' = last_test_mode k1" "prev_ts k' = (if due then ts else prev_ts k1)"
      "\<forall>on i. the_wave on i k' = (if due then snd (tick_of s on i (the_wave on i k1)) else the_wave on i k1)"
      and l': "same_leds l l0" "set_states (if due then tick_events s k1 else []) l0 = Some l1" "same_leds l1 l'"
    using rest_of_pass [OF assms(1) e assms(3) l assms(4)] unfolding due_def by blast
  have sw0: "swept s on (downwards on i) t j l0" using swept_same [OF sw l'(1)] .
  show ?thesis
  proof (cases due)
    case True
    obtain j' where j': "j < j'" "j' \<le> Suc ?n"
        "tick_events s k1 = map (wave_led ?pos on t) [j..<min j' ?n]"
        "\<forall>k'. (\<forall>on i. the_wave on i k' = snd (tick_of s on i (the_wave on i k1))) \<longrightarrow>
          (if j' \<le> ?n then only_wave on i \<lparr>wave_run = True, wave_ts = t, wave_cnt = of_nat j'\<rparr> k' else all_stopped k')"
        "on \<or> j' = Suc j"
      using stage_tick [OF n assms(6) wave] by blast
    obtain l2 where "set_states (map (wave_led ?pos on t) [j..<min j' ?n]) l0 = Some l2"
        "swept s on (downwards on i) t (min j' ?n) l2"
      using swept_step [OF sw0, of "min j' ?n"] j'(1) assms(6) by auto
    moreover from this have "l2 = l1" using l'(2) True j'(3) by simp
    ultimately have "swept s on (downwards on i) t (min j' ?n) l'" using swept_same l'(3) by blast
    moreover have "if j' \<le> ?n then only_wave on i \<lparr>wave_run = True, wave_ts = t, wave_cnt = of_nat j'\<rparr> k' else all_stopped k'"
      using j'(4) k'(4) True by simp
    ultimately have "wave_stage s on i t j' k' l'" by (simp add: wave_stage_def)
    then show ?thesis using r k'(1-3) j'(1,2,5) True by auto
  next
    case False
    have "swept s on (downwards on i) t j l'" using swept_same [OF sw0] l'(2,3) False by simp
    moreover have "only_wave on i \<lparr>wave_run = True, wave_ts = t, wave_cnt = of_nat j\<rparr> k'"
      using wave k'(4) False by (simp add: only_wave_def)
    ultimately have "wave_stage s on i t j k' l'" using assms(6) by (simp add: wave_stage_def min_absorb1)
    then show ?thesis using r k'(1-3) assms(6) False by auto
  qed
qed

end
