(* ===== verification/Lights_Runs.thy ===== *)
theory Lights_Runs
  imports Lights
begin

text \<open>
  Many turns of the loop: a person who enters lights the whole stairs, and the last one who leaves,
  or the timeout, darkens them. Between the parts of the loop that belong to the lights, the other
  parts read the clock and change the fields of the controller that are theirs.
\<close>

section \<open>Runs of the controller\<close>

text \<open>
  A turn of the loop, as the lights see it: what they read from outside and the time it begins
  with; how often the other parts read the clock before the lights' turn; the test mode, the time
  of the restart and the state of the button as the other parts leave them.
\<close>

record turn =
  turn_env :: env
  turn_ts :: u64
  turn_reads :: nat
  turn_test :: bool
  turn_reboot :: u64
  turn_button :: "u64 \<times> u32 \<times> bool"

definition other_parts :: "turn \<Rightarrow> controller \<Rightarrow> controller" where
  "other_parts x k = k\<lparr>status := (status k)\<lparr>test_mode := turn_test x\<rparr>, reboot_ts := turn_reboot x,
     button_prev_ts := fst (turn_button x), button_debounce := fst (snd (turn_button x)),
     button_state := snd (snd (turn_button x))\<rparr>"

fun controller_run ::
    "turn list \<Rightarrow> controller \<times> stairway_leds \<times> clock \<Rightarrow> (controller \<times> stairway_leds \<times> clock) option" where
  "controller_run [] klc = Some klc"
| "controller_run (x # xs) (k, l, c) =
     (case controller_pass (turn_env x) (turn_ts x) (other_parts x k, l, read_times (turn_reads x) c) of
        None \<Rightarrow> None
      | Some (level, klc) \<Rightarrow> controller_run xs klc)"

lemma other_parts_frame [simp]:
  "the_wave on i (other_parts x k) = the_wave on i k" "prev_ts (other_parts x k) = prev_ts k"
  "last_test_mode (other_parts x k) = last_test_mode k" "test_mode (status (other_parts x k)) = turn_test x"
  "last_det (other_parts x k) = last_det k" "people_ts (status (other_parts x k)) = people_ts (status k)"
  "watching i D p (other_parts x k) = watching i D p k" "all_stopped (other_parts x k) = all_stopped k"
proof -
  show "the_wave on i (other_parts x k) = the_wave on i k" for on i
    by (cases on; cases i) (simp_all add: other_parts_def)
  then show "all_stopped (other_parts x k) = all_stopped k" by (simp add: all_stopped_def)
qed (simp_all add: other_parts_def watching_def)

lemma later_reads [simp]: "later c (read_times n c)"
  by (auto simp: later_def)

text \<open>A turn at night with working sensors and the settings \<open>s\<close>, in the test mode \<open>b\<close>.\<close>

definition good_turn :: "settings \<Rightarrow> bool \<Rightarrow> turn \<Rightarrow> bool" where
  "good_turn s b x \<longleftrightarrow> good_env s (turn_env x) \<and> turn_test x = b"

text \<open>The ticks of a run whose last tick was at \<open>prev\<close>.\<close>

fun ticks :: "settings \<Rightarrow> u64 \<Rightarrow> u64 list \<Rightarrow> nat" where
  "ticks s prev [] = 0"
| "ticks s prev (ts # tss) = (if tick_due s prev ts then Suc (ticks s ts tss) else ticks s prev tss)"

text \<open>A person walks away from the detector \<open>i\<close>: once nobody is seen, nobody comes back.\<close>

fun walks_off :: "detector_type \<Rightarrow> env list \<Rightarrow> bool" where
  "walks_off i [] \<longleftrightarrow> True"
| "walks_off i (e # es) \<longleftrightarrow> seen e (other i) = (False, False) \<and>
     (if seen e i = (False, False) then \<forall>e' \<in> set es. seen e' i = (False, False) \<and> seen e' (other i) = (False, False)
      else walks_off i es)"

lemma controller_run_append:
  "controller_run (es @ es') klc = (case controller_run es klc of None \<Rightarrow> None | Some klc' \<Rightarrow> controller_run es' klc')"
  by (induction es klc rule: controller_run.induct) (auto split: option.split)

lemma walks_off_nobody:
  "\<forall>e \<in> set es. seen e i = (False, False) \<and> seen e (other i) = (False, False) \<Longrightarrow> walks_off i es"
  by (cases es) auto

lemma walks_off_tail: "walks_off i (e # es) \<Longrightarrow> walks_off i es"
  by (auto intro: walks_off_nobody split: if_splits)

lemma wave_stage_waves:
  "(\<forall>on i. the_wave on i k' = the_wave on i k) \<Longrightarrow> wave_stage s on i t j k' l = wave_stage s on i t j k l"
  by (simp add: wave_stage_def only_wave_def all_stopped_def)

lemma watching_status: "status k' = status k \<Longrightarrow> watching i D p k' = watching i D p k"
  by (simp add: watching_def)

lemma watching_mono: "watching i D p k \<Longrightarrow> D \<subseteq> D' \<Longrightarrow> watching i D' p k"
  by (auto simp: watching_def)

text \<open>One pass with a running wave while a person walks off or nobody is there.\<close>

lemma sweep_pass:
  fixes ts :: u64
  assumes "good_env s e" and "settings_valid s" and "last_test_mode k = test_mode (status k)"
    and "wave_stage s on i t j k l" and "j \<le> unat (led_count s)"
    and "watching i D p k" and "seen e (other i) = (False, False)"
    and "D \<subseteq> {DETECTOR_STATE_INC, DETECTOR_STATE_DEC} \<or> D = {DETECTOR_STATE_IDLE} \<and> seen e i = (False, False)"
  defines "due \<equiv> tick_due s (prev_ts k) ts"
  shows "\<exists>level k' l' c' j'. controller_pass e ts (k, l, c) = Some (level, k', l', c') \<and> later c c' \<and>
     last_test_mode k' = last_test_mode k \<and> prev_ts k' = (if due then ts else prev_ts k) \<and>
     wave_stage s on i t j' k' l' \<and> j' \<le> Suc (unat (led_count s)) \<and>
     (if due then j < j' \<and> (on \<or> j' = Suc j) else j' = j) \<and>
     (watching i D p k' \<or> watching i {DETECTOR_STATE_IDLE} p k' \<and> seen e i = (False, False))"
proof -
  have "wave_run (the_wave on i k)"
    using assms(4,5) by (simp add: wave_stage_def only_wave_def)
  then have run: "p \<le> 0 \<or> (\<exists>on i. wave_run (the_wave on i k))" by blast
  obtain k1 c1 where k1: "count_pass e ts (k, c) = (k1, c1)" "later c c1" "tick_frame k k1"
      "\<forall>on i. the_wave on i k1 = the_wave on i k"
      "watching i D p k1 \<or> watching i {DETECTOR_STATE_IDLE} p k1 \<and> seen e i = (False, False)"
    using calm_pass [OF assms(1,6-8) run, of ts c] by blast
  have frame: "last_test_mode k1 = test_mode (status k1)" "prev_ts k1 = prev_ts k"
    using k1(3) assms(3) by (simp_all add: tick_frame_def)
  have stage: "wave_stage s on i t j k1 l" using wave_stage_waves [OF k1(4)] assms(4) by blast
  obtain level k' l' c' j' where r: "controller_pass e ts (k, l, c) = Some (level, k', l', c')" "later c1 c'"
      "status k' = status k1" "last_test_mode k' = last_test_mode k1" "prev_ts k' = (if due then ts else prev_ts k1)"
      "wave_stage s on i t j' k' l'" "j' \<le> Suc (unat (led_count s))"
      "if due then j < j' \<and> (on \<or> j' = Suc j) else j' = j"
    using stage_rest [OF k1(1) assms(1,2) frame(1) stage assms(5)] unfolding frame(2) due_def by blast
  have "watching i D p k' \<or> watching i {DETECTOR_STATE_IDLE} p k' \<and> seen e i = (False, False)"
    using k1(5) watching_status [OF r(3)] by blast
  moreover have "last_test_mode k' = last_test_mode k" using r(4) k1(3) by (simp add: tick_frame_def)
  ultimately show ?thesis
    using r later_trans [OF k1(2) r(2)] frame(2) by auto
qed

text \<open>
  The wave after \<open>r\<close> of the turns \<open>xs\<close>: it has gone one LED further with every tick, or more if it
  switches on and skips the LEDs of an emergency zone.
\<close>

definition sweeping :: "settings \<Rightarrow> bool \<Rightarrow> detector_type \<Rightarrow> u64 \<Rightarrow> nat \<Rightarrow>
    controller \<times> stairway_leds \<times> clock \<Rightarrow> turn list \<Rightarrow> nat \<Rightarrow> bool" where
  "sweeping s on i t j klc xs r \<longleftrightarrow>
     (\<exists>kr lr cr jr. controller_run (take r xs) klc = Some (kr, lr, cr) \<and> wave_stage s on i t jr kr lr \<and>
        j + ticks s (prev_ts (fst klc)) (map turn_ts (take r xs)) \<le> jr \<and>
        (on \<or> jr = j + ticks s (prev_ts (fst klc)) (map turn_ts (take r xs))))"

lemma sweeping_0: "wave_stage s on i t j k l \<Longrightarrow> sweeping s on i t j (k, l, c) xs 0"
  by (auto simp: sweeping_def intro: exI [of _ j])

lemma sweeping_Suc:
  assumes "sweeping s on i t j' (k', l', c') xs r"
    and "controller_pass (turn_env x) (turn_ts x) (other_parts x k, l, read_times (turn_reads x) c) =
       Some (level, k', l', c')"
    and "prev_ts k' = (if tick_due s (prev_ts k) (turn_ts x) then turn_ts x else prev_ts k)"
    and "if tick_due s (prev_ts k) (turn_ts x) then j < j' \<and> (on \<or> j' = Suc j) else j' = j"
  shows "sweeping s on i t j (k, l, c) (x # xs) (Suc r)"
proof -
  obtain kr lr cr jr where r: "controller_run (take r xs) (k', l', c') = Some (kr, lr, cr)"
      "wave_stage s on i t jr kr lr" "j' + ticks s (prev_ts k') (map turn_ts (take r xs)) \<le> jr"
      "on \<or> jr = j' + ticks s (prev_ts k') (map turn_ts (take r xs))"
    using assms(1) by (auto simp: sweeping_def)
  have "controller_run (take (Suc r) (x # xs)) (k, l, c) = Some (kr, lr, cr)"
    using assms(2) r(1) by simp
  moreover have "j + ticks s (prev_ts k) (map turn_ts (take (Suc r) (x # xs))) \<le> jr \<and>
      (on \<or> jr = j + ticks s (prev_ts k) (map turn_ts (take (Suc r) (x # xs))))"
    using r(3,4) assms(3,4) by (cases "tick_due s (prev_ts k) (turn_ts x)") auto
  ultimately show ?thesis using r(2) unfolding sweeping_def fst_conv by blast
qed

text \<open>
  A running wave ends: the LEDs it has left to set, and the tick that stops it, are its variant,
  which every tick makes smaller.
\<close>

lemma sweep_run:
  assumes "settings_valid s"
  shows "last_test_mode k = b \<Longrightarrow> wave_stage s on i t j k l \<Longrightarrow> j \<le> unat (led_count s) \<Longrightarrow>
     watching i D p k \<Longrightarrow>
     D \<subseteq> {DETECTOR_STATE_INC, DETECTOR_STATE_DEC} \<or>
       D = {DETECTOR_STATE_IDLE} \<and> (\<forall>x \<in> set xs. seen (turn_env x) i = (False, False)) \<Longrightarrow>
     \<forall>x \<in> set xs. good_turn s b x \<Longrightarrow> walks_off i (map turn_env xs) \<Longrightarrow>
     unat (led_count s) < j + ticks s (prev_ts k) (map turn_ts xs) \<Longrightarrow>
     \<exists>m \<le> length xs. \<exists>k' l' c'. controller_run (take m xs) (k, l, c) = Some (k', l', c') \<and>
       wave_stage s on i t (Suc (unat (led_count s))) k' l' \<and> watching i (insert DETECTOR_STATE_IDLE D) p k' \<and>
       (\<forall>r \<le> m. sweeping s on i t j (k, l, c) xs r)"
proof (induction xs arbitrary: k l c j D)
  case Nil
  then show ?case by simp
next
  case (Cons x xs)
  let ?n = "unat (led_count s)" and ?e = "turn_env x" and ?k = "other_parts x k"
  define due where "due = tick_due s (prev_ts k) (turn_ts x)"
  have e: "good_env s ?e" "turn_test x = b" "seen ?e (other i) = (False, False)"
    using Cons.prems(6,7) by (simp_all add: good_turn_def)
  have D: "D \<subseteq> {DETECTOR_STATE_INC, DETECTOR_STATE_DEC} \<or> D = {DETECTOR_STATE_IDLE} \<and> seen ?e i = (False, False)"
    using Cons.prems(5) by auto
  have k: "last_test_mode ?k = test_mode (status ?k)" "wave_stage s on i t j ?k l" "watching i D p ?k"
    using Cons.prems(1,2,4) e(2) wave_stage_waves [of ?k k s on i t j l] by simp_all
  obtain level k' l' c' j' where r: "controller_pass ?e (turn_ts x) (?k, l, read_times (turn_reads x) c) =
        Some (level, k', l', c')" "last_test_mode k' = b" "prev_ts k' = (if due then turn_ts x else prev_ts k)"
      "wave_stage s on i t j' k' l'" "j' \<le> Suc ?n" "if due then j < j' \<and> (on \<or> j' = Suc j) else j' = j"
      and w: "watching i D p k' \<or> watching i {DETECTOR_STATE_IDLE} p k' \<and> seen ?e i = (False, False)"
    using sweep_pass [OF e(1) assms k(1,2) Cons.prems(3) k(3) e(3) D, of "turn_ts x" "read_times (turn_reads x) c"]
      Cons.prems(1)
    unfolding due_def other_parts_frame by blast
  have now: "sweeping s on i t j (k, l, c) (x # xs) 0" by (rule sweeping_0 [OF Cons.prems(2)])
  have next_turn: "sweeping s on i t j (k, l, c) (x # xs) (Suc r)" if "sweeping s on i t j' (k', l', c') xs r" for r
    by (rule sweeping_Suc [OF that r(1) r(3,6) [unfolded due_def]])
  show ?case
  proof (cases "j' = Suc ?n")
    case True
    have "controller_run (take 1 (x # xs)) (k, l, c) = Some (k', l', c')" using r(1) by simp
    moreover have "watching i (insert DETECTOR_STATE_IDLE D) p k'" using w by (auto intro: watching_mono)
    moreover have "\<forall>r \<le> 1. sweeping s on i t j (k, l, c) (x # xs) r"
      using now next_turn [OF sweeping_0 [OF r(4)]] by (auto simp: le_Suc_eq)
    ultimately show ?thesis using r(4) True by (intro exI [of _ 1]) auto
  next
    case False
    obtain D' where D': "watching i D' p k'" "D' \<subseteq> insert DETECTOR_STATE_IDLE D"
        "D' \<subseteq> {DETECTOR_STATE_INC, DETECTOR_STATE_DEC} \<or>
         D' = {DETECTOR_STATE_IDLE} \<and> (\<forall>x \<in> set xs. seen (turn_env x) i = (False, False))"
    proof (cases "watching i D p k'")
      case True
      then show ?thesis using that [of D] Cons.prems(5) by auto
    next
      case nobody: False
      then have "\<forall>x \<in> set xs. seen (turn_env x) i = (False, False)" using w Cons.prems(7) by simp
      then show ?thesis using that [of "{DETECTOR_STATE_IDLE}"] w nobody by auto
    qed
    have more: "?n < j' + ticks s (prev_ts k') (map turn_ts xs)"
      using Cons.prems(8) r(3,6) by (auto simp: due_def split: if_splits)
    have env: "\<forall>x \<in> set xs. good_turn s b x" using Cons.prems(6) by simp
    have off: "walks_off i (map turn_env xs)" using walks_off_tail Cons.prems(7) by simp
    have "j' \<le> ?n" using False r(5) by simp
    from Cons.IH [OF r(2,4) this D'(1,3) env off more, of c']
    obtain m k2 l2 c2 where m: "m \<le> length xs" "controller_run (take m xs) (k', l', c') = Some (k2, l2, c2)"
        "wave_stage s on i t (Suc ?n) k2 l2" "watching i (insert DETECTOR_STATE_IDLE D') p k2"
        "\<forall>r \<le> m. sweeping s on i t j' (k', l', c') xs r" by blast
    have "controller_run (take (Suc m) (x # xs)) (k, l, c) = Some (k2, l2, c2)" using r(1) m(2) by simp
    moreover have "watching i (insert DETECTOR_STATE_IDLE D) p k2" using watching_mono [OF m(4)] D'(2) by auto
    moreover have "sweeping s on i t j (k, l, c) (x # xs) r" if "r \<le> Suc m" for r
      using now next_turn m(5) that by (cases r) auto
    ultimately show ?thesis using m(1,3) by (intro exI [of _ "Suc m"]) auto
  qed
qed

text \<open>At the last stage every LED is in the state of the wave.\<close>

lemma stage_complete:
  assumes "wave_stage s on i t (Suc (unat (led_count s))) k l" and "x < unat (led_count s)"
  shows "led_on (leds_buf l ! x) = on" and "led_ts (leds_buf l ! x) = t"
proof -
  let ?n = "unat (led_count s)" and ?up = "downwards on i"
  let ?m = "if ?up then ?n - 1 - x else x"
  have "swept s on ?up t ?n l" using assms(1) by (simp add: wave_stage_def)
  moreover have "?m < ?n" "led_index s ?up ?m = x" using assms(2) by (auto simp: led_index_def)
  ultimately show "led_on (leds_buf l ! x) = on" "led_ts (leds_buf l ! x) = t"
    unfolding swept_def Let_def by metis+
qed

text \<open>From the pass that counts to the end of the wave it starts.\<close>

definition stairs_set :: "settings \<Rightarrow> bool \<Rightarrow> u64 \<Rightarrow> stairway_leds \<Rightarrow> bool" where
  "stairs_set s on t l \<longleftrightarrow> leds_inv l \<and>
     (\<forall>x < unat (led_count s). led_on (leds_buf l ! x) = on \<and> t \<le> led_ts (leds_buf l ! x))"

definition quiet_leds :: "settings \<Rightarrow> u64 \<Rightarrow> stairway_leds \<Rightarrow> bool" where
  "quiet_leds s t l \<longleftrightarrow> leds_inv l \<and> ws_led_count (ws2812_handler l) = led_count s \<and>
     (\<forall>x < unat (led_count s). led_ts (leds_buf l ! x) < t)"

lemma started_sweeps:
  assumes "settings_valid s" and "last_test_mode k = b" and "quiet_leds s u l" and "u \<le> t"
    and "count_pass (turn_env x) (turn_ts x) (other_parts x k, read_times (turn_reads x) c) = (k1, c1)"
    and "tick_frame (other_parts x k) k1"
    and "only_wave on i \<lparr>wave_run = True, wave_ts = t, wave_cnt = 0\<rparr> k1" and "watching i D q k1"
    and "D \<subseteq> {DETECTOR_STATE_INC, DETECTOR_STATE_DEC} \<or>
         D = {DETECTOR_STATE_IDLE} \<and> (\<forall>x \<in> set xs. seen (turn_env x) i = (False, False))"
    and "\<forall>x \<in> set (x # xs). good_turn s b x" and "walks_off i (map turn_env xs)"
    and "unat (led_count s) < ticks s (prev_ts k) (map turn_ts (x # xs))"
  shows "\<exists>m \<le> Suc (length xs). \<exists>k' l' c'. controller_run (take m (x # xs)) (k, l, c) = Some (k', l', c') \<and>
     all_stopped k' \<and> stairs_set s on u l' \<and> people_count (status k') = q \<and>
     (\<forall>r \<in> {1..m}. sweeping s on i t 0 (k, l, c) (x # xs) r)"
proof -
  let ?n = "unat (led_count s)" and ?due = "tick_due s (prev_ts k) (turn_ts x)"
  have e: "good_env s (turn_env x)" "turn_test x = b" and xs: "\<forall>x \<in> set xs. good_turn s b x"
    using assms(10) by (simp_all add: good_turn_def)
  have frame: "last_test_mode k1 = test_mode (status k1)" "prev_ts k1 = prev_ts k" "last_test_mode k1 = b"
    using assms(2,6) e(2) by (simp_all add: tick_frame_def)
  have old: "led_ts (leds_buf l ! x) < t" if "x < ?n" for x
    using assms(3) that order_less_le_trans [OF _ assms(4)] by (simp add: quiet_leds_def)
  have "led_index s up x < ?n" if "x < ?n" for up x using that by (simp add: led_index_def)
  then have "swept s on (downwards on i) t 0 l"
    using assms(3) old by (simp add: swept_def quiet_leds_def Let_def)
  then have "wave_stage s on i t 0 k1 l" using assms(7) by (simp add: wave_stage_def)
  from stage_rest [OF assms(5) e(1) assms(1) frame(1) this]
  obtain level k2 l2 c2 j where pass: "controller_pass (turn_env x) (turn_ts x)
        (other_parts x k, l, read_times (turn_reads x) c) = Some (level, k2, l2, c2)"
      and r: "controller_run (take 1 (x # xs)) (k, l, c) = Some (k2, l2, c2)"
      "controller_run (x # ys) (k, l, c) = controller_run ys (k2, l2, c2)"
      "status k2 = status k1" "last_test_mode k2 = b" "prev_ts k2 = (if ?due then turn_ts x else prev_ts k)"
      "wave_stage s on i t j k2 l2" "j \<le> Suc ?n" "if ?due then 0 < j \<and> (on \<or> j = Suc 0) else j = 0" for ys
    using frame(2,3) by auto
  have next_turn: "sweeping s on i t 0 (k, l, c) (x # xs) (Suc r)" if "sweeping s on i t j (k2, l2, c2) xs r" for r
    by (rule sweeping_Suc [OF that pass r(5,8)])
  have finish: "all_stopped k' \<and> stairs_set s on u l'" if "wave_stage s on i t (Suc ?n) k' l'" for k' l'
    using stage_complete [OF that] that assms(4) by (auto simp: stairs_set_def wave_stage_def swept_def)
  have w2: "watching i D q k2" using watching_status [OF r(3)] assms(8) by blast
  show ?thesis
  proof (cases "j = Suc ?n")
    case True
    then show ?thesis
      using finish r(1,6) w2 next_turn [OF sweeping_0 [OF r(6)]] by (intro exI [of _ 1]) (auto simp: watching_def)
  next
    case False
    have j: "j \<le> ?n" using False r(7) by simp
    have more: "?n < j + ticks s (prev_ts k2) (map turn_ts xs)"
      using assms(12) r(5,8) by (auto split: if_splits)
    obtain m k' l' c' where m: "m \<le> length xs" "controller_run (take m xs) (k2, l2, c2) = Some (k', l', c')"
        "wave_stage s on i t (Suc ?n) k' l'" "watching i (insert DETECTOR_STATE_IDLE D) q k'"
        "\<forall>r \<le> m. sweeping s on i t j (k2, l2, c2) xs r"
      using sweep_run [OF assms(1) r(4,6) j w2 assms(9) xs assms(11) more, of c2] by blast
    have "controller_run (take (Suc m) (x # xs)) (k, l, c) = Some (k', l', c')" using r(2) m(2) by simp
    moreover have "people_count (status k') = q" using m(4) by (simp add: watching_def)
    moreover have "sweeping s on i t 0 (k, l, c) (x # xs) r" if "r \<in> {1..Suc m}" for r
      using next_turn m(5) that by (cases r) auto
    ultimately show ?thesis using finish [OF m(3)] m(1) by (intro exI [of _ "Suc m"]) auto
  qed
qed

lemma passage_sweeps:
  assumes "settings_valid s" and "all_stopped k" and "last_test_mode k = b"
    and "watching i {locked way_in} p k" and "if way_in then 0 \<le> p else p = 1"
    and "clock_forward c" and "quiet_leds s (total_ms c) l"
    and "\<forall>x \<in> set (x # xs). good_turn s b x" and "seen (turn_env x) i = (True, True)"
    and "seen (turn_env x) (other i) = (False, False)" and "walks_off i (map turn_env xs)"
    and "unat (led_count s) < ticks s (prev_ts k) (map turn_ts (x # xs))"
  shows "\<exists>m \<le> Suc (length xs). \<exists>k' l' c'. controller_run (take m (x # xs)) (k, l, c) = Some (k', l', c') \<and>
     all_stopped k' \<and> stairs_set s way_in (total_ms c) l' \<and>
     people_count (status k') = count_after p (if way_in then 1 else - 1)"
proof -
  let ?k = "other_parts x k" and ?c = "read_times (turn_reads x) c"
  have n: "0 < led_count s" using assms(1) by (simp add: settings_valid_iff)
  have e: "good_env s (turn_env x)" using assms(8) by (simp add: good_turn_def)
  have k: "all_stopped ?k" "watching i {locked way_in} p ?k" using assms(2,4) by simp_all
  obtain k1 c1 ct where k1: "count_pass (turn_env x) (turn_ts x) (?k, ?c) = (k1, c1)" "later ?c ct" "tick_frame ?k k1"
      "only_wave way_in i \<lparr>wave_run = True, wave_ts = fst (get_time_ms ct), wave_cnt = 0\<rparr> k1"
      "watching i {counted way_in} (count_after p (if way_in then 1 else - 1)) k1"
    using counting_pass [OF e k(2) assms(10,9) k(1) n assms(5), of "turn_ts x" ?c] by blast
  have "later c ct" using later_trans [OF later_reads k1(2)] .
  then have t: "total_ms c \<le> fst (get_time_ms ct)"
    using later_forward(2) [OF assms(6) later_step] by (simp add: fst_get_time_ms)
  have "{counted way_in} \<subseteq> {DETECTOR_STATE_INC, DETECTOR_STATE_DEC}" by (simp add: counted_def)
  from started_sweeps [OF assms(1,3,7) t k1(1,3,4,5) disjI1 [OF this] assms(8,11,12)]
  show ?thesis by blast
qed

section \<open>A person comes\<close>

lemma quiet_same: "quiet_leds s t l \<Longrightarrow> same_leds l l' \<Longrightarrow> quiet_leds s t l'"
  unfolding quiet_leds_def same_leds_def by auto

lemma quiet_mono: "quiet_leds s t l \<Longrightarrow> t \<le> t' \<Longrightarrow> quiet_leds s t' l"
  unfolding quiet_leds_def by (auto intro: order_less_le_trans)

lemma stopped_events:
  assumes "0 < led_count s" and "all_stopped k"
  shows "tick_events s k = []" and "snd (tick_of s on i (the_wave on i k)) = the_wave on i k"
  using assms(2) stopped_tick [OF assms(1)] by (simp_all add: tick_events_def all_waves_def all_stopped_def)

text \<open>Passes in which a person stands at one sensor of a detector, while nothing runs and nobody is inside.\<close>

lemma coming_step:
  fixes ts :: u64
  assumes "settings_valid s" and "all_stopped k" and "last_test_mode k = test_mode (status k)"
    and "watching i {DETECTOR_STATE_IDLE, locked way_in} p k" and "p \<le> 0" and "quiet_leds s t l"
    and "good_env s e" and "seen e i = (way_in, \<not> way_in)" and "seen e (other i) = (False, False)"
  shows "\<exists>level k' l' c'. controller_pass e ts (k, l, c) = Some (level, k', l', c') \<and> later c c' \<and>
     all_stopped k' \<and> last_test_mode k' = last_test_mode k \<and> watching i {locked way_in} p k' \<and>
     quiet_leds s t l' \<and> prev_ts k' = (if tick_due s (prev_ts k) ts then ts else prev_ts k)"
proof -
  have n: "0 < led_count s" using assms(1) by (simp add: settings_valid_iff)
  obtain k1 c1 where k1: "count_pass e ts (k, c) = (k1, c1)" "later c c1" "tick_frame k k1"
      "\<forall>on i. the_wave on i k1 = the_wave on i k" "watching i {locked way_in} p k1"
    using coming_pass [OF assms(7,4,9,8), of ts c] assms(5) by blast
  have frame: "last_test_mode k1 = test_mode (status k1)" "prev_ts k1 = prev_ts k" "last_test_mode k1 = last_test_mode k"
    using k1(3) assms(3) by (simp_all add: tick_frame_def)
  have stop: "all_stopped k1" using assms(2) k1(4) by (simp add: all_stopped_def)
  have e: "env_settings e = s" "env_buf_ok e" "env_mem_ok e" using assms(7) by (simp_all add: good_env_def)
  have l: "leds_inv l" "ws_led_count (ws2812_handler l) = led_count s" using assms(6) by (simp_all add: quiet_leds_def)
  obtain level k' l' c' l0 l1 where r: "controller_pass e ts (k, l, c) = Some (level, k', l', c')" "later c1 c'"
      and k': "status k' = status k1" "last_test_mode k' = last_test_mode k1"
      "prev_ts k' = (if tick_due s (prev_ts k1) ts then ts else prev_ts k1)"
      "\<forall>on i. the_wave on i k' = (if tick_due s (prev_ts k1) ts then snd (tick_of s on i (the_wave on i k1))
         else the_wave on i k1)"
      and l': "same_leds l l0" "set_states (if tick_due s (prev_ts k1) ts then tick_events s k1 else []) l0 = Some l1"
      "same_leds l1 l'"
    using rest_of_pass [OF k1(1) e assms(1) l frame(1)] by blast
  have "all_stopped k'" using stop k'(4) by (simp add: all_stopped_def stopped_events(2) [OF n stop])
  moreover have "watching i {locked way_in} p k'" using watching_status [OF k'(1)] k1(5) by blast
  moreover have "l1 = l0" using l'(2) by (simp add: stopped_events(1) [OF n stop] split: if_splits)
  then have "quiet_leds s t l'" using quiet_same [OF quiet_same [OF assms(6) l'(1)]] l'(3) by simp
  ultimately show ?thesis
    using r later_trans [OF k1(2) r(2)] k'(1-3) frame by auto
qed

lemma coming_run:
  assumes "settings_valid s" and "p \<le> 0"
  shows "all_stopped k \<Longrightarrow> last_test_mode k = b \<Longrightarrow>
     watching i {DETECTOR_STATE_IDLE, locked way_in} p k \<Longrightarrow> quiet_leds s t l \<Longrightarrow>
     \<forall>x \<in> set xs. good_turn s b x \<Longrightarrow>
     \<forall>x \<in> set xs. seen (turn_env x) i = (way_in, \<not> way_in) \<and> seen (turn_env x) (other i) = (False, False) \<Longrightarrow>
     \<exists>k' l' c'. controller_run xs (k, l, c) = Some (k', l', c') \<and> later c c' \<and> all_stopped k' \<and>
       last_test_mode k' = b \<and>
       watching i (if xs = [] then {DETECTOR_STATE_IDLE, locked way_in} else {locked way_in}) p k' \<and>
       quiet_leds s t l' \<and>
       (\<forall>tss. ticks s (prev_ts k) (map turn_ts xs @ tss) =
          ticks s (prev_ts k) (map turn_ts xs) + ticks s (prev_ts k') tss)"
proof (induction xs arbitrary: k l c)
  case Nil
  then show ?case by simp
next
  case (Cons x xs)
  let ?e = "turn_env x" and ?k = "other_parts x k" and ?c = "read_times (turn_reads x) c"
  have e: "good_env s ?e" "turn_test x = b" "seen ?e i = (way_in, \<not> way_in)" "seen ?e (other i) = (False, False)"
    using Cons.prems(5,6) by (simp_all add: good_turn_def)
  have k: "all_stopped ?k" "last_test_mode ?k = test_mode (status ?k)"
      "watching i {DETECTOR_STATE_IDLE, locked way_in} p ?k"
    using Cons.prems(1-3) e(2) by simp_all
  obtain level k1 l1 c1 where r: "controller_pass ?e (turn_ts x) (?k, l, ?c) = Some (level, k1, l1, c1)" "later ?c c1"
      "all_stopped k1" "last_test_mode k1 = b" "watching i {locked way_in} p k1"
      "quiet_leds s t l1" "prev_ts k1 = (if tick_due s (prev_ts k) (turn_ts x) then turn_ts x else prev_ts k)"
    using coming_step [OF assms(1) k assms(2) Cons.prems(4) e(1,3,4), of "turn_ts x" ?c] Cons.prems(2)
    unfolding other_parts_frame by blast
  have w1: "watching i {DETECTOR_STATE_IDLE, locked way_in} p k1" using r(5) by (auto intro: watching_mono)
  obtain k' l' c' where r': "controller_run xs (k1, l1, c1) = Some (k', l', c')" "later c1 c'" "all_stopped k'"
      "last_test_mode k' = b"
      "watching i (if xs = [] then {DETECTOR_STATE_IDLE, locked way_in} else {locked way_in}) p k'" "quiet_leds s t l'"
      "\<forall>tss. ticks s (prev_ts k1) (map turn_ts xs @ tss) = ticks s (prev_ts k1) (map turn_ts xs) + ticks s (prev_ts k') tss"
    using Cons.IH [OF r(3,4) w1 r(6), of c1] Cons.prems(5,6) by auto
  have "watching i {locked way_in} p k'"
    using r'(1,5) r(5) by (cases "xs = []") auto
  moreover have "\<forall>tss. ticks s (prev_ts k) (map turn_ts (x # xs) @ tss) =
      ticks s (prev_ts k) (map turn_ts (x # xs)) + ticks s (prev_ts k') tss"
    using r(7) r'(7) by (cases "tick_due s (prev_ts k) (turn_ts x)") simp_all
  moreover have "later c c'" using later_trans [OF later_trans [OF later_reads r(2)] r'(2)] .
  ultimately show ?case
    using r(1) r' by (intro exI [of _ k'] exI [of _ l'] exI [of _ c']) simp
qed

section \<open>Everybody has left\<close>

text \<open>Nobody has been counted for longer than the timeout: a wave that switches off begins.\<close>

lemma longer_wait: "(a :: u64) \<le> t \<Longrightarrow> t \<le> t' \<Longrightarrow> w < t - a \<Longrightarrow> w < t' - a"
  by (simp add: word_less_nat_alt word_le_nat_alt unat_sub)

lemma timeout_pass:
  fixes i :: detector_type
  assumes "good_env s e" and "watching i {DETECTOR_STATE_IDLE} p k" and "0 < p"
    and "seen e i = (False, False)" and "seen e (other i) = (False, False)"
    and "all_stopped k" and "i = other (last_det k)" and "clock_forward c"
    and "people_ts (status k) \<le> total_ms c"
    and "ucast (leds_off_timeout s) < total_ms c - people_ts (status k)"
  shows "\<exists>k' c' t. count_pass e ts (k, c) = (k', c') \<and> total_ms c \<le> t \<and> tick_frame k k' \<and>
     only_wave False i \<lparr>wave_run = True, wave_ts = t, wave_cnt = 0\<rparr> k' \<and>
     watching i {DETECTOR_STATE_IDLE} 0 k'"
proof -
  obtain k1 st c1 st2 c2 where k1: "tick_frame k k1" "\<forall>on i. the_wave on i k1 = the_wave on i k" "later c c2"
      "last_det k1 = last_det k"
      and st: "detector st = detector (status k)" "people_count st = p" "people_ts st = people_ts (status k)"
      "current (sensor_state st (sens_first i)) = fst (seen e i)"
      "current (sensor_state st (sens_second i)) = snd (seen e i)"
      and sw: "detector_switch s i (st, c1) = (st2, c2)"
      and st2: "det_state (detector st2 (other i)) = DETECTOR_STATE_IDLE" "prev_people_count st2 = p"
      "test_mode st2 = test_mode (status k)"
      and run: "count_pass e ts (k, c) = leave_timeout s (count_events s (k1\<lparr>status := st2\<rparr>, c2))"
    using count_pass_switch [OF assms(1,2,5), of c ts] by blast
  have idle: "det_state (detector st i) = DETECTOR_STATE_IDLE" using assms(2) st(1) by (simp add: watching_def)
  then have "detector_switch s i (st, c1) = (st, c1)"
    using st(4,5) assms(4) by (intro detector_switch_nobody) simp_all
  then have st': "st2 = st" using sw by simp
  let ?k1 = "k1\<lparr>status := st2\<rparr>" and ?c3 = "snd (get_time_ms c2)"
  have "all_stopped ?k1" using assms(6) k1(2) by (simp add: four_waves)
  then have stop: "\<not> wave_run (led_on_up k1)" "\<not> wave_run (led_on_down k1)" "\<not> wave_run (led_off_up k1)"
      "\<not> wave_run (led_off_down k1)" "only_wave False i (the_wave False i ?k1) ?k1" "wave_cnt (the_wave False i k1) = 0"
    using assms(6) k1(2) by (cases i; simp add: four_waves)+
  have t: "total_ms c \<le> fst (get_time_ms c2)" "total_ms c \<le> fst (get_time_ms ?c3)"
    using later_forward(2) [OF assms(8) later_step [OF k1(3)]]
      later_forward(2) [OF assms(8) later_step [OF later_step [OF k1(3)]]] by (simp_all add: fst_get_time_ms)
  have late: "ucast (leds_off_timeout s) < fst (get_time_ms c2) - people_ts st2"
    unfolding st' st(3) by (rule longer_wait [OF assms(9) t(1) assms(10)])
  have "count_events s (?k1, c2) = (?k1, c2)"
    using st' st(2) st2(2) by (intro count_events_none) simp
  then obtain k' where k': "count_pass e ts (k, c) = (k', snd (get_time_ms ?c3))"
      "only_wave False i \<lparr>wave_run = True, wave_ts = fst (get_time_ms ?c3), wave_cnt = 0\<rparr> k'"
      "status k' = st2\<lparr>prev_people_count := 0, people_count := 0\<rparr>" "tick_frame ?k1 k'"
    using run late stop st' st(2) assms(3,7) k1(4)
    by (cases "last_det k")
      (simp_all add: leave_timeout_def split_beta four_waves tick_frame_def)
  have "tick_frame k k'" using k1(1) k'(4) st2(3) by (simp add: tick_frame_def)
  moreover have "watching i {DETECTOR_STATE_IDLE} 0 k'"
    using k'(3) idle st' st2(1) by (simp add: watching_def)
  ultimately show ?thesis using k'(1,2) t(2) by blast
qed

lemma timeout_sweeps:
  assumes "settings_valid s" and "all_stopped k" and "last_test_mode k = b"
    and "watching i {DETECTOR_STATE_IDLE} p k" and "0 < p" and "i = other (last_det k)"
    and "clock_forward c" and "people_ts (status k) \<le> total_ms c"
    and "ucast (leds_off_timeout s) < total_ms c - people_ts (status k)" and "quiet_leds s (total_ms c) l"
    and "\<forall>x \<in> set (x # xs). good_turn s b x \<and> seen (turn_env x) i = (False, False) \<and>
           seen (turn_env x) (other i) = (False, False)"
    and "unat (led_count s) < ticks s (prev_ts k) (map turn_ts (x # xs))"
  shows "\<exists>m \<le> Suc (length xs). \<exists>k' l' c'. controller_run (take m (x # xs)) (k, l, c) = Some (k', l', c') \<and>
     all_stopped k' \<and> stairs_set s False (total_ms c) l' \<and> people_count (status k') = 0 \<and>
     (\<exists>t \<ge> total_ms c. \<forall>r \<in> {1..m}. sweeping s False i t 0 (k, l, c) (x # xs) r)"
proof -
  let ?k = "other_parts x k" and ?c = "read_times (turn_reads x) c"
  have e: "good_env s (turn_env x)" "seen (turn_env x) i = (False, False)" "seen (turn_env x) (other i) = (False, False)"
    using assms(11) by (simp_all add: good_turn_def)
  have k: "watching i {DETECTOR_STATE_IDLE} p ?k" "all_stopped ?k" "i = other (last_det ?k)"
    using assms(2,4,6) by simp_all
  have c: "clock_forward ?c" "total_ms c \<le> total_ms ?c" using later_forward [OF assms(7) later_reads] by simp_all
  have past: "people_ts (status ?k) \<le> total_ms ?c" "ucast (leds_off_timeout s) < total_ms ?c - people_ts (status ?k)"
    using order_trans [OF assms(8) c(2)] longer_wait [OF assms(8) c(2) assms(9)] by simp_all
  obtain k1 c1 t where k1: "count_pass (turn_env x) (turn_ts x) (?k, ?c) = (k1, c1)" "total_ms ?c \<le> t" "tick_frame ?k k1"
      "only_wave False i \<lparr>wave_run = True, wave_ts = t, wave_cnt = 0\<rparr> k1" "watching i {DETECTOR_STATE_IDLE} 0 k1"
    using timeout_pass [OF e(1) k(1) assms(5) e(2,3) k(2,3) c(1) past, of "turn_ts x"] by blast
  have env: "\<forall>x \<in> set (x # xs). good_turn s b x" using assms(11) by blast
  have off: "walks_off i (map turn_env xs)" using assms(11) by (intro walks_off_nobody) auto
  have idle: "{DETECTOR_STATE_IDLE} = {DETECTOR_STATE_IDLE} \<and> (\<forall>x \<in> set xs. seen (turn_env x) i = (False, False))"
    using assms(11) by simp
  note t = order_trans [OF c(2) k1(2)]
  obtain m k' l' c' where m: "m \<le> Suc (length xs)" "controller_run (take m (x # xs)) (k, l, c) = Some (k', l', c')"
      "all_stopped k' \<and> stairs_set s False (total_ms c) l' \<and> people_count (status k') = 0"
      "\<forall>r \<in> {1..m}. sweeping s False i t 0 (k, l, c) (x # xs) r"
    using started_sweeps [OF assms(1,3,10) t k1(1,3,4,5) disjI2 [OF idle] env off assms(12)] by blast
  show ?thesis
    by (intro exI [of _ m] conjI exI [of _ k'] exI [of _ l'] exI [of _ c'] exI [of _ t] t m(1,2,4)
      m(3) [THEN conjunct1] m(3) [THEN conjunct2, THEN conjunct1] m(3) [THEN conjunct2, THEN conjunct2])
qed

section \<open>Arrival, departure and timeout, from the sensors to the lights\<close>

text \<open>
  The controller between two persons: no wave runs, and no LED carries a time that the clock has
  not reached.
\<close>

definition at_rest :: "settings \<Rightarrow> controller \<times> stairway_leds \<times> clock \<Rightarrow> bool" where
  "at_rest s = (\<lambda>(k, l, c). all_stopped k \<and> clock_forward c \<and> quiet_leds s (total_ms c) l)"

lemma arrival_run:
  assumes "settings_valid s" and "at_rest s (k, l, c)" and "watching i {DETECTOR_STATE_IDLE} 0 k"
    and "\<forall>x \<in> set (coming @ y # leaving). good_turn s (last_test_mode k) x"
    and "coming \<noteq> []"
    and "\<forall>x \<in> set coming. seen (turn_env x) i = (True, False) \<and> seen (turn_env x) (other i) = (False, False)"
    and "seen (turn_env y) i = (True, True)" and "seen (turn_env y) (other i) = (False, False)"
    and "walks_off i (map turn_env leaving)"
    and "ticks s (prev_ts k) (map turn_ts coming) + unat (led_count s)
         < ticks s (prev_ts k) (map turn_ts (coming @ y # leaving))"
  shows "\<exists>m k' l' c'. m \<le> length (coming @ y # leaving) \<and>
     controller_run (take m (coming @ y # leaving)) (k, l, c) = Some (k', l', c') \<and> all_stopped k' \<and>
     stairs_set s True (total_ms c) l' \<and> people_count (status k') = 1"
proof -
  let ?b = "last_test_mode k"
  have rest: "all_stopped k" "clock_forward c" "quiet_leds s (total_ms c) l"
    using assms(2) by (simp_all add: at_rest_def)
  have w: "watching i {DETECTOR_STATE_IDLE, locked True} 0 k" using assms(3) by (auto intro: watching_mono)
  have see: "\<forall>x \<in> set coming. seen (turn_env x) i = (True, \<not> True) \<and> seen (turn_env x) (other i) = (False, False)"
    using assms(6) by simp
  have env: "\<forall>x \<in> set coming. good_turn s ?b x" "\<forall>x \<in> set (y # leaving). good_turn s ?b x" using assms(4) by simp_all
  obtain k1 l1 c1 where r: "controller_run coming (k, l, c) = Some (k1, l1, c1)" "later c c1" "all_stopped k1"
      "last_test_mode k1 = ?b" "watching i {locked True} 0 k1" "quiet_leds s (total_ms c) l1"
      "\<forall>tss. ticks s (prev_ts k) (map turn_ts coming @ tss) =
         ticks s (prev_ts k) (map turn_ts coming) + ticks s (prev_ts k1) tss"
    using coming_run [OF assms(1) order_refl rest(1) refl w rest(3) env(1) see, of c] assms(5) by auto
  have c1: "clock_forward c1" "total_ms c \<le> total_ms c1" using later_forward [OF rest(2) r(2)] by simp_all
  have more: "unat (led_count s) < ticks s (prev_ts k1) (map turn_ts (y # leaving))"
    using assms(10) r(7) by simp
  obtain m k' l' c' where m: "m \<le> Suc (length leaving)"
      "controller_run (take m (y # leaving)) (k1, l1, c1) = Some (k', l', c')" "all_stopped k'"
      "stairs_set s True (total_ms c1) l'" "people_count (status k') = 1"
    using passage_sweeps [OF assms(1) r(3,4,5) _ c1(1) quiet_mono [OF r(6) c1(2)] env(2) assms(7,8,9) more]
    by (auto simp: count_after_def)
  have "controller_run (take (length coming + m) (coming @ y # leaving)) (k, l, c) = Some (k', l', c')"
    using r(1) m(2) by (simp add: controller_run_append)
  moreover have "stairs_set s True (total_ms c) l'"
    using m(4) order_trans [OF c1(2)] by (simp add: stairs_set_def)
  ultimately show ?thesis using m(1,3,5) by (intro exI [of _ "length coming + m"]) auto
qed

text \<open>
  C2: a person who enters lights the whole stairs. At night, with working sensors, the controller
  at rest and nobody counted, a person comes to the first sensor of a detector for any number of
  passes, stands before both sensors in a pass, and walks on, in front of the detector for as long
  as may be. When, from the pass that counts on, more ticks have been due than there are LEDs, the
  wave has ended, every LED is switched on with a time not before the start, and one person is
  counted. No pass on the way fails.
\<close>

theorem arrival_lights_stairs:
  assumes "settings_valid s" and "at_rest s (k, l, c)" and "watching i {DETECTOR_STATE_IDLE} 0 k"
    and "\<forall>x \<in> set (coming @ y # leaving). good_turn s (last_test_mode k) x"
    and "coming \<noteq> []"
    and "\<forall>x \<in> set coming. seen (turn_env x) i = (True, False) \<and> seen (turn_env x) (other i) = (False, False)"
    and "seen (turn_env y) i = (True, True)" and "seen (turn_env y) (other i) = (False, False)"
    and "walks_off i (map turn_env leaving)"
    and "ticks s (prev_ts k) (map turn_ts coming) + unat (led_count s)
         < ticks s (prev_ts k) (map turn_ts (coming @ y # leaving))"
  shows "\<exists>m k' l' c'. m \<le> length (coming @ y # leaving) \<and>
     controller_run (take m (coming @ y # leaving)) (k, l, c) = Some (k', l', c') \<and> all_stopped k' \<and>
     stairs_set s True (total_ms c) l' \<and> people_count (status k') = 1"
  by (rule arrival_run [OF assms])

text \<open>A pass at the time \<open>m\<close> seconds with default settings, in which one detector sees \<open>a\<close> and \<open>b\<close>.\<close>

definition pass_at :: "detector_type \<Rightarrow> bool \<Rightarrow> bool \<Rightarrow> nat \<Rightarrow> turn" where
  "pass_at i a b m =
     \<lparr>turn_env = \<lparr>env_settings = default_settings, env_light = (False, 900),
        env_sens = sensors_get_zero\<lparr>sens_state := (\<lambda>x. x = sens_first i \<and> a \<or> x = sens_second i \<and> b)\<rparr>,
        env_buf_ok = True, env_mem_ok = True, env_ap = True\<rparr>,
      turn_ts = of_nat (1000 * m), turn_reads = 3, turn_test = False, turn_reboot = 0,
      turn_button = (of_nat (1000 * m), 0, False)\<rparr>"

definition still_clock :: "u32 \<Rightarrow> clock" where
  "still_clock t = snd (get_time_ms (clock_init (\<lambda>_. t)))"

lemma pass_at_good [simp]: "good_turn default_settings False (pass_at i a b m)"
  by (simp add: good_turn_def good_env_def pass_at_def sensors_get_zero_def)

lemma pass_at_seen [simp]:
  "seen (turn_env (pass_at i a b m)) i = (a, b)" "seen (turn_env (pass_at i a b m)) (other i) = (False, False)"
  by (cases i; simp add: seen_def pass_at_def)+

lemma still_clock_forward: "clock_forward (still_clock t)"
proof (rule later_forward(1) [of "clock_init (\<lambda>_. t)"])
  show "clock_forward (clock_init (\<lambda>_. t))"
  proof (rule clock_forward_boot [of "\<lambda>_. unat t"])
    show "boot_clock (\<lambda>_. unat t) (\<lambda>_. t)"
      using unsigned_less [of t, where ?'a = nat] by (simp add: boot_clock_def)
    show "\<forall>n::nat. unat t < 2 ^ 64" using unsigned_less [of t, where ?'a = nat] by simp
  qed
qed (simp add: still_clock_def)

lemma still_clock_total: "total_ms (still_clock t) = ucast t"
  by (simp add: still_clock_def get_time_ms_def clock_init_def Let_def)

text \<open>Passes a second apart are all ticks.\<close>

lemma pass_at_tick: "tick_due default_settings (of_nat (1000 * a)) (of_nat (1000 * Suc a))"
  by (simp add: tick_due_def default_settings_def)

lemma pass_at_ticks:
  "ticks default_settings (of_nat (1000 * a)) (map (\<lambda>m. of_nat (1000 * m)) [Suc a..<Suc (a + n)]) = n"
proof (induction n arbitrary: a)
  case (Suc n)
  have "[Suc a..<Suc (a + Suc n)] = Suc a # [Suc (Suc a)..<Suc (Suc a + n)]"
    by (subst upt_conv_Cons) simp_all
  then show ?case
    using Suc.IH [of "Suc a"] pass_at_tick [of a] by (simp only: list.map ticks.simps if_True)
qed simp

lemma pass_at_times: "map turn_ts (map (pass_at i a b) ms) = map (\<lambda>m. of_nat (1000 * m)) ms"
  by (simp add: pass_at_def)

lemma at_rest_start:
  assumes "led_ts (leds_buf l ! 0) < 9" and "9 \<le> t" and "\<forall>x < 18. leds_buf l ! x = leds_buf l ! 0" and "leds_inv l"
    and "ws_led_count (ws2812_handler l) = 18" and "all_stopped k"
  shows "at_rest default_settings (k, l, still_clock t)"
proof -
  have "(9 :: u64) \<le> ucast t"
    using assms(2) unsigned_less [of t, where ?'a = nat] by (simp add: word_le_nat_alt unsigned_ucast_eq take_bit_nat_eq_self)
  then have "led_ts (leds_buf l ! x) < ucast t" if "x < 18" for x
    using assms(1,3) that order_less_le_trans by (metis (no_types))
  then show ?thesis
    using assms(4-6) still_clock_forward
    by (simp add: at_rest_def quiet_leds_def still_clock_total default_settings_def)
qed

lemma dark_leds_old0: "led_ts (leds_buf (dark_leds 18) ! 0) < 9" "\<forall>x < 18. leds_buf (dark_leds 18) ! x = leds_buf (dark_leds 18) ! 0"
  by (simp_all add: leds_buf_def dark_leds_def led_zero_def)

lemma dark_leds_count: "ws_led_count (ws2812_handler (dark_leds n)) = n"
  by (simp add: dark_leds_def)

lemma all_stopped_start: "all_stopped k" if
  "led_on_up k = wave_start" "led_on_down k = wave_start" "led_off_up k = wave_start" "led_off_down k = wave_start"
  using that by (simp add: four_waves wave_start_def)

lemma leds_18: "unat (led_count default_settings) = 18"
  by (simp add: default_settings_def)

definition arrival_passes :: "turn list" where
  "arrival_passes = map (pass_at DETECTOR_TYPE_UP True False) [1..<3] @
     pass_at DETECTOR_TYPE_UP True True 3 # map (pass_at DETECTOR_TYPE_UP False False) [4..<30]"

lemma arrival_passes_facts:
  defines "come \<equiv> map (pass_at DETECTOR_TYPE_UP True False) [1..<3]" and "y \<equiv> pass_at DETECTOR_TYPE_UP True True 3"
    and "go \<equiv> map (pass_at DETECTOR_TYPE_UP False False) [4..<30]"
  shows "at_rest default_settings (controller_start, dark_leds 18, still_clock 9)"
    and "watching DETECTOR_TYPE_UP {DETECTOR_STATE_IDLE} 0 controller_start"
    and "\<forall>x \<in> set (come @ y # go). good_turn default_settings (last_test_mode controller_start) x"
    and "come \<noteq> []"
    and "\<forall>x \<in> set come. seen (turn_env x) DETECTOR_TYPE_UP = (True, False) \<and>
      seen (turn_env x) (other DETECTOR_TYPE_UP) = (False, False)"
    and "seen (turn_env y) DETECTOR_TYPE_UP = (True, True)"
    and "seen (turn_env y) (other DETECTOR_TYPE_UP) = (False, False)"
    and "walks_off DETECTOR_TYPE_UP (map turn_env go)"
    and "ticks default_settings (prev_ts controller_start) (map turn_ts come) + unat (led_count default_settings)
      < ticks default_settings (prev_ts controller_start) (map turn_ts (come @ y # go))"
proof -
  show "at_rest default_settings (controller_start, dark_leds 18, still_clock 9)"
    by (rule at_rest_start [OF dark_leds_old0(1) _ dark_leds_old0(2)])
      (simp_all add: dark_leds_count all_stopped_start controller_start_def status_start_def)
  show "watching DETECTOR_TYPE_UP {DETECTOR_STATE_IDLE} 0 controller_start"
    by (simp add: watching_def controller_start_def status_start_def)
  show "walks_off DETECTOR_TYPE_UP (map turn_env go)"
    unfolding go_def by (rule walks_off_nobody) (simp del: other.simps)
  have prev: "prev_ts controller_start = of_nat (1000 * 0)" by (simp add: controller_start_def)
  have times: "map turn_ts come = map (\<lambda>m. of_nat (1000 * m)) [Suc 0..<Suc (0 + 2)]"
      "map turn_ts (come @ y # go) = map (\<lambda>m. of_nat (1000 * m)) [Suc 0..<Suc (0 + 29)]"
    by (simp_all add: come_def y_def go_def pass_at_def upt_rec)
  show "ticks default_settings (prev_ts controller_start) (map turn_ts come) + unat (led_count default_settings)
      < ticks default_settings (prev_ts controller_start) (map turn_ts (come @ y # go))"
    unfolding prev times pass_at_ticks leds_18 by simp
qed (simp_all add: come_def y_def go_def controller_start_def del: other.simps)

lemma arrival_lights_stairs_witness:
  "\<exists>m k' l' c'. controller_run (take m arrival_passes) (controller_start, dark_leds 18, still_clock 9) =
     Some (k', l', c') \<and> people_count (status k') = 1 \<and> led_on (leds_buf l' ! 0) \<and> led_on (leds_buf l' ! 17)"
proof -
  from arrival_lights_stairs [OF default_settings_valid arrival_passes_facts, folded arrival_passes_def]
  obtain m k' l' c' where "controller_run (take m arrival_passes) (controller_start, dark_leds 18, still_clock 9) =
      Some (k', l', c')" "stairs_set default_settings True (total_ms (still_clock 9)) l'" "people_count (status k') = 1"
    by blast
  moreover from this have "led_on (leds_buf l' ! 0)" "led_on (leds_buf l' ! 17)"
    by (simp_all add: stairs_set_def leds_18)
  ultimately show ?thesis by blast
qed

lemma departure_run:
  assumes "settings_valid s" and "at_rest s (k, l, c)" and "watching i {DETECTOR_STATE_SECOND_LOCK} 1 k"
    and "\<forall>x \<in> set (y # leaving). good_turn s (last_test_mode k) x"
    and "seen (turn_env y) i = (True, True)" and "seen (turn_env y) (other i) = (False, False)"
    and "walks_off i (map turn_env leaving)"
    and "unat (led_count s) < ticks s (prev_ts k) (map turn_ts (y # leaving))"
  shows "\<exists>m k' l' c'. m \<le> length (y # leaving) \<and>
     controller_run (take m (y # leaving)) (k, l, c) = Some (k', l', c') \<and> all_stopped k' \<and>
     stairs_set s False (total_ms c) l' \<and> people_count (status k') = 0"
proof -
  have "watching i {locked False} 1 k" using assms(3) by (simp add: locked_def)
  then show ?thesis
    using passage_sweeps [of s k "last_test_mode k" i False 1 c l y leaving] assms
    by (simp add: at_rest_def count_after_def)
qed

text \<open>
  C3: the last person who leaves darkens the whole stairs. One person is counted, a person stands
  at the second sensor of a detector and the controller is at rest. A pass that sees this person
  at both sensors makes the count zero; when more ticks have been due than there are LEDs, with
  the person in front of the detector for as long as may be, the wave has ended and every LED is
  switched off with a time not before the start. No pass on the way fails.
\<close>

theorem departure_darkens_stairs:
  assumes "settings_valid s" and "at_rest s (k, l, c)" and "watching i {DETECTOR_STATE_SECOND_LOCK} 1 k"
    and "\<forall>x \<in> set (y # leaving). good_turn s (last_test_mode k) x"
    and "seen (turn_env y) i = (True, True)" and "seen (turn_env y) (other i) = (False, False)"
    and "walks_off i (map turn_env leaving)"
    and "unat (led_count s) < ticks s (prev_ts k) (map turn_ts (y # leaving))"
  shows "\<exists>m k' l' c'. m \<le> length (y # leaving) \<and>
     controller_run (take m (y # leaving)) (k, l, c) = Some (k', l', c') \<and> all_stopped k' \<and>
     stairs_set s False (total_ms c) l' \<and> people_count (status k') = 0"
  by (rule departure_run [OF assms])

definition lit_leds :: stairway_leds where
  "lit_leds = (dark_leds 18)\<lparr>buf := Some (replicate 18 (led_zero\<lparr>led_on := True\<rparr>))\<rparr>"

lemma lit_leds_facts:
  "led_ts (leds_buf lit_leds ! 0) < 9" "\<forall>x < 18. leds_buf lit_leds ! x = leds_buf lit_leds ! 0" "leds_inv lit_leds"
  "ws_led_count (ws2812_handler lit_leds) = 18"
  by (simp_all add: lit_leds_def leds_buf_def dark_leds_def led_zero_def leds_inv_def ws_ok_def ws_pixels_def)

definition leaving_controller :: controller where
  "leaving_controller = controller_start\<lparr>status := status_start\<lparr>people_count := 1, prev_people_count := 1,
     detector := (\<lambda>_. \<lparr>det_state = DETECTOR_STATE_IDLE, det_ts = 0\<rparr>)
       (DETECTOR_TYPE_DOWN := \<lparr>det_state = DETECTOR_STATE_SECOND_LOCK, det_ts = 5\<rparr>)\<rparr>\<rparr>"

definition departure_passes :: "turn list" where
  "departure_passes = pass_at DETECTOR_TYPE_DOWN True True 1 # map (pass_at DETECTOR_TYPE_DOWN False False) [2..<30]"

lemma departure_darkens_stairs_witness:
  "\<exists>m k' l' c'. controller_run (take m departure_passes) (leaving_controller, lit_leds, still_clock 9) =
     Some (k', l', c') \<and> people_count (status k') = 0 \<and> \<not> led_on (leds_buf l' ! 0) \<and> \<not> led_on (leds_buf l' ! 17)"
proof -
  let ?i = DETECTOR_TYPE_DOWN
  let ?y = "pass_at ?i True True 1" and ?go = "map (pass_at ?i False False) [2..<30]"
  have rest: "at_rest default_settings (leaving_controller, lit_leds, still_clock 9)"
    by (rule at_rest_start [OF lit_leds_facts(1) _ lit_leds_facts(2-4)])
      (simp_all add: all_stopped_start leaving_controller_def controller_start_def status_start_def)
  have idle: "watching ?i {DETECTOR_STATE_SECOND_LOCK} 1 leaving_controller"
    by (simp add: watching_def leaving_controller_def)
  have good: "\<forall>x \<in> set (?y # ?go). good_turn default_settings (last_test_mode leaving_controller) x"
    by (simp add: leaving_controller_def controller_start_def)
  have off: "walks_off ?i (map turn_env ?go)" by (rule walks_off_nobody) (simp del: other.simps)
  have prev: "prev_ts leaving_controller = of_nat (1000 * 0)"
    by (simp add: leaving_controller_def controller_start_def)
  have times: "map turn_ts (?y # ?go) = map (\<lambda>m. of_nat (1000 * m)) [Suc 0..<Suc (0 + 29)]"
    by (simp add: pass_at_def upt_rec)
  have "unat (led_count default_settings) < ticks default_settings (prev_ts leaving_controller) (map turn_ts (?y # ?go))"
    unfolding prev times pass_at_ticks leds_18 by simp
  from departure_darkens_stairs [OF default_settings_valid rest idle good _ _ off this]
  obtain m k' l' c' where "controller_run (take m (?y # ?go)) (leaving_controller, lit_leds, still_clock 9) =
      Some (k', l', c')" "stairs_set default_settings False (total_ms (still_clock 9)) l'" "people_count (status k') = 0"
    using pass_at_seen [of ?i True True 1] by blast
  moreover from this have "\<not> led_on (leds_buf l' ! 0)" "\<not> led_on (leds_buf l' ! 17)"
    by (simp_all add: stairs_set_def leds_18)
  ultimately show ?thesis unfolding departure_passes_def by blast
qed

lemma sweeping_swept:
  assumes "sweeping s False (other d) t 0 (k, l, c) xs r"
  shows "\<exists>kr lr cr. controller_run (take r xs) (k, l, c) = Some (kr, lr, cr) \<and>
     swept s False (d = DETECTOR_TYPE_UP) t (min (ticks s (prev_ts k) (map turn_ts (take r xs))) (unat (led_count s))) lr"
proof -
  have "downwards False (other d) = (d = DETECTOR_TYPE_UP)" by (cases d) (simp_all add: downwards_def)
  then show ?thesis using assms by (auto simp: sweeping_def wave_stage_def)
qed

lemma timeout_run:
  assumes "settings_valid s" and "at_rest s (k, l, c)"
    and "watching (other (last_det k)) {DETECTOR_STATE_IDLE} p k" and "0 < p"
    and "people_ts (status k) \<le> total_ms c"
    and "ucast (leds_off_timeout s) < total_ms c - people_ts (status k)"
    and "\<forall>x \<in> set (y # ys). good_turn s (last_test_mode k) x \<and> (\<forall>i. seen (turn_env x) i = (False, False))"
    and "unat (led_count s) < ticks s (prev_ts k) (map turn_ts (y # ys))"
  shows "\<exists>m k' l' c'. m \<le> length (y # ys) \<and>
     controller_run (take m (y # ys)) (k, l, c) = Some (k', l', c') \<and> all_stopped k' \<and>
     stairs_set s False (total_ms c) l' \<and> people_count (status k') = 0 \<and>
     (\<exists>t \<ge> total_ms c. \<forall>r \<in> {1..m}. \<exists>kr lr cr. controller_run (take r (y # ys)) (k, l, c) = Some (kr, lr, cr) \<and>
        swept s False (last_det k = DETECTOR_TYPE_UP) t
          (min (ticks s (prev_ts k) (map turn_ts (take r (y # ys)))) (unat (led_count s))) lr)"
proof -
  have rest: "all_stopped k" "clock_forward c" "quiet_leds s (total_ms c) l"
    using assms(2) by (simp_all add: at_rest_def)
  have "\<forall>x \<in> set (y # ys). good_turn s (last_test_mode k) x \<and> seen (turn_env x) (other (last_det k)) = (False, False) \<and>
      seen (turn_env x) (other (other (last_det k))) = (False, False)"
    using assms(7) by blast
  from timeout_sweeps [OF assms(1) rest(1) refl assms(3,4) refl rest(2) assms(5,6) rest(3) this assms(8)]
  obtain m k' l' c' t where m: "m \<le> length (y # ys)" "controller_run (take m (y # ys)) (k, l, c) = Some (k', l', c')"
      "all_stopped k'" "stairs_set s False (total_ms c) l'" "people_count (status k') = 0" "total_ms c \<le> t"
      "\<forall>r \<in> {1..m}. sweeping s False (other (last_det k)) t 0 (k, l, c) (y # ys) r"
    by auto
  have "\<forall>r \<in> {1..m}. \<exists>kr lr cr. controller_run (take r (y # ys)) (k, l, c) = Some (kr, lr, cr) \<and>
      swept s False (last_det k = DETECTOR_TYPE_UP) t
        (min (ticks s (prev_ts k) (map turn_ts (take r (y # ys)))) (unat (led_count s))) lr"
    using m(7) sweeping_swept by blast
  then show ?thesis using m(1-6) by (intro exI [of _ m] exI [of _ k'] exI [of _ l'] exI [of _ c'] conjI exI [of _ t])
qed

text \<open>
  C6: nobody is forgotten on the stairs. The controller is at rest with a positive count, nobody is
  seen any more, and the last change of the count lies further back than \<open>leds_off_timeout\<close>: the
  count is reset and one wave switches the stairs off, in the direction in which the last arrival has
  lit them: if the last person came in at \<open>DETECTOR_TYPE_UP\<close> from the last LED down to the first,
  otherwise from the first up to the last. It starts with the first turn and goes one LED further
  with each tick: after any number of turns, exactly as many LEDs from that end are off with the
  time of the wave as ticks have been due. When more ticks have been due than there are LEDs, every
  LED is off and no wave runs.
\<close>

theorem timeout_darkens_stairs:
  assumes "settings_valid s" and "at_rest s (k, l, c)"
    and "watching (other (last_det k)) {DETECTOR_STATE_IDLE} p k" and "0 < p"
    and "people_ts (status k) \<le> total_ms c"
    and "ucast (leds_off_timeout s) < total_ms c - people_ts (status k)"
    and "\<forall>x \<in> set (y # ys). good_turn s (last_test_mode k) x \<and> (\<forall>i. seen (turn_env x) i = (False, False))"
    and "unat (led_count s) < ticks s (prev_ts k) (map turn_ts (y # ys))"
  shows "\<exists>m k' l' c'. m \<le> length (y # ys) \<and>
     controller_run (take m (y # ys)) (k, l, c) = Some (k', l', c') \<and> all_stopped k' \<and>
     stairs_set s False (total_ms c) l' \<and> people_count (status k') = 0 \<and>
     (\<exists>t \<ge> total_ms c. \<forall>r \<in> {1..m}. \<exists>kr lr cr. controller_run (take r (y # ys)) (k, l, c) = Some (kr, lr, cr) \<and>
        swept s False (last_det k = DETECTOR_TYPE_UP) t
          (min (ticks s (prev_ts k) (map turn_ts (take r (y # ys)))) (unat (led_count s))) lr)"
  by (rule timeout_run [OF assms])

text \<open>Two persons counted at the start, nobody seen, and the clock at a minute.\<close>

definition forgotten_controller :: controller where
  "forgotten_controller = controller_start\<lparr>status := status_start\<lparr>people_count := 2, prev_people_count := 2\<rparr>\<rparr>"

definition quiet_passes :: "turn list" where
  "quiet_passes = pass_at DETECTOR_TYPE_UP False False 1 # map (pass_at DETECTOR_TYPE_UP False False) [2..<30]"

lemma timeout_darkens_stairs_witness:
  "\<exists>m k' l' c'. controller_run (take m quiet_passes) (forgotten_controller, lit_leds, still_clock 60000) =
     Some (k', l', c') \<and> people_count (status k') = 0 \<and> \<not> led_on (leds_buf l' ! 0) \<and> \<not> led_on (leds_buf l' ! 17) \<and>
     (\<exists>kr lr cr. controller_run (take 1 quiet_passes) (forgotten_controller, lit_leds, still_clock 60000) =
        Some (kr, lr, cr) \<and> \<not> led_on (leds_buf lr ! 17) \<and> led_ts (leds_buf lr ! 0) < led_ts (leds_buf lr ! 17))"
proof -
  let ?i = DETECTOR_TYPE_UP
  let ?y = "pass_at ?i False False 1" and ?go = "map (pass_at ?i False False) [2..<30]"
  have rest: "at_rest default_settings (forgotten_controller, lit_leds, still_clock 60000)"
    by (rule at_rest_start [OF lit_leds_facts(1) _ lit_leds_facts(2-4)])
      (simp_all add: all_stopped_start forgotten_controller_def controller_start_def status_start_def)
  have idle: "watching (other (last_det forgotten_controller)) {DETECTOR_STATE_IDLE} 2 forgotten_controller"
    by (simp add: watching_def forgotten_controller_def controller_start_def status_start_def)
  have late: "people_ts (status forgotten_controller) \<le> total_ms (still_clock 60000)"
      "ucast (leds_off_timeout default_settings) < total_ms (still_clock 60000) - people_ts (status forgotten_controller)"
    by (simp_all add: forgotten_controller_def status_start_def still_clock_total default_settings_def)
  have nobody: "seen (turn_env (pass_at ?i False False m)) i = (False, False)" for m i
    by (simp add: seen_def pass_at_def)
  then have good: "\<forall>x \<in> set (?y # ?go). good_turn default_settings (last_test_mode forgotten_controller) x \<and> (\<forall>i. seen (turn_env x) i = (False, False))"
    by (simp add: forgotten_controller_def controller_start_def)
  have prev: "prev_ts forgotten_controller = of_nat (1000 * 0)"
    by (simp add: forgotten_controller_def controller_start_def)
  have times: "map turn_ts (?y # ?go) = map (\<lambda>m. of_nat (1000 * m)) [Suc 0..<Suc (0 + 29)]"
    by (simp add: pass_at_def upt_rec)
  have "unat (led_count default_settings) < ticks default_settings (prev_ts forgotten_controller) (map turn_ts (?y # ?go))"
    unfolding prev times pass_at_ticks leds_18 by simp
  from timeout_darkens_stairs [OF default_settings_valid rest idle _ late good this]
  obtain m k' l' c' t where run: "controller_run (take m (?y # ?go)) (forgotten_controller, lit_leds, still_clock 60000) =
      Some (k', l', c')" "stairs_set default_settings False (total_ms (still_clock 60000)) l'"
      "people_count (status k') = 0"
    and sweep: "\<forall>r \<in> {1..m}. \<exists>kr lr cr. controller_run (take r (?y # ?go))
        (forgotten_controller, lit_leds, still_clock 60000) = Some (kr, lr, cr) \<and>
      swept default_settings False (last_det forgotten_controller = DETECTOR_TYPE_UP) t
        (min (ticks default_settings (prev_ts forgotten_controller) (map turn_ts (take r (?y # ?go))))
          (unat (led_count default_settings))) lr" by auto
  have "m \<noteq> 0"
  proof
    assume "m = 0"
    then have "k' = forgotten_controller" using run(1) by simp
    then show False using run(3) by (simp add: forgotten_controller_def)
  qed
  then obtain kr lr cr where one: "controller_run (take 1 (?y # ?go)) (forgotten_controller, lit_leds, still_clock 60000) =
        Some (kr, lr, cr)"
      "swept default_settings False (last_det forgotten_controller = DETECTOR_TYPE_UP) t
        (min (ticks default_settings (prev_ts forgotten_controller) (map turn_ts (take 1 (?y # ?go))))
          (unat (led_count default_settings))) lr"
    using sweep by fastforce
  have "ticks default_settings (prev_ts forgotten_controller) (map turn_ts (take 1 (?y # ?go))) = 1"
    using pass_at_tick [of 0] by (simp add: prev pass_at_def)
  moreover have "last_det forgotten_controller = DETECTOR_TYPE_UP"
    by (simp add: forgotten_controller_def controller_start_def)
  ultimately have sw: "swept default_settings False True t 1 lr" using one(2) by (simp add: leds_18)
  then have "\<not> led_on (leds_buf lr ! 17)" "led_ts (leds_buf lr ! 17) = t" "led_ts (leds_buf lr ! 0) < t"
    unfolding swept_def Let_def leds_18 led_index_def
    by (auto dest: spec [of _ 0] spec [of _ 17])
  moreover have "\<not> led_on (leds_buf l' ! 0)" "\<not> led_on (leds_buf l' ! 17)"
    using run(2) by (simp_all add: stairs_set_def leds_18)
  ultimately show ?thesis using run one(1) unfolding quiet_passes_def by blast
qed

end
