(* ===== verification/C_Strings.thy ===== *)
theory C_Strings
  imports Prelude
begin

text \<open>
  The functions of the C library that the network code uses on strings: \<open>strstr\<close>, \<open>strtoul\<close> in
  base 10 and the decimal conversions of \<open>printf\<close>. A pointer into a terminated string is the
  rest of the string behind it, without the terminator; reading the terminator is the
  empty rest. An \<open>unsigned long\<close> has 32 bits on this processor.
\<close>

section \<open>Searching\<close>

abbreviation dquote :: char where
  "dquote \<equiv> CHR 0x22"

abbreviation backslash :: char where
  "backslash \<equiv> CHR 0x5C"

fun strstr :: "string \<Rightarrow> string \<Rightarrow> string option" where
  "strstr [] p = (if p = [] then Some [] else None)"
| "strstr (c # s) p = (if take (length p) (c # s) = p then Some (c # s) else strstr s p)"

lemma strstr_SomeD:
  "strstr s p = Some r \<Longrightarrow> \<exists>x. s = x @ r \<and> take (length p) r = p"
proof (induction s p rule: strstr.induct)
  case (2 c s p)
  then show ?case by (fastforce split: if_splits intro: exI [of _ "c # x" for x])
qed (auto split: if_splits)

lemma strstr_skip:
  "c \<notin> set x \<Longrightarrow> strstr (x @ y) (c # k) = strstr y (c # k)"
  by (induction x) auto

lemma strstr_here: "strstr (p @ s) p = Some (p @ s)"
  by (cases p; cases s) auto

section \<open>Numbers\<close>

definition is_digit :: "char \<Rightarrow> bool" where
  "is_digit c \<longleftrightarrow> 48 \<le> (of_char c :: nat) \<and> (of_char c :: nat) \<le> 57"

definition is_space :: "char \<Rightarrow> bool" where
  "is_space c \<longleftrightarrow> c = CHR '' '' \<or> (9 \<le> (of_char c :: nat) \<and> (of_char c :: nat) \<le> 13)"

definition dec_value :: "string \<Rightarrow> nat" where
  "dec_value ds = foldl (\<lambda>n c. 10 * n + (of_char c - 48)) 0 ds"

text \<open>
  \<open>strtoul (s, \<dots>, 10)\<close>: whether \<open>errno\<close> is set to \<open>ERANGE\<close>, and the value, which is
  \<open>ULONG_MAX\<close> then. A minus sign negates the value in the unsigned type.
\<close>

definition strtoul :: "string \<Rightarrow> bool \<times> u32" where
  "strtoul s =
     (let s1 = dropWhile is_space s;
          neg = (s1 \<noteq> [] \<and> hd s1 = CHR ''-'');
          s2 = (if s1 \<noteq> [] \<and> (hd s1 = CHR ''-'' \<or> hd s1 = CHR ''+'') then tl s1 else s1);
          v = dec_value (takeWhile is_digit s2)
      in if 2 ^ 32 \<le> v then (True, 0xFFFFFFFF)
         else (False, if neg then - of_nat v else of_nat v))"

text \<open>The conversions \<open>%u\<close> and \<open>%d\<close> of \<open>printf\<close>.\<close>

fun dec_digits :: "nat \<Rightarrow> string" where
  "dec_digits n = (if n < 10 then [char_of (48 + n)]
                   else dec_digits (n div 10) @ [char_of (48 + n mod 10)])"

declare dec_digits.simps [simp del]

definition dec_int :: "int \<Rightarrow> string" where
  "dec_int i = (if i < 0 then CHR ''-'' # dec_digits (nat (- i)) else dec_digits (nat i))"

lemma is_digit_char_of [simp]: "d < 10 \<Longrightarrow> is_digit (char_of (48 + d :: nat))"
  by (simp add: is_digit_def)

lemma dec_digits_digits: "c \<in> set (dec_digits n) \<Longrightarrow> is_digit c"
proof (induction n rule: dec_digits.induct)
  case (1 n)
  then show ?case by (subst (asm) (2) dec_digits.simps) (auto split: if_splits)
qed

lemma dec_digits_not_Nil [simp]: "dec_digits n \<noteq> []"
  by (subst dec_digits.simps) simp

lemma dec_value_snoc: "dec_value (ds @ [c]) = 10 * dec_value ds + (of_char c - 48)"
  by (simp add: dec_value_def)

lemma dec_value_dec_digits [simp]: "dec_value (dec_digits n) = n"
proof (induction n rule: dec_digits.induct)
  case (1 n)
  show ?case
  proof (cases "n < 10")
    case True
    then show ?thesis by (simp add: dec_digits.simps [of n] dec_value_def)
  next
    case False
    with 1 show ?thesis by (simp add: dec_digits.simps [of n] dec_value_snoc)
  qed
qed

lemma length_dec_digits: "n < 10 ^ k \<Longrightarrow> 0 < k \<Longrightarrow> length (dec_digits n) \<le> k"
proof (induction k arbitrary: n)
  case (Suc k)
  show ?case
  proof (cases "n < 10")
    case False
    then have "0 < k" using Suc.prems(1) by (cases k) auto
    moreover have "n div 10 < 10 ^ k" using Suc.prems(1) by (simp add: less_mult_imp_div_less)
    ultimately show ?thesis using Suc.IH [of "n div 10"] False by (simp add: dec_digits.simps [of n])
  qed (simp add: dec_digits.simps [of n])
qed simp

lemma digit_not:
  "is_digit c \<Longrightarrow> \<not> is_space c" "\<not> is_digit dquote" "\<not> is_digit (CHR '','')"
  "\<not> is_digit (CHR ''-'')" "\<not> is_digit (CHR ''+'')" "\<not> is_digit (CHR '':'')"
  by (auto simp: is_digit_def is_space_def)

lemma dec_digits_hd: obtains c ds where "dec_digits n = c # ds" "is_digit c"
proof (cases "dec_digits n")
  case (Cons c ds)
  then show ?thesis using dec_digits_digits [of c n] that by simp
qed simp

lemma strtoul_dec_digits:
  assumes "n < 2 ^ 32" and "\<not> is_digit c"
  shows "strtoul (dec_digits n @ c # s) = (False, of_nat n)"
proof -
  obtain d ds where d: "dec_digits n = d # ds" "is_digit d"
    by (rule dec_digits_hd)
  have "dropWhile is_space (dec_digits n @ c # s) = dec_digits n @ c # s"
    using d digit_not(1) by simp
  moreover have "takeWhile is_digit (dec_digits n @ c # s) = dec_digits n"
    using assms(2) by (simp add: takeWhile_append2 [OF dec_digits_digits])
  moreover have "d \<noteq> CHR ''-''" "d \<noteq> CHR ''+''" using d(2) digit_not(4,5) by metis+
  moreover have "dec_value (d # ds) = n"
    using d(1) dec_value_dec_digits [of n] by simp
  ultimately show ?thesis
    using assms(1) d(1) by (simp add: strtoul_def Let_def)
qed

section \<open>Memory\<close>

text \<open>
  An array of characters is a list; an access outside of it has no result. \<open>store_text\<close> is
  \<open>memcpy\<close> into it, \<open>string_at\<close> the C string at an offset, and \<open>memmove\<close> moves inside of it.
\<close>

definition store_text :: "nat \<Rightarrow> string \<Rightarrow> string \<Rightarrow> string option" where
  "store_text i s b =
     (if i + length s \<le> length b then Some (take i b @ s @ drop (i + length s) b) else None)"

definition string_at :: "nat \<Rightarrow> string \<Rightarrow> string option" where
  "string_at i b = (if NUL \<in> set (drop i b) then Some (cstr (drop i b)) else None)"

definition char_at :: "nat \<Rightarrow> string \<Rightarrow> char option" where
  "char_at i b = (if i < length b then Some (b ! i) else None)"

definition memmove :: "nat \<Rightarrow> nat \<Rightarrow> nat \<Rightarrow> string \<Rightarrow> string option" where
  "memmove dst src n b =
     (if src + n \<le> length b then store_text dst (take n (drop src b)) b else None)"

lemma string_at_here: "NUL \<notin> set s \<Longrightarrow> string_at (length a) (a @ s @ NUL # b) = Some s"
  by (simp add: string_at_def)

lemma store_text_at:
  "length m = length s \<Longrightarrow> store_text (length a) s (a @ m @ b) = Some (a @ s @ b)"
  by (simp add: store_text_def)

lemma memmove_at:
  "dst + n \<le> length b \<Longrightarrow> src + n \<le> length b \<Longrightarrow>
     memmove dst src n b = Some (take dst b @ take n (drop src b) @ drop (dst + n) b)"
  by (simp add: memmove_def store_text_def min_absorb2)

end
