(* ===== verification/Http_Json.thy ===== *)
theory Http_Json
  imports C_Strings Settings
begin

text \<open>
  The settings as JSON, \<open>src/network/http_server/settings.c\<close>. The text in a buffer that is being
  filled is the list of its characters: its length is \<open>pos\<close>, and \<open>buf_size\<close> bounds it. A parser
  gets the rest of the input behind the pointer. An entry of \<open>settings_map\<close> carries how its field
  is read and written in place of the type and the offset of the field. Errors are \<open>Inl\<close>.
\<close>

section \<open>The map of the settings\<close>

text \<open>\<open>SettingsType\<close>, each with the access to the field that the offset stands for.\<close>

datatype settings_type =
    STYPE_UINT32 "settings \<Rightarrow> u32" "u32 \<Rightarrow> settings \<Rightarrow> settings"
  | STYPE_UINT16 "settings \<Rightarrow> u16" "u16 \<Rightarrow> settings \<Rightarrow> settings"
  | STYPE_UINT8 "settings \<Rightarrow> u8" "u8 \<Rightarrow> settings \<Rightarrow> settings"
  | STYPE_BOOL "settings \<Rightarrow> bool" "bool \<Rightarrow> settings \<Rightarrow> settings"
  | STYPE_STRING "settings \<Rightarrow> string" "string \<Rightarrow> settings \<Rightarrow> settings" nat bool

text \<open>Elements of the two arrays of the struct.\<close>

definition dist_field :: "sensor \<Rightarrow> settings_type" where
  "dist_field i = STYPE_UINT16 (\<lambda>s. dist_trigger s i)
     (\<lambda>v s. s\<lparr>dist_trigger := (dist_trigger s)(i := v)\<rparr>)"

definition emergency_field :: "emergency_type \<Rightarrow> settings_type" where
  "emergency_field i = STYPE_UINT32 (\<lambda>s. emergency_cnt s i)
     (\<lambda>v s. s\<lparr>emergency_cnt := (emergency_cnt s)(i := v)\<rparr>)"

text \<open>The entries of \<open>settings_map\<close> before the two strings, and the strings.\<close>

definition scalar_map :: "(string \<times> settings_type) list" where
  "scalar_map =
     [(''use_light_sensor'', STYPE_BOOL use_light_sensor (\<lambda>v s. s\<lparr>use_light_sensor := v\<rparr>)),
      (''light_sensor_day'', STYPE_UINT32 light_sensor_day_value
         (\<lambda>v s. s\<lparr>light_sensor_day_value := v\<rparr>)),
      (''light_sensor_night'', STYPE_UINT32 light_sensor_night_value
         (\<lambda>v s. s\<lparr>light_sensor_night_value := v\<rparr>)),
      (''dist_trigger_down_first'', dist_field STAIRWAY_SENS_DOWN_FIRST),
      (''dist_trigger_down_second'', dist_field STAIRWAY_SENS_DOWN_SECOND),
      (''sensor_down_swap'', STYPE_BOOL sensor_down_swap (\<lambda>v s. s\<lparr>sensor_down_swap := v\<rparr>)),
      (''dist_trigger_up_first'', dist_field STAIRWAY_SENS_UP_FIRST),
      (''dist_trigger_up_second'', dist_field STAIRWAY_SENS_UP_SECOND),
      (''sensor_up_swap'', STYPE_BOOL sensor_up_swap (\<lambda>v s. s\<lparr>sensor_up_swap := v\<rparr>)),
      (''sensor_debouce_time'', STYPE_UINT32 sensor_debouce_time
         (\<lambda>v s. s\<lparr>sensor_debouce_time := v\<rparr>)),
      (''led_count'', STYPE_UINT32 led_count (\<lambda>v s. s\<lparr>led_count := v\<rparr>)),
      (''leds_time_interval'', STYPE_UINT32 leds_time_interval
         (\<lambda>v s. s\<lparr>leds_time_interval := v\<rparr>)),
      (''leds_off_timeout'', STYPE_UINT32 leds_off_timeout (\<lambda>v s. s\<lparr>leds_off_timeout := v\<rparr>)),
      (''led_on_value'', STYPE_UINT8 led_on_value (\<lambda>v s. s\<lparr>led_on_value := v\<rparr>)),
      (''led_off_value'', STYPE_UINT8 led_off_value (\<lambda>v s. s\<lparr>led_off_value := v\<rparr>)),
      (''led_on_step'', STYPE_UINT8 led_on_step (\<lambda>v s. s\<lparr>led_on_step := v\<rparr>)),
      (''led_off_step'', STYPE_UINT8 led_off_step (\<lambda>v s. s\<lparr>led_off_step := v\<rparr>)),
      (''use_emergency'', STYPE_BOOL use_emergency (\<lambda>v s. s\<lparr>use_emergency := v\<rparr>)),
      (''emergency_cnt_down'', emergency_field EMERGENCY_DOWN),
      (''emergency_cnt_up'', emergency_field EMERGENCY_UP),
      (''emergency_block_ms'', STYPE_UINT32 emergency_block_ms
         (\<lambda>v s. s\<lparr>emergency_block_ms := v\<rparr>))]"

definition wifi_ssid :: settings_type where
  "wifi_ssid = STYPE_STRING ssid (\<lambda>v s. s\<lparr>ssid := v\<rparr>) SSID_MAX_LEN False"

definition wifi_pass :: settings_type where
  "wifi_pass = STYPE_STRING pass (\<lambda>v s. s\<lparr>pass := v\<rparr>) PASS_MAX_LEN True"

definition settings_map :: "(string \<times> settings_type) list" where
  "settings_map = scalar_map @ [(''wifi_ssid'', wifi_ssid), (''wifi_pass'', wifi_pass)]"

section \<open>Parsing\<close>

definition JSON_KEY_BUF_SIZE :: nat where "JSON_KEY_BUF_SIZE = 48"

definition json_space :: "char \<Rightarrow> bool" where
  "json_space c \<longleftrightarrow> c = CHR '' '' \<or> c = CHR 0x09 \<or> c = CHR 0x0D \<or> c = CHR 0x0A"

definition json_find_value :: "string \<Rightarrow> string \<Rightarrow> string option" where
  "json_find_value inp key =
     (let pattern = dquote # key @ [dquote]
      in if length pattern \<ge> JSON_KEY_BUF_SIZE then None
         else (case strstr inp pattern of
                 None \<Rightarrow> None
               | Some start \<Rightarrow>
                   (case dropWhile json_space (drop (length pattern) start) of
                      [] \<Rightarrow> None
                    | c # rest \<Rightarrow> if c \<noteq> CHR '':'' then None
                                   else Some (dropWhile json_space rest))))"

text \<open>The loop of \<open>json_parse_string\<close> behind the opening quote; \<open>out\<close> is what it has stored.\<close>

fun json_chars :: "nat \<Rightarrow> string \<Rightarrow> string \<Rightarrow> err_code + string" where
  "json_chars buf_size [] out = Inl ERR_PARAM_INVALID"
| "json_chars buf_size (c # val) out =
     (if c = dquote then Inr out
      else if c = backslash then
        (case val of
           [] \<Rightarrow> Inl ERR_PARAM_INVALID
         | e # val' \<Rightarrow>
             if e \<noteq> dquote \<and> e \<noteq> backslash \<and> e \<noteq> CHR ''/'' then Inl ERR_PARAM_INVALID
             else if length out + 1 \<ge> buf_size then Inl ERR_OVERFLOW
             else json_chars buf_size val' (out @ [e]))
      else if length out + 1 \<ge> buf_size then Inl ERR_OVERFLOW
      else json_chars buf_size val (out @ [c]))"

definition json_parse_string :: "string \<Rightarrow> nat \<Rightarrow> err_code + string" where
  "json_parse_string val buf_size =
     (case val of
        [] \<Rightarrow> Inl ERR_PARAM_INVALID
      | c # val' \<Rightarrow> if c \<noteq> dquote then Inl ERR_PARAM_INVALID else json_chars buf_size val' [])"

definition json_parse_bool :: "string \<Rightarrow> err_code + bool" where
  "json_parse_bool val =
     (if take 4 val = ''true'' then Inr True
      else if take 5 val = ''false'' then Inr False
      else Inl ERR_PARAM_INVALID)"

text \<open>As the first character is a digit, \<open>strtoul\<close> always moves its end pointer.\<close>

definition json_parse_uint :: "string \<Rightarrow> u32 \<Rightarrow> err_code + u32" where
  "json_parse_uint val max_val =
     (if val = [] \<or> \<not> is_digit (hd val) then Inl ERR_PARAM_INVALID
      else let (erange, v) = strtoul val
           in if erange \<or> v > max_val then Inl ERR_PARAM_INVALID else Inr v)"

text \<open>One pass of the loop of \<open>set_settings_json\<close>, and the loop, which an error leaves.\<close>

definition json_setting ::
    "string \<Rightarrow> string \<times> settings_type \<Rightarrow> settings \<Rightarrow> err_code + settings" where
  "json_setting json m s =
     (case json_find_value json (fst m) of
        None \<Rightarrow> Inr s
      | Some val \<Rightarrow>
          (case snd m of
             STYPE_UINT32 _ put \<Rightarrow>
               (case json_parse_uint val 0xFFFFFFFF of
                  Inl e \<Rightarrow> Inl e | Inr num \<Rightarrow> Inr (put num s))
           | STYPE_UINT16 _ put \<Rightarrow>
               (case json_parse_uint val 0xFFFF of
                  Inl e \<Rightarrow> Inl e | Inr num \<Rightarrow> Inr (put (ucast num) s))
           | STYPE_UINT8 _ put \<Rightarrow>
               (case json_parse_uint val 0xFF of
                  Inl e \<Rightarrow> Inl e | Inr num \<Rightarrow> Inr (put (ucast num) s))
           | STYPE_BOOL _ put \<Rightarrow>
               (case json_parse_bool val of Inl e \<Rightarrow> Inl e | Inr b \<Rightarrow> Inr (put b s))
           | STYPE_STRING get put max_len secret \<Rightarrow>
               (case json_parse_string val max_len of
                  Inl e \<Rightarrow> Inl e
                | Inr str \<Rightarrow>
                    if secret \<and> str = [] then Inr s else Inr (put (strcpy (get s) str) s))))"

fun json_settings ::
    "string \<Rightarrow> (string \<times> settings_type) list \<Rightarrow> settings \<Rightarrow> err_code + settings" where
  "json_settings json [] s = Inr s"
| "json_settings json (m # ms) s =
     (case json_setting json m s of Inl e \<Rightarrow> Inl e | Inr s1 \<Rightarrow> json_settings json ms s1)"

definition set_settings_json ::
    "flash_hw \<Rightarrow> string option \<Rightarrow> settings_store \<Rightarrow> err_code \<times> settings_store" where
  "set_settings_json hw json st =
     (case json of
        None \<Rightarrow> (ERR_PARAM_IS_NULL, st)
      | Some text \<Rightarrow>
          (case json_settings (cstr text) settings_map (global_settings st) of
             Inl e \<Rightarrow> (e, st)
           | Inr new_settings \<Rightarrow> settings_apply hw (Some new_settings) st))"

section \<open>Writing\<close>

definition json_append :: "nat \<Rightarrow> string \<Rightarrow> string \<Rightarrow> err_code + string" where
  "json_append buf_size text out =
     (if length out + length text \<ge> buf_size then Inl ERR_OVERFLOW else Inr (out @ text))"

fun json_append_string :: "nat \<Rightarrow> string \<Rightarrow> string \<Rightarrow> err_code + string" where
  "json_append_string buf_size [] out = Inr out"
| "json_append_string buf_size (c # str) out =
     (let escape = (c = dquote \<or> c = backslash)
      in if length out + (if escape then 2 else 1) \<ge> buf_size then Inl ERR_OVERFLOW
         else json_append_string buf_size str
                (if escape then out @ [backslash, c] else out @ [c]))"

definition json_name :: "string \<Rightarrow> string" where
  "json_name name = dquote # name @ [dquote, CHR '':'']"

definition json_value :: "settings_type \<Rightarrow> settings \<Rightarrow> string" where
  "json_value t s =
     (case t of
        STYPE_UINT32 get _ \<Rightarrow> dec_digits (unat (get s))
      | STYPE_UINT16 get _ \<Rightarrow> dec_digits (unat (get s))
      | STYPE_UINT8 get _ \<Rightarrow> dec_digits (unat (get s))
      | STYPE_BOOL get _ \<Rightarrow> if get s then ''true'' else ''false''
      | STYPE_STRING _ _ _ _ \<Rightarrow> [])"

text \<open>One pass of the loop of \<open>get_settings_json\<close>, and the loop.\<close>

definition json_entry ::
    "nat \<Rightarrow> settings \<Rightarrow> string \<times> settings_type \<Rightarrow> string \<Rightarrow> string \<Rightarrow> err_code + string" where
  "json_entry buf_size s m sep out =
     (case snd m of
        STYPE_STRING get _ _ secret \<Rightarrow>
          (case json_append buf_size (json_name (fst m) @ [dquote]) out of
             Inl e \<Rightarrow> Inl e
           | Inr out1 \<Rightarrow>
               (case (if secret then Inr out1
                      else json_append_string buf_size (cstr (get s)) out1) of
                  Inl e \<Rightarrow> Inl e
                | Inr out2 \<Rightarrow> json_append buf_size (dquote # sep) out2))
      | t \<Rightarrow> json_append buf_size (json_name (fst m) @ json_value t s @ sep) out)"

fun json_entries ::
    "nat \<Rightarrow> settings \<Rightarrow> (string \<times> settings_type) list \<Rightarrow> string \<Rightarrow> err_code + string" where
  "json_entries buf_size s [] out = Inr out"
| "json_entries buf_size s (m # ms) out =
     (case json_entry buf_size s m (if ms = [] then [] else '','') out of
        Inl e \<Rightarrow> Inl e
      | Inr out1 \<Rightarrow> json_entries buf_size s ms out1)"

text \<open>\<open>buf\<close> is only compared with \<open>NULL\<close> and written; the result is the text left in it.\<close>

definition get_settings_json :: "'b option \<Rightarrow> nat \<Rightarrow> settings \<Rightarrow> err_code + string" where
  "get_settings_json buf buf_size s =
     (if buf = None then Inl ERR_PARAM_IS_NULL
      else if buf_size = 0 then Inl ERR_PARAM_INVALID
      else (case json_append buf_size ''{'' [] of
              Inl e \<Rightarrow> Inl e
            | Inr out1 \<Rightarrow>
                (case json_entries buf_size s settings_map out1 of
                   Inl e \<Rightarrow> Inl e
                 | Inr out2 \<Rightarrow> json_append buf_size ''}'' out2)))"

section \<open>Values that are numbers or truth values\<close>

text \<open>
  What the search for a key relies on in the text of such a value, and what the parser of the
  value promises of it: it reads back what was written, whatever follows the comma.
\<close>

abbreviation key_pattern :: "string \<Rightarrow> string" where
  "key_pattern key \<equiv> dquote # key @ [dquote]"

definition key_ok :: "string \<Rightarrow> bool" where
  "key_ok key \<longleftrightarrow> dquote \<notin> set key \<and> key \<noteq> [] \<and> hd key \<noteq> CHR '':'' \<and> length key + 2 < JSON_KEY_BUF_SIZE"

lemma key_at_quote:
  assumes "dquote \<notin> set n" and "dquote \<notin> set key"
  shows "take (length key + 1) (n @ dquote # r) = key @ [dquote] \<longleftrightarrow> n = key"
proof
  assume a: "take (length key + 1) (n @ dquote # r) = key @ [dquote]"
  obtain y where "n @ dquote # r = (key @ [dquote]) @ y"
    using append_take_drop_id [of "length key + 1" "n @ dquote # r"] unfolding a by metis
  then have "takeWhile (\<lambda>c. c \<noteq> dquote) (n @ dquote # r) =
      takeWhile (\<lambda>c. c \<noteq> dquote) (key @ dquote # y)"
    by simp
  moreover have "takeWhile (\<lambda>c. c \<noteq> dquote) (x @ dquote # y) = x" if "dquote \<notin> set x" for x y
    using that by (induction x) auto
  ultimately show "n = key" using assms by metis
qed simp

lemma not_key_quote:
  "key_ok key \<Longrightarrow> strstr (dquote # CHR '':'' # s) (key_pattern key) = strstr s (key_pattern key)"
  by (cases key) (auto simp: key_ok_def)

lemma skip_name:
  assumes "dquote \<notin> set n" and "key_ok key" and "n \<noteq> key"
  shows "strstr (json_name n @ s) (key_pattern key) = strstr s (key_pattern key)"
proof -
  have "strstr (json_name n @ s) (key_pattern key) =
      strstr (n @ dquote # CHR '':'' # s) (key_pattern key)"
    using assms key_at_quote [of n key "CHR '':'' # s"]
    by (simp add: json_name_def key_ok_def)
  also have "\<dots> = strstr s (key_pattern key)"
    using strstr_skip [OF assms(1)] not_key_quote [OF assms(2)] by simp
  finally show ?thesis .
qed

lemma find_value_at:
  assumes "strstr inp (key_pattern key) = Some (json_name key @ v)" and "key_ok key"
    and "v = c # cs" and "\<not> json_space c"
  shows "json_find_value inp key = Some v"
  using assms by (simp add: json_find_value_def key_ok_def json_name_def json_space_def)

lemma find_value_cong:
  "strstr a (key_pattern key) = strstr b (key_pattern key) \<Longrightarrow>
     json_find_value a key = json_find_value b key"
  by (simp only: json_find_value_def Let_def)

locale json_scalar =
  fixes render :: "'v \<Rightarrow> string" and parse :: "string \<Rightarrow> err_code + 'v"
  assumes parse_render: "parse (render v @ CHR '','' # r) = Inr v"
    and unquoted: "dquote \<notin> set (render v)"
    and starts: "render v = c # cs \<Longrightarrow> \<not> json_space c"
    and nonempty: "render v \<noteq> []"
begin

lemma value_found:
  assumes "strstr inp (key_pattern key) = Some (json_name key @ render v @ CHR '','' # r)"
    and "key_ok key"
  shows "\<exists>val. json_find_value inp key = Some val \<and> parse val = Inr v"
proof -
  obtain c cs where c: "render v = c # cs" "\<not> json_space c"
    using nonempty starts by (cases "render v") auto
  have "json_find_value inp key = Some (render v @ CHR '','' # r)"
    by (rule find_value_at [OF assms, of c "cs @ CHR '','' # r"]) (simp_all add: c)
  with parse_render show ?thesis by blast
qed

lemma value_skipped:
  assumes "dquote \<notin> set n" and "key_ok key" and "n \<noteq> key"
  shows "strstr (json_name n @ render v @ CHR '','' # r) (key_pattern key) =
     strstr r (key_pattern key)"
proof -
  have "strstr (json_name n @ render v @ CHR '','' # r) (key_pattern key) =
      strstr ((render v @ '','') @ r) (key_pattern key)"
    using skip_name [OF assms] by simp
  also have "\<dots> = strstr r (key_pattern key)"
    by (rule strstr_skip) (use unquoted in auto)
  finally show ?thesis .
qed

end

text \<open>The four kinds of values of \<open>settings_map\<close>, as the two loops write and read them.\<close>

lemma json_parse_uint_digits:
  assumes "unat v \<le> unat max_val"
  shows "json_parse_uint (dec_digits (unat v) @ CHR '','' # r) max_val = Inr v"
proof -
  obtain c cs where c: "dec_digits (unat v) = c # cs" "is_digit c" by (rule dec_digits_hd)
  have "unat v < 2 ^ 32" using unsigned_less [of v, where ?'a = nat] by simp
  then have "strtoul (dec_digits (unat v) @ CHR '','' # r) = (False, v)"
    using strtoul_dec_digits [of "unat v" "CHR '',''" r] digit_not(3) by simp
  with assms c show ?thesis by (simp add: json_parse_uint_def word_le_nat_alt not_less)
qed

lemma dec_digits_plain:
  "dquote \<notin> set (dec_digits n)" "dec_digits n = c # cs \<Longrightarrow> \<not> json_space c"
proof -
  show "dquote \<notin> set (dec_digits n)" using dec_digits_digits digit_not(2) by blast
  show "\<not> json_space c" if "dec_digits n = c # cs"
    using dec_digits_digits [of c n] that
    by (auto simp: is_digit_def json_space_def)
qed

lemma narrow_back:
  "unat (ucast (v :: u16) :: u32) = unat v" "unat (ucast (w :: u8) :: u32) = unat w"
  "unat (ucast v :: u32) \<le> 0xFFFF" "unat (ucast w :: u32) \<le> 0xFF"
  "ucast (ucast v :: u32) = v" "ucast (ucast w :: u32) = w"
proof -
  have "unat v < 2 ^ 16" "unat w < 2 ^ 8"
    using unsigned_less [of v, where ?'a = nat] unsigned_less [of w, where ?'a = nat] by simp_all
  then show "unat (ucast v :: u32) = unat v" "unat (ucast w :: u32) = unat w"
      "unat (ucast v :: u32) \<le> 0xFFFF" "unat (ucast w :: u32) \<le> 0xFF"
    by (simp_all add: unsigned_ucast_eq take_bit_nat_eq_self)
  show "ucast (ucast v :: u32) = v" "ucast (ucast w :: u32) = w"
    by (rule bit_word_eqI, simp add: bit_simps)+
qed

interpretation j32: json_scalar "\<lambda>v :: u32. dec_digits (unat v)" "\<lambda>val. json_parse_uint val 0xFFFFFFFF"
proof unfold_locales
  show "json_parse_uint (dec_digits (unat v) @ CHR '','' # r) 0xFFFFFFFF = Inr v" for v :: u32 and r
    using unsigned_less [of v, where ?'a = nat] by (intro json_parse_uint_digits) simp
qed (auto simp: dec_digits_plain)

interpretation j16: json_scalar "\<lambda>v :: u16. dec_digits (unat v)"
    "\<lambda>val. map_sum id ucast (json_parse_uint val 0xFFFF)"
proof unfold_locales
  show "map_sum id ucast (json_parse_uint (dec_digits (unat v) @ CHR '','' # r) 0xFFFF) = Inr v"
    for v :: u16 and r
    using json_parse_uint_digits [of "ucast v" "0xFFFF" r] narrow_back(1,3,5) [of v] by simp
qed (auto simp: dec_digits_plain)

interpretation j8: json_scalar "\<lambda>v :: u8. dec_digits (unat v)"
    "\<lambda>val. map_sum id ucast (json_parse_uint val 0xFF)"
proof unfold_locales
  show "map_sum id ucast (json_parse_uint (dec_digits (unat v) @ CHR '','' # r) 0xFF) = Inr v"
    for v :: u8 and r
    using json_parse_uint_digits [of "ucast v" "0xFF" r] narrow_back(2,4,6) [of v] by simp
qed (auto simp: dec_digits_plain)

interpretation jbool: json_scalar "\<lambda>b. if b then ''true'' else ''false''" json_parse_bool
  by unfold_locales (auto simp: json_parse_bool_def json_space_def split: if_splits)

section \<open>The text that is written\<close>

fun json_escape :: "string \<Rightarrow> string" where
  "json_escape [] = []"
| "json_escape (c # str) =
     (if c = dquote \<or> c = backslash then [backslash, c] else [c]) @ json_escape str"

definition entry_text :: "settings \<Rightarrow> string \<times> settings_type \<Rightarrow> string" where
  "entry_text s m = json_name (fst m) @
     (case snd m of
        STYPE_STRING get _ _ secret \<Rightarrow>
          dquote # (if secret then [] else json_escape (cstr (get s))) @ [dquote]
      | t \<Rightarrow> json_value t s)"

fun entries_text :: "settings \<Rightarrow> (string \<times> settings_type) list \<Rightarrow> string" where
  "entries_text s [] = []"
| "entries_text s (m # ms) = entry_text s m @ (if ms = [] then [] else '','') @ entries_text s ms"

definition settings_text :: "settings \<Rightarrow> string" where
  "settings_text s = ''{'' @ entries_text s settings_map @ ''}''"

definition bounded :: "nat \<Rightarrow> string \<Rightarrow> err_code + string" where
  "bounded buf_size x = (if length x < buf_size then Inr x else Inl ERR_OVERFLOW)"

lemma bounded_chain:
  assumes "length x < buf_size \<Longrightarrow> f x = bounded buf_size (x @ y)"
  shows "(case bounded buf_size x of Inl e \<Rightarrow> Inl e | Inr z \<Rightarrow> f z) = bounded buf_size (x @ y)"
  using assms by (simp add: bounded_def)

lemma json_append_bounded: "json_append buf_size text out = bounded buf_size (out @ text)"
  by (simp add: json_append_def bounded_def)

lemma json_append_string_bounded:
  "length out < buf_size \<Longrightarrow>
     json_append_string buf_size str out = bounded buf_size (out @ json_escape str)"
  by (induction buf_size str out rule: json_append_string.induct) (auto simp: bounded_def Let_def)

lemma json_entry_bounded:
  assumes "length out < buf_size"
  shows "json_entry buf_size s m sep out = bounded buf_size (out @ entry_text s m @ sep)"
proof (cases "snd m")
  case (STYPE_STRING get put max_len secret)
  let ?a = "out @ json_name (fst m) @ [dquote]"
  let ?v = "if secret then [] else json_escape (cstr (get s))"
  have "(case (if secret then Inr ?a else json_append_string buf_size (cstr (get s)) ?a) of
        Inl e \<Rightarrow> Inl e | Inr z \<Rightarrow> bounded buf_size (z @ dquote # sep)) =
      bounded buf_size (?a @ ?v @ dquote # sep)" if "length ?a < buf_size"
    using that json_append_string_bounded [of ?a buf_size "cstr (get s)"]
      bounded_chain [of "?a @ json_escape (cstr (get s))" buf_size
        "\<lambda>z. bounded buf_size (z @ dquote # sep)" "dquote # sep"]
    by auto
  then show ?thesis
    using bounded_chain [of ?a buf_size
        "\<lambda>out1. case (if secret then Inr out1 else json_append_string buf_size (cstr (get s)) out1) of
           Inl e \<Rightarrow> Inl e | Inr z \<Rightarrow> bounded buf_size (z @ dquote # sep)" "?v @ dquote # sep"]
    by (cases secret) (simp_all add: json_entry_def entry_text_def STYPE_STRING json_append_bounded
        cong: sum.case_cong)
qed (simp_all add: json_entry_def entry_text_def json_append_bounded)

lemma json_entries_bounded:
  "length out < buf_size \<Longrightarrow>
     json_entries buf_size s ms out = bounded buf_size (out @ entries_text s ms)"
proof (induction buf_size s ms out rule: json_entries.induct)
  case (1 buf_size s out)
  then show ?case by (simp add: bounded_def)
next
  case (2 buf_size s m ms out)
  let ?x = "out @ entry_text s m @ (if ms = [] then [] else '','')"
  have "json_entries buf_size s ms ?x = bounded buf_size (?x @ entries_text s ms)"
    if "length ?x < buf_size"
    using that 2 by (simp add: json_entry_bounded bounded_def)
  from bounded_chain [of _ _ "json_entries buf_size s ms", OF this] show ?case
    using 2(2) by (simp add: json_entry_bounded)
qed

lemma get_settings_json_text:
  "0 < buf_size \<Longrightarrow> get_settings_json (Some b) buf_size s = bounded buf_size (settings_text s)"
proof -
  assume n: "0 < buf_size"
  have a: "(case json_entries buf_size s settings_map x of
        Inl e \<Rightarrow> Inl e | Inr out2 \<Rightarrow> bounded buf_size (out2 @ ''}'')) =
      bounded buf_size (x @ entries_text s settings_map @ ''}'')" if "length x < buf_size" for x
    using that bounded_chain [of "x @ entries_text s settings_map" buf_size
        "\<lambda>z. bounded buf_size (z @ ''}'')" "''}''"]
    by (simp add: json_entries_bounded)
  show ?thesis
    using n bounded_chain [of "''{''" buf_size "\<lambda>x. case json_entries buf_size s settings_map x of
        Inl e \<Rightarrow> Inl e | Inr out2 \<Rightarrow> bounded buf_size (out2 @ ''}'')", OF a]
    by (simp add: get_settings_json_def json_append_bounded settings_text_def cong: sum.case_cong)
qed

section \<open>Reading back what was written\<close>

fun is_scalar :: "settings_type \<Rightarrow> bool" where
  "is_scalar (STYPE_STRING _ _ _ _) = False"
| "is_scalar _ = True"

text \<open>The two halves of an entry of the map name the same field.\<close>

definition puts_back :: "settings_type \<Rightarrow> bool" where
  "puts_back t =
     (case t of
        STYPE_UINT32 get put \<Rightarrow> \<forall>s. put (get s) s = s
      | STYPE_UINT16 get put \<Rightarrow> \<forall>s. put (get s) s = s
      | STYPE_UINT8 get put \<Rightarrow> \<forall>s. put (get s) s = s
      | STYPE_BOOL get put \<Rightarrow> \<forall>s. put (get s) s = s
      | STYPE_STRING get put _ _ \<Rightarrow> \<forall>s. put (get s) s = s)"

lemma scalar_map_names:
  "(\<forall>m \<in> set scalar_map. key_ok (fst m) \<and> is_scalar (snd m)) \<and> distinct (map fst scalar_map)"
  by (simp add: scalar_map_def key_ok_def dist_field_def emergency_field_def JSON_KEY_BUF_SIZE_def)

lemma settings_map_puts_back: "\<forall>m \<in> set settings_map. puts_back (snd m)"
  by (simp add: settings_map_def scalar_map_def puts_back_def dist_field_def emergency_field_def
      wifi_ssid_def wifi_pass_def)

lemma entries_text_append:
  "ks \<noteq> [] \<Longrightarrow> entries_text s (ms @ ks) =
     concat (map (\<lambda>m. entry_text s m @ '','') ms) @ entries_text s ks"
  by (induction ms) auto

lemma skip_scalar:
  assumes "is_scalar (snd m)" and "key_ok (fst m)" and "key_ok key" and "fst m \<noteq> key"
  shows "strstr (entry_text s m @ CHR '','' # r) (key_pattern key) = strstr r (key_pattern key)"
  using assms j32.value_skipped j16.value_skipped j8.value_skipped jbool.value_skipped
  by (cases "snd m") (simp_all add: entry_text_def json_value_def key_ok_def)

lemma reparse_scalar:
  assumes "is_scalar (snd m)" and "key_ok (fst m)" and "puts_back (snd m)"
    and "strstr json (key_pattern (fst m)) = Some (entry_text s m @ CHR '','' # r)"
  shows "json_setting json m s = Inr s"
proof (cases "snd m")
  case (STYPE_UINT32 get put)
  with assms show ?thesis
    using j32.value_found [of json "fst m" "get s" r]
    by (auto simp: entry_text_def json_value_def json_setting_def puts_back_def)
next
  case (STYPE_UINT16 get put)
  with assms obtain val where "json_find_value json (fst m) = Some val"
      "map_sum id ucast (json_parse_uint val 0xFFFF) = Inr (get s)"
    using j16.value_found [of json "fst m" "get s" r] by (auto simp: entry_text_def json_value_def)
  with assms(3) STYPE_UINT16 show ?thesis
    by (cases "json_parse_uint val 0xFFFF") (auto simp: json_setting_def puts_back_def)
next
  case (STYPE_UINT8 get put)
  with assms obtain val where "json_find_value json (fst m) = Some val"
      "map_sum id ucast (json_parse_uint val 0xFF) = Inr (get s)"
    using j8.value_found [of json "fst m" "get s" r] by (auto simp: entry_text_def json_value_def)
  with assms(3) STYPE_UINT8 show ?thesis
    by (cases "json_parse_uint val 0xFF") (auto simp: json_setting_def puts_back_def)
next
  case (STYPE_BOOL get put)
  with assms show ?thesis
    using jbool.value_found [of json "fst m" "get s" r]
    by (auto simp: entry_text_def json_value_def json_setting_def puts_back_def)
qed (use assms(1) in simp)

text \<open>Looking a key up in the scalars of the text.\<close>

abbreviation scalars_text :: "settings \<Rightarrow> (string \<times> settings_type) list \<Rightarrow> string" where
  "scalars_text s ms \<equiv> concat (map (\<lambda>m. entry_text s m @ '','') ms)"

lemma find_past_scalars:
  "\<forall>m \<in> set ms. key_ok (fst m) \<and> is_scalar (snd m) \<Longrightarrow> key_ok key \<Longrightarrow> key \<notin> fst ` set ms \<Longrightarrow>
     strstr (scalars_text s ms @ r) (key_pattern key) = strstr r (key_pattern key)"
  by (induction ms) (auto simp: skip_scalar)

lemma entry_starts: "\<exists>x. entry_text s m = key_pattern (fst m) @ x"
  by (simp add: entry_text_def json_name_def)

lemma find_scalar:
  assumes "\<forall>m \<in> set ms. key_ok (fst m) \<and> is_scalar (snd m)" and "distinct (map fst ms)"
    and "m \<in> set ms"
  shows "\<exists>r'. strstr (scalars_text s ms @ r) (key_pattern (fst m)) = Some (entry_text s m @ CHR '','' # r')"
  using assms
proof (induction ms)
  case (Cons k ms)
  show ?case
  proof (cases "k = m")
    case True
    obtain x where "entry_text s m = key_pattern (fst m) @ x" using entry_starts by blast
    then show ?thesis
      using True strstr_here [of "key_pattern (fst m)"] by (simp del: strstr.simps)
  next
    case False
    then have "fst k \<noteq> fst m" "m \<in> set ms" using Cons.prems(2,3) by force+
    then show ?thesis using Cons by (simp add: skip_scalar)
  qed
qed simp

lemma json_settings_same:
  "\<forall>m \<in> set ms. json_setting json m s = Inr s \<Longrightarrow> json_settings json ms s = Inr s"
  by (induction ms) simp_all

text \<open>The string values: what the escapes do to the parser and to the search.\<close>

lemma json_chars_escape:
  "length out + length str < buf_size \<Longrightarrow>
     json_chars buf_size (json_escape str @ dquote # r) out = Inr (out @ str)"
  by (induction str arbitrary: out) auto

lemma escaped_prefix:
  "take (length key + 1) (json_escape str @ dquote # r) = key @ [dquote] \<Longrightarrow>
     dquote \<notin> set key \<Longrightarrow> backslash \<notin> set key \<Longrightarrow> json_escape str = key"
proof (induction str arbitrary: key)
  case Nil
  then show ?case by (cases key) auto
next
  case (Cons c str)
  then show ?case by (cases key) (auto split: if_splits)
qed

lemma find_in_value:
  assumes "key = ''wifi_pass''"
  shows "strstr (json_escape str @ dquote # CHR '','' # json_name key @ v) (key_pattern key) \<in>
     {Some (key_pattern key @ CHR '','' # json_name key @ v), Some (json_name key @ v)}"
proof (induction str)
  case Nil
  then show ?case by (simp add: assms json_name_def)
next
  case (Cons c str)
  let ?r = "dquote # CHR '','' # json_name key @ v"
  have key: "dquote \<notin> set key" "backslash \<notin> set key" by (simp_all add: assms)
  have quote: "strstr (dquote # json_escape str @ ?r) (key_pattern key) \<in>
      {Some (key_pattern key @ CHR '','' # json_name key @ v), Some (json_name key @ v)}"
  proof (cases "take (length key + 1) (json_escape str @ ?r) = key @ [dquote]")
    case True
    then have "json_escape str = key" using key by (rule escaped_prefix)
    then show ?thesis using True by simp
  qed (use Cons in simp)
  show ?case using Cons quote by auto
qed

lemma find_past_ssid:
  assumes "key = ''wifi_pass''"
  shows "json_find_value (json_name ''wifi_ssid'' @ dquote # json_escape str @ dquote # CHR '','' #
      json_name key @ [dquote, dquote] @ x) key \<in> {None, Some ([dquote, dquote] @ x)}"
proof -
  have key: "dquote \<notin> set key" "backslash \<notin> set key" "key_ok key" "''wifi_ssid'' \<noteq> key"
    by (simp_all add: assms key_ok_def JSON_KEY_BUF_SIZE_def)
  let ?r = "dquote # CHR '','' # json_name key @ [dquote, dquote] @ x"
  let ?found = "{Some (key_pattern key @ CHR '','' # json_name key @ [dquote, dquote] @ x),
      Some (json_name key @ [dquote, dquote] @ x)}"
  have "strstr (dquote # json_escape str @ ?r) (key_pattern key) \<in> ?found"
  proof (cases "take (length key + 1) (json_escape str @ ?r) = key @ [dquote]")
    case True
    then have "json_escape str = key" using key(1,2) by (rule escaped_prefix)
    then show ?thesis using True by simp
  qed (use find_in_value [OF assms, of str] in simp)
  then have "strstr (json_name ''wifi_ssid'' @ dquote # json_escape str @ ?r) (key_pattern key) \<in> ?found"
    using skip_name [OF _ key(3,4)] by simp
  then show ?thesis
    by (auto simp: json_find_value_def assms json_name_def json_space_def JSON_KEY_BUF_SIZE_def
        simp del: strstr.simps)
qed

lemma strcpy_cstr: "NUL \<in> set b \<Longrightarrow> strcpy b (cstr b) = b"
proof (induction b)
  case (Cons c b)
  then show ?case by (cases "c = NUL") (auto simp: strcpy_def cstr_def)
qed simp

text \<open>The length of the text.\<close>

lemma length_scalar_value: "is_scalar t \<Longrightarrow> length (json_value t s) \<le> 10"
proof -
  have "unat (v :: u32) < 10 ^ 10" "unat (w :: u16) < 10 ^ 10" "unat (x :: u8) < 10 ^ 10" for v w x
    using unsigned_less [of v, where ?'a = nat] unsigned_less [of w, where ?'a = nat]
      unsigned_less [of x, where ?'a = nat] by simp_all
  then show "is_scalar t \<Longrightarrow> length (json_value t s) \<le> 10"
    by (cases t) (simp_all add: json_value_def length_dec_digits)
qed

lemma length_scalars_text:
  "\<forall>m \<in> set ms. is_scalar (snd m) \<Longrightarrow>
     length (scalars_text s ms) \<le> sum_list (map (\<lambda>m. length (fst m) + 14) ms)"
proof (induction ms)
  case (Cons m ms)
  then have "length (entry_text s m) \<le> length (fst m) + 13"
    using length_scalar_value [of "snd m" s]
    by (cases "snd m") (simp_all add: entry_text_def json_name_def)
  with Cons show ?case by simp
qed simp

lemma length_json_escape: "length (json_escape str) \<le> 2 * length str"
  by (induction str) auto

lemma settings_text_split:
  "settings_text s = ''{'' @ scalars_text s scalar_map @ json_name ''wifi_ssid'' @
     dquote # json_escape (cstr (ssid s)) @ dquote # CHR '','' # json_name ''wifi_pass'' @
     [dquote, dquote] @ ''}''"
  by (simp add: settings_text_def settings_map_def entries_text_append)
    (simp add: entry_text_def wifi_ssid_def wifi_pass_def)

lemma length_settings_text:
  assumes "length (cstr (ssid s)) \<le> 32"
  shows "length (settings_text s) < 1024"
proof -
  have "length (scalars_text s scalar_map) \<le> sum_list (map (\<lambda>m. length (fst m) + 14) scalar_map)"
    using scalar_map_names by (intro length_scalars_text) blast
  also have "\<dots> \<le> 700"
    by (simp add: scalar_map_def)
  finally show ?thesis
    using assms length_json_escape [of "cstr (ssid s)"]
    by (simp add: settings_text_split json_name_def)
qed

lemma NUL_not_in_settings_text: "NUL \<notin> set (settings_text s)"
proof -
  have digits: "NUL \<notin> set (dec_digits n)" for n
    using dec_digits_digits [of NUL n] by (auto simp: is_digit_def)
  have scalars: "\<forall>m \<in> set scalar_map. NUL \<notin> set (fst m) \<and> is_scalar (snd m)"
    by (simp add: scalar_map_def dist_field_def emergency_field_def)
  have "NUL \<notin> set (entry_text s m)" if "m \<in> set scalar_map" for m
  proof -
    have "NUL \<notin> set (fst m)" "is_scalar (snd m)" using scalars that by blast+
    then show ?thesis
      using digits by (cases "snd m") (auto simp: entry_text_def json_name_def json_value_def)
  qed
  moreover have "NUL \<notin> set str \<Longrightarrow> NUL \<notin> set (json_escape str)" for str
    by (induction str) auto
  ultimately show ?thesis
    using NUL_not_in_cstr [of "ssid s"] by (auto simp: settings_text_split json_name_def)
qed

text \<open>Every pass of the loop of \<open>set_settings_json\<close> on the text that was written.\<close>

lemma reparse_scalars:
  assumes "m \<in> set scalar_map"
  shows "json_setting (settings_text s) m s = Inr s"
proof -
  obtain r' where "strstr (settings_text s) (key_pattern (fst m)) = Some (entry_text s m @ CHR '','' # r')"
    using find_scalar [of scalar_map m s] scalar_map_names assms by (auto simp: settings_text_split)
  then show ?thesis
    using scalar_map_names settings_map_puts_back assms
    by (intro reparse_scalar) (auto simp: settings_map_def)
qed

lemma reparse_strings:
  assumes "NUL \<in> set (ssid s)" and "length (cstr (ssid s)) < SSID_MAX_LEN"
  shows "json_setting (settings_text s) (''wifi_ssid'', wifi_ssid) s = Inr s"
    and "json_setting (settings_text s) (''wifi_pass'', wifi_pass) s = Inr s"
proof -
  let ?ssid = "json_escape (cstr (ssid s))"
  let ?tail = "dquote # CHR '','' # json_name ''wifi_pass'' @ [dquote, dquote] @ ''}''"
  have keys: "key_ok ''wifi_ssid''" "key_ok ''wifi_pass''"
      "''wifi_ssid'' \<notin> fst ` set scalar_map" "''wifi_pass'' \<notin> fst ` set scalar_map"
    by (simp_all add: key_ok_def JSON_KEY_BUF_SIZE_def scalar_map_def)
  have skip: "strstr (settings_text s) (key_pattern key) =
      strstr (json_name ''wifi_ssid'' @ dquote # ?ssid @ ?tail) (key_pattern key)"
    if "key_ok key" "key \<notin> fst ` set scalar_map" for key
    using find_past_scalars [of scalar_map key s] scalar_map_names that
    by (simp add: settings_text_split)
  have "strstr (settings_text s) (key_pattern ''wifi_ssid'') =
      Some (json_name ''wifi_ssid'' @ dquote # ?ssid @ ?tail)"
    unfolding skip [OF keys(1,3)] by (simp add: json_name_def)
  then have "json_find_value (settings_text s) ''wifi_ssid'' = Some (dquote # ?ssid @ ?tail)"
    using keys(1) refl by (rule find_value_at) (simp add: json_space_def)
  moreover have "json_parse_string (dquote # ?ssid @ ?tail) SSID_MAX_LEN = Inr (cstr (ssid s))"
    using json_chars_escape [of "[]"] assms(2) by (simp add: json_parse_string_def)
  ultimately show "json_setting (settings_text s) (''wifi_ssid'', wifi_ssid) s = Inr s"
    by (simp add: json_setting_def wifi_ssid_def strcpy_cstr [OF assms(1)])
  have "json_find_value (settings_text s) ''wifi_pass'' \<in> {None, Some (dquote # dquote # ''}'')}"
    using find_past_ssid [OF refl, of "cstr (ssid s)" "''}''"]
    unfolding find_value_cong [OF skip [OF keys(2,4)]] by simp
  then show "json_setting (settings_text s) (''wifi_pass'', wifi_pass) s = Inr s"
    by (auto simp: json_setting_def wifi_pass_def json_parse_string_def)
qed

section \<open>What the JSON interface promises\<close>

lemma NUL_in_buffer: "strnlen b n < n \<Longrightarrow> n \<le> length b \<Longrightarrow> NUL \<in> set b \<and> length (cstr b) < n"
proof -
  assume a: "strnlen b n < n" "n \<le> length b"
  have "NUL \<in> set (take n b)"
  proof (rule ccontr)
    assume "NUL \<notin> set (take n b)"
    then have "cstr (take n b) = take n b"
      unfolding cstr_def by (subst takeWhile_eq_all_conv) auto
    with a show False by (simp add: strnlen_def)
  qed
  moreover from this obtain x y where "take n b = x @ NUL # y" "NUL \<notin> set x"
    by (meson split_list_first)
  ultimately show ?thesis
    using a by (metis strnlen_def append_Cons append_assoc append_take_drop_id cstr_append_NUL
        in_set_takeD)
qed

lemma settings_text_pass: "settings_text (s\<lparr>pass := p\<rparr>) = settings_text s"
  by (simp add: settings_text_split)
    (simp add: scalar_map_def entry_text_def json_value_def dist_field_def emergency_field_def)

text \<open>
  C22: the page of the web interface can always be loaded and saved again. For valid settings the
  text fits the 1024 bytes that the caller provides, and sending it back changes no setting, in
  whatever buffer it arrives: \<open>set_settings_json\<close> is then the same as \<open>settings_write\<close>. This
  holds for every name of the network, with quotes, backslashes or the name of a setting in it.
  The text does not depend on the password, and the password is kept.
\<close>

theorem settings_json_roundtrip:
  assumes "settings_wf (global_settings st)" and "settings_valid (global_settings st)"
  shows "\<exists>j. get_settings_json (Some buf) 1024 (global_settings st) = Inr j \<and> length j < 1024 \<and>
     (\<forall>p. get_settings_json (Some buf) 1024 ((global_settings st)\<lparr>pass := p\<rparr>) = Inr j) \<and>
     (\<forall>rest. set_settings_json hw (Some (j @ NUL # rest)) st = settings_write hw st)"
proof -
  let ?s = "global_settings st"
  have ssid: "NUL \<in> set (ssid ?s)" "length (cstr (ssid ?s)) < 33"
    using NUL_in_buffer [of "ssid ?s" 33] assms by (simp_all add: settings_wf_def settings_valid_iff)
  have "\<forall>m \<in> set settings_map. json_setting (settings_text ?s) m ?s = Inr ?s"
    using reparse_scalars reparse_strings [of ?s] ssid by (auto simp: settings_map_def)
  then have "json_settings (settings_text ?s) settings_map ?s = Inr ?s"
    by (rule json_settings_same)
  then have "set_settings_json hw (Some (settings_text ?s @ NUL # rest)) st = settings_write hw st" for rest
    using NUL_not_in_settings_text [of ?s] assms(2)
    by (simp add: set_settings_json_def settings_apply_def)
  then show ?thesis
    using length_settings_text [of ?s] ssid(2)
    by (simp add: get_settings_json_text bounded_def settings_text_pass)
qed

lemma settings_json_roundtrip_witness:
  "let st = \<lparr>global_settings = default_settings, flash = (\<lambda>_. 0xFF)\<rparr>
   in \<exists>j. get_settings_json (Some ()) 1024 default_settings = Inr j \<and> length j < 1024 \<and>
        (\<forall>rest. set_settings_json (nor_flash True True) (Some (j @ NUL # rest)) st =
           settings_write (nor_flash True True) st)"
  using settings_json_roundtrip [of "\<lparr>global_settings = default_settings, flash = (\<lambda>_. 0xFF)\<rparr>"
      "()" "nor_flash True True"]
  by (simp add: Let_def) blast

text \<open>Nothing that a client sends makes a setting leave its field.\<close>

lemma json_chars_result:
  "(case json_chars buf_size val out of
      Inl e \<Rightarrow> e \<noteq> ERR_SUCCESS
    | Inr str \<Rightarrow> length out < buf_size \<longrightarrow> length str < buf_size)"
proof (induction buf_size val out rule: json_chars.induct)
  case (2 buf_size c val out)
  consider "c = dquote" | "c = backslash" | "c \<noteq> dquote" "c \<noteq> backslash" by blast
  then show ?case
  proof cases
    case 2
    with "2.IH"(1) show ?thesis by (cases val) (auto split: sum.splits)
  next
    case 3
    with "2.IH"(2) show ?thesis by (auto simp: json_chars.simps(2) [of _ c val] split: sum.splits)
  qed simp
qed simp

definition keeps_wf :: "settings_type \<Rightarrow> bool" where
  "keeps_wf t =
     (case t of
        STYPE_UINT32 _ put \<Rightarrow> \<forall>v s. settings_wf (put v s) = settings_wf s
      | STYPE_UINT16 _ put \<Rightarrow> \<forall>v s. settings_wf (put v s) = settings_wf s
      | STYPE_UINT8 _ put \<Rightarrow> \<forall>v s. settings_wf (put v s) = settings_wf s
      | STYPE_BOOL _ put \<Rightarrow> \<forall>v s. settings_wf (put v s) = settings_wf s
      | STYPE_STRING _ _ _ _ \<Rightarrow> False)"

lemma scalar_map_keeps_wf: "\<forall>m \<in> set scalar_map. keeps_wf (snd m)"
  by (simp add: scalar_map_def keeps_wf_def dist_field_def emergency_field_def settings_wf_def)

lemma json_setting_wf:
  assumes "json_setting json m s = Inr s'" and "m \<in> set settings_map" and "settings_wf s"
  shows "settings_wf s'"
proof -
  have strings: "length (strcpy b str) = n"
    if "json_parse_string val n = Inr str" "length b = n" "0 < n" for val n str b
    using that json_chars_result [where buf_size = n and val = "tl val" and out = "[]"]
    by (auto simp: json_parse_string_def length_strcpy split: list.splits if_splits)
  show ?thesis
  proof (cases "m \<in> set scalar_map")
    case True
    then have "keeps_wf (snd m)" using scalar_map_keeps_wf by blast
    then show ?thesis
      using assms(1,3)
      by (cases "snd m") (auto simp: json_setting_def keeps_wf_def split: option.splits sum.splits)
  next
    case False
    then have "m = (''wifi_ssid'', wifi_ssid) \<or> m = (''wifi_pass'', wifi_pass)"
      using assms(2) by (auto simp: settings_map_def)
    then show ?thesis
      using assms(1,3) strings [where n = 33] strings [where n = 64]
      by (auto simp: json_setting_def settings_wf_def wifi_ssid_def wifi_pass_def
          split: option.splits sum.splits if_splits)
  qed
qed

lemma json_settings_wf:
  "json_settings json ms s = Inr s' \<Longrightarrow> set ms \<subseteq> set settings_map \<Longrightarrow> settings_wf s \<Longrightarrow> settings_wf s'"
  by (induction json ms s rule: json_settings.induct)
    (auto split: sum.splits dest: json_setting_wf)

lemma json_settings_error: "json_settings json ms s = Inl e \<Longrightarrow> e \<noteq> ERR_SUCCESS"
proof (induction json ms s rule: json_settings.induct)
  case (2 json m ms s)
  have chars: "json_chars n val out = Inl e \<Longrightarrow> e \<noteq> ERR_SUCCESS" for n val out
    using json_chars_result [where buf_size = n and val = val and out = out] by simp
  have "json_setting json m s = Inl e \<Longrightarrow> e \<noteq> ERR_SUCCESS"
    using chars
    by (auto simp: json_setting_def json_parse_uint_def json_parse_bool_def json_parse_string_def Let_def
        split: option.splits settings_type.splits sum.splits if_splits list.splits prod.splits)
  with 2 show ?case by (auto split: sum.splits)
qed simp

text \<open>
  C23: whatever text a client sends, the settings stay valid and inside their fields. An error
  before the settings are applied leaves RAM and flash untouched; otherwise all that was parsed
  is valid and active, and success means that the flash holds it.
\<close>

theorem set_settings_json_safe:
  assumes "settings_wf (global_settings st)" and "set_settings_json hw json st = (err, st')"
  shows "settings_wf (global_settings st') \<and>
     (st' = st \<and> err \<noteq> ERR_SUCCESS \<or>
      settings_valid (global_settings st') \<and> (err = ERR_SUCCESS \<or> err = ERR_FAIL) \<and>
      (err = ERR_SUCCESS \<longrightarrow> flash_target hw (flash st') = settings_bytes (global_settings st')))"
proof (cases json)
  case None
  then show ?thesis using assms by (simp add: set_settings_json_def)
next
  case (Some body)
  show ?thesis
  proof (cases "json_settings (cstr body) settings_map (global_settings st)")
    case (Inl e)
    then show ?thesis
      using assms Some json_settings_error [OF Inl] by (auto simp: set_settings_json_def)
  next
    case (Inr s')
    then have "settings_wf s'" using assms(1) by (auto dest: json_settings_wf)
    moreover have "settings_apply hw (Some s') st = (err, st')"
      using assms(2) Some Inr by (simp add: set_settings_json_def)
    ultimately show ?thesis
      using settings_apply_outcome [of hw "Some s'" st err st'] assms(1)
      by (cases "settings_valid s'") auto
  qed
qed

lemma set_settings_json_safe_witness:
  "let st = \<lparr>global_settings = default_settings, flash = (\<lambda>_. 0xFF)\<rparr>;
       st' = snd (set_settings_json (nor_flash True True) (Some (dquote # ''led_count'' @ dquote # '': 0'')) st)
   in settings_wf (global_settings st') \<and> (st' = st \<or> settings_valid (global_settings st'))"
proof -
  define st where "st = \<lparr>global_settings = default_settings, flash = (\<lambda>_. 0xFF :: u8)\<rparr>"
  obtain err st' where
    r: "set_settings_json (nor_flash True True) (Some (dquote # ''led_count'' @ dquote # '': 0'')) st = (err, st')"
    by (cases "set_settings_json (nor_flash True True) (Some (dquote # ''led_count'' @ dquote # '': 0'')) st")
  have "settings_wf (global_settings st)" by (simp add: st_def)
  from set_settings_json_safe [OF this r] r show ?thesis
    by (auto simp: Let_def st_def)
qed

end
