(* ===== verification/Http_Content.thy ===== *)
theory Http_Content
  imports Http_Json Controller
begin

text \<open>
  The pages of the web server, \<open>src/network/http_server/content.c\<close> and \<open>content.h\<close>: the routes of
  GET and POST requests and the responses they prepare. \<open>malloc\<close> is modelled by \<open>heap\<close>: which
  calls fail is an input, and the number of live blocks is counted. The page that the build
  generates (\<open>index_html\<close>) and the text of \<open>ipaddr_ntoa\<close> are arguments. The response is a
  field of the connection, so its pointer is never \<open>NULL\<close>; \<open>PRINT_REQUEST\<close> is 0.
\<close>

section \<open>The heap\<close>

record heap =
  alloc_fails :: "nat \<Rightarrow> bool"
  allocs :: nat
  live :: int

definition malloc :: "heap \<Rightarrow> bool \<times> heap" where
  "malloc h =
     (if alloc_fails h (allocs h) then (False, h\<lparr>allocs := allocs h + 1\<rparr>)
      else (True, h\<lparr>allocs := allocs h + 1, live := live h + 1\<rparr>))"

text \<open>\<open>free\<close> of a pointer that may be \<open>NULL\<close>.\<close>

definition free_block :: "'a option \<Rightarrow> heap \<Rightarrow> heap" where
  "free_block p h = (if p = None then h else h\<lparr>live := live h - 1\<rparr>)"

section \<open>The response\<close>

record content_response =
  header :: "string option"
  header_len :: nat
  body :: "string option"
  body_len :: nat
  body_static :: bool

definition empty_response :: content_response where
  "empty_response =
     \<lparr>header = None, header_len = 0, body = None, body_len = 0, body_static = False\<rparr>"

text \<open>The operations below return the error code, the response and the heap.\<close>

type_synonym 'a response_result = "'a \<times> content_response \<times> heap"

definition content_response_free :: "content_response \<Rightarrow> heap \<Rightarrow> content_response \<times> heap" where
  "content_response_free r h =
     (let h1 = free_block (header r) h;
          h2 = (if \<not> body_static r then free_block (body r) h1 else h1)
      in (empty_response, h2))"

definition set_body_copy ::
    "string \<Rightarrow> content_response \<Rightarrow> heap \<Rightarrow> err_code response_result" where
  "set_body_copy data r h =
     (let (ok, h1) = malloc h
      in if \<not> ok then (ERR_MEM_ALLOC_FAIL, r\<lparr>body := None\<rparr>, h1)
         else (ERR_SUCCESS, r\<lparr>body := Some data, body_len := length data, body_static := False\<rparr>, h1))"

definition set_body_static :: "string \<Rightarrow> content_response \<Rightarrow> content_response" where
  "set_body_static data r = r\<lparr>body := Some data, body_len := length data, body_static := True\<rparr>"

definition HTTP_HEADER_MAX_SIZE :: nat where "HTTP_HEADER_MAX_SIZE = 256"
definition JSON_BUF_SIZE_MAX :: nat where "JSON_BUF_SIZE_MAX = 1024"

definition crlf :: string where
  "crlf = [CHR 0x0D, CHR 0x0A]"

definition http_response_header :: "nat \<Rightarrow> string \<Rightarrow> nat \<Rightarrow> string \<Rightarrow> string" where
  "http_response_header code reason len content_type =
     ''HTTP/1.1 '' @ dec_digits code @ '' '' @ reason @ crlf @
     ''Content-Length: '' @ dec_digits len @ crlf @
     ''Content-Type: '' @ content_type @ crlf @ ''Connection: close'' @ crlf @ crlf"

definition http_response_redirect :: "string \<Rightarrow> string" where
  "http_response_redirect addr =
     ''HTTP/1.1 302 Found'' @ crlf @ ''Location: http://'' @ addr @ ''/index.html'' @ crlf @
     ''Content-Length: 0'' @ crlf @ ''Connection: close'' @ crlf @ crlf"

text \<open>\<open>malloc\<close> of the header and \<open>snprintf\<close> into it, which cuts off what does not fit.\<close>

definition print_header :: "string \<Rightarrow> content_response \<Rightarrow> heap \<Rightarrow> err_code response_result" where
  "print_header text r h =
     (let (ok, h1) = malloc h
      in if \<not> ok then (ERR_MEM_ALLOC_FAIL, r\<lparr>header := None\<rparr>, h1)
         else
           let r1 = r\<lparr>header := Some (take (HTTP_HEADER_MAX_SIZE - 1) text)\<rparr>
           in if text = [] \<or> length text \<ge> HTTP_HEADER_MAX_SIZE then (ERR_OVERFLOW, r1, h1)
              else (ERR_SUCCESS, r1\<lparr>header_len := length text\<rparr>, h1))"

definition set_header ::
    "nat \<Rightarrow> string \<Rightarrow> string \<Rightarrow> content_response \<Rightarrow> heap \<Rightarrow> err_code response_result" where
  "set_header code reason content_type r h =
     print_header (http_response_header code reason (body_len r) content_type) r h"

definition set_redirect ::
    "string \<Rightarrow> content_response \<Rightarrow> heap \<Rightarrow> err_code response_result" where
  "set_redirect addr r h = print_header (http_response_redirect addr) r h"

definition CONTENT_TYPE_HTML :: string where "CONTENT_TYPE_HTML = ''text/html; charset=utf-8''"
definition CONTENT_TYPE_JSON :: string where "CONTENT_TYPE_JSON = ''application/json''"

definition JSON_STATUS_OK :: string where
  "JSON_STATUS_OK = ''{'' @ [dquote] @ ''status'' @ [dquote, CHR '':'', dquote] @ ''ok'' @ [dquote] @ ''}''"

definition JSON_STATUS_ERROR :: string where
  "JSON_STATUS_ERROR =
     ''{'' @ [dquote] @ ''status'' @ [dquote, CHR '':'', dquote] @ ''error'' @ [dquote] @ ''}''"

definition set_json_status ::
    "bool \<Rightarrow> content_response \<Rightarrow> heap \<Rightarrow> err_code response_result" where
  "set_json_status ok r h =
     (if ok then set_header 200 ''OK'' CONTENT_TYPE_JSON (set_body_static JSON_STATUS_OK r) h
      else set_header 400 ''Bad Request'' CONTENT_TYPE_JSON (set_body_static JSON_STATUS_ERROR r) h)"

section \<open>Pages\<close>

text \<open>The format \<open>STATUS_JSON\<close>, with its separators and values.\<close>

definition json_item :: "string \<Rightarrow> string \<Rightarrow> string" where
  "json_item name v = dquote # name @ [dquote] @ '': '' @ v"

definition status_json :: "status \<Rightarrow> string" where
  "status_json st =
     (let sep = [CHR '','', CHR 0x0A];
          dist = (\<lambda>i. dec_digits (unat (sensor_distance st i)));
          cnt = (\<lambda>i. dec_digits (unat (sensor_error_cnt st i)))
      in ''{'' @ json_item ''peopleCount'' (dec_int (people_count st)) @ sep @
         json_item ''lightValue'' (dec_digits (unat (light_value st))) @ sep @
         json_item ''sen0dist'' (dist STAIRWAY_SENS_UP_FIRST) @ sep @
         json_item ''sen1dist'' (dist STAIRWAY_SENS_UP_SECOND) @ sep @
         json_item ''sen2dist'' (dist STAIRWAY_SENS_DOWN_FIRST) @ sep @
         json_item ''sen3dist'' (dist STAIRWAY_SENS_DOWN_SECOND) @ sep @
         json_item ''sen0err'' (cnt STAIRWAY_SENS_UP_FIRST) @ sep @
         json_item ''sen1err'' (cnt STAIRWAY_SENS_UP_SECOND) @ sep @
         json_item ''sen2err'' (cnt STAIRWAY_SENS_DOWN_FIRST) @ sep @
         json_item ''sen3err'' (cnt STAIRWAY_SENS_DOWN_SECOND) @ ''}'')"

definition prepare_json_status ::
    "status \<Rightarrow> content_response \<Rightarrow> heap \<Rightarrow> err_code response_result" where
  "prepare_json_status st r h =
     (let json = status_json st
      in if json = [] \<or> length json \<ge> JSON_BUF_SIZE_MAX then (ERR_OVERFLOW, r, h)
         else set_body_copy json r h)"

definition prepare_json_settings ::
    "settings \<Rightarrow> content_response \<Rightarrow> heap \<Rightarrow> err_code response_result" where
  "prepare_json_settings s r h =
     (case get_settings_json (Some ()) JSON_BUF_SIZE_MAX s of
        Inl e \<Rightarrow> (e, r, h)
      | Inr json \<Rightarrow> set_body_copy json r h)"

text \<open>What the handlers work on: the state of \<open>main.c\<close>, the settings and the clock.\<close>

record web_world =
  web_ctl :: controller
  web_store :: settings_store
  web_clock :: clock

text \<open>The exit path of both handlers, and a header behind a body.\<close>

definition finish :: "err_code response_result \<Rightarrow> err_code response_result" where
  "finish = (\<lambda>(err, r, h).
     if err = ERR_SUCCESS then (err, r, h) else (err, content_response_free r h))"

definition then_header ::
    "err_code response_result \<Rightarrow> nat \<Rightarrow> string \<Rightarrow> string \<Rightarrow> err_code response_result" where
  "then_header res code reason content_type =
     (case res of (err, r, h) \<Rightarrow>
        if err \<noteq> ERR_SUCCESS then (err, r, h) else set_header code reason content_type r h)"

record content_get_request =
  get_path :: "string option"
  get_params :: "string list"

definition get_content ::
    "string \<Rightarrow> web_world \<Rightarrow> string option \<Rightarrow> content_get_request option \<Rightarrow>
     content_response \<Rightarrow> heap \<Rightarrow> err_code response_result" where
  "get_content index_html w gw req_ptr r h =
     (case (gw, req_ptr) of
        (Some addr, Some req) \<Rightarrow>
          (case get_path req of
             None \<Rightarrow> (ERR_PARAM_IS_NULL, r, h)
           | Some path \<Rightarrow>
               let (r1, h1) = content_response_free r h
               in finish
                    (if path = ''/'' \<or> path = ''/index.html'' then
                       set_header 200 ''OK'' CONTENT_TYPE_HTML (set_body_static index_html r1) h1
                     else if path = ''/api/info'' then
                       then_header (prepare_json_status (status (web_ctl w)) r1 h1)
                         200 ''OK'' CONTENT_TYPE_JSON
                     else if path = ''/api/settings'' then
                       then_header (prepare_json_settings (global_settings (web_store w)) r1 h1)
                         200 ''OK'' CONTENT_TYPE_JSON
                     else set_redirect addr r1 h1))
      | _ \<Rightarrow> (ERR_PARAM_IS_NULL, r, h))"

record content_post_request =
  post_path :: "string option"
  post_body :: "string option"
  post_body_len :: u32

definition set_test_mode :: "bool \<Rightarrow> web_world \<Rightarrow> web_world" where
  "set_test_mode b w =
     w\<lparr>web_ctl := (web_ctl w)\<lparr>status := (status (web_ctl w))\<lparr>test_mode := b\<rparr>\<rparr>\<rparr>"

definition post_content ::
    "flash_hw \<Rightarrow> content_post_request option \<Rightarrow> web_world \<Rightarrow> content_response \<Rightarrow> heap \<Rightarrow>
     web_world \<times> err_code response_result" where
  "post_content hw req_ptr w r h =
     (case req_ptr of
        None \<Rightarrow> (w, ERR_PARAM_IS_NULL, r, h)
      | Some req \<Rightarrow>
          (case (post_path req, post_body req) of
             (Some path, Some bdy) \<Rightarrow>
               let (r1, h1) = content_response_free r h
               in if path = ''/api/settings'' then
                    let (err, st) = set_settings_json hw (Some bdy) (web_store w)
                    in (w\<lparr>web_store := st\<rparr>, finish (set_json_status (err = ERR_SUCCESS) r1 h1))
                  else if path = ''/api/test_on'' then
                    (set_test_mode True w, finish (set_json_status True r1 h1))
                  else if path = ''/api/test_off'' then
                    (set_test_mode False w, finish (set_json_status True r1 h1))
                  else if path = ''/api/reset'' then
                    let (err, restart, st) = settings_default hw False (web_store w)
                    in (w\<lparr>web_store := st\<rparr>, finish (set_json_status (err = ERR_SUCCESS) r1 h1))
                  else if path = ''/api/restart'' then
                    let (k, c) = reboot_request 500 (web_ctl w) (web_clock w)
                    in (w\<lparr>web_ctl := k, web_clock := c\<rparr>, finish (set_json_status True r1 h1))
                  else (w, finish (set_header 404 ''Not Found'' CONTENT_TYPE_JSON
                                     (set_body_static [] r1) h1))
           | _ \<Rightarrow> (w, ERR_PARAM_IS_NULL, r, h)))"

section \<open>Blocks and bounds\<close>

text \<open>The blocks that a response owns, and the lengths that the server relies on.\<close>

definition owned :: "content_response \<Rightarrow> int" where
  "owned r = (if header r = None then 0 else 1) +
     (if body r = None \<or> body_static r then 0 else 1)"

definition response_body :: "content_response \<Rightarrow> string" where
  "response_body r = (case body r of None \<Rightarrow> [] | Some b \<Rightarrow> b)"

definition response_full :: "content_response \<Rightarrow> bool" where
  "response_full r \<longleftrightarrow> body_len r = length (response_body r) \<and>
     (\<exists>t. header r = Some t \<and> header_len r = length t \<and> 0 < length t \<and>
          length t < HTTP_HEADER_MAX_SIZE)"

text \<open>What an operation on a response without a header promises.\<close>

fun serves :: "content_response \<Rightarrow> heap \<Rightarrow> err_code response_result \<Rightarrow> bool" where
  "serves r h (err, r', h') \<longleftrightarrow> live h' - owned r' = live h - owned r \<and>
     (if err = ERR_SUCCESS then response_full r' else r' = empty_response)"

lemma live_malloc: "malloc h = (ok, h') \<Longrightarrow> live h' = live h + (if ok then 1 else 0)"
  by (auto simp: malloc_def split: if_splits)

lemma live_content_response_free:
  "content_response_free r h = (r', h') \<Longrightarrow> r' = empty_response \<and> live h' = live h - owned r"
  by (auto simp: content_response_free_def free_block_def owned_def Let_def split: if_splits)

lemma owned_empty [simp]: "owned empty_response = 0"
  by (simp add: owned_def empty_response_def)

definition body_ready :: "content_response \<Rightarrow> bool" where
  "body_ready r \<longleftrightarrow> header r = None \<and> body_len r = length (response_body r)"

lemma body_ready_intros:
  "body_ready empty_response" "body_ready r \<Longrightarrow> body_ready (set_body_static d r)"
  "body_ready r \<Longrightarrow> set_body_copy d r h = (ERR_SUCCESS, r', h') \<Longrightarrow> body_ready r'"
  by (auto simp: body_ready_def empty_response_def response_body_def set_body_static_def
      set_body_copy_def split: if_splits prod.splits)

lemma serves_finish:
  assumes "live h' - owned r' = live h - owned r" and "err = ERR_SUCCESS \<Longrightarrow> response_full r'"
  shows "serves r h (finish (err, r', h'))"
  using assms live_content_response_free [of r' h']
  by (cases "content_response_free r' h'") (auto simp: finish_def)

lemma print_header_effect:
  assumes "body_ready r" and "print_header t r h = (err, r', h')"
  shows "live h' - owned r' = live h - owned r" and "err = ERR_SUCCESS \<Longrightarrow> response_full r'"
  using assms live_malloc [of h]
  by (auto simp: print_header_def body_ready_def owned_def response_full_def response_body_def Let_def
      HTTP_HEADER_MAX_SIZE_def split: prod.splits if_splits)

lemma serves_print_header:
  "body_ready r \<Longrightarrow> live h - owned r = live h0 - owned r0 \<Longrightarrow>
     serves r0 h0 (finish (print_header t r h))"
  using print_header_effect [of r t h] serves_finish
  by (cases "print_header t r h") fastforce

lemmas serves_set_header = serves_print_header
    [of r _ _ _ "http_response_header code reason (body_len r) content_type"
      for r code reason content_type, folded set_header_def]
lemmas serves_set_redirect = serves_print_header
    [of _ _ _ _ "http_response_redirect addr" for addr, folded set_redirect_def]

lemma owned_set_body_static: "body r = None \<Longrightarrow> owned (set_body_static d r) = owned r"
  by (simp add: owned_def set_body_static_def)

lemma set_body_copy_effect:
  assumes "set_body_copy d r h = (err, r', h')" and "body r = None" and "header r = None"
  shows "live h' - owned r' = live h - owned r"
  using assms live_malloc [of h]
  by (auto simp: set_body_copy_def owned_def split: prod.splits if_splits)

lemma serves_then_header:
  assumes "live h' - owned r' = live h - owned r" and "err = ERR_SUCCESS \<Longrightarrow> body_ready r'"
  shows "serves r h (finish (then_header (err, r', h') code reason ct))"
proof (cases "err = ERR_SUCCESS")
  case True
  with assms show ?thesis by (simp add: then_header_def serves_set_header)
next
  case False
  with assms(1) show ?thesis by (auto simp: then_header_def intro: serves_finish)
qed

lemma serves_body_copy:
  assumes "set_body_copy d empty_response h = res"
  shows "serves empty_response h (finish (then_header res code reason ct))"
proof -
  obtain err r' h' where res: "res = (err, r', h')" by (cases res)
  have "live h' - owned r' = live h - owned empty_response"
    using assms res by (intro set_body_copy_effect) (auto simp: empty_response_def)
  moreover have "body_ready r'" if "err = ERR_SUCCESS"
    using assms res that body_ready_intros by blast
  ultimately show ?thesis unfolding res by (intro serves_then_header)
qed

lemma serves_failed:
  "e \<noteq> ERR_SUCCESS \<Longrightarrow> serves r h (finish (then_header (e, r, h) code reason ct))"
  by (intro serves_then_header) auto

lemma serves_status_page:
  "serves empty_response h (finish (then_header (prepare_json_status st empty_response h) code reason ct))"
  by (simp add: prepare_json_status_def Let_def serves_body_copy serves_failed)

lemma serves_settings_page:
  "serves empty_response h (finish (then_header (prepare_json_settings s empty_response h) code reason ct))"
proof (cases "get_settings_json (Some ()) JSON_BUF_SIZE_MAX s")
  case (Inl e)
  then have "e \<noteq> ERR_SUCCESS"
    by (simp add: JSON_BUF_SIZE_MAX_def get_settings_json_text bounded_def split: if_splits)
  with Inl show ?thesis by (simp add: prepare_json_settings_def serves_failed)
qed (simp add: prepare_json_settings_def serves_body_copy)

lemma serves_static:
  "serves empty_response h (finish (set_header code reason ct (set_body_static d empty_response) h))"
  by (intro serves_set_header body_ready_intros)
    (simp add: owned_set_body_static empty_response_def)

lemma serves_json_status:
  "serves empty_response h (finish (set_json_status ok empty_response h))"
  by (simp add: set_json_status_def serves_static)

lemma serves_after_free:
  assumes "content_response_free r h = (r1, h1)" and "serves empty_response h1 res"
  shows "serves r h res"
  using assms live_content_response_free [OF assms(1)] by (cases res) auto

section \<open>The contract of a page\<close>

text \<open>
  What the server relies on when it calls a handler: a page that is served has a header and a
  body of the lengths it says, a page that is not leaves nothing behind, and every block on
  the heap is owned by the response.
\<close>

locale page_handler =
  fixes serve :: "'q \<Rightarrow> 'w \<Rightarrow> content_response \<Rightarrow> heap \<Rightarrow> 'w \<times> err_code response_result"
  assumes contract: "serve q w r h = (w', res) \<Longrightarrow> serves r h res"
begin

lemma served:
  assumes "serve q w r h = (w', ERR_SUCCESS, r', h')"
  shows "response_full r'" and "live h' = live h - owned r + owned r'"
  using contract [OF assms] by auto

lemma refused:
  assumes "serve q w r h = (w', err, r', h')" and "err \<noteq> ERR_SUCCESS"
  shows "r' = empty_response" and "live h' = live h - owned r"
  using contract [OF assms(1)] assms(2) by auto

lemma closed:
  assumes "serve q w r h = (w', err, r', h')"
  shows "live (snd (content_response_free r' h')) = live h - owned r"
  using contract [OF assms] live_content_response_free [of r' h']
  by (cases "content_response_free r' h'") auto

end

interpretation get_page: page_handler
    "\<lambda>(addr, path, params) w r h.
       (w, get_content index_html w (Some addr)
             (Some \<lparr>get_path = Some path, get_params = params\<rparr>) r h)" for index_html
proof unfold_locales
  fix q :: "string \<times> string \<times> string list" and w w' :: web_world and r h res
  obtain addr path params where q: "q = (addr, path, params)" by (cases q)
  obtain r1 h1 where f: "content_response_free r h = (r1, h1)" by fastforce
  then have "r1 = empty_response" using live_content_response_free by blast
  moreover assume "(case q of (addr, path, params) \<Rightarrow> \<lambda>w r h.
       (w, get_content index_html w (Some addr)
             (Some \<lparr>get_path = Some path, get_params = params\<rparr>) r h)) w r h = (w', res)"
  ultimately show "serves r h res"
    by (intro serves_after_free [OF f])
      (auto simp: q get_content_def f serves_status_page serves_settings_page serves_static
        serves_set_redirect body_ready_intros)
qed

interpretation post_page: page_handler
    "\<lambda>(path, bdy, n) w r h. post_content hw
       (Some \<lparr>post_path = Some path, post_body = Some bdy, post_body_len = n\<rparr>) w r h" for hw
proof unfold_locales
  fix q :: "string \<times> string \<times> u32" and w w' :: web_world and r h res
  obtain path bdy n where q: "q = (path, bdy, n)" by (cases q)
  obtain r1 h1 where f: "content_response_free r h = (r1, h1)" by fastforce
  then have "r1 = empty_response" using live_content_response_free by blast
  moreover assume "(case q of (path, bdy, n) \<Rightarrow> \<lambda>w r h. post_content hw
       (Some \<lparr>post_path = Some path, post_body = Some bdy, post_body_len = n\<rparr>) w r h) w r h = (w', res)"
  ultimately show "serves r h res"
    by (intro serves_after_free [OF f])
      (auto simp: q post_content_def f serves_json_status serves_static
        split: prod.splits if_splits)
qed

end
