(* ===== verification/Http_Request.thy ===== *)
theory Http_Request
  imports C_Strings
begin

text \<open>
  The reassembly of a request in \<open>src/network/http_server/http_server.c\<close>: the buffer of a
  connection, the part of \<open>tcp_server_recv\<close> that stores a packet and looks for the end of the
  header and of the body, and the small parsers of the header. The buffer is the list of its
  characters; an access outside of it, or a string in it without a terminator, makes the
  operation \<open>None\<close>.
\<close>

section \<open>The buffer\<close>

definition HTTP_REQUEST_MAX_SIZE :: u32 where "HTTP_REQUEST_MAX_SIZE = 2048"

record http_request =
  data :: string
  data_len :: u32
  body_offset :: u32
  content_len :: u32
  header_complete :: bool
  processed :: bool

text \<open>\<open>calloc\<close> clears the whole state of a connection.\<close>

definition request_start :: http_request where
  "request_start =
     \<lparr> data = replicate (unat HTTP_REQUEST_MAX_SIZE + 1) NUL, data_len = 0, body_offset = 0,
       content_len = 0, header_complete = False, processed = False \<rparr>"

section \<open>Parsers of the header\<close>

definition HTTP_CONTENT_LENGTH :: string where "HTTP_CONTENT_LENGTH = ''Content-Length:''"

definition to_lower :: "char \<Rightarrow> char" where
  "to_lower c = (if 65 \<le> (of_char c :: nat) \<and> (of_char c :: nat) \<le> 90
                 then char_of (of_char c + 32 :: nat) else c)"

text \<open>\<open>strncasecmp (a, b, strlen (b)) == 0\<close>.\<close>

definition same_prefix_case :: "string \<Rightarrow> string \<Rightarrow> bool" where
  "same_prefix_case a b \<longleftrightarrow> map to_lower (take (length b) a) = map to_lower b"

function get_content_length :: "string \<Rightarrow> u32" where
  "get_content_length line =
     (if line = [] then 0
      else if same_prefix_case line HTTP_CONTENT_LENGTH then
        snd (strtoul (drop (length HTTP_CONTENT_LENGTH) line))
      else (case dropWhile (\<lambda>c. c \<noteq> CHR 0x0A) line of
              [] \<Rightarrow> 0
            | _ # rest \<Rightarrow> get_content_length rest))"
  by pat_completeness auto
termination
proof (relation "measure length", simp)
  fix line :: string and x rest
  assume "dropWhile (\<lambda>c. c \<noteq> CHR 0x0A) line = x # rest"
  then have "length (x # rest) \<le> length line" by (metis length_dropWhile_le)
  then show "(rest, line) \<in> measure length" by simp
qed

declare get_content_length.simps [simp del]

text \<open>The end of the header: its offset and the length of the empty line.\<close>

definition crlf2 :: string where "crlf2 = [CHR 0x0D, CHR 0x0A, CHR 0x0D, CHR 0x0A]"
definition lf2 :: string where "lf2 = [CHR 0x0A, CHR 0x0A]"

definition find_header_end :: "string \<Rightarrow> (nat \<times> nat) option" where
  "find_header_end s =
     (case strstr s crlf2 of
        Some e \<Rightarrow> Some (length s - length e, 4)
      | None \<Rightarrow>
          (case strstr s lf2 of
             Some e \<Rightarrow> Some (length s - length e, 2)
           | None \<Rightarrow> None))"

text \<open>The request path behind the method, and the two halves around its first \<open>?\<close>.\<close>

definition get_request_path :: "string \<Rightarrow> nat \<Rightarrow> string" where
  "get_request_path hdr method_len =
     takeWhile (\<lambda>c. c \<noteq> CHR '' '' \<and> c \<noteq> CHR 0x0D \<and> c \<noteq> CHR 0x0A) (drop method_len hdr)"

definition split_query :: "string \<Rightarrow> string \<times> string option" where
  "split_query path =
     (case dropWhile (\<lambda>c. c \<noteq> CHR ''?'') path of
        [] \<Rightarrow> (path, None)
      | _ # ps \<Rightarrow> (takeWhile (\<lambda>c. c \<noteq> CHR ''?'') path, Some ps))"

fun split_params :: "string \<Rightarrow> string list" where
  "split_params [] = [[]]"
| "split_params (c # s) =
     (if c = CHR ''&'' then [] # split_params s
      else (c # hd (split_params s)) # tl (split_params s))"

section \<open>Storing a packet\<close>

datatype recv_outcome = Too_Large | Wait | Ready

text \<open>The search for the end of the header, when it has not been found before.\<close>

definition parse_header :: "http_request \<Rightarrow> (recv_outcome \<times> http_request) option" where
  "parse_header req =
     (case string_at 0 (data req) of
        None \<Rightarrow> None
      | Some s \<Rightarrow>
          (case find_header_end s of
             None \<Rightarrow> Some (Wait, req)
           | Some (pos, sep_len) \<Rightarrow>
               (case store_text pos [NUL] (data req) of
                  None \<Rightarrow> None
                | Some d \<Rightarrow>
                    (case string_at 0 d of
                       None \<Rightarrow> None
                     | Some hdr \<Rightarrow>
                         let req1 = req\<lparr>data := d, body_offset := of_nat (pos + sep_len),
                                        content_len := get_content_length hdr\<rparr>
                         in if content_len req1 > HTTP_REQUEST_MAX_SIZE - body_offset req1
                            then Some (Too_Large, req1)
                            else Some (Ready, req1\<lparr>header_complete := True\<rparr>)))))"

text \<open>The wait for the body.\<close>

definition parse_body :: "http_request \<Rightarrow> (recv_outcome \<times> http_request) option" where
  "parse_body req =
     (if data_len req - body_offset req < content_len req then Some (Wait, req)
      else (case store_text (unat (body_offset req + content_len req)) [NUL] (data req) of
              None \<Rightarrow> None
            | Some d \<Rightarrow> Some (Ready, req\<lparr>data := d, processed := True\<rparr>)))"

text \<open>\<open>tcp_server_recv\<close> from the check of the size to the complete request.\<close>

definition request_recv :: "string \<Rightarrow> http_request \<Rightarrow> (recv_outcome \<times> http_request) option" where
  "request_recv payload req =
     (if of_nat (length payload) > HTTP_REQUEST_MAX_SIZE - data_len req then Some (Too_Large, req)
      else (case store_text (unat (data_len req)) payload (data req) of
              None \<Rightarrow> None
            | Some d1 \<Rightarrow>
                let len = data_len req + of_nat (length payload)
                in (case store_text (unat len) [NUL] d1 of
                      None \<Rightarrow> None
                    | Some d2 \<Rightarrow>
                        let req1 = req\<lparr>data := d2, data_len := len\<rparr>
                        in if header_complete req1 then parse_body req1
                           else (case parse_header req1 of
                                   None \<Rightarrow> None
                                 | Some (Ready, req2) \<Rightarrow> parse_body req2
                                 | Some (out, req2) \<Rightarrow> Some (out, req2)))))"

section \<open>The buffer is never left\<close>

definition request_inv :: "http_request \<Rightarrow> bool" where
  "request_inv r \<longleftrightarrow>
     length (data r) = 2049 \<and> unat (data_len r) \<le> 2048 \<and> data r ! unat (data_len r) = NUL \<and>
     (header_complete r \<longrightarrow> unat (body_offset r) \<le> unat (data_len r) \<and>
        unat (body_offset r) + unat (content_len r) \<le> 2048)"

lemma request_start_inv: "request_inv request_start"
  by (simp add: request_inv_def request_start_def HTTP_REQUEST_MAX_SIZE_def nth_replicate del: replicate_Suc)

lemma length_cstr_le: "i < length b \<Longrightarrow> b ! i = NUL \<Longrightarrow> length (cstr b) \<le> i"
proof (rule ccontr)
  assume a: "i < length b" "b ! i = NUL" "\<not> length (cstr b) \<le> i"
  then have "cstr b ! i = b ! i" unfolding cstr_def by (intro takeWhile_nth) simp
  moreover have "cstr b ! i \<in> set (cstr b)" using a(3) by simp
  ultimately show False using a(2) NUL_not_in_cstr by metis
qed

lemma string_at_NUL: "i \<le> j \<Longrightarrow> j < length b \<Longrightarrow> b ! j = NUL \<Longrightarrow>
    string_at i b = Some (cstr (drop i b)) \<and> length (cstr (drop i b)) \<le> j - i"
proof -
  assume a: "i \<le> j" "j < length b" "b ! j = NUL"
  then have n: "drop i b ! (j - i) = NUL" "j - i < length (drop i b)" by auto
  then have "NUL \<in> set (drop i b)" by (metis nth_mem)
  then show ?thesis using length_cstr_le [OF n(2,1)] by (simp add: string_at_def)
qed

lemma find_header_end_bounds:
  assumes "find_header_end s = Some (pos, n)"
  shows "pos + n \<le> length s" and "0 < n"
proof -
  have "length s - length e + length p \<le> length s" if "strstr s p = Some e" for e p
    using strstr_SomeD [OF that] by (metis add_le_cancel_left length_append length_take min.cobounded2
        add_diff_cancel_right' min.commute min.bounded_iff order_refl)
  from this [of crlf2] this [of lf2] assms show "pos + n \<le> length s" "0 < n"
    by (auto simp: find_header_end_def crlf2_def lf2_def split: option.splits)
qed

lemma store_text_inside:
  "i + length s \<le> length b \<Longrightarrow> \<exists>d. store_text i s b = Some d \<and> length d = length b \<and>
     (\<forall>j < i. d ! j = b ! j) \<and> (\<forall>j. i \<le> j \<and> j < i + length s \<longrightarrow> d ! j = s ! (j - i)) \<and>
     (\<forall>j. i + length s \<le> j \<and> j < length b \<longrightarrow> d ! j = b ! j)"
  by (auto simp: store_text_def nth_append)

lemma size_limit: "unat (HTTP_REQUEST_MAX_SIZE - n) = 2048 - unat n" if "unat n \<le> 2048"
  using that by (simp add: HTTP_REQUEST_MAX_SIZE_def unat_sub word_le_nat_alt)

lemma unat_sum: "unat (a :: u32) + unat b < 2 ^ 32 \<Longrightarrow> unat (a + b) = unat a + unat b"
  by (simp add: unat_word_ariths)

lemma unat_length: "n < 2 ^ 32 \<Longrightarrow> unat (of_nat n :: u32) = n"
  by (simp add: unat_of_nat)

text \<open>Storing one character keeps the rest.\<close>

lemma store_NUL_inv:
  assumes "request_inv r" and "i < length (data r)"
  shows "\<exists>d. store_text i [NUL] (data r) = Some d \<and> request_inv (r\<lparr>data := d\<rparr>) \<and> d ! i = NUL"
proof -
  have "store_text i [NUL] (data r) = Some ((data r)[i := NUL])"
    using assms(2) by (simp add: store_text_def upd_conv_take_nth_drop)
  moreover have "(data r)[i := NUL] ! unat (data_len r) = NUL"
    using assms by (simp add: request_inv_def nth_list_update)
  ultimately show ?thesis using assms by (simp add: request_inv_def)
qed

lemma parse_header_safe:
  assumes "request_inv r" and "\<not> header_complete r"
  shows "\<exists>out r'. parse_header r = Some (out, r') \<and> request_inv r' \<and> data_len r' = data_len r \<and>
     (out = Ready \<longrightarrow> header_complete r') \<and> (out = Wait \<longrightarrow> r' = r) \<and> processed r' = processed r"
proof -
  let ?n = "unat (data_len r)"
  have n: "?n < length (data r)" "data r ! ?n = NUL" "?n \<le> 2048"
    using assms(1) by (auto simp: request_inv_def)
  obtain s where s: "string_at 0 (data r) = Some s" "length s \<le> ?n"
    using string_at_NUL [OF _ n(1,2), of 0] by auto
  show ?thesis
  proof (cases "find_header_end s")
    case None
    then show ?thesis using assms s by (simp add: parse_header_def)
  next
    case (Some pn)
    then obtain pos k where pk: "find_header_end s = Some (pos, k)" by (cases pn) auto
    have b: "pos + k \<le> ?n" "0 < k" using find_header_end_bounds [OF pk] s(2) by auto
    then obtain d where d: "store_text pos [NUL] (data r) = Some d" "request_inv (r\<lparr>data := d\<rparr>)"
        "d ! pos = NUL"
      using store_NUL_inv [OF assms(1), of pos] n by auto
    have ld: "length d = 2049" using d(2) by (simp add: request_inv_def)
    obtain hdr where h: "string_at 0 d = Some hdr"
      using string_at_NUL [of 0 pos d] d(3) b n(1,3) ld by auto
    have off: "unat (of_nat (pos + k) :: u32) = pos + k"
      using b n(3) by (intro unat_length) simp
    have lim: "unat (HTTP_REQUEST_MAX_SIZE - of_nat (pos + k)) = 2048 - (pos + k)"
      using off b n(3) by (subst size_limit) simp_all
    show ?thesis
    proof (cases "get_content_length hdr > HTTP_REQUEST_MAX_SIZE - of_nat (pos + k)")
      case True
      then show ?thesis using s(1) pk d h assms
        by (simp add: parse_header_def Let_def request_inv_def)
    next
      case False
      then have "unat (get_content_length hdr) \<le> 2048 - (pos + k)"
        using lim by (simp add: word_le_nat_alt not_less)
      then show ?thesis using False s(1) pk d(1,2) h off b n(3)
        by (simp add: parse_header_def Let_def request_inv_def del: of_nat_add)
    qed
  qed
qed

lemma parse_body_safe:
  assumes "request_inv r" and "header_complete r"
  shows "\<exists>out r'. parse_body r = Some (out, r') \<and> request_inv r' \<and> header_complete r' \<and>
     (out = Ready \<and> processed r' \<and>
        (\<exists>b. string_at (unat (body_offset r')) (data r') = Some b \<and>
             length b \<le> unat (content_len r')) \<or>
      out = Wait \<and> r' = r)"
proof (cases "data_len r - body_offset r < content_len r")
  case True
  then show ?thesis using assms by (simp add: parse_body_def)
next
  case False
  have b: "unat (body_offset r) + unat (content_len r) \<le> 2048" "length (data r) = 2049"
    using assms by (auto simp: request_inv_def)
  then have e: "unat (body_offset r + content_len r) = unat (body_offset r) + unat (content_len r)"
    by (intro unat_sum) simp
  obtain d where d: "store_text (unat (body_offset r + content_len r)) [NUL] (data r) = Some d"
      "request_inv (r\<lparr>data := d\<rparr>)" "d ! unat (body_offset r + content_len r) = NUL"
    using store_NUL_inv [OF assms(1), of "unat (body_offset r + content_len r)"] e b by auto
  have "length d = 2049" using d(2) by (simp add: request_inv_def)
  then have "\<exists>s. string_at (unat (body_offset r)) d = Some s \<and> length s \<le> unat (content_len r)"
    using string_at_NUL [of "unat (body_offset r)" "unat (body_offset r + content_len r)" d] d(3) e b
    by auto
  then show ?thesis
    using False d(1,2) assms(2) by (simp add: parse_body_def request_inv_def)
qed

lemma request_recv_safe:
  assumes "request_inv r" and "length payload < 2 ^ 16" and "\<not> processed r"
  shows "\<exists>out r'. request_recv payload r = Some (out, r') \<and> request_inv r' \<and>
     (out = Ready \<longrightarrow> header_complete r' \<and> processed r' \<and>
        (\<exists>b. string_at (unat (body_offset r')) (data r') = Some b \<and>
             length b \<le> unat (content_len r'))) \<and>
     (out = Wait \<longrightarrow> \<not> processed r')"
proof (cases "of_nat (length payload) > HTTP_REQUEST_MAX_SIZE - data_len r")
  case True
  then show ?thesis using assms(1) by (simp add: request_recv_def)
next
  case False
  have n: "unat (data_len r) \<le> 2048" "length (data r) = 2049" using assms(1) by (auto simp: request_inv_def)
  have "unat (of_nat (length payload) :: u32) = length payload"
    using assms(2) by (intro unat_length) simp
  then have p: "length payload \<le> 2048 - unat (data_len r)"
    using False size_limit [OF n(1)] by (simp add: word_le_nat_alt not_less)
  let ?len = "data_len r + of_nat (length payload)"
  have len: "unat ?len = unat (data_len r) + length payload"
    using p n(1) by (subst unat_sum) (simp_all add: unat_length)
  have fits: "unat (data_len r) + length payload \<le> 2048" using p n(1) by linarith
  obtain d1 where d1: "store_text (unat (data_len r)) payload (data r) = Some d1" "length d1 = 2049"
    using store_text_inside [of "unat (data_len r)" payload "data r"] fits n by auto
  obtain d2 where d2: "store_text (unat ?len) [NUL] d1 = Some d2" "length d2 = 2049"
      "d2 ! unat ?len = NUL"
    using store_text_inside [of "unat ?len" "[NUL]" d1] d1(2) len fits by auto
  let ?r1 = "r\<lparr>data := d2, data_len := ?len\<rparr>"
  have inv: "request_inv ?r1"
    using assms(1) d2 len fits by (auto simp: request_inv_def)
  show ?thesis
  proof (cases "header_complete r")
    case True
    then show ?thesis
      using parse_body_safe [OF inv] False d1(1) d2(1) assms(3)
      by (auto simp: request_recv_def Let_def)
  next
    case nc: False
    obtain out r2 where h: "parse_header ?r1 = Some (out, r2)" "request_inv r2"
        "out = Ready \<longrightarrow> header_complete r2" "out = Wait \<longrightarrow> r2 = ?r1" "processed r2 = processed r"
      using parse_header_safe [OF inv] nc by auto
    show ?thesis
    proof (cases out)
      case Ready
      then show ?thesis
        using parse_body_safe [of r2] h False d1(1) d2(1) nc assms(3)
        by (auto simp: request_recv_def Let_def)
    qed (use h False d1(1) d2(1) nc assms(3) in \<open>auto simp: request_recv_def Let_def\<close>)
  qed
qed

section \<open>Any split of a request into packets\<close>

lemma strstr_None_prefix: "strstr (a @ b) p = None \<Longrightarrow> strstr a p = None"
proof (induction a)
  case Nil
  then show ?case by (cases b) (auto split: if_splits)
next
  case (Cons c a)
  show ?case
  proof (cases "take (length p) (c # a) = p")
    case True
    then have "length p \<le> length (c # a)" by (metis length_take min.cobounded1)
    then have "take (length p) (c # a @ b) = p" using True
      by (metis Cons_eq_appendI append_Nil2 append_take_drop_id diff_is_0_eq take_append take0)
    with Cons.prems show ?thesis by simp
  qed (use Cons in \<open>auto split: if_splits\<close>)
qed

lemma strstr_first:
  assumes "strstr (x @ butlast p) p = None" and "p \<noteq> []"
  shows "strstr (x @ p @ z) p = Some (p @ z)"
  using assms(1)
proof (induction x)
  case Nil
  show ?case by (simp add: strstr_here)
next
  case (Cons c x)
  have "take (length p) (c # x @ p @ z) = take (length p) (c # x @ butlast p)"
  proof -
    have "p = butlast p @ [last p]" using assms(2) by simp
    then have "c # x @ p @ z = (c # x @ butlast p) @ [last p] @ z" by (metis append_Cons append_assoc)
    moreover have "length p \<le> length (c # x @ butlast p)" by simp
    ultimately show ?thesis by (metis append_Nil2 diff_is_0_eq take_append take0)
  qed
  then show ?case using Cons by (auto split: if_splits)
qed

lemma cstr_NUL: "cstr (a @ NUL # b) = cstr a"
  by (induction a) (simp_all add: cstr_def)

lemma cstr_id: "NUL \<notin> set a \<Longrightarrow> cstr a = a"
  unfolding cstr_def by (subst takeWhile_eq_all_conv) auto

lemma cstr_append: "NUL \<notin> set a \<Longrightarrow> cstr (a @ b) = a @ cstr b"
  by (induction a) (auto simp: cstr_def)

lemma store_text_over:
  "i = length a \<Longrightarrow> length s \<le> length b \<Longrightarrow>
     store_text i s (a @ b) = Some (a @ s @ drop (length s) b)"
  by (simp add: store_text_def)

lemma string_at_text: "string_at 0 (a @ NUL # b) = Some (cstr a)"
  by (simp add: string_at_def cstr_NUL)

text \<open>A request is its header, the empty line and as many characters as the header says.\<close>

definition well_formed_request :: "string \<Rightarrow> string \<Rightarrow> bool" where
  "well_formed_request hdr bdy \<longleftrightarrow>
     NUL \<notin> set hdr \<and> find_header_end (hdr @ butlast crlf2) = None \<and>
     get_content_length hdr = of_nat (length bdy) \<and> length hdr + 4 + length bdy \<le> 2048"

text \<open>The packets of a connection up to the one that completes the request.\<close>

fun recv_all :: "string list \<Rightarrow> http_request \<Rightarrow> (recv_outcome \<times> http_request) option" where
  "recv_all [] r = Some (Wait, r)"
| "recv_all (p # ps) r =
     (case request_recv p r of
        Some (Wait, r1) \<Rightarrow> recv_all ps r1
      | out \<Rightarrow> out)"

text \<open>What the buffer holds when the part \<open>w\<close> of the request has arrived.\<close>

definition request_image :: "string \<Rightarrow> string \<Rightarrow> string" where
  "request_image hdr w = (if length w < length hdr + 4 then w else hdr @ NUL # drop (length hdr + 1) w)"

definition received :: "string \<Rightarrow> string \<Rightarrow> string \<Rightarrow> http_request \<Rightarrow> bool" where
  "received hdr bdy w r \<longleftrightarrow>
     length (data r) = 2049 \<and> data_len r = of_nat (length w) \<and> \<not> processed r \<and>
     (\<exists>rest. data r = request_image hdr w @ NUL # rest) \<and>
     (if length w < length hdr + 4 then \<not> header_complete r
      else header_complete r \<and> body_offset r = of_nat (length hdr + 4) \<and>
           content_len r = of_nat (length bdy))"

definition request_complete :: "string \<Rightarrow> string \<Rightarrow> http_request \<Rightarrow> bool" where
  "request_complete hdr bdy r \<longleftrightarrow>
     processed r \<and> string_at 0 (data r) = Some hdr \<and>
     string_at (unat (body_offset r)) (data r) = Some (cstr bdy) \<and>
     content_len r = of_nat (length bdy)"

lemma length_request_image [simp]: "length (request_image hdr w) = length w"
  by (cases w) (auto simp: request_image_def)

lemma request_image_append:
  "length hdr + 4 \<le> length w \<Longrightarrow> request_image hdr w @ p = request_image hdr (w @ p)"
  by (simp add: request_image_def)

lemma find_header_end_prefix:
  "find_header_end (a @ b) = None \<Longrightarrow> find_header_end a = None"
  by (auto simp: find_header_end_def dest: strstr_None_prefix split: option.splits)

lemma body_step:
  assumes "well_formed_request hdr bdy" and "hdr @ crlf2 @ bdy = w @ z"
    and "length hdr + 4 \<le> length w" and "received hdr bdy w r"
  shows "if z = [] then \<exists>r'. parse_body r = Some (Ready, r') \<and> request_complete hdr bdy r'
    else parse_body r = Some (Wait, r)"
proof -
  have total: "length hdr + 4 + length bdy = length w + length z"
    using arg_cong [OF assms(2), of length] by (simp add: crlf2_def)
  have lim: "length hdr + 4 + length bdy \<le> 2048"
    using assms(1) by (simp add: well_formed_request_def)
  have n: "unat (data_len r) = length w" "unat (body_offset r) = length hdr + 4"
      "unat (content_len r) = length bdy"
    using assms(3,4) lim total unat_length by (simp_all add: received_def del: of_nat_add)
  have diff: "unat (data_len r - body_offset r) = length w - (length hdr + 4)"
    using n assms(3) by (simp add: unat_sub word_le_nat_alt)
  then have wait: "data_len r - body_offset r < content_len r \<longleftrightarrow> z \<noteq> []"
    using n total assms(3) by (simp add: word_less_nat_alt) (cases z; simp)
  show ?thesis
  proof (cases "z = []")
    case False
    with wait show ?thesis by (simp add: parse_body_def)
  next
    case True
    let ?i = "unat (body_offset r + content_len r)"
    obtain rest where d: "data r = request_image hdr w @ NUL # rest"
      using assms(4) by (auto simp: received_def)
    have i: "?i = length (request_image hdr w)"
      using n lim total True by (subst unat_sum) simp_all
    then have st: "store_text ?i [NUL] (data r) = Some (data r)"
      unfolding d by (subst store_text_over) simp_all
    have w: "w = hdr @ crlf2 @ bdy" using assms(2) True by simp
    have img: "data r = (hdr @ [NUL, CHR 0x0A, CHR 0x0D, CHR 0x0A]) @ bdy @ NUL # rest"
      by (simp add: d request_image_def w crlf2_def)
    have "string_at 0 (data r) = Some hdr"
      using assms(1) unfolding img well_formed_request_def
      by (simp add: string_at_text cstr_id)
    moreover have "string_at (length hdr + 4) (data r) = Some (cstr bdy)"
      unfolding img string_at_def by (simp add: cstr_NUL)
    ultimately show ?thesis
      using True wait st n assms(3,4) by (simp add: parse_body_def request_complete_def received_def)
  qed
qed

lemma header_step:
  assumes "well_formed_request hdr bdy" and "hdr @ crlf2 @ bdy = w @ z"
    and "length (data r) = 2049" and "data_len r = of_nat (length w)"
    and "\<not> processed r" and "data r = w @ NUL # rest" and "\<not> header_complete r"
  shows "if length w < length hdr + 4 then parse_header r = Some (Wait, r)
    else \<exists>r'. parse_header r = Some (Ready, r') \<and> received hdr bdy w r'"
proof (cases "length w < length hdr + 4")
  case True
  have "w = take (length w) (hdr @ crlf2 @ bdy)" using assms(2) by simp
  also have "\<dots> = take (length w) (hdr @ butlast crlf2)"
    using True by (simp add: crlf2_def take_Cons' numeral_eq_Suc)
  finally obtain y where y: "hdr @ butlast crlf2 = w @ y" by (metis append_take_drop_id)
  have "NUL \<notin> set (hdr @ butlast crlf2)"
    using assms(1) by (simp add: well_formed_request_def crlf2_def)
  then have "cstr w = w" unfolding y by (intro cstr_id) simp
  moreover have "find_header_end w = None"
    using assms(1) find_header_end_prefix [of w y] unfolding well_formed_request_def y by simp
  ultimately show ?thesis
    using True assms(6) by (simp add: parse_header_def string_at_text)
next
  case False
  have "take (length hdr + 4) w = take (length hdr + 4) (w @ z)" using False by simp
  also have "\<dots> = hdr @ crlf2" by (simp add: crlf2_def flip: assms(2))
  finally obtain q where w: "w = hdr @ crlf2 @ q"
    by (metis append_assoc append_take_drop_id)
  have wf: "NUL \<notin> set hdr" "find_header_end (hdr @ butlast crlf2) = None"
      "get_content_length hdr = of_nat (length bdy)" "length hdr + 4 + length bdy \<le> 2048"
    using assms(1) by (simp_all add: well_formed_request_def)
  have "NUL \<notin> set (hdr @ crlf2)" using wf(1) by (simp add: crlf2_def)
  from cstr_append [OF this] have c: "cstr w = hdr @ crlf2 @ cstr q" by (simp add: w)
  have "strstr (hdr @ butlast crlf2) crlf2 = None"
    using wf(2) by (simp add: find_header_end_def split: option.splits)
  then have "strstr (hdr @ crlf2 @ cstr q) crlf2 = Some (crlf2 @ cstr q)"
    by (rule strstr_first) (simp add: crlf2_def)
  then have "find_header_end (cstr w) = Some (length hdr, 4)"
    by (simp add: c find_header_end_def)
  moreover have "store_text (length hdr) [NUL] (data r) = Some (request_image hdr w @ NUL # rest)"
    using False unfolding assms(6) w by (subst append_assoc, subst store_text_over)
      (simp_all add: request_image_def crlf2_def)
  moreover have "string_at 0 (request_image hdr w @ NUL # rest) = Some hdr"
    using False wf(1) string_at_text [of hdr] by (simp add: request_image_def cstr_id)
  moreover have "unat (of_nat (length hdr + 4) :: u32) = length hdr + 4"
    using wf(4) by (intro unat_length) simp
  then have "unat (HTTP_REQUEST_MAX_SIZE - of_nat (length hdr + 4)) = 2048 - (length hdr + 4)"
    using wf(4) by (subst size_limit) simp_all
  then have "\<not> of_nat (length bdy) > HTTP_REQUEST_MAX_SIZE - of_nat (length hdr + 4)"
    using wf(4) unat_length [of "length bdy"] by (simp add: word_le_nat_alt not_less del: of_nat_add)
  moreover have "length (request_image hdr w @ NUL # rest) = 2049"
    using assms(3,6) by simp
  ultimately show ?thesis
    using False assms(4,5,6) wf(3)
    by (auto simp: parse_header_def string_at_text Let_def received_def simp del: of_nat_add)
qed

lemma request_recv_step:
  assumes "well_formed_request hdr bdy" and "hdr @ crlf2 @ bdy = (w @ p) @ z"
    and "received hdr bdy w r"
  shows "if z = [] then \<exists>r'. request_recv p r = Some (Ready, r') \<and> request_complete hdr bdy r'
    else \<exists>r'. request_recv p r = Some (Wait, r') \<and> received hdr bdy (w @ p) r'"
proof -
  have total: "length hdr + 4 + length bdy = length w + length p + length z"
    using arg_cong [OF assms(2), of length] by (simp add: crlf2_def)
  have lim: "length hdr + 4 + length bdy \<le> 2048"
    using assms(1) by (simp add: well_formed_request_def)
  obtain rest where r: "data r = request_image hdr w @ NUL # rest" "length (data r) = 2049"
      "data_len r = of_nat (length w)" "\<not> processed r"
    using assms(3) by (auto simp: received_def)
  have n: "unat (data_len r) = length w" "unat (of_nat (length p) :: u32) = length p"
    using r(3) lim total unat_length by simp_all
  have fits: "\<not> of_nat (length p) > HTTP_REQUEST_MAX_SIZE - data_len r"
    using n lim total size_limit [of "data_len r"] by (simp add: word_le_nat_alt not_less)
  have len: "data_len r + of_nat (length p) = of_nat (length (w @ p))" by (simp add: r(3))
  have un: "unat (of_nat (length (w @ p)) :: u32) = length (w @ p)"
    using lim total by (intro unat_length) simp
  have room: "length w + 1 + length rest = 2049" using r(1,2) by simp
  let ?d1 = "(request_image hdr w @ p) @ drop (length p) (NUL # rest)"
  define rest2 where "rest2 = drop (length p) rest"
  have rest2: "[NUL] @ drop 1 (drop (length p) (NUL # rest)) = NUL # rest2"
    by (simp add: rest2_def)
  have room2: "length rest2 + length p = length rest" "length w + length p + length rest2 = 2048"
    using room lim total by (simp_all add: rest2_def)
  let ?r1 = "r\<lparr>data := (request_image hdr w @ p) @ NUL # rest2, data_len := of_nat (length (w @ p))\<rparr>"
  have s1: "store_text (unat (data_len r)) p (data r) = Some ?d1"
    unfolding r(1) using room lim total by (subst store_text_over) (simp_all add: n)
  have s2: "store_text (unat (of_nat (length (w @ p)) :: u32)) [NUL] ?d1 =
      Some ((request_image hdr w @ p) @ NUL # rest2)"
    unfolding un rest2 [symmetric] using room lim total by (subst store_text_over) simp_all
  have hc: "header_complete ?r1 = header_complete r" by simp
  have recv: "request_recv p r = (if header_complete r then parse_body ?r1
      else (case parse_header ?r1 of
              None \<Rightarrow> None
            | Some (Ready, req2) \<Rightarrow> parse_body req2
            | Some (out, req2) \<Rightarrow> Some (out, req2)))"
    unfolding request_recv_def Let_def len if_not_P [OF fits] s1 option.case s2 hc
    by (rule refl)
  have len1: "length (data ?r1) = 2049"
    using room2(2) by simp
  show ?thesis
  proof (cases "length w < length hdr + 4")
    case False
    then have "received hdr bdy (w @ p) ?r1" "header_complete r"
      using assms(3) len1 r(4) request_image_append [of hdr w p] by (simp_all add: received_def)
    then show ?thesis
      using body_step [OF assms(1,2), of ?r1] False recv by (simp split: if_splits)
  next
    case True
    then have nc: "\<not> header_complete r" using assms(3) by (simp add: received_def)
    have img: "data ?r1 = (w @ p) @ NUL # rest2" using True by (simp add: request_image_def)
    note h = header_step [OF assms(1,2) len1 _ _ img]
    show ?thesis
    proof (cases "length (w @ p) < length hdr + 4")
      case True
      then have "z \<noteq> []" using total by auto
      moreover have "received hdr bdy (w @ p) ?r1"
        using True len1 r(4) nc img by (simp add: received_def request_image_def)
      ultimately show ?thesis using h True recv nc r(4) by simp
    next
      case False
      then obtain r2 where "parse_header ?r1 = Some (Ready, r2)" "received hdr bdy (w @ p) r2"
        using h nc r(4) by auto
      then show ?thesis
        using body_step [OF assms(1,2), of r2] False recv nc by (simp split: if_splits)
    qed
  qed
qed

lemma recv_all_complete:
  assumes "well_formed_request hdr bdy" and "hdr @ crlf2 @ bdy = w @ concat ps"
    and "concat ps \<noteq> []" and "received hdr bdy w r"
  shows "\<exists>r'. recv_all ps r = Some (Ready, r') \<and> request_complete hdr bdy r'"
  using assms(2-4)
proof (induction ps arbitrary: w r)
  case (Cons p ps)
  have e: "hdr @ crlf2 @ bdy = (w @ p) @ concat ps" using Cons.prems(1) by simp
  show ?case
  proof (cases "concat ps = []")
    case True
    then show ?thesis using request_recv_step [OF assms(1) e Cons.prems(3)] by (auto simp del: concat_eq_Nil_conv)
  next
    case False
    then obtain r' where "request_recv p r = Some (Wait, r')" "received hdr bdy (w @ p) r'"
      using request_recv_step [OF assms(1) e Cons.prems(3)] unfolding if_not_P [OF False] by blast
    then show ?thesis using Cons.IH [OF e False] by simp
  qed
qed simp

lemma recv_all_waits:
  assumes "well_formed_request hdr bdy" and "hdr @ crlf2 @ bdy = w @ concat ps @ z" and "z \<noteq> []"
    and "received hdr bdy w r"
  shows "\<exists>r'. recv_all ps r = Some (Wait, r') \<and> received hdr bdy (w @ concat ps) r'"
  using assms(2,4)
proof (induction ps arbitrary: w r)
  case (Cons p ps)
  have e: "hdr @ crlf2 @ bdy = (w @ p) @ concat ps @ z" using Cons.prems(1) by simp
  have "concat ps @ z \<noteq> []" using assms(3) by simp
  then obtain r' where "request_recv p r = Some (Wait, r')" "received hdr bdy (w @ p) r'"
    using request_recv_step [OF assms(1) e Cons.prems(2)] by (auto split: if_splits)
  then show ?case using Cons.IH [OF e] by simp
qed simp

lemma received_start: "received hdr bdy [] request_start"
  by (auto simp: received_def request_start_def request_image_def HTTP_REQUEST_MAX_SIZE_def
      intro!: exI [of _ "replicate 2048 NUL"] simp flip: replicate_Suc)

text \<open>
  C31: a request is understood the same way however the network splits it. If the packets of a
  connection together are a well formed request, the one that completes it, and no earlier
  one, makes the request ready, and the server then finds exactly the header and the body
  that were sent in its buffer.
\<close>

theorem request_any_packets:
  assumes "well_formed_request hdr bdy" and "concat ps = hdr @ crlf2 @ bdy"
  shows "\<exists>r. recv_all ps request_start = Some (Ready, r) \<and> request_complete hdr bdy r"
  using assms(2) by (intro recv_all_complete [OF assms(1) _ _ received_start])
    (simp_all add: crlf2_def)

definition sample_header :: string where
  "sample_header = ''POST /api/settings HTTP/1.1'' @ [CHR 0x0D, CHR 0x0A] @ ''content-length: 2''"

lemma sample_request: "well_formed_request sample_header ''{}''"
proof -
  have "same_prefix_case ''content-length: 2'' HTTP_CONTENT_LENGTH" by code_simp
  then have "get_content_length ''content-length: 2'' = 2"
    by (subst get_content_length.simps)
      (simp add: HTTP_CONTENT_LENGTH_def strtoul_def is_space_def is_digit_def dec_value_def)
  moreover have "\<not> same_prefix_case sample_header HTTP_CONTENT_LENGTH" by code_simp
  ultimately have "get_content_length sample_header = 2"
    by (subst get_content_length.simps) (simp add: sample_header_def)
  then show ?thesis
    by (simp add: well_formed_request_def sample_header_def find_header_end_def crlf2_def lf2_def)
qed

lemma request_any_packets_witness:
  "\<exists>r. recv_all [take 20 sample_header, drop 20 sample_header @ [CHR 0x0D, CHR 0x0A, CHR 0x0D],
        [CHR 0x0A, CHR ''{''], ''}''] request_start = Some (Ready, r) \<and>
      request_complete sample_header ''{}'' r"
  by (rule request_any_packets [OF sample_request]) (simp add: crlf2_def sample_header_def)

end
