(* ===== verification/Http_Server.thy ===== *)
theory Http_Server
  imports Http_Content Http_Request
begin

text \<open>
  The HTTP server of \<open>src/network/http_server/http_server.c\<close>: the state of a connection and the
  callbacks that lwIP calls for it. lwIP itself is an argument: the record \<open>lwip\<close> has one
  function per call on a protocol control block, whose state is of a type of its own. A
  connection state is \<open>None\<close> when the callback gets \<open>NULL\<close>. A callback that would access memory
  outside of a buffer is \<open>None\<close>. The log output of \<open>INFO\<close> is left out.
\<close>

section \<open>lwIP\<close>

type_synonym err_t = int

definition ERR_OK :: err_t where "ERR_OK = 0"
definition ERR_MEM :: err_t where "ERR_MEM = -1"
definition ERR_VAL :: err_t where "ERR_VAL = -6"
definition ERR_ABRT :: err_t where "ERR_ABRT = -13"

lemmas lwip_errors [simp] = ERR_OK_def ERR_MEM_def ERR_VAL_def ERR_ABRT_def

text \<open>
  \<open>tcp_write pcb data copy more\<close>; \<open>tcp_forget\<close> is the removal of the argument and of the four
  callbacks that precedes every close.
\<close>

record 'p lwip =
  tcp_sndbuf :: "'p \<Rightarrow> nat"
  tcp_write :: "'p \<Rightarrow> string \<Rightarrow> bool \<Rightarrow> bool \<Rightarrow> err_t \<times> 'p"
  tcp_output :: "'p \<Rightarrow> err_t \<times> 'p"
  tcp_recved :: "'p \<Rightarrow> nat \<Rightarrow> 'p"
  tcp_forget :: "'p \<Rightarrow> 'p"
  tcp_close :: "'p \<Rightarrow> err_t \<times> 'p"
  tcp_abort :: "'p \<Rightarrow> 'p"

section \<open>The state of a connection\<close>

definition IDLE_POLLS_MAX :: u32 where "IDLE_POLLS_MAX = 10"

text \<open>\<open>TCP_CONNECT_STATE_T\<close>; the pcb and the address of the server are arguments.\<close>

record con_state =
  con_request :: http_request
  con_response :: content_response
  queued_len :: nat
  acked_len :: nat
  idle_polls :: u32

definition con_start :: con_state where
  "con_start = \<lparr>con_request = request_start, con_response = empty_response, queued_len = 0,
                 acked_len = 0, idle_polls = 0\<rparr>"

definition con_state_free :: "con_state option \<Rightarrow> heap \<Rightarrow> heap" where
  "con_state_free con h =
     (case con of
        None \<Rightarrow> h
      | Some c \<Rightarrow> free_block con (snd (content_response_free (con_response c) h)))"

text \<open>The pcb that lwIP passes to a callback is never \<open>NULL\<close>.\<close>

definition tcp_close_client_connection ::
    "'p lwip \<Rightarrow> con_state option \<Rightarrow> 'p \<Rightarrow> heap \<Rightarrow> err_t \<times> 'p \<times> heap" where
  "tcp_close_client_connection net con pcb h =
     (let (err, p1) = tcp_close net (tcp_forget net pcb)
      in if err \<noteq> ERR_OK then (ERR_ABRT, tcp_abort net p1, con_state_free con h)
         else (ERR_OK, p1, con_state_free con h))"

section \<open>Sending\<close>

definition response_total_len :: "content_response \<Rightarrow> nat" where
  "response_total_len r = header_len r + body_len r"

text \<open>Reading \<open>n\<close> bytes at an offset of a block.\<close>

definition chunk :: "string option \<Rightarrow> nat \<Rightarrow> nat \<Rightarrow> string option" where
  "chunk block off n =
     (case block of
        None \<Rightarrow> None
      | Some b \<Rightarrow> if off + n \<le> length b then Some (take n (drop off b)) else None)"

text \<open>What the loop of \<open>send_more\<close> offers to \<open>tcp_write\<close> next: data, length and \<open>copy\<close> flag.\<close>

definition next_chunk :: "content_response \<Rightarrow> nat \<Rightarrow> nat \<Rightarrow> (string option \<times> nat \<times> bool)" where
  "next_chunk r queued avail =
     (let (block, off, len, copy) =
            (if queued < header_len r then (header r, queued, header_len r - queued, True)
             else (body r, queued - header_len r, body_len r - (queued - header_len r),
                   \<not> body_static r));
          len1 = min (min len avail) 0xFFFF
      in (chunk block off len1, len1, copy))"

text \<open>The loop: the bytes queued, the error it returns with, if it does, and the pcb.\<close>

function send_loop ::
    "'p lwip \<Rightarrow> content_response \<Rightarrow> nat \<Rightarrow> 'p \<Rightarrow> (nat \<times> err_t option \<times> 'p) option" where
  "send_loop net r queued pcb =
     (if queued < response_total_len r then
        let avail = tcp_sndbuf net pcb
        in if avail = 0 then Some (queued, None, pcb)
           else
             (case next_chunk r queued avail of
                (None, _) \<Rightarrow> None
              | (Some chunk_data, len, copy) \<Rightarrow>
                  let (err, p1) = tcp_write net pcb chunk_data copy
                                    (queued + len < response_total_len r)
                  in if err = ERR_MEM then Some (queued, None, p1)
                     else if err \<noteq> ERR_OK then Some (queued, Some err, p1)
                     else send_loop net r (queued + len) p1)
      else Some (queued, None, pcb))"
  by pat_completeness auto
termination
proof (relation "measure (\<lambda>(net, r, queued, pcb). response_total_len r - queued)", goal_cases)
  case (2 net r queued pcb avail q d y len copy)
  then have "0 < len"
    by (auto simp: next_chunk_def response_total_len_def Let_def split: if_splits)
  with 2(1) show ?case by simp
qed simp

declare send_loop.simps [simp del]

definition send_more :: "'p lwip \<Rightarrow> con_state \<Rightarrow> 'p \<Rightarrow> (err_t \<times> con_state \<times> 'p) option" where
  "send_more net c pcb =
     (case send_loop net (con_response c) (queued_len c) pcb of
        None \<Rightarrow> None
      | Some (queued, Some err, p1) \<Rightarrow> Some (err, c\<lparr>queued_len := queued\<rparr>, p1)
      | Some (queued, None, p1) \<Rightarrow>
          let (err, p2) = tcp_output net p1 in Some (err, c\<lparr>queued_len := queued\<rparr>, p2))"

section \<open>The request\<close>

text \<open>The copies of the query parameters: the loop over them, and all of it.\<close>

fun dup_params :: "string list \<Rightarrow> heap \<Rightarrow> err_code \<times> string list \<times> heap" where
  "dup_params [] h = (ERR_SUCCESS, [], h)"
| "dup_params (p # ps) h =
     (let (ok, h1) = malloc h
      in if \<not> ok then (ERR_MEM_ALLOC_FAIL, [], h1)
         else let (err, ds, h2) = dup_params ps h1 in (err, p # ds, h2))"

text \<open>The array is \<open>None\<close> when it is \<open>NULL\<close>.\<close>

definition parse_get_params :: "string \<Rightarrow> heap \<Rightarrow> err_code \<times> string list option \<times> heap" where
  "parse_get_params params h =
     (let (ok, h1) = malloc h
      in if \<not> ok then (ERR_MEM_ALLOC_FAIL, None, h1)
         else let (err, ds, h2) = dup_params (split_params params) h1 in (err, Some ds, h2))"

definition free_get_params :: "string list option \<Rightarrow> heap \<Rightarrow> heap" where
  "free_get_params params h =
     (case params of
        None \<Rightarrow> h
      | Some ds \<Rightarrow> free_block params (fold (\<lambda>d. free_block (Some d)) ds h))"

text \<open>What the server is configured with: the page, the flash and the text of its address.\<close>

record web_env =
  env_index_html :: string
  env_flash :: flash_hw
  env_address :: string

definition HTTP_GET :: string where "HTTP_GET = ''GET ''"
definition HTTP_POST :: string where "HTTP_POST = ''POST ''"

definition handle_get ::
    "web_env \<Rightarrow> web_world \<Rightarrow> string \<Rightarrow> content_response \<Rightarrow> heap \<Rightarrow> err_code response_result" where
  "handle_get env w hdr r h =
     (let (path, query) = split_query (get_request_path hdr (length HTTP_GET));
          (err, params, h1) =
            (case query of None \<Rightarrow> (ERR_SUCCESS, None, h) | Some ps \<Rightarrow> parse_get_params ps h)
      in if err \<noteq> ERR_SUCCESS then (err, r, free_get_params params h1)
         else
           let (err2, r2, h2) = get_content (env_index_html env) w (Some (env_address env))
                 (Some \<lparr>get_path = Some path,
                        get_params = (case params of None \<Rightarrow> [] | Some ds \<Rightarrow> ds)\<rparr>) r h1
           in (if err2 = ERR_SUCCESS \<and> header_len r2 = 0 then ERR_FAIL else err2, r2,
               free_get_params params h2))"

definition handle_request ::
    "web_env \<Rightarrow> web_world \<Rightarrow> http_request \<Rightarrow> content_response \<Rightarrow> heap \<Rightarrow>
     (web_world \<times> err_code response_result) option" where
  "handle_request env w req r h =
     (case string_at 0 (data req) of
        None \<Rightarrow> None
      | Some hdr \<Rightarrow>
          if take (length HTTP_GET) hdr = HTTP_GET then Some (w, handle_get env w hdr r h)
          else if take (length HTTP_POST) hdr = HTTP_POST then
            (case string_at (unat (body_offset req)) (data req) of
               None \<Rightarrow> None
             | Some bdy \<Rightarrow>
                 let (w1, err, r1, h1) = post_content (env_flash env)
                       (Some \<lparr>post_path = Some (get_request_path hdr (length HTTP_POST)),
                              post_body = Some bdy, post_body_len = content_len req\<rparr>) w r h
                 in Some (w1, if err = ERR_SUCCESS \<and> header_len r1 = 0 then ERR_FAIL else err,
                          r1, h1))
          else Some (w, ERR_PARAM_INVALID, r, h))"

section \<open>Callbacks\<close>

text \<open>
  A callback returns what it returns to lwIP, the connection state it leaves (\<open>None\<close> once it is
  freed), the pcb, the state the pages work on, and the heap.
\<close>

type_synonym 'p callback_result = "err_t \<times> con_state option \<times> 'p \<times> web_world \<times> heap"

definition close_with ::
    "'p lwip \<Rightarrow> con_state option \<Rightarrow> 'p \<Rightarrow> web_world \<Rightarrow> heap \<Rightarrow> 'p callback_result" where
  "close_with net con pcb w h =
     (let (ret, p1, h1) = tcp_close_client_connection net con pcb h in (ret, None, p1, w, h1))"

text \<open>The packet is a block of its own, which the callback frees.\<close>

definition pbuf_free :: "string \<Rightarrow> heap \<Rightarrow> heap" where
  "pbuf_free p h = free_block (Some p) h"

definition tcp_server_recv ::
    "'p lwip \<Rightarrow> web_env \<Rightarrow> con_state option \<Rightarrow> 'p \<Rightarrow> string option \<Rightarrow> err_t \<Rightarrow> web_world \<Rightarrow> heap \<Rightarrow>
     'p callback_result option" where
  "tcp_server_recv net env con pcb p tcp_err w h =
     (case p of
        None \<Rightarrow> Some (close_with net con pcb w h)
      | Some pkt \<Rightarrow>
          let pcb1 = tcp_recved net pcb (length pkt); h1 = pbuf_free pkt h
          in (case con of
                None \<Rightarrow> Some (close_with net con pcb1 w h1)
              | Some c \<Rightarrow>
                  if tcp_err \<noteq> ERR_OK then Some (close_with net con pcb1 w h1)
                  else
                    let c1 = c\<lparr>idle_polls := 0\<rparr>
                    in if processed (con_request c1) then Some (ERR_OK, Some c1, pcb1, w, h1)
                       else
                         (case request_recv pkt (con_request c1) of
                            None \<Rightarrow> None
                          | Some (Too_Large, req) \<Rightarrow>
                              Some (close_with net (Some (c1\<lparr>con_request := req\<rparr>)) pcb1 w h1)
                          | Some (Wait, req) \<Rightarrow>
                              Some (ERR_OK, Some (c1\<lparr>con_request := req\<rparr>), pcb1, w, h1)
                          | Some (Ready, req) \<Rightarrow>
                              (case handle_request env w req (con_response c1) h1 of
                                 None \<Rightarrow> None
                               | Some (w1, err, r1, h2) \<Rightarrow>
                                   let c2 = c1\<lparr>con_request := req, con_response := r1\<rparr>
                                   in if err \<noteq> ERR_SUCCESS then
                                        Some (close_with net (Some c2) pcb1 w1 h2)
                                      else
                                        (case send_more net c2 pcb1 of
                                           None \<Rightarrow> None
                                         | Some (serr, c3, pcb2) \<Rightarrow>
                                             if serr \<noteq> ERR_OK then
                                               Some (close_with net (Some c3) pcb2 w1 h2)
                                             else Some (ERR_OK, Some c3, pcb2, w1, h2))))))"

text \<open>Sending more, and closing when that fails.\<close>

definition send_or_close ::
    "'p lwip \<Rightarrow> con_state \<Rightarrow> 'p \<Rightarrow> web_world \<Rightarrow> heap \<Rightarrow> 'p callback_result option" where
  "send_or_close net c pcb w h =
     (case send_more net c pcb of
        None \<Rightarrow> None
      | Some (err, c1, pcb1) \<Rightarrow>
          if err \<noteq> ERR_OK then Some (close_with net (Some c1) pcb1 w h)
          else Some (ERR_OK, Some c1, pcb1, w, h))"

definition tcp_server_sent ::
    "'p lwip \<Rightarrow> con_state option \<Rightarrow> 'p \<Rightarrow> nat \<Rightarrow> web_world \<Rightarrow> heap \<Rightarrow> 'p callback_result option" where
  "tcp_server_sent net con pcb len w h =
     (case con of
        None \<Rightarrow> None
      | Some c \<Rightarrow>
          let c1 = c\<lparr>acked_len := acked_len c + len, idle_polls := 0\<rparr>
          in if acked_len c1 \<ge> response_total_len (con_response c1) then
               Some (close_with net (Some c1) pcb w h)
             else send_or_close net c1 pcb w h)"

definition tcp_server_poll ::
    "'p lwip \<Rightarrow> con_state option \<Rightarrow> 'p \<Rightarrow> web_world \<Rightarrow> heap \<Rightarrow> 'p callback_result option" where
  "tcp_server_poll net con pcb w h =
     (case con of
        None \<Rightarrow> Some (close_with net None pcb w h)
      | Some c \<Rightarrow>
          let c1 = c\<lparr>idle_polls := idle_polls c + 1\<rparr>
          in if idle_polls c1 > IDLE_POLLS_MAX then Some (close_with net (Some c1) pcb w h)
             else if processed (con_request c1) then send_or_close net c1 pcb w h
             else Some (ERR_OK, Some c1, pcb, w, h))"

text \<open>lwIP has freed the pcb already.\<close>

definition tcp_server_err :: "con_state option \<Rightarrow> heap \<Rightarrow> heap" where
  "tcp_server_err con h = con_state_free con h"

definition tcp_server_accept ::
    "'p lwip \<Rightarrow> 'p option \<Rightarrow> err_t \<Rightarrow> heap \<Rightarrow> err_t \<times> con_state option \<times> 'p option \<times> heap" where
  "tcp_server_accept net client err h =
     (case client of
        None \<Rightarrow> (ERR_VAL, None, client, h)
      | Some pcb \<Rightarrow>
          if err \<noteq> ERR_OK then (ERR_VAL, None, client, h)
          else
            let (ok, h1) = malloc h
            in if \<not> ok then (ERR_ABRT, None, Some (tcp_abort net pcb), h1)
               else (ERR_OK, Some con_start, client, h1))"

section \<open>Opening and closing the server\<close>

text \<open>
  What lwIP answers: a new pcb, the result of the bind and the listening pcb. \<open>pcbs\<close> counts the
  pcbs that are open; \<open>tcp_listen_with_backlog\<close> frees the pcb it replaces, if it succeeds.
\<close>

record 'p listen_answers =
  new_pcb :: "'p option"
  bind_err :: err_t
  listen_pcb :: "'p option"

record 'p tcp_server =
  server_pcb :: "'p option"
  pcbs :: int

definition tcp_server_open ::
    "'p listen_answers \<Rightarrow> 'p tcp_server \<Rightarrow> err_code \<times> 'p tcp_server" where
  "tcp_server_open a srv =
     (case new_pcb a of
        None \<Rightarrow> (ERR_FAIL, srv)
      | Some pcb \<Rightarrow>
          let opened = srv\<lparr>pcbs := pcbs srv + 1\<rparr>
          in if bind_err a \<noteq> ERR_OK then (ERR_FAIL, opened\<lparr>pcbs := pcbs opened - 1\<rparr>)
             else
               let listening = opened\<lparr>server_pcb := listen_pcb a\<rparr>
               in if server_pcb listening = None
                  then (ERR_FAIL, listening\<lparr>pcbs := pcbs listening - 1\<rparr>)
                  else (ERR_SUCCESS, listening))"

definition tcp_server_close :: "'p tcp_server \<Rightarrow> 'p tcp_server" where
  "tcp_server_close srv =
     (if server_pcb srv \<noteq> None then srv\<lparr>server_pcb := None, pcbs := pcbs srv - 1\<rparr> else srv)"

definition http_server_init ::
    "'p listen_answers \<Rightarrow> 'p tcp_server option \<Rightarrow> err_code \<times> 'p tcp_server option" where
  "http_server_init a srv =
     (case srv of
        None \<Rightarrow> (ERR_PARAM_IS_NULL, None)
      | Some s \<Rightarrow> let (err, s1) = tcp_server_open a s in (err, Some s1))"

definition http_server_deinit :: "'p tcp_server option \<Rightarrow> err_code \<times> 'p tcp_server option" where
  "http_server_deinit srv =
     (case srv of
        None \<Rightarrow> (ERR_PARAM_IS_NULL, None)
      | Some s \<Rightarrow> (ERR_SUCCESS, Some (tcp_server_close s)))"

section \<open>The life of a connection\<close>

datatype conn_event =
    Ev_recv "string option" err_t
  | Ev_sent nat
  | Ev_poll
  | Ev_err

record 'p conn =
  conn_con :: "con_state option"
  conn_pcb :: 'p
  conn_world :: web_world
  conn_heap :: heap

text \<open>A packet that arrives is a block on the heap.\<close>

definition conn_callback ::
    "'p lwip \<Rightarrow> web_env \<Rightarrow> conn_event \<Rightarrow> 'p conn \<Rightarrow> 'p callback_result option" where
  "conn_callback net env ev s =
     (let con = conn_con s; pcb = conn_pcb s; w = conn_world s; h = conn_heap s
      in (case ev of
            Ev_recv p err \<Rightarrow>
              tcp_server_recv net env con pcb p err w
                (if p = None then h else h\<lparr>live := live h + 1\<rparr>)
          | Ev_sent n \<Rightarrow> tcp_server_sent net con pcb n w h
          | Ev_poll \<Rightarrow> tcp_server_poll net con pcb w h
          | Ev_err \<Rightarrow> Some (ERR_OK, None, pcb, w, tcp_server_err con h)))"

text \<open>
  What lwIP may call: only callbacks of a connection that has a state, packets of at most
  64 KiB, and acknowledgements of bytes that were queued.
\<close>

fun event_allowed :: "conn_event \<Rightarrow> con_state \<Rightarrow> bool" where
  "event_allowed (Ev_recv (Some p) err) c \<longleftrightarrow> length p < 2 ^ 16"
| "event_allowed (Ev_sent n) c \<longleftrightarrow> acked_len c + n \<le> queued_len c"
| "event_allowed _ c \<longleftrightarrow> True"

inductive conn_step :: "'p lwip \<Rightarrow> web_env \<Rightarrow> 'p conn \<Rightarrow> 'p conn \<Rightarrow> bool" for net env where
  conn_event: "conn_con s = Some c \<Longrightarrow> event_allowed ev c \<Longrightarrow>
     conn_callback net env ev s = Some (ret, con, pcb, w, h) \<Longrightarrow>
     conn_step net env s \<lparr>conn_con = con, conn_pcb = pcb, conn_world = w, conn_heap = h\<rparr>"

inductive_cases conn_stepE: "conn_step net env s s'"

definition conn_start :: "'p \<Rightarrow> web_world \<Rightarrow> heap \<Rightarrow> 'p conn" where
  "conn_start pcb w h =
     \<lparr>conn_con = Some con_start, conn_pcb = pcb, conn_world = w, conn_heap = h\<rparr>"

section \<open>Blocks on the heap\<close>

lemma dup_params_live: "dup_params ps h = (err, ds, h') \<Longrightarrow> live h' = live h + int (length ds)"
  by (induction ps arbitrary: h err ds h') (fastforce dest: live_malloc split: prod.splits if_splits)+

lemma live_free_all: "live (fold (\<lambda>d. free_block (Some d)) ds h) = live h - int (length ds)"
  by (induction ds arbitrary: h) (simp_all add: free_block_def)

definition params_blocks :: "string list option \<Rightarrow> int" where
  "params_blocks params = (case params of None \<Rightarrow> 0 | Some ds \<Rightarrow> 1 + int (length ds))"

lemma parse_get_params_live:
  "parse_get_params ps h = (err, params, h') \<Longrightarrow> live h' = live h + params_blocks params"
  by (auto simp: parse_get_params_def params_blocks_def split: prod.splits if_splits
      dest!: live_malloc dup_params_live)

lemma live_free_get_params: "live (free_get_params params h) = live h - params_blocks params"
  by (cases params) (simp_all add: free_get_params_def params_blocks_def free_block_def live_free_all)

text \<open>What \<open>handle_request\<close> keeps, by the contract of the pages.\<close>

definition handled :: "content_response \<Rightarrow> heap \<Rightarrow> err_code response_result \<Rightarrow> bool" where
  "handled r h res \<longleftrightarrow>
     (case res of (err, r', h') \<Rightarrow> live h' - owned r' = live h - owned r \<and>
        (err = ERR_SUCCESS \<longrightarrow> response_full r'))"

lemma response_full_len: "response_full r \<Longrightarrow> header_len r \<noteq> 0"
  by (auto simp: response_full_def)

lemma handle_get_handled: "handled r h (handle_get env w hdr r h)"
proof -
  obtain path query where q: "split_query (get_request_path hdr (length HTTP_GET)) = (path, query)"
    by fastforce
  obtain err params h1 where p:
      "(case query of None \<Rightarrow> (ERR_SUCCESS, None, h) | Some ps \<Rightarrow> parse_get_params ps h) =
       (err, params, h1)"
    by (cases "case query of None \<Rightarrow> (ERR_SUCCESS, None, h) | Some ps \<Rightarrow> parse_get_params ps h") auto
  have l1: "live h1 = live h + params_blocks params"
    using p parse_get_params_live by (auto simp: params_blocks_def split: option.splits)
  let ?ps = "case params of None \<Rightarrow> [] | Some ds \<Rightarrow> ds"
  obtain err2 r2 h2 where g: "get_content (env_index_html env) w (Some (env_address env))
      (Some \<lparr>get_path = Some path, get_params = ?ps\<rparr>) r h1 = (err2, r2, h2)"
    by (metis prod_cases3)
  have "serves r h1 (err2, r2, h2)"
    using get_page.contract [where index_html = "env_index_html env"
        and q = "(env_address env, path, ?ps)" and w = w and r = r and h = h1] g by (metis case_prod_conv)
  then show ?thesis
    using l1 response_full_len [of r2]
    by (auto simp: handle_get_def q p g handled_def live_free_get_params split: if_splits)
qed

lemma handle_request_handled:
  assumes "string_at 0 (data req) \<noteq> None" and "string_at (unat (body_offset req)) (data req) \<noteq> None"
  shows "\<exists>w' res. handle_request env w req r h = Some (w', res) \<and> handled r h res"
proof -
  obtain hdr bdy where s: "string_at 0 (data req) = Some hdr"
      "string_at (unat (body_offset req)) (data req) = Some bdy"
    using assms by blast
  obtain w1 err r1 h1 where p: "post_content (env_flash env)
      (Some \<lparr>post_path = Some (get_request_path hdr (length HTTP_POST)), post_body = Some bdy,
             post_body_len = content_len req\<rparr>) w r h = (w1, err, r1, h1)"
    by (metis prod_cases4)
  have "serves r h (err, r1, h1)"
    using post_page.contract
      [where q = "(get_request_path hdr (length HTTP_POST), bdy, content_len req)" and r = r and h = h]
      p by auto
  then have "handled r h (if err = ERR_SUCCESS \<and> header_len r1 = 0 then ERR_FAIL else err, r1, h1)"
    using response_full_len by (auto simp: handled_def split: if_splits)
  moreover have "handled r h (ERR_PARAM_INVALID, r, h)" by (simp add: handled_def)
  moreover obtain e2 r2 h2 where "handle_get env w hdr r h = (e2, r2, h2)" "handled r h (e2, r2, h2)"
    using handle_get_handled by (metis prod_cases3)
  ultimately show ?thesis
    by (auto simp: handle_request_def s p)
qed

section \<open>Sending the response\<close>

definition response_text :: "content_response \<Rightarrow> string" where
  "response_text r = (case header r of None \<Rightarrow> [] | Some t \<Rightarrow> t) @ response_body r"

lemma length_response_text: "response_full r \<Longrightarrow> length (response_text r) = response_total_len r"
  by (auto simp: response_full_def response_text_def response_total_len_def)

lemma next_chunk_text:
  assumes "response_full r" and "queued < response_total_len r" and "0 < avail"
  shows "\<exists>len copy. next_chunk r queued avail = (Some (take len (drop queued (response_text r))), len, copy) \<and>
     0 < len \<and> queued + len \<le> response_total_len r"
proof -
  obtain t where t: "header r = Some t" "header_len r = length t"
    using assms(1) by (auto simp: response_full_def)
  have b: "body_len r = length (response_body r)" using assms(1) by (simp add: response_full_def)
  show ?thesis
  proof (cases "queued < header_len r")
    case True
    then show ?thesis
      using t assms(3)
      by (auto simp: next_chunk_def chunk_def Let_def response_text_def response_total_len_def)
  next
    case False
    then have "0 < body_len r" using assms(2) by (simp add: response_total_len_def)
    then obtain bd where "body r = Some bd" "response_body r = bd"
      using b by (cases "body r") (auto simp: response_body_def)
    then show ?thesis
      using t b False assms(2,3)
      by (auto simp: next_chunk_def chunk_def Let_def response_text_def response_total_len_def)
  qed
qed

text \<open>
  The documented effect of the calls on what a connection has accepted for sending: \<open>tcp_write\<close>
  takes all of the data or nothing.
\<close>

definition tcp_laws :: "'p lwip \<Rightarrow> ('p \<Rightarrow> string) \<Rightarrow> bool" where
  "tcp_laws net accepted \<longleftrightarrow>
     (\<forall>p d copy more. accepted (snd (tcp_write net p d copy more)) =
        (if fst (tcp_write net p d copy more) = ERR_OK then accepted p @ d else accepted p)) \<and>
     (\<forall>p. accepted (snd (tcp_output net p)) = accepted p) \<and> (\<forall>p n. accepted (tcp_recved net p n) = accepted p)"

lemma send_loop_text:
  assumes "response_full r" and "queued \<le> response_total_len r"
  shows "\<exists>q e p. send_loop net r queued pcb = Some (q, e, p) \<and> queued \<le> q \<and> q \<le> response_total_len r \<and>
     e \<noteq> Some ERR_OK \<and>
     (tcp_laws net accepted \<longrightarrow> accepted pcb = take queued (response_text r) \<longrightarrow> accepted p = take q (response_text r))"
  using assms
proof (induction net r queued pcb rule: send_loop.induct)
  case (1 net r queued pcb)
  show ?case
  proof (cases "queued < response_total_len r \<and> 0 < tcp_sndbuf net pcb")
    case False
    then show ?thesis using 1(3) by (subst send_loop.simps) (auto simp: Let_def)
  next
    case True
    let ?t = "response_text r"
    obtain len copy where nc: "next_chunk r queued (tcp_sndbuf net pcb) =
        (Some (take len (drop queued ?t)), len, copy)" "0 < len" "queued + len \<le> response_total_len r"
      using next_chunk_text [OF 1(2)] True by blast
    obtain err p1 where w: "tcp_write net pcb (take len (drop queued ?t)) copy
        (queued + len < response_total_len r) = (err, p1)" by fastforce
    have accepted: "tcp_laws net accepted \<Longrightarrow> accepted pcb = take queued ?t \<Longrightarrow>
        accepted p1 = (if err = ERR_OK then take (queued + len) ?t else take queued ?t)"
      using w unfolding tcp_laws_def by (metis fst_conv snd_conv take_add)
    show ?thesis
    proof (cases "err = ERR_OK")
      case ok: True
      then have "\<exists>q e p. send_loop net r (queued + len) p1 = Some (q, e, p) \<and> queued + len \<le> q \<and>
          q \<le> response_total_len r \<and> e \<noteq> Some ERR_OK \<and>
          (tcp_laws net accepted \<longrightarrow> accepted p1 = take (queued + len) ?t \<longrightarrow> accepted p = take q ?t)"
        using True nc w 1(2) by (intro "1.IH") auto
      then show ?thesis
        using True nc w accepted ok by (subst send_loop.simps) auto
    next
      case False
      then show ?thesis
        using True nc w accepted 1(3) by (subst send_loop.simps) auto
    qed
  qed
qed

section \<open>The invariant of a connection\<close>

definition con_inv :: "con_state \<Rightarrow> bool" where
  "con_inv c \<longleftrightarrow>
     request_inv (con_request c) \<and>
     (if processed (con_request c) then response_full (con_response c)
      else con_response c = empty_response \<and> queued_len c = 0 \<and> acked_len c = 0) \<and>
     queued_len c \<le> response_total_len (con_response c) \<and> acked_len c \<le> queued_len c"

definition con_blocks :: "con_state option \<Rightarrow> int" where
  "con_blocks con = (case con of None \<Rightarrow> 0 | Some c \<Rightarrow> 1 + owned (con_response c))"

definition accepted_ok :: "('p \<Rightarrow> string) \<Rightarrow> con_state \<Rightarrow> 'p \<Rightarrow> bool" where
  "accepted_ok accepted c pcb \<longleftrightarrow>
     accepted pcb = take (queued_len c) (response_text (con_response c))"

lemma send_more_runs:
  assumes "response_full (con_response c)"
  shows "\<exists>err q p. send_more net c pcb = Some (err, c\<lparr>queued_len := q\<rparr>, p)"
proof (cases "queued_len c \<le> response_total_len (con_response c)")
  case True
  then obtain q e p where "send_loop net (con_response c) (queued_len c) pcb = Some (q, e, p)"
    using send_loop_text [OF assms, of "queued_len c" net pcb] by blast
  then show ?thesis
    by (cases e; cases "tcp_output net p") (auto simp: send_more_def)
next
  case False
  then show ?thesis
    by (subst send_more_def, subst send_loop.simps)
      (auto split: prod.splits intro!: exI [of _ "queued_len c"])
qed

text \<open>
  What every callback promises: it runs, it keeps the invariant, the blocks of the connection
  and the record of what was accepted. \<open>n\<close> is the number of blocks that are not its own.
\<close>

definition callback_ok ::
    "'p lwip \<Rightarrow> ('p \<Rightarrow> string) \<Rightarrow> int \<Rightarrow> 'p callback_result option \<Rightarrow> bool" where
  "callback_ok net accepted n res \<longleftrightarrow>
     (\<exists>ret con pcb w h. res = Some (ret, con, pcb, w, h) \<and> live h = n + con_blocks con \<and>
        (\<forall>c. con = Some c \<longrightarrow> con_inv c \<and> accepted_ok accepted c pcb))"

lemma con_state_free_live: "live (con_state_free con h) = live h - con_blocks con"
proof -
  have "live (snd (content_response_free r h)) = live h - owned r" for r
    using live_content_response_free [of r h] by (cases "content_response_free r h") simp
  then show ?thesis
    by (cases con) (simp_all add: con_state_free_def con_blocks_def free_block_def)
qed

lemma close_with_ok:
  "live h = n + con_blocks con \<Longrightarrow> callback_ok net accepted n (Some (close_with net con pcb w h))"
  by (auto simp: callback_ok_def close_with_def tcp_close_client_connection_def con_state_free_live
      con_blocks_def split: prod.splits)

lemma send_more_ok:
  assumes "con_inv c" and "processed (con_request c)" and "tcp_laws net accepted"
    and "accepted_ok accepted c pcb"
  shows "\<exists>err q p. send_more net c pcb = Some (err, c\<lparr>queued_len := q\<rparr>, p) \<and>
     con_inv (c\<lparr>queued_len := q\<rparr>) \<and> accepted_ok accepted (c\<lparr>queued_len := q\<rparr>) p"
proof -
  obtain q e p where l: "send_loop net (con_response c) (queued_len c) pcb = Some (q, e, p)"
      "queued_len c \<le> q" "q \<le> response_total_len (con_response c)"
      "accepted p = take q (response_text (con_response c))"
    using send_loop_text [of "con_response c" "queued_len c" net pcb accepted] assms
    by (auto simp: con_inv_def accepted_ok_def)
  have out: "accepted (snd (tcp_output net p)) = accepted p"
    using assms(3) by (simp add: tcp_laws_def)
  have inv: "con_inv (c\<lparr>queued_len := q\<rparr>)"
    using assms(1,2) l(2,3) by (simp add: con_inv_def)
  show ?thesis
  proof (cases e)
    case None
    then show ?thesis using l(1,4) out inv
      by (cases "tcp_output net p") (auto simp: send_more_def accepted_ok_def)
  next
    case (Some err)
    then show ?thesis using l(1,4) inv by (auto simp: send_more_def accepted_ok_def)
  qed
qed

lemma send_or_close_ok:
  assumes "con_inv c" and "processed (con_request c)" and "tcp_laws net accepted"
    and "accepted_ok accepted c pcb" and "live h = n + con_blocks (Some c)"
  shows "callback_ok net accepted n (send_or_close net c pcb w h)"
proof -
  obtain err q p where s: "send_more net c pcb = Some (err, c\<lparr>queued_len := q\<rparr>, p)"
      "con_inv (c\<lparr>queued_len := q\<rparr>)" "accepted_ok accepted (c\<lparr>queued_len := q\<rparr>) p"
    using send_more_ok [OF assms(1-4)] by blast
  have "live h = n + con_blocks (Some (c\<lparr>queued_len := q\<rparr>))"
    using assms(5) by (simp add: con_blocks_def)
  then show ?thesis
    using s close_with_ok by (simp add: send_or_close_def) (auto simp: callback_ok_def)
qed

lemma tcp_server_sent_ok:
  assumes "con_inv c" and "tcp_laws net accepted" and "accepted_ok accepted c pcb"
    and "live h = n + con_blocks (Some c)" and "acked_len c + k \<le> queued_len c"
  shows "callback_ok net accepted n (tcp_server_sent net (Some c) pcb k w h)"
proof -
  let ?c = "c\<lparr>acked_len := acked_len c + k, idle_polls := 0\<rparr>"
  have b: "live h = n + con_blocks (Some ?c)" using assms(4) by (simp add: con_blocks_def)
  show ?thesis
  proof (cases "acked_len ?c \<ge> response_total_len (con_response ?c)")
    case True
    then show ?thesis using close_with_ok [OF b] by (simp add: tcp_server_sent_def)
  next
    case False
    then have "processed (con_request c)"
      using assms(1) by (auto simp: con_inv_def empty_response_def response_total_len_def split: if_splits)
    moreover from this have "con_inv ?c" "accepted_ok accepted ?c pcb"
      using assms(1,3,5) by (auto simp: con_inv_def accepted_ok_def)
    ultimately show ?thesis
      using False send_or_close_ok [OF _ _ assms(2) _ b] by (simp add: tcp_server_sent_def)
  qed
qed

lemma tcp_server_poll_ok:
  assumes "con_inv c" and "tcp_laws net accepted" and "accepted_ok accepted c pcb"
    and "live h = n + con_blocks (Some c)"
  shows "callback_ok net accepted n (tcp_server_poll net (Some c) pcb w h)"
proof -
  let ?c = "c\<lparr>idle_polls := idle_polls c + 1\<rparr>"
  have b: "live h = n + con_blocks (Some ?c)" using assms(4) by (simp add: con_blocks_def)
  have c: "con_inv ?c" "accepted_ok accepted ?c pcb"
    using assms(1,3) by (auto simp: con_inv_def accepted_ok_def)
  then show ?thesis
    using close_with_ok [OF b] send_or_close_ok [OF _ _ assms(2) _ b] b
    by (auto simp: tcp_server_poll_def Let_def callback_ok_def)
qed

lemma tcp_server_recv_ok:
  assumes "con_inv c" and "tcp_laws net accepted" and "accepted_ok accepted c pcb"
    and "live h = n + con_blocks (Some c) + (if p = None then 0 else 1)"
    and "\<forall>pkt. p = Some pkt \<longrightarrow> length pkt < 2 ^ 16"
  shows "callback_ok net accepted n (tcp_server_recv net env (Some c) pcb p err w h)"
proof (cases p)
  case None
  then show ?thesis using close_with_ok assms(4) by (simp add: tcp_server_recv_def)
next
  case (Some pkt)
  let ?pcb = "tcp_recved net pcb (length pkt)" and ?h = "pbuf_free pkt h"
  let ?c = "c\<lparr>idle_polls := 0\<rparr>"
  have acc: "accepted ?pcb = accepted pcb" using assms(2) by (simp add: tcp_laws_def)
  have b: "live ?h = n + con_blocks (Some c)"
    using assms(4) Some by (simp add: pbuf_free_def free_block_def)
  have c: "con_inv ?c" "accepted_ok accepted ?c ?pcb"
    using assms(1,3) acc by (auto simp: con_inv_def accepted_ok_def)
  show ?thesis
  proof (cases "err \<noteq> ERR_OK \<or> processed (con_request c)")
    case True
    then show ?thesis
      using c b close_with_ok [of ?h n "Some c"] Some
      by (auto simp: tcp_server_recv_def Let_def callback_ok_def con_blocks_def)
  next
    case False
    then have idle: "con_response c = empty_response" "queued_len c = 0" "acked_len c = 0"
        "request_inv (con_request c)" "err = ERR_OK" "\<not> processed (con_request c)"
      using assms(1) by (auto simp: con_inv_def)
    obtain out req where r: "request_recv pkt (con_request c) = Some (out, req)" "request_inv req"
        "out = Ready \<longrightarrow> processed req \<and> string_at (unat (body_offset req)) (data req) \<noteq> None"
        "out = Wait \<longrightarrow> \<not> processed req"
      using request_recv_safe [OF idle(4) _ idle(6), of pkt] assms(5) Some by auto
    have b1: "live ?h = n + con_blocks (Some (?c\<lparr>con_request := req\<rparr>))"
      using b by (simp add: con_blocks_def)
    show ?thesis
    proof (cases out)
      case Too_Large
      then show ?thesis
        using close_with_ok [OF b1] r(1) Some idle by (simp add: tcp_server_recv_def Let_def)
    next
      case Wait
      then show ?thesis
        using b1 r Some idle c acc
        by (simp add: tcp_server_recv_def Let_def callback_ok_def con_inv_def accepted_ok_def)
    next
      case Ready
      have "string_at 0 (data req) \<noteq> None"
        using string_at_NUL [of 0 "unat (data_len req)" "data req"] r(2)
        by (simp add: request_inv_def)
      then obtain w1 e r1 h2 where q: "handle_request env w req (con_response c) ?h = Some (w1, e, r1, h2)"
          "handled (con_response c) ?h (e, r1, h2)"
        using handle_request_handled [of req env w "con_response c" ?h] r(3) Ready
        by (metis prod_cases3)
      let ?c2 = "?c\<lparr>con_request := req, con_response := r1\<rparr>"
      have b2: "live h2 = n + con_blocks (Some ?c2)"
        using q(2) b by (simp add: handled_def con_blocks_def)
      show ?thesis
      proof (cases "e = ERR_SUCCESS")
        case False
        then show ?thesis
          using close_with_ok [OF b2] r(1) Ready q(1) Some idle by (simp add: tcp_server_recv_def Let_def)
      next
        case True
        have "response_full r1" using q(2) True by (simp add: handled_def)
        then have "con_inv ?c2" "accepted_ok accepted ?c2 ?pcb"
          using r(2,3) Ready idle acc assms(3) by (auto simp: con_inv_def accepted_ok_def)
        then have "callback_ok net accepted n (send_or_close net ?c2 ?pcb w1 h2)"
          using send_or_close_ok [OF _ _ assms(2) _ b2] r(3) Ready by simp
        then show ?thesis
          using True r(1) Ready q(1) Some idle
          by (simp add: tcp_server_recv_def Let_def send_or_close_def)
      qed
    qed
  qed
qed

lemma conn_callback_ok:
  assumes "con_inv c" and "tcp_laws net accepted" and "accepted_ok accepted c (conn_pcb s)"
    and "conn_con s = Some c" and "live (conn_heap s) = n + con_blocks (Some c)"
    and "event_allowed ev c"
  shows "callback_ok net accepted n (conn_callback net env ev s)"
proof (cases ev)
  case (Ev_recv p err)
  show ?thesis
    unfolding conn_callback_def Let_def Ev_recv conn_event.case assms(4)
    using assms(5,6) Ev_recv by (intro tcp_server_recv_ok [OF assms(1-3)]) auto
next
  case (Ev_sent k)
  then show ?thesis
    using tcp_server_sent_ok [OF assms(1-3,5)] assms(4,6) by (simp add: conn_callback_def)
next
  case Ev_poll
  then show ?thesis
    using tcp_server_poll_ok [OF assms(1-3,5)] assms(4) by (simp add: conn_callback_def)
next
  case Ev_err
  then show ?thesis
    using assms(4,5) con_state_free_live [of "Some c" "conn_heap s"]
    by (simp add: conn_callback_def callback_ok_def tcp_server_err_def con_blocks_def)
qed

section \<open>Every run of a connection\<close>

definition conn_inv :: "('p \<Rightarrow> string) \<Rightarrow> int \<Rightarrow> 'p conn \<Rightarrow> bool" where
  "conn_inv accepted n s \<longleftrightarrow> live (conn_heap s) = n + con_blocks (conn_con s) \<and>
     (\<forall>c. conn_con s = Some c \<longrightarrow> con_inv c \<and> accepted_ok accepted c (conn_pcb s))"

lemma conn_step_inv:
  assumes "conn_step net env s s'" and "tcp_laws net accepted" and "conn_inv accepted n s"
  shows "conn_inv accepted n s'"
  using assms(1)
proof (cases rule: conn_step.cases)
  case (conn_event c ev ret con pcb w h)
  then show ?thesis
    using conn_callback_ok [of c net accepted s n ev env] assms(2,3)
    by (auto simp: conn_inv_def callback_ok_def)
qed

lemma conn_start_inv:
  "accepted pcb = [] \<Longrightarrow> conn_inv accepted (live h) (conn_start pcb w (h\<lparr>live := live h + 1\<rparr>))"
  by (simp add: conn_inv_def conn_start_def con_blocks_def con_inv_def con_start_def
      request_start_inv accepted_ok_def response_text_def response_body_def)
    (simp add: request_start_def empty_response_def response_text_def response_body_def)

lemma conn_run_inv:
  assumes "(conn_step net env)\<^sup>*\<^sup>* s s'" and "tcp_laws net accepted" and "conn_inv accepted n s"
  shows "conn_inv accepted n s'"
  using assms by (induction rule: rtranclp_induct) (auto dest: conn_step_inv)

section \<open>A whole exchange\<close>

text \<open>The packets of a connection, one callback each.\<close>

fun run_packets ::
    "'p lwip \<Rightarrow> web_env \<Rightarrow> string list \<Rightarrow> 'p conn \<Rightarrow> 'p conn option" where
  "run_packets net env [] s = Some s"
| "run_packets net env (p # ps) s =
     (case conn_callback net env (Ev_recv (Some p) ERR_OK) s of
        None \<Rightarrow> None
      | Some (ret, con, pcb, w, h) \<Rightarrow>
          run_packets net env ps
            \<lparr>conn_con = con, conn_pcb = pcb, conn_world = w, conn_heap = h\<rparr>)"

definition conn_waiting :: "'p conn \<Rightarrow> http_request \<Rightarrow> web_world \<Rightarrow> heap \<Rightarrow> bool" where
  "conn_waiting s req w h \<longleftrightarrow> conn_world s = w \<and> conn_heap s = h \<and>
     (\<exists>c. conn_con s = Some c \<and> con_request c = req \<and> \<not> processed req \<and>
          con_response c = empty_response)"

lemma pbuf_block: "pbuf_free p (h\<lparr>live := live h + 1\<rparr>) = h"
  by (simp add: pbuf_free_def free_block_def)

lemma run_packets_waiting:
  assumes "conn_waiting s req w h" and "recv_all ps req = Some (Wait, req')"
  shows "\<exists>s'. run_packets net env ps s = Some s' \<and> conn_waiting s' req' w h"
  using assms
proof (induction ps arbitrary: s req)
  case (Cons p ps)
  obtain req1 where r: "request_recv p req = Some (Wait, req1)" "recv_all ps req1 = Some (Wait, req')"
    using Cons.prems(2) by (auto split: option.splits prod.splits recv_outcome.splits)
  have np: "\<not> processed req1"
    using r(1) Cons.prems
    by (auto simp: request_recv_def parse_header_def parse_body_def Let_def conn_waiting_def
        split: if_splits option.splits recv_outcome.splits)
  obtain c where c: "conn_con s = Some c" "con_request c = req" "\<not> processed req"
      "con_response c = empty_response" "conn_world s = w" "conn_heap s = h"
    using Cons.prems(1) by (auto simp: conn_waiting_def)
  let ?s1 = "\<lparr>conn_con = Some (c\<lparr>idle_polls := 0, con_request := req1\<rparr>),
      conn_pcb = tcp_recved net (conn_pcb s) (length p), conn_world = w, conn_heap = h\<rparr>"
  have "run_packets net env (p # ps) s = run_packets net env ps ?s1"
    using c r(1) by (simp add: conn_callback_def tcp_server_recv_def pbuf_block Let_def)
  moreover have "conn_waiting ?s1 req1 w h" using c np by (simp add: conn_waiting_def)
  ultimately show ?case using Cons.IH r(2) by simp
qed (use assms(1) in simp)

definition json_status_text :: "bool \<Rightarrow> string" where
  "json_status_text ok =
     (if ok then http_response_header 200 ''OK'' (length JSON_STATUS_OK) CONTENT_TYPE_JSON @ JSON_STATUS_OK
      else http_response_header 400 ''Bad Request'' (length JSON_STATUS_ERROR) CONTENT_TYPE_JSON @
           JSON_STATUS_ERROR)"

lemma length_header:
  "length (dec_digits n) \<le> 5 \<Longrightarrow> length reason \<le> 20 \<Longrightarrow> length ct \<le> 40 \<Longrightarrow> code < 1000 \<Longrightarrow>
     length (http_response_header code reason n ct) < 256"
  using length_dec_digits [of code 3]
  by (simp add: http_response_header_def crlf_def)

lemma json_status_served:
  assumes "\<not> alloc_fails h (allocs h)"
  shows "\<exists>r h'. finish (set_json_status ok empty_response h) = (ERR_SUCCESS, r, h') \<and>
     response_full r \<and> response_text r = json_status_text ok"
proof -
  have len: "length (http_response_header 200 ''OK'' (length JSON_STATUS_OK) CONTENT_TYPE_JSON) < 256"
      "length (http_response_header 400 ''Bad Request'' (length JSON_STATUS_ERROR) CONTENT_TYPE_JSON) < 256"
    by (auto intro!: length_header length_dec_digits
        simp: JSON_STATUS_OK_def JSON_STATUS_ERROR_def CONTENT_TYPE_JSON_def)
  have ne: "http_response_header code reason n ct \<noteq> []" for code reason n ct
    by (simp add: http_response_header_def)
  show ?thesis
    using assms len ne
    by (auto simp: set_json_status_def set_header_def print_header_def malloc_def finish_def
        set_body_static_def HTTP_HEADER_MAX_SIZE_def response_full_def response_body_def
        response_text_def json_status_text_def Let_def)
qed

lemma free_empty: "content_response_free empty_response h = (empty_response, h)"
  by (simp add: content_response_free_def free_block_def empty_response_def Let_def)

lemma post_settings_handled:
  assumes "request_complete hdr bdy req" and "take 5 hdr = HTTP_POST"
    and "get_request_path hdr 5 = ''/api/settings''" and "\<not> alloc_fails h (allocs h)"
    and "set_settings_json (env_flash env) (Some (cstr bdy)) (web_store w) = (err, st)"
  shows "\<exists>r h'. handle_request env w req empty_response h =
       Some (w\<lparr>web_store := st\<rparr>, ERR_SUCCESS, r, h') \<and>
     response_full r \<and> response_text r = json_status_text (err = ERR_SUCCESS)"
proof -
  obtain r h' where r: "finish (set_json_status (err = ERR_SUCCESS) empty_response h) = (ERR_SUCCESS, r, h')"
      "response_full r" "response_text r = json_status_text (err = ERR_SUCCESS)"
    using json_status_served [OF assms(4)] by blast
  have "take 4 hdr \<noteq> HTTP_GET"
    using assms(2) by (cases hdr) (auto simp: HTTP_GET_def HTTP_POST_def numeral_eq_Suc)
  moreover have "length HTTP_GET = 4" "length HTTP_POST = 5"
    by (simp_all add: HTTP_GET_def HTTP_POST_def)
  ultimately show ?thesis
    using assms r response_full_len [OF r(2)]
    by (simp add: handle_request_def request_complete_def post_content_def free_empty)
qed

text \<open>
  C16: saving the settings over the network, end to end. A well formed POST of
  \<open>/api/settings\<close> reaches the server in any number of packets. Until the last one arrives
  nothing changes; then \<open>set_settings_json\<close> runs once, on the body that was sent, the settings
  become what it leaves, and the response that the connection sends is the one for its
  result, 200 or 400, provided that memory for it can be allocated.
\<close>

theorem http_post_settings:
  assumes "well_formed_request hdr bdy" and "take 5 hdr = HTTP_POST"
    and "get_request_path hdr 5 = ''/api/settings''"
    and "concat ps @ p = hdr @ crlf2 @ bdy" and "p \<noteq> []" and "\<forall>n. \<not> alloc_fails h n"
    and "set_settings_json (env_flash env) (Some (cstr bdy)) (web_store w) = (err, st)"
  shows "\<exists>s ret con pcb' h'. run_packets net env ps (conn_start pcb w h) = Some s \<and>
     conn_world s = w \<and>
     conn_callback net env (Ev_recv (Some p) ERR_OK) s =
       Some (ret, con, pcb', w\<lparr>web_store := st\<rparr>, h') \<and>
     (\<forall>c. con = Some c \<longrightarrow>
        response_text (con_response c) = json_status_text (err = ERR_SUCCESS))"
proof -
  have e: "hdr @ crlf2 @ bdy = [] @ concat ps @ p" using assms(4) by simp
  obtain req1 where r1: "recv_all ps request_start = Some (Wait, req1)"
      "received hdr bdy (concat ps) req1"
    using recv_all_waits [OF assms(1) e assms(5) received_start] by auto
  have "conn_waiting (conn_start pcb w h) request_start w h"
    by (simp add: conn_waiting_def conn_start_def con_start_def) (simp add: request_start_def)
  then obtain s where s: "run_packets net env ps (conn_start pcb w h) = Some s"
      "conn_waiting s req1 w h"
    using run_packets_waiting [OF _ r1(1)] by blast
  have e2: "hdr @ crlf2 @ bdy = (concat ps @ p) @ []" using assms(4) by simp
  obtain req where req: "request_recv p req1 = Some (Ready, req)" "request_complete hdr bdy req"
    using request_recv_step [OF assms(1) e2 r1(2)] by auto
  obtain r h' where r: "handle_request env w req empty_response h =
       Some (w\<lparr>web_store := st\<rparr>, ERR_SUCCESS, r, h')" "response_full r"
       "response_text r = json_status_text (err = ERR_SUCCESS)"
    using post_settings_handled [OF req(2) assms(2,3) _ assms(7)] assms(6) by blast
  obtain c where c: "conn_con s = Some c" "con_request c = req1" "\<not> processed req1"
      "con_response c = empty_response" "conn_world s = w" "conn_heap s = h"
    using s(2) by (auto simp: conn_waiting_def)
  let ?c = "c\<lparr>idle_polls := 0, con_request := req, con_response := r\<rparr>"
  obtain serr q pcb2 where m: "send_more net ?c (tcp_recved net (conn_pcb s) (length p)) =
      Some (serr, ?c\<lparr>queued_len := q\<rparr>, pcb2)"
    using send_more_runs [of ?c net "tcp_recved net (conn_pcb s) (length p)"] r(2) by auto
  have "\<exists>ret con pcb' h''. conn_callback net env (Ev_recv (Some p) ERR_OK) s =
       Some (ret, con, pcb', w\<lparr>web_store := st\<rparr>, h'') \<and>
     (\<forall>c. con = Some c \<longrightarrow> response_text (con_response c) = json_status_text (err = ERR_SUCCESS))"
    using c req(1) r m
    by (auto simp: conn_callback_def tcp_server_recv_def pbuf_block Let_def close_with_def
        split: prod.splits)
  with s(1) c(5) show ?thesis by blast
qed

section \<open>What the server promises\<close>

text \<open>
  C15: a connection is safe in every run. Whatever packets arrive, in whatever order lwIP calls
  the callbacks, and whatever it answers, no callback leaves the buffer of the request or the
  blocks of the response, the bytes accepted for sending are exactly the first \<open>queued_len\<close>
  bytes of the response, in order, and the heap holds the blocks of the connection and no
  others: none is leaked and none is freed twice, the connection's own included.
\<close>

theorem http_connection_safe:
  assumes "tcp_laws net accepted" and "accepted pcb = []"
    and "(conn_step net env)\<^sup>*\<^sup>* (conn_start pcb w (h\<lparr>live := live h + 1\<rparr>)) s"
  shows "live (conn_heap s) = live h + con_blocks (conn_con s) \<and>
     (\<forall>c. conn_con s = Some c \<longrightarrow> request_inv (con_request c) \<and>
        accepted (conn_pcb s) = take (queued_len c) (response_text (con_response c)) \<and>
        (\<forall>ev. event_allowed ev c \<longrightarrow> conn_callback net env ev s \<noteq> None))"
proof -
  have inv: "conn_inv accepted (live h) s"
    using conn_run_inv [OF assms(3,1)] conn_start_inv [of accepted pcb h w] assms(2) by simp
  moreover have "conn_callback net env ev s \<noteq> None"
    if "conn_con s = Some c" "event_allowed ev c" for c ev
    using conn_callback_ok [of c net accepted s "live h" ev env] inv that assms(1)
    by (auto simp: conn_inv_def callback_ok_def)
  ultimately show ?thesis
    by (simp add: conn_inv_def con_inv_def accepted_ok_def)
qed

text \<open>Once a request has been handled, its response is all that is left to do.\<close>

lemma send_more_same:
  "send_more net c pcb = Some (err, c', pcb') \<Longrightarrow> \<exists>q. c' = c\<lparr>queued_len := q\<rparr>"
  by (auto simp: send_more_def split: option.splits prod.splits)

definition only_sends :: "con_state \<Rightarrow> web_world \<Rightarrow> 'p callback_result option \<Rightarrow> bool" where
  "only_sends c w res \<longleftrightarrow>
     (\<forall>ret con pcb w' h. res = Some (ret, con, pcb, w', h) \<longrightarrow> w' = w \<and>
        (\<forall>c'. con = Some c' \<longrightarrow>
           con_request c' = con_request c \<and> con_response c' = con_response c))"

lemma only_sends_close: "only_sends c w (Some (close_with net con pcb w h))"
  by (simp add: only_sends_def close_with_def split: prod.split)

lemma only_sends_stay:
  "con_request c1 = con_request c \<Longrightarrow> con_response c1 = con_response c \<Longrightarrow>
     only_sends c w (Some (ret, Some c1, pcb, w, h))"
  by (simp add: only_sends_def)

lemma only_sends_send:
  assumes "con_request c1 = con_request c" and "con_response c1 = con_response c"
  shows "only_sends c w (send_or_close net c1 pcb w h)"
proof (cases "send_more net c1 pcb")
  case None
  then show ?thesis by (simp add: send_or_close_def only_sends_def)
next
  case (Some res)
  obtain err c2 p where res: "res = (err, c2, p)" by (cases res)
  then obtain q where "c2 = c1\<lparr>queued_len := q\<rparr>"
    using send_more_same [of net c1 pcb err c2 p] Some by blast
  then have "only_sends c w (Some (ERR_OK, Some c2, p, w, h))"
    using assms by (intro only_sends_stay) simp_all
  then show ?thesis
    by (simp add: send_or_close_def Some res only_sends_close)
qed

lemmas only_sends_intros = only_sends_close only_sends_send only_sends_stay

lemma processed_callback:
  assumes "conn_con s = Some c" and "processed (con_request c)"
  shows "only_sends c (conn_world s) (conn_callback net env ev s)"
proof (cases ev)
  case (Ev_recv p err)
  then show ?thesis
    using assms
    by (cases p) (simp_all add: conn_callback_def tcp_server_recv_def Let_def only_sends_close only_sends_stay)
next
  case (Ev_sent k)
  then show ?thesis
    using assms by (simp add: conn_callback_def tcp_server_sent_def Let_def only_sends_intros)
next
  case Ev_poll
  then show ?thesis
    using assms by (simp add: conn_callback_def tcp_server_poll_def Let_def only_sends_intros)
qed (simp add: conn_callback_def only_sends_def)

lemma processed_step:
  assumes "conn_step net env s s'" and "conn_con s = Some c" and "processed (con_request c)"
  shows "conn_world s' = conn_world s \<and>
     (\<forall>c'. conn_con s' = Some c' \<longrightarrow>
        con_request c' = con_request c \<and> con_response c' = con_response c)"
  using assms(1)
proof (cases rule: conn_step.cases)
  case (conn_event c0 ev ret con pcb w h)
  have "only_sends c (conn_world s) (Some (ret, con, pcb, w, h))"
    using processed_callback [OF assms(2,3)] conn_event(4) by metis
  then show ?thesis by (simp only: conn_event(1) only_sends_def conn.simps option.inject prod.inject) blast
qed

lemma processed_run:
  assumes "(conn_step net env)\<^sup>*\<^sup>* s s'" and "conn_con s = Some c" and "processed (con_request c)"
  shows "conn_world s' = conn_world s \<and>
     (\<forall>c'. conn_con s' = Some c' \<longrightarrow>
        con_request c' = con_request c \<and> con_response c' = con_response c)"
  using assms(1)
proof (induction rule: rtranclp_induct)
  case base
  then show ?case using assms(2) by simp
next
  case (step t u)
  from step(2) obtain ct where ct: "conn_con t = Some ct" by (cases rule: conn_step.cases) simp
  then have same: "con_request ct = con_request c" "con_response ct = con_response c"
      "conn_world t = conn_world s"
    using step.IH by simp_all
  then have "processed (con_request ct)" using assms(3) by simp
  from processed_step [OF step(2) ct this] show ?case unfolding same .
qed

text \<open>
  C32: a request is handled once. From the moment it has been handled, nothing that the client
  sends and no other callback changes the settings, the state of the main loop or the
  response; and the acknowledgement of its last byte, at which the whole response has been
  sent, closes the connection.
\<close>

theorem http_request_once:
  assumes "tcp_laws net accepted" and "accepted pcb = []"
    and "(conn_step net env)\<^sup>*\<^sup>* (conn_start pcb w (h\<lparr>live := live h + 1\<rparr>)) s"
    and "conn_con s = Some c" and "processed (con_request c)" and "(conn_step net env)\<^sup>*\<^sup>* s s'"
  shows "conn_world s' = conn_world s \<and>
     (\<forall>c'. conn_con s' = Some c' \<longrightarrow> con_response c' = con_response c \<and>
        (\<forall>k. event_allowed (Ev_sent k) c' \<longrightarrow>
             response_total_len (con_response c) \<le> acked_len c' + k \<longrightarrow>
           accepted (conn_pcb s') = response_text (con_response c) \<and>
           (\<exists>ret p h'. conn_callback net env (Ev_sent k) s' =
              Some (ret, None, p, conn_world s', h'))))"
proof -
  have "conn_inv accepted (live h) s'"
    using conn_run_inv [OF rtranclp_trans [OF assms(3,6)] assms(1)]
      conn_start_inv [of accepted pcb h w] assms(2) by simp
  then have inv: "con_inv c'" "accepted_ok accepted c' (conn_pcb s')" if "conn_con s' = Some c'" for c'
    using that by (simp_all add: conn_inv_def)
  have run: "conn_world s' = conn_world s" "\<And>c'. conn_con s' = Some c' \<Longrightarrow>
      con_request c' = con_request c \<and> con_response c' = con_response c"
    using processed_run [OF assms(6,4,5)] by blast+
  have "accepted (conn_pcb s') = response_text (con_response c) \<and>
      (\<exists>ret p h'. conn_callback net env (Ev_sent k) s' = Some (ret, None, p, conn_world s', h'))"
    if c': "conn_con s' = Some c'" and k: "event_allowed (Ev_sent k) c'"
      "response_total_len (con_response c) \<le> acked_len c' + k" for c' k
  proof -
    have "response_full (con_response c')" "queued_len c' \<le> response_total_len (con_response c')"
      using inv(1) [OF c'] run(2) [OF c'] assms(5) by (simp_all add: con_inv_def)
    then have "take (queued_len c') (response_text (con_response c')) = response_text (con_response c')"
      using k run(2) [OF c'] by (simp add: length_response_text)
    then show ?thesis
      using inv(2) [OF c'] run(2) [OF c'] k c'
      by (simp add: accepted_ok_def conn_callback_def tcp_server_sent_def close_with_def split: prod.split)
  qed
  with run show ?thesis by blast
qed

section \<open>A concrete connection\<close>

text \<open>A protocol control block that accepts everything; its state is what it has accepted.\<close>

definition plain_lwip :: "string lwip" where
  "plain_lwip =
     \<lparr> tcp_sndbuf = (\<lambda>_. 1000), tcp_write = (\<lambda>p d copy more. (0, p @ d)),
       tcp_output = (\<lambda>p. (0, p)), tcp_recved = (\<lambda>p n. p), tcp_forget = (\<lambda>p. p),
       tcp_close = (\<lambda>p. (0, p)), tcp_abort = (\<lambda>p. p) \<rparr>"

lemma plain_lwip_laws: "tcp_laws plain_lwip (\<lambda>p. p)"
  by (simp add: tcp_laws_def plain_lwip_def)

definition sample_env :: web_env where
  "sample_env = \<lparr>env_index_html = ''page'', env_flash = nor_flash True True, env_address = ''192.168.4.1''\<rparr>"

definition sample_world :: web_world where
  "sample_world =
     \<lparr>web_ctl = controller_start,
      web_store = \<lparr>global_settings = default_settings, flash = (\<lambda>_. 0xFF)\<rparr>,
      web_clock = clock_init (\<lambda>_. 0)\<rparr>"

definition sample_heap :: heap where
  "sample_heap = \<lparr>alloc_fails = (\<lambda>_. False), allocs = 0, live = 0\<rparr>"

lemma sample_post: "take 5 sample_header = HTTP_POST" "get_request_path sample_header 5 = ''/api/settings''"
  by (simp_all add: sample_header_def HTTP_POST_def get_request_path_def)

lemma plain_send_loop: "send_loop plain_lwip r q p = Some (q', e, p') \<Longrightarrow> e = None"
proof (induction plain_lwip r q p rule: send_loop.induct)
  case (1 r q p)
  show ?case
    using 1(2)
    by (subst (asm) send_loop.simps)
      (auto simp: Let_def plain_lwip_def split: if_splits option.splits prod.splits
        dest!: 1(1) [unfolded plain_lwip_def, simplified])
qed

lemma plain_send_more:
  assumes "response_full (con_response c)"
  shows "\<exists>q p. send_more plain_lwip c pcb = Some (ERR_OK, c\<lparr>queued_len := q\<rparr>, p)"
proof -
  obtain err q p where m: "send_more plain_lwip c pcb = Some (err, c\<lparr>queued_len := q\<rparr>, p)"
    using send_more_runs [OF assms, of plain_lwip pcb] by blast
  moreover have "tcp_output plain_lwip x = (0, x)" for x by (simp add: plain_lwip_def)
  ultimately have "err = ERR_OK"
    by (auto simp: send_more_def split: option.splits prod.splits dest!: plain_send_loop)
  with m show ?thesis by blast
qed

lemma sample_run:
  "\<exists>s c. conn_step plain_lwip sample_env
       (conn_start [] sample_world (sample_heap\<lparr>live := live sample_heap + 1\<rparr>)) s \<and>
     conn_con s = Some c \<and> processed (con_request c)"
proof -
  let ?h = "sample_heap\<lparr>live := live sample_heap + 1\<rparr>"
  let ?p = "sample_header @ crlf2 @ ''{}''"
  obtain req where req: "request_recv ?p request_start = Some (Ready, req)"
      "request_complete sample_header ''{}'' req"
    using request_recv_step [OF sample_request _ received_start, of ?p "[]"] by auto
  obtain err st where e: "set_settings_json (env_flash sample_env) (Some (cstr ''{}''))
      (web_store sample_world) = (err, st)" by fastforce
  have mem: "\<not> alloc_fails ?h (allocs ?h)" by (simp add: sample_heap_def)
  obtain r h' where r: "handle_request sample_env sample_world req empty_response ?h =
       Some (sample_world\<lparr>web_store := st\<rparr>, ERR_SUCCESS, r, h')" "response_full r"
    using post_settings_handled [OF req(2) sample_post mem e] by blast
  let ?c = "con_start\<lparr>idle_polls := 0, con_request := req, con_response := r\<rparr>"
  obtain q p where m: "send_more plain_lwip ?c (tcp_recved plain_lwip [] (length ?p)) =
      Some (ERR_OK, ?c\<lparr>queued_len := q\<rparr>, p)"
    using plain_send_more [of ?c "tcp_recved plain_lwip [] (length ?p)"] r(2) by auto
  have np: "\<not> processed request_start" by (simp add: request_start_def)
  have "conn_callback plain_lwip sample_env (Ev_recv (Some ?p) ERR_OK) (conn_start [] sample_world ?h) =
      Some (ERR_OK, Some (?c\<lparr>queued_len := q\<rparr>), p, sample_world\<lparr>web_store := st\<rparr>, h')"
    using req(1) r m np
    by (simp add: conn_callback_def conn_start_def tcp_server_recv_def pbuf_block Let_def)
      (simp add: con_start_def)
  moreover have "event_allowed (Ev_recv (Some ?p) ERR_OK) con_start"
    by (simp add: sample_header_def crlf2_def)
  moreover have "processed req" using req(2) by (simp add: request_complete_def)
  moreover have "conn_con (conn_start [] sample_world ?h) = Some con_start"
    by (simp add: conn_start_def)
  ultimately show ?thesis
    using conn_step.conn_event [of "conn_start [] sample_world ?h" con_start
        "Ev_recv (Some ?p) ERR_OK" plain_lwip sample_env] by fastforce
qed

lemma http_connection_safe_witness:
  "\<exists>s c. (conn_step plain_lwip sample_env)\<^sup>*\<^sup>*
       (conn_start [] sample_world (sample_heap\<lparr>live := live sample_heap + 1\<rparr>)) s \<and>
     conn_con s = Some c \<and> processed (con_request c) \<and>
     live (conn_heap s) = con_blocks (conn_con s) \<and>
     conn_pcb s = take (queued_len c) (response_text (con_response c)) \<and>
     conn_callback plain_lwip sample_env (Ev_recv (Some ''x'') ERR_OK) s \<noteq> None"
proof -
  obtain s c where s: "conn_step plain_lwip sample_env
       (conn_start [] sample_world (sample_heap\<lparr>live := live sample_heap + 1\<rparr>)) s"
     "conn_con s = Some c" "processed (con_request c)"
    using sample_run by blast
  then have "(conn_step plain_lwip sample_env)\<^sup>*\<^sup>*
       (conn_start [] sample_world (sample_heap\<lparr>live := live sample_heap + 1\<rparr>)) s" by blast
  from http_connection_safe [OF plain_lwip_laws refl this] this s(2,3) show ?thesis
    by (intro exI [of _ s] exI [of _ c]) (simp add: sample_heap_def)
qed

lemma http_request_once_witness:
  "\<exists>s. (conn_step plain_lwip sample_env)\<^sup>*\<^sup>*
       (conn_start [] sample_world (sample_heap\<lparr>live := live sample_heap + 1\<rparr>)) s \<and>
     (\<forall>s'. (conn_step plain_lwip sample_env)\<^sup>*\<^sup>* s s' \<longrightarrow> conn_world s' = conn_world s)"
proof -
  obtain s c where s: "conn_step plain_lwip sample_env
       (conn_start [] sample_world (sample_heap\<lparr>live := live sample_heap + 1\<rparr>)) s"
     "conn_con s = Some c" "processed (con_request c)"
    using sample_run by blast
  then have r: "(conn_step plain_lwip sample_env)\<^sup>*\<^sup>*
       (conn_start [] sample_world (sample_heap\<lparr>live := live sample_heap + 1\<rparr>)) s" by blast
  with http_request_once [OF plain_lwip_laws refl r s(2,3)] show ?thesis by blast
qed

lemma http_post_settings_witness:
  "\<exists>err st s ret con pcb' h'.
     set_settings_json (nor_flash True True) (Some ''{}'') (web_store sample_world) = (err, st) \<and>
     run_packets plain_lwip sample_env [sample_header, [CHR 0x0D]] (conn_start [] sample_world sample_heap) = Some s \<and>
     conn_callback plain_lwip sample_env
       (Ev_recv (Some ([CHR 0x0A, CHR 0x0D, CHR 0x0A] @ ''{}'')) ERR_OK) s =
       Some (ret, con, pcb', sample_world\<lparr>web_store := st\<rparr>, h')"
proof -
  obtain err st where e: "set_settings_json (env_flash sample_env) (Some (cstr ''{}''))
      (web_store sample_world) = (err, st)" by fastforce
  have ps: "concat [sample_header, [CHR 0x0D]] @ ([CHR 0x0A, CHR 0x0D, CHR 0x0A] @ ''{}'') =
      sample_header @ crlf2 @ ''{}''" by (simp add: crlf2_def)
  have "cstr ''{}'' = ''{}''" by (simp add: cstr_def)
  with e http_post_settings [OF sample_request sample_post ps _ _ e, of sample_heap plain_lwip "[]"]
  show ?thesis by (auto simp: sample_heap_def sample_env_def)
qed

end
