(* ===== verification/Dhcp.thy ===== *)
theory Dhcp
  imports Prelude
begin

text \<open>
  The DHCP server of the access point, \<open>src/network/dhcp_server/dhcpserver.c\<close>: eight addresses,
  from \<open>.16\<close> on, leased by MAC address. A message is the 548 bytes of \<open>dhcp_msg_t\<close>, a variable
  on the stack: the bytes that the packet does not fill are what the stack held before, an
  argument of \<open>dhcp_server_process\<close>. A read or write outside of the message makes it \<open>None\<close>.
  The sockets are in \<open>Udp\<close>; the reply is the byte string handed to \<open>dhcp_socket_sendto\<close>. \<open>ticks\<close> is the value of \<open>cyw43_hal_ticks_ms\<close> while a packet is
  processed.
\<close>

section \<open>State and messages\<close>

record lease =
  mac :: "u8 list"
  expiry :: u16

record dhcp_server =
  dhcp_ip :: "u8 list"
  dhcp_nm :: "u8 list"
  leases :: "lease list"

definition MAC_LEN :: nat where "MAC_LEN = 6"
definition DHCPS_BASE_IP :: u8 where "DHCPS_BASE_IP = 16"
definition DHCPS_MAX_IP :: nat where "DHCPS_MAX_IP = 8"
definition DHCP_MIN_SIZE :: nat where "DHCP_MIN_SIZE = 243"
definition DEFAULT_LEASE_TIME_S :: u32 where "DEFAULT_LEASE_TIME_S = 86400"

definition zero_mac :: "u8 list" where
  "zero_mac = replicate MAC_LEN 0"

definition dhcp_server_init :: "u8 list \<Rightarrow> u8 list \<Rightarrow> dhcp_server" where
  "dhcp_server_init ip nm =
     \<lparr>dhcp_ip = ip, dhcp_nm = nm, leases = replicate DHCPS_MAX_IP \<lparr>mac = zero_mac, expiry = 0\<rparr>\<rparr>"

text \<open>Offsets of \<open>dhcp_msg_t\<close>; the options start with the magic cookie.\<close>

definition sizeof_dhcp_msg :: nat where "sizeof_dhcp_msg = 548"
definition off_chaddr :: nat where "off_chaddr = 28"
definition off_opt :: nat where "off_opt = 240"

definition chaddr :: "u8 list \<Rightarrow> u8 list" where
  "chaddr msg = take MAC_LEN (drop off_chaddr msg)"

section \<open>Options\<close>

text \<open>\<open>opt_find\<close> on the memory from \<open>opt\<close> to the end of the message: the index of the option.\<close>

function opt_find_from :: "u8 list \<Rightarrow> u8 \<Rightarrow> nat \<Rightarrow> nat option option" where
  "opt_find_from opt cmd i =
     (if i < 308 then
        (case load i opt of
           None \<Rightarrow> None
         | Some x \<Rightarrow>
             if x = 255 then Some None
             else if x = cmd then Some (Some i)
             else
               (case load (i + 1) opt of
                  None \<Rightarrow> None
                | Some n \<Rightarrow> opt_find_from opt cmd (i + (2 + unat n))))
      else Some None)"
  by pat_completeness auto
termination
  by (relation "measure (\<lambda>(opt, cmd, i). 308 - i)") auto

declare opt_find_from.simps [simp del]

definition opt_find :: "u8 list \<Rightarrow> u8 \<Rightarrow> nat option option" where
  "opt_find opt cmd = opt_find_from opt cmd 0"

definition opt_write_n :: "u8 \<Rightarrow> u8 list \<Rightarrow> u8 list" where
  "opt_write_n cmd data = cmd # of_nat (length data) # data"

definition opt_write_u8 :: "u8 \<Rightarrow> u8 \<Rightarrow> u8 list" where
  "opt_write_u8 cmd val = [cmd, 1, val]"

definition opt_write_u32 :: "u8 \<Rightarrow> u32 \<Rightarrow> u8 list" where
  "opt_write_u32 cmd val =
     [cmd, 4, ucast (drop_bit 24 val), ucast (drop_bit 16 val), ucast (drop_bit 8 val), ucast val]"

section \<open>Leases\<close>

text \<open>\<open>(int32_t)(expiry - ticks) < 0\<close> with \<open>expiry = lease.expiry << 16 | 0xffff\<close>.\<close>

definition lease_expired :: "lease \<Rightarrow> u32 \<Rightarrow> bool" where
  "lease_expired l ticks \<longleftrightarrow> sint ((push_bit 16 (ucast (expiry l)) OR 0xFFFF) - ticks) < 0"

definition new_expiry :: "u32 \<Rightarrow> u16" where
  "new_expiry ticks = ucast (drop_bit 16 (ticks + DEFAULT_LEASE_TIME_S * 1000))"

text \<open>
  The loop of \<open>DHCPDISCOVER\<close>: \<open>yi\<close> is the index chosen so far (\<open>DHCPS_MAX_IP\<close> if none); an
  expired lease is cleared when it is chosen.
\<close>

fun discover_loop :: "nat list \<Rightarrow> u32 \<Rightarrow> u8 list \<Rightarrow> nat \<Rightarrow> lease list \<Rightarrow> nat \<times> lease list" where
  "discover_loop [] ticks client yi ls = (yi, ls)"
| "discover_loop (i # is) ticks client yi ls =
     (if mac (ls ! i) = client then (i, ls)
      else if yi = DHCPS_MAX_IP then
        let yi1 = (if mac (ls ! i) = zero_mac then i else yi)
        in if lease_expired (ls ! i) ticks
           then discover_loop is ticks client i (ls[i := (ls ! i)\<lparr>mac := zero_mac\<rparr>])
           else discover_loop is ticks client yi1 ls
      else discover_loop is ticks client yi ls)"

text \<open>The two message types that are answered: index of the address and new leases.\<close>

definition dhcp_discover :: "u32 \<Rightarrow> u8 list \<Rightarrow> lease list \<Rightarrow> nat option \<times> lease list" where
  "dhcp_discover ticks client ls =
     (let (yi, ls1) = discover_loop [0..<DHCPS_MAX_IP] ticks client DHCPS_MAX_IP ls
      in (if yi = DHCPS_MAX_IP then None else Some yi, ls1))"

definition dhcp_request :: "u32 \<Rightarrow> u8 list \<Rightarrow> u8 \<Rightarrow> lease list \<Rightarrow> nat option \<times> lease list" where
  "dhcp_request ticks client last_byte ls =
     (let yi = unat (last_byte - DHCPS_BASE_IP)
      in if yi \<ge> DHCPS_MAX_IP then (None, ls)
         else if mac (ls ! yi) = client then
           (Some yi, ls[yi := (ls ! yi)\<lparr>expiry := new_expiry ticks\<rparr>])
         else if mac (ls ! yi) = zero_mac then
           (Some yi, ls[yi := (ls ! yi)\<lparr>mac := client, expiry := new_expiry ticks\<rparr>])
         else (None, ls))"

section \<open>Processing a packet\<close>

text \<open>The options of a reply.\<close>

definition reply_options :: "dhcp_server \<Rightarrow> u8 \<Rightarrow> u8 list" where
  "reply_options d msgtype =
     opt_write_u8 53 msgtype @ opt_write_n 54 (dhcp_ip d) @ opt_write_n 1 (dhcp_nm d) @
     opt_write_n 3 (dhcp_ip d) @ opt_write_n 6 (dhcp_ip d) @
     opt_write_u32 51 DEFAULT_LEASE_TIME_S @ [255]"

text \<open>The header: \<open>op\<close> and \<open>yiaddr\<close> are set, the rest is that of the request.\<close>

definition reply_header :: "dhcp_server \<Rightarrow> nat \<Rightarrow> u8 list \<Rightarrow> u8 list" where
  "reply_header d yi msg =
     [2] @ take 15 (drop 1 msg) @ take 3 (dhcp_ip d) @ [DHCPS_BASE_IP + of_nat yi] @
     take 220 (drop 20 msg)"

definition dhcp_reply :: "dhcp_server \<Rightarrow> u8 \<Rightarrow> nat option \<times> lease list \<Rightarrow> u8 list \<Rightarrow>
    u8 list option \<times> dhcp_server" where
  "dhcp_reply d msgtype r msg =
     (case r of
        (None, ls) \<Rightarrow> (None, d\<lparr>leases := ls\<rparr>)
      | (Some yi, ls) \<Rightarrow> (Some (reply_header d yi msg @ reply_options d msgtype), d\<lparr>leases := ls\<rparr>))"

text \<open>
  \<open>dhcp_server_process\<close>: \<open>stack\<close> is the old contents of \<open>dhcp_msg\<close>. The outer \<open>option\<close> is the
  memory access; inside is the reply, if one is sent, and the server.
\<close>

definition dhcp_server_process ::
    "u8 list \<Rightarrow> u32 \<Rightarrow> u8 list \<Rightarrow> dhcp_server \<Rightarrow> (u8 list option \<times> dhcp_server) option" where
  "dhcp_server_process stack ticks packet d =
     (if length packet < DHCP_MIN_SIZE then Some (None, d)
      else
        let msg = take sizeof_dhcp_msg packet @ drop (length packet) (take sizeof_dhcp_msg stack);
            opt = drop off_opt msg
        in case opt_find opt 53 of
             None \<Rightarrow> None
           | Some None \<Rightarrow> Some (None, d)
           | Some (Some t) \<Rightarrow>
               (case load (t + 2) opt of
                  None \<Rightarrow> None
                | Some msgtype \<Rightarrow>
                    if msgtype = 1 then
                      Some (dhcp_reply d 2 (dhcp_discover ticks (chaddr msg) (leases d)) msg)
                    else if msgtype = 3 then
                      (case opt_find opt 50 of
                         None \<Rightarrow> None
                       | Some None \<Rightarrow> Some (None, d)
                       | Some (Some o50) \<Rightarrow>
                           if length opt < o50 + 5 then None
                           else if take 3 (drop (o50 + 2) opt) \<noteq> take 3 (dhcp_ip d)
                           then Some (None, d)
                           else
                             (case load (o50 + 5) opt of
                                None \<Rightarrow> None
                              | Some x \<Rightarrow>
                                  Some (dhcp_reply d 5
                                    (dhcp_request ticks (chaddr msg) x (leases d)) msg)))
                    else Some (None, d)))"

section \<open>Lease time\<close>

lemma set_low_bits:
  fixes x :: u32
  shows "\<exists>r. uint r \<le> 65535 \<and> (push_bit 16 (ucast (ucast (drop_bit 16 x) :: u16)) OR 0xFFFF) = x + r"
proof -
  let ?y = "push_bit 16 (ucast (ucast (drop_bit 16 x) :: u16)) OR 0xFFFF :: u32"
  let ?r = "NOT x AND 0xFFFF"
  have m: "(0xFFFF :: u32) = mask 16" by (simp add: mask_eq_exp_minus_1)
  have "?y = x OR ?r"
    unfolding m by (rule bit_word_eqI) (auto simp: bit_simps)
  moreover have "x AND ?r = 0"
    by (rule bit_word_eqI) (auto simp: bit_simps)
  moreover have "uint ?r \<le> 65535"
    by (simp add: unsigned_and_eq AND_upper2)
  ultimately show ?thesis
    using word_plus_and_or [of x ?r] by (intro exI [of _ ?r]) simp
qed

text \<open>The rest of a lease as a signed number: \<open>r\<close> is what the rounding to 16 bits adds.\<close>

lemma lease_rest:
  assumes "unat dt < 2 ^ 31" and "expiry l = new_expiry t"
  shows "\<exists>r. 0 \<le> r \<and> r \<le> 65535 \<and> (lease_expired l (t + dt) \<longleftrightarrow> r + 86400000 - int (unat dt) < 0)"
proof -
  obtain r :: u32 where r: "uint r \<le> 65535"
      "(push_bit 16 (ucast (new_expiry t)) OR 0xFFFF :: u32) = (t + 86400000) + r"
    using set_low_bits [of "t + 86400000"]
    by (auto simp: new_expiry_def DEFAULT_LEASE_TIME_S_def)
  let ?v = "uint r + 86400000 - uint dt"
  have e1: "(t + 86400000 + r) - (t + dt) = r + 86400000 - dt"
    by (simp add: algebra_simps)
  have e2: "r + 86400000 - dt = word_of_int ?v"
    by simp
  have e: "lease_expired l (t + dt) \<longleftrightarrow> sint (word_of_int ?v :: u32) < 0"
    by (simp only: lease_expired_def assms(2) r(2) e1 e2)
  have "int (unat dt) < int (2 ^ 31)"
    using assms(1) by (simp only: of_nat_less_iff)
  then have "uint dt < 2147483648"
    by simp
  moreover have "0 \<le> uint r" "0 \<le> uint dt" by (rule unsigned_greater_eq)+
  ultimately have v: "- 2147483648 \<le> ?v" "?v < 2147483648"
    using r(1) by linarith+
  have p: "(2 :: int) ^ 31 = 2147483648" by simp
  have "signed_take_bit 31 ?v = ?v"
    by (rule signed_take_bit_int_eq_self) (unfold p, fact v(1), fact v(2))
  then have "sint (word_of_int ?v :: u32) = ?v"
    by (simp only: signed_of_int) simp
  with e r(1) show ?thesis
    by (intro exI [of _ "uint r"]) simp
qed

text \<open>
  A lease lasts at least the 24 hours it promises and at most 65536 ms more, although only
  16 bits of the time are kept, and whatever the millisecond counter was when it was granted:
  neither the truncation nor a wrap of the counter shortens it.
\<close>

theorem lease_lasts_a_day:
  assumes "expiry l = new_expiry t" and "unat dt < 2 ^ 31"
  shows "(unat dt \<le> 86400000 \<longrightarrow> \<not> lease_expired l (t + dt)) \<and>
     (86400000 + 65536 \<le> unat dt \<longrightarrow> lease_expired l (t + dt))"
proof -
  obtain r where "0 \<le> r" "r \<le> 65535"
      "lease_expired l (t + dt) \<longleftrightarrow> r + 86400000 - int (unat dt) < 0"
    using lease_rest [OF assms(2,1)] by blast
  then show ?thesis by linarith
qed

lemma lease_lasts_a_day_witness:
  "\<not> lease_expired \<lparr>mac = zero_mac, expiry = new_expiry 0xFFFFFF00\<rparr> (0xFFFFFF00 + 86400000)"
  using lease_lasts_a_day [where l = "\<lparr>mac = zero_mac, expiry = new_expiry 0xFFFFFF00\<rparr>" and
      t = "0xFFFFFF00" and dt = "86400000"]
  by simp

section \<open>Leases of other clients\<close>

lemma length_discover [simp]: "length (snd (discover_loop is ticks c yi ls)) = length ls"
  by (induction "is" ticks c yi ls rule: discover_loop.induct) (auto simp: Let_def)

lemma discover_loop_protects:
  assumes "mac (ls ! j) = A" and "A \<noteq> zero_mac" and "A \<noteq> c" and "\<not> lease_expired (ls ! j) ticks"
    and "j < length ls" and "yi \<noteq> j" and "discover_loop is ticks c yi ls = (yi', ls')"
  shows "yi' \<noteq> j \<and> ls' ! j = ls ! j"
  using assms
proof (induction "is" ticks c yi ls rule: discover_loop.induct)
  case (2 i "is" ticks c yi ls)
  have keep: "(ls[i := x]) ! j = ls ! j" if "lease_expired (ls ! i) ticks" for x
    using that 2 by (metis nth_list_update_neq)
  show ?case
    using 2 keep by (cases "i = j") (auto simp: Let_def split: if_splits)
qed simp

lemma discover_loop_bound:
  "discover_loop is ticks c yi ls = (yi', ls') \<Longrightarrow> yi' = yi \<or> yi' \<in> set is"
  by (induction "is" ticks c yi ls rule: discover_loop.induct) (auto simp: Let_def split: if_splits)

lemma discover_bound:
  "dhcp_discover ticks c ls = (Some y, ls') \<Longrightarrow> y < DHCPS_MAX_IP"
  by (auto simp: dhcp_discover_def split: if_splits prod.splits dest!: discover_loop_bound)

lemma dhcp_discover_protects:
  assumes "mac (ls ! j) = A" and "A \<noteq> zero_mac" and "A \<noteq> c" and "\<not> lease_expired (ls ! j) ticks"
    and "j < length ls" and "length ls = DHCPS_MAX_IP" and "dhcp_discover ticks c ls = (r, ls')"
  shows "r \<noteq> Some j \<and> ls' ! j = ls ! j"
proof -
  obtain yi ls1 where d: "discover_loop [0..<DHCPS_MAX_IP] ticks c DHCPS_MAX_IP ls = (yi, ls1)"
    by fastforce
  have "DHCPS_MAX_IP \<noteq> j" using assms(5,6) by simp
  from discover_loop_protects [OF assms(1-5) this d] show ?thesis
    using assms(7) by (auto simp: dhcp_discover_def d split: if_splits)
qed

lemma dhcp_request_protects:
  assumes "mac (ls ! j) = A" and "A \<noteq> zero_mac" and "A \<noteq> c"
    and "dhcp_request ticks c x ls = (r, ls')"
  shows "r \<noteq> Some j \<and> ls' ! j = ls ! j"
proof (cases "unat (x - DHCPS_BASE_IP) = j")
  case True
  then show ?thesis using assms by (auto simp: dhcp_request_def split: if_splits)
next
  case False
  then show ?thesis using assms(4) by (auto simp: dhcp_request_def Let_def split: if_splits)
qed

text \<open>A packet is ignored, or answered as a discovery or as a request.\<close>

lemma dhcp_process_cases:
  assumes "dhcp_server_process stack ticks packet d = Some (reply, d')"
  defines "msg \<equiv> take sizeof_dhcp_msg packet @ drop (length packet) (take sizeof_dhcp_msg stack)"
  shows "reply = None \<and> d' = d \<or>
     dhcp_reply d 2 (dhcp_discover ticks (chaddr msg) (leases d)) msg = (reply, d') \<or>
     (\<exists>x. dhcp_reply d 5 (dhcp_request ticks (chaddr msg) x (leases d)) msg = (reply, d'))"
  using assms(1) unfolding dhcp_server_process_def msg_def [symmetric] Let_def
  by (auto split: if_splits option.splits)

text \<open>An answer that offers another address leaves this lease alone.\<close>

lemma dhcp_reply_other:
  assumes "dhcp_reply d k (x, ls') msg = (reply, d')" and "x \<noteq> Some j" and "\<forall>y. x = Some y \<longrightarrow> y < DHCPS_MAX_IP"
    and "j < DHCPS_MAX_IP" and "length (dhcp_ip d) = 4" and "36 \<le> length msg"
  shows "(ls' ! j = leases d ! j \<longrightarrow> leases d' ! j = leases d ! j) \<and>
     (\<forall>r. reply = Some r \<longrightarrow> r ! 19 \<noteq> DHCPS_BASE_IP + of_nat j)"
proof (cases x)
  case None
  then show ?thesis using assms(1) by (auto simp: dhcp_reply_def)
next
  case (Some y)
  have y: "y < 8" "y \<noteq> j" "j < 8" using assms(2-4) Some by (auto simp: DHCPS_MAX_IP_def)
  have "(of_nat y :: u8) \<noteq> of_nat j"
    using y by (simp add: word_unat_eq_iff unat_of_nat)
  moreover have "reply_header d y msg ! 19 = DHCPS_BASE_IP + of_nat y"
    using assms(5,6) by (simp add: reply_header_def nth_append)
  moreover have "19 < length (reply_header d y msg)"
    using assms(5,6) by (simp add: reply_header_def)
  ultimately show ?thesis
    using assms(1) Some by (auto simp: dhcp_reply_def nth_append)
qed

text \<open>
  C34: a lease is exclusive. While the lease of an address has not expired, no packet, whatever it
  contains and whatever the stack contained, changes the entry if it does not carry the MAC
  address of the holder, and no reply to such a packet carries the address.
\<close>

theorem dhcp_lease_exclusive:
  assumes "length (leases d) = DHCPS_MAX_IP" and "j < DHCPS_MAX_IP" and "length (dhcp_ip d) = 4"
    and "mac (leases d ! j) \<noteq> zero_mac" and "\<not> lease_expired (leases d ! j) ticks"
    and "mac (leases d ! j) \<noteq> chaddr packet"
    and "dhcp_server_process stack ticks packet d = Some (reply, d')"
  shows "leases d' ! j = leases d ! j \<and>
     (\<forall>r. reply = Some r \<longrightarrow> r ! 19 \<noteq> DHCPS_BASE_IP + of_nat j)"
proof (cases "length packet < DHCP_MIN_SIZE")
  case True
  then show ?thesis using assms(7) by (simp add: dhcp_server_process_def)
next
  case False
  define msg where "msg = take sizeof_dhcp_msg packet @ drop (length packet) (take sizeof_dhcp_msg stack)"
  have c: "chaddr msg = chaddr packet"
    using False by (simp add: chaddr_def msg_def DHCP_MIN_SIZE_def MAC_LEN_def off_chaddr_def
        sizeof_dhcp_msg_def drop_take)
  have len: "36 \<le> length msg"
    using False by (simp add: msg_def DHCP_MIN_SIZE_def sizeof_dhcp_msg_def)
  have rep: "leases d' ! j = leases d ! j \<and> (\<forall>r. reply = Some r \<longrightarrow> r ! 19 \<noteq> DHCPS_BASE_IP + of_nat j)"
    if "Some (dhcp_reply d k (x, ls') msg) = Some (reply, d')" "x \<noteq> Some j" "ls' ! j = leases d ! j"
      "\<forall>y. x = Some y \<longrightarrow> y < DHCPS_MAX_IP" for k x ls'
    using dhcp_reply_other [OF _ that(2,4) assms(2,3) len] that(1,3) by simp
  obtain x1 ls1 where disc: "dhcp_discover ticks (chaddr msg) (leases d) = (x1, ls1)" by fastforce
  have p1: "x1 \<noteq> Some j \<and> ls1 ! j = leases d ! j"
    using dhcp_discover_protects [OF refl assms(4) _ assms(5) _ assms(1) disc] assms(1,2,6) c by simp
  consider "reply = None \<and> d' = d"
    | "dhcp_reply d 2 (dhcp_discover ticks (chaddr msg) (leases d)) msg = (reply, d')"
    | x where "dhcp_reply d 5 (dhcp_request ticks (chaddr msg) x (leases d)) msg = (reply, d')"
    using dhcp_process_cases [OF assms(7)] unfolding msg_def by blast
  then show ?thesis
  proof cases
    case 1
    then show ?thesis by simp
  next
    case 2
    then show ?thesis
      using rep [of 2 x1 ls1] p1 discover_bound [of ticks "chaddr msg" "leases d" _ ls1] disc by simp
  next
    case (3 x)
    obtain x2 ls2 where req: "dhcp_request ticks (chaddr msg) x (leases d) = (x2, ls2)" by fastforce
    have "x2 \<noteq> Some j \<and> ls2 ! j = leases d ! j"
      using dhcp_request_protects [OF refl assms(4) _ req] assms(6) c by simp
    moreover have "\<forall>y. x2 = Some y \<longrightarrow> y < DHCPS_MAX_IP"
      using req by (auto simp: dhcp_request_def Let_def split: if_splits)
    ultimately show ?thesis using rep [of 5 x2 ls2] 3 req by simp
  qed
qed

text \<open>A discovery of another client while the first address is leased.\<close>

definition sample_server :: dhcp_server where
  "sample_server = (dhcp_server_init [192, 168, 4, 1] [255, 255, 255, 0])
     \<lparr>leases := replicate DHCPS_MAX_IP \<lparr>mac = [2, 3, 5, 7, 11, 13], expiry = new_expiry 1000\<rparr>\<rparr>"

definition discover_packet :: "u8 list" where
  "discover_packet = replicate 240 0 @ [53, 1, 1]"

lemma discover_packet_runs:
  "\<exists>r d'. dhcp_server_process (replicate 548 255) t discover_packet d = Some (r, d')"
proof -
  have "opt_find (drop off_opt (take sizeof_dhcp_msg discover_packet @
      drop (length discover_packet) (take sizeof_dhcp_msg (replicate 548 255)))) 53 = Some (Some 0)"
    by (simp add: opt_find_def opt_find_from.simps discover_packet_def sizeof_dhcp_msg_def off_opt_def)
  then show ?thesis
    by (auto simp: dhcp_server_process_def discover_packet_def DHCP_MIN_SIZE_def Let_def
        sizeof_dhcp_msg_def off_opt_def dhcp_reply_def split: option.splits prod.splits)
qed

lemma dhcp_lease_exclusive_witness:
  "\<exists>r d'. dhcp_server_process (replicate 548 255) 2000 discover_packet sample_server = Some (r, d') \<and>
     leases d' ! 5 = leases sample_server ! 5"
proof -
  obtain r d' where run:
    "dhcp_server_process (replicate 548 255) 2000 discover_packet sample_server = Some (r, d')"
    using discover_packet_runs by blast
  have d: "length (leases sample_server) = DHCPS_MAX_IP" "5 < DHCPS_MAX_IP" "length (dhcp_ip sample_server) = 4"
    "leases sample_server ! 5 = \<lparr>mac = [2, 3, 5, 7, 11, 13], expiry = new_expiry 1000\<rparr>"
    by (simp_all add: sample_server_def dhcp_server_init_def DHCPS_MAX_IP_def)
  have z: "zero_mac = [0, 0, 0, 0, 0, 0]" "chaddr discover_packet = [0, 0, 0, 0, 0, 0]"
    by (simp_all add: zero_mac_def MAC_LEN_def chaddr_def discover_packet_def off_chaddr_def eval_nat_numeral)
  have "\<not> lease_expired (leases sample_server ! 5) 2000" "mac (leases sample_server ! 5) \<noteq> zero_mac"
    "mac (leases sample_server ! 5) \<noteq> chaddr discover_packet"
    unfolding d(4) z by (simp_all add: lease_expired_def new_expiry_def DEFAULT_LEASE_TIME_S_def)
  from dhcp_lease_exclusive [OF d(1-3) this(2,1,3) run] run show ?thesis by blast
qed

section \<open>Offer and acknowledgement\<close>

lemma discover_loop_usable:
  assumes "yi = DHCPS_MAX_IP \<or> yi < length ls \<and> mac (ls ! yi) \<in> {c, zero_mac}"
    and "\<forall>i \<in> set is. i < length ls" and "discover_loop is ticks c yi ls = (yi', ls')"
  shows "yi' = DHCPS_MAX_IP \<or> yi' < length ls' \<and> mac (ls' ! yi') \<in> {c, zero_mac}"
  using assms
proof (induction "is" ticks c yi ls rule: discover_loop.induct)
  case (2 i "is" ticks c yi ls)
  consider "mac (ls ! i) = c"
    | "mac (ls ! i) \<noteq> c" "yi \<noteq> DHCPS_MAX_IP"
    | "mac (ls ! i) \<noteq> c" "yi = DHCPS_MAX_IP" "lease_expired (ls ! i) ticks"
    | "mac (ls ! i) \<noteq> c" "yi = DHCPS_MAX_IP" "\<not> lease_expired (ls ! i) ticks"
    by blast
  then show ?case
  proof cases
    case 3
    then show ?thesis using 2(1) [OF 3(1,2) refl 3(3)] 2(4-6) by simp
  next
    case 4
    then show ?thesis using 2(2) [OF 4(1,2) refl 4(3)] 2(4-6) by (simp split: if_splits)
  qed (use 2 in auto)
qed simp

text \<open>
  An offer is honoured. If the server offers an address to a client and no other packet comes
  between, the client's request for that address is acknowledged at any later time, the
  address is entered under the client's MAC address, and its lease time starts anew.
\<close>

theorem dhcp_offer_honoured:
  assumes "length ls = DHCPS_MAX_IP" and "dhcp_discover ticks client ls = (Some yi, ls1)"
  shows "\<exists>ls2. dhcp_request ticks' client (DHCPS_BASE_IP + of_nat yi) ls1 = (Some yi, ls2) \<and>
     mac (ls2 ! yi) = client \<and> expiry (ls2 ! yi) = new_expiry ticks'"
proof -
  have loop: "discover_loop [0..<DHCPS_MAX_IP] ticks client DHCPS_MAX_IP ls = (yi, ls1)"
      "yi \<noteq> DHCPS_MAX_IP"
    using assms(2) by (auto simp: dhcp_discover_def split: prod.splits if_splits)
  have usable: "yi < length ls1" "mac (ls1 ! yi) \<in> {client, zero_mac}"
    using discover_loop_usable [OF _ _ loop(1)] loop(2) assms(1) by auto
  have "yi < 8" using discover_bound [OF assms(2)] by (simp add: DHCPS_MAX_IP_def)
  then have "unat (DHCPS_BASE_IP + of_nat yi - DHCPS_BASE_IP) = yi" "\<not> DHCPS_MAX_IP \<le> yi"
    by (simp_all add: unat_of_nat DHCPS_MAX_IP_def)
  then show ?thesis
    using usable by (auto simp: dhcp_request_def Let_def)
qed

lemma dhcp_offer_honoured_witness:
  "\<exists>yi ls1 ls2. dhcp_discover 5 [1, 1, 1, 1, 1, 1] (leases (dhcp_server_init [] [])) = (Some yi, ls1) \<and>
     dhcp_request 900 [1, 1, 1, 1, 1, 1] (DHCPS_BASE_IP + of_nat yi) ls1 = (Some yi, ls2)"
proof -
  let ?ls = "leases (dhcp_server_init [] [])"
  have "fst (discover_loop [0..<DHCPS_MAX_IP] 5 [1, 1, 1, 1, 1, 1] DHCPS_MAX_IP ?ls) = 0"
    by code_simp
  then obtain ls1 where d: "dhcp_discover 5 [1, 1, 1, 1, 1, 1] ?ls = (Some 0, ls1)"
    by (cases "discover_loop [0..<DHCPS_MAX_IP] 5 [1, 1, 1, 1, 1, 1] DHCPS_MAX_IP ?ls")
      (simp add: dhcp_discover_def DHCPS_MAX_IP_def)
  have "length ?ls = DHCPS_MAX_IP" by (simp add: dhcp_server_init_def)
  from dhcp_offer_honoured [OF this d, of 900] d show ?thesis by blast
qed

section \<open>Well-formed options\<close>

text \<open>
  Options as a client should send them, in the way the code reads them: each ends before the end
  of the message, the last one is the end option, and the two that are looked at carry the
  data that is read.
\<close>

function options_from :: "u8 list \<Rightarrow> nat \<Rightarrow> bool" where
  "options_from opt i =
     (if i + 1 < length opt \<and> opt ! i \<noteq> 255 then
        (opt ! i = 53 \<longrightarrow> 1 \<le> opt ! (i + 1)) \<and> (opt ! i = 50 \<longrightarrow> 4 \<le> opt ! (i + 1)) \<and>
        options_from opt (i + (2 + unat (opt ! (i + 1))))
      else i < length opt \<and> opt ! i = 255)"
  by pat_completeness auto
termination
  by (relation "measure (\<lambda>(opt, i). length opt - i)") auto

declare options_from.simps [simp del]

definition packet_ok :: "u8 list \<Rightarrow> u8 list \<Rightarrow> bool" where
  "packet_ok stack packet \<longleftrightarrow> length packet < DHCP_MIN_SIZE \<or>
     options_from (drop off_opt (take sizeof_dhcp_msg packet @
       drop (length packet) (take sizeof_dhcp_msg stack))) 0"

lemma options_from_find:
  assumes "options_from opt i" and "cmd \<noteq> 255"
  shows "\<exists>r. opt_find_from opt cmd i = Some r \<and>
     (\<forall>t. r = Some t \<longrightarrow> opt ! t = cmd \<and> t + 2 + unat (opt ! (t + 1)) < length opt \<and>
        (cmd = 53 \<longrightarrow> 1 \<le> opt ! (t + 1)) \<and> (cmd = 50 \<longrightarrow> 4 \<le> opt ! (t + 1)))"
  using assms(1)
proof (induction opt i rule: options_from.induct)
  case (1 opt i)
  let ?n = "unat (opt ! (i + 1))"
  show ?case
  proof (cases "i + 1 < length opt \<and> opt ! i \<noteq> 255")
    case False
    then have "i < length opt" "opt ! i = 255" using 1(2) by (simp_all add: options_from.simps)
    then show ?thesis by (subst opt_find_from.simps) simp
  next
    case True
    then have rest: "options_from opt (i + (2 + ?n))"
        "opt ! i = 53 \<longrightarrow> 1 \<le> opt ! (i + 1)" "opt ! i = 50 \<longrightarrow> 4 \<le> opt ! (i + 1)"
      using 1(2) by (simp_all add: options_from.simps [of opt i])
    then have "i + (2 + ?n) < length opt"
      by (subst (asm) options_from.simps) (auto split: if_splits)
    then show ?thesis
      using True rest 1(1) [OF True rest(1)] by (subst opt_find_from.simps) auto
  qed
qed

lemma dhcp_process_total:
  assumes "packet_ok stack packet"
  shows "\<exists>reply d'. dhcp_server_process stack ticks packet d = Some (reply, d')"
proof (cases "length packet < DHCP_MIN_SIZE")
  case True
  then show ?thesis by (simp add: dhcp_server_process_def)
next
  case False
  define msg where "msg = take sizeof_dhcp_msg packet @ drop (length packet) (take sizeof_dhcp_msg stack)"
  define opt where "opt = drop off_opt msg"
  have wf: "options_from opt 0" using assms False by (simp add: packet_ok_def opt_def msg_def)
  obtain r where r: "opt_find opt 53 = Some r" "\<forall>t. r = Some t \<longrightarrow> t + 2 < length opt"
    using options_from_find [OF wf, of 53] by (fastforce simp: opt_find_def)
  obtain r2 where r2: "opt_find opt 50 = Some r2" "\<forall>t. r2 = Some t \<longrightarrow> t + 5 < length opt"
  proof -
    obtain r2 where f: "opt_find opt 50 = Some r2"
        "\<forall>t. r2 = Some t \<longrightarrow> t + 2 + unat (opt ! (t + 1)) < length opt \<and> 4 \<le> opt ! (t + 1)"
      using options_from_find [OF wf, of 50] by (auto simp: opt_find_def)
    then have "\<forall>t. r2 = Some t \<longrightarrow> t + 5 < length opt" by (auto simp: word_le_nat_alt)
    with f(1) show thesis by (rule that)
  qed
  show ?thesis
    unfolding dhcp_server_process_def Let_def msg_def [symmetric] opt_def [symmetric]
    using False r r2 by (auto split: option.split)
qed

section \<open>Reading behind the message\<close>

text \<open>
  Options of which each but the last one ends before the end of the message, none is the end option
  or \<open>cmd\<close>, and the last one is a tag in the last byte of the message.
\<close>

function cut_after_tag :: "u8 \<Rightarrow> u8 list \<Rightarrow> nat \<Rightarrow> bool" where
  "cut_after_tag cmd opt i =
     (if i + 1 < length opt then opt ! i \<noteq> 255 \<and> opt ! i \<noteq> cmd \<and>
        cut_after_tag cmd opt (i + (2 + unat (opt ! (i + 1))))
      else i + 1 = length opt \<and> opt ! i \<noteq> 255 \<and> opt ! i \<noteq> cmd)"
  by pat_completeness auto
termination
  by (relation "measure (\<lambda>(cmd, opt, i). length opt - i)") auto

declare cut_after_tag.simps [simp del]

lemma cut_after_tag_inside: "cut_after_tag cmd opt i \<Longrightarrow> i < length opt"
  by (subst (asm) cut_after_tag.simps) (auto split: if_splits)

text \<open>
  The search for \<open>cmd\<close> goes on to that tag and reads its length behind the end: the read fails,
  and with any one more byte it succeeds and the search ends without a result.
\<close>

lemma cut_after_tag_find:
  assumes "cut_after_tag cmd opt i" and "length opt = 308"
  shows "opt_find_from opt cmd i = None" and "opt_find_from (opt @ [x]) cmd i = Some None"
proof -
  have "opt_find_from opt cmd i = None \<and> opt_find_from (opt @ [x]) cmd i = Some None"
    using assms
  proof (induction cmd opt i rule: cut_after_tag.induct)
    case (1 cmd opt i)
    let ?j = "i + (2 + unat (opt ! (i + 1)))"
    show ?case
    proof (cases "i + 1 < length opt")
      case True
      then have i: "opt ! i \<noteq> 255" "opt ! i \<noteq> cmd" "cut_after_tag cmd opt ?j"
        using 1(2) by (simp_all add: cut_after_tag.simps [of cmd opt i])
      then have "opt_find_from opt cmd ?j = None \<and> opt_find_from (opt @ [x]) cmd ?j = Some None"
        using 1(1) [OF True i(3) 1(3)] by simp
      then show ?thesis
        using True i(1,2) 1(3) by (simp add: opt_find_from.simps [of _ cmd i] nth_append)
    next
      case False
      then have "i + 1 = length opt \<and> opt ! i \<noteq> 255 \<and> opt ! i \<noteq> cmd"
        using 1(2) by (simp add: cut_after_tag.simps [of cmd opt i])
      then have i: "i = 307" "opt ! 307 \<noteq> 255" "opt ! 307 \<noteq> cmd" using 1(3) by auto
      have "opt_find_from (opt @ [x]) cmd (307 + (2 + unat x)) = Some None"
        by (simp add: opt_find_from.simps)
      then show ?thesis
        using i 1(3) by (simp add: opt_find_from.simps [of _ cmd 307] nth_append)
    qed
  qed
  then show "opt_find_from opt cmd i = None" "opt_find_from (opt @ [x]) cmd i = Some None" by simp_all
qed

definition overread_packet :: "u8 list" where
  "overread_packet = replicate 240 0 @ [1, 255] @ replicate 255 0 @ [1, 48] @ replicate 48 0 @ [1]"

text \<open>
  C39: \<open>opt_find\<close> trusts the lengths of the options. Take any packet that fills the message and whose
  options, without message type and end option, end with a tag in the last byte. The search for
  the message type reads the length of that tag behind the end of \<open>dhcp_msg\<close>, and so does
  \<open>dhcp_server_process\<close>, in every state of the server. The length is the only byte missing: with any
  value behind the end, the search would end without a message type.
\<close>

theorem dhcp_opt_overread:
  assumes "length packet = sizeof_dhcp_msg" and "cut_after_tag 53 (drop off_opt packet) 0"
  shows "opt_find (drop off_opt packet) 53 = None \<and>
     (\<forall>x. opt_find (drop off_opt packet @ [x]) 53 = Some None) \<and>
     dhcp_server_process stack ticks packet d = None"
proof -
  let ?opt = "drop off_opt packet"
  have len: "length ?opt = 308" using assms(1) by (simp add: sizeof_dhcp_msg_def off_opt_def)
  note find = cut_after_tag_find [OF assms(2) len, folded opt_find_def]
  have msg: "take sizeof_dhcp_msg packet @ drop (length packet) (take sizeof_dhcp_msg stack) = packet"
    using assms(1) by simp
  have "dhcp_server_process stack ticks packet d = None"
    unfolding dhcp_server_process_def Let_def msg
    using find(1) assms(1) by (simp add: DHCP_MIN_SIZE_def sizeof_dhcp_msg_def)
  then show ?thesis using find by blast
qed

lemma dhcp_opt_overread_witness:
  "dhcp_server_process (replicate 548 7) 5 overread_packet (dhcp_server_init [192, 168, 4, 1] [255, 255, 255, 0]) = None \<and>
   opt_find (drop off_opt overread_packet @ [7]) 53 = Some None"
proof -
  let ?opt = "[1 :: u8, 255] @ replicate 255 0 @ [1, 48] @ replicate 48 0 @ [1]"
  have len: "length overread_packet = sizeof_dhcp_msg"
    by (simp add: overread_packet_def sizeof_dhcp_msg_def)
  have opt: "drop off_opt overread_packet = ?opt"
    by (simp add: overread_packet_def off_opt_def)
  have b: "?opt ! 0 = 1" "?opt ! Suc 0 = 255" "?opt ! 257 = 1" "?opt ! 258 = 48" "?opt ! 307 = 1" "length ?opt = 308"
    by (simp_all add: nth_append)
  have "cut_after_tag 53 ?opt 307" by (subst cut_after_tag.simps) (simp add: b del: append.simps)
  then have "cut_after_tag 53 ?opt 257" by (subst cut_after_tag.simps) (simp add: b del: append.simps)
  then have "cut_after_tag 53 ?opt 0" by (subst cut_after_tag.simps) (simp add: b del: append.simps)
  then show ?thesis
    using dhcp_opt_overread [OF len, unfolded opt, of "replicate 548 7" 5 "dhcp_server_init [192, 168, 4, 1] [255, 255, 255, 0]"] opt
    by simp
qed

end
