(* ===== verification/Dns.thy ===== *)
theory Dns
  imports Prelude
begin

text \<open>
  The DNS server of the access point, \<open>src/network/dns_server/dnsserver.c\<close>, which answers every
  question with its own address. A message is the 300 bytes of \<open>dns_msg\<close>, a variable on the
  stack: what the packet does not fill is what the stack held before, an argument. An access
  outside of it makes \<open>dns_server_process\<close> \<open>None\<close>; the inner \<open>option\<close> is the reply, as handed to
  \<open>dns_socket_sendto\<close>. The sockets are in \<open>Udp\<close>; \<open>DUMP_DATA\<close> is 0.
\<close>

section \<open>Operations\<close>

definition MAX_DNS_MSG_SIZE :: nat where "MAX_DNS_MSG_SIZE = 300"
definition sizeof_dns_header :: nat where "sizeof_dns_header = 12"

text \<open>\<open>lwip_ntohs\<close> of the field at an offset: network order is big endian.\<close>

definition ntohs_at :: "nat \<Rightarrow> u8 list \<Rightarrow> u16" where
  "ntohs_at i b = rd16 [b ! (i + 1), b ! i]"

text \<open>
  The loop over the labels of the question from the pointer \<open>q\<close> on: the pointer behind it, or
  \<open>Some None\<close> for an invalid label. The pointer may run past \<open>end_q\<close>.
\<close>

function dns_question :: "u8 list \<Rightarrow> nat \<Rightarrow> nat \<Rightarrow> nat option option" where
  "dns_question msg end_q q =
     (if q < end_q then
        (case load q msg of
           None \<Rightarrow> None
         | Some x \<Rightarrow>
             if x = 0 then Some (Some (q + 1))
             else if x > 63 then Some None
             else dns_question msg end_q (q + 1 + unat x))
      else Some (Some q))"
  by pat_completeness auto
termination
  by (relation "measure (\<lambda>(msg, end_q, q). end_q - q)") auto

declare dns_question.simps [simp del]

text \<open>The answer record: a pointer to the question, type A, class IN, 60 s, the address.\<close>

definition dns_answer :: "u8 list \<Rightarrow> u8 list" where
  "dns_answer ip = [0xc0, of_nat sizeof_dns_header, 0, 1, 0, 1, 0, 0, 0, 60, 0, 4] @ take 4 ip"

definition dns_flags :: u16 where
  "dns_flags = push_bit 15 1 OR push_bit 10 1 OR push_bit 7 1"

text \<open>The fields of the header that the reply sets.\<close>

definition dns_header_writes :: "(nat \<times> u8) list" where
  "dns_header_writes =
     [(2, ucast (drop_bit 8 dns_flags)), (3, ucast dns_flags), (4, 0), (5, 1), (6, 0), (7, 1),
      (8, 0), (9, 0), (10, 0), (11, 0)]"

definition dns_server_process :: "u8 list \<Rightarrow> u8 list \<Rightarrow> u8 list \<Rightarrow> u8 list option option" where
  "dns_server_process stack ip packet =
     (let msg_len = min (length packet) MAX_DNS_MSG_SIZE;
          msg = take MAX_DNS_MSG_SIZE packet @ drop msg_len (take MAX_DNS_MSG_SIZE stack)
      in if msg_len < sizeof_dns_header then Some None
         else
           let flags = ntohs_at 2 msg; question_count = ntohs_at 4 msg
           in if drop_bit 15 flags AND 1 \<noteq> 0 then Some None
              else if drop_bit 11 flags AND 0xf \<noteq> 0 then Some None
              else if question_count < 1 then Some None
              else
                (case dns_question msg msg_len sizeof_dns_header of
                   None \<Rightarrow> None
                 | Some None \<Rightarrow> Some None
                 | Some (Some q) \<Rightarrow>
                     if q - sizeof_dns_header > 255 then Some None
                     else
                       let a = q + 4; ans = dns_answer ip
                       in (case stores (zip [a..<a + length ans] ans @ dns_header_writes) msg of
                             None \<Rightarrow> None
                           | Some m \<Rightarrow> Some (Some (take (a + length ans) m)))))"

section \<open>The question\<close>

lemma dns_question_bounds:
  assumes "end_q \<le> length msg"
  shows "\<exists>r. dns_question msg end_q q = Some r \<and> (\<forall>q'. r = Some q' \<longrightarrow> q \<le> q')"
  using assms
proof (induction msg end_q q rule: dns_question.induct)
  case (1 msg end_q q)
  show ?case
  proof (cases "q < end_q")
    case False
    then show ?thesis by (simp add: dns_question.simps)
  next
    case True
    then have l: "load q msg = Some (msg ! q)" using 1(2) by simp
    show ?thesis
    proof (cases "msg ! q = 0 \<or> msg ! q > 63")
      case True
      then show ?thesis using \<open>q < end_q\<close> l by (subst dns_question.simps) auto
    next
      case False
      then have "\<exists>r. dns_question msg end_q (q + 1 + unat (msg ! q)) = Some r \<and>
          (\<forall>q'. r = Some q' \<longrightarrow> q + 1 + unat (msg ! q) \<le> q')"
        using 1 \<open>q < end_q\<close> l by blast
      then show ?thesis
        using \<open>q < end_q\<close> l False by (subst dns_question.simps) (auto intro: order_trans [rotated])
    qed
  qed
qed

text \<open>Writing a run of bytes.\<close>

lemma stores_run:
  assumes "a + length bs \<le> length b"
  shows "stores (zip [a..<a + length bs] bs) b = Some (take a b @ bs @ drop (a + length bs) b)"
  using assms
proof (induction bs arbitrary: a b)
  case Nil
  then show ?case by simp
next
  case (Cons x bs)
  have "stores (zip [Suc a..<Suc a + length bs] bs) (b[a := x]) =
      Some (take (Suc a) (b[a := x]) @ bs @ drop (Suc a + length bs) (b[a := x]))"
    using Cons.prems by (intro Cons.IH) simp
  moreover have "take (Suc a) (b[a := x]) = take a b @ [x]"
    using Cons.prems by (simp add: take_Suc_conv_app_nth)
  ultimately show ?case
    using Cons.prems by (simp add: store_def upt_conv_Cons del: upt_Suc)
qed

lemma stores_append:
  "stores (xs @ ys) b = (case stores xs b of None \<Rightarrow> None | Some b1 \<Rightarrow> stores ys b1)"
  by (induction xs b rule: stores.induct) (auto split: option.splits)

text \<open>The fields as a reply has them: response, authoritative; one question, one answer.\<close>

definition reply_fields :: "u8 list" where
  "reply_fields = [0x84, 0x80, 0, 1, 0, 1, 0, 0, 0, 0]"

lemma length_reply_fields [simp]: "length reply_fields = 10"
  by (simp add: reply_fields_def)

lemma dns_header_stored:
  assumes "12 \<le> length b"
  shows "stores dns_header_writes b =
     Some (take 2 b @ reply_fields @ drop 12 b)"
proof -
  have "dns_header_writes = zip [2..<2 + length [0x84 :: u8, 0x80, 0, 1, 0, 1, 0, 0, 0, 0]]
      [0x84, 0x80, 0, 1, 0, 1, 0, 0, 0, 0]"
    by (simp add: dns_header_writes_def dns_flags_def upt_rec)
  then show ?thesis
    using stores_run [of 2 "[0x84 :: u8, 0x80, 0, 1, 0, 1, 0, 0, 0, 0]" b] assms
    by (simp add: reply_fields_def)
qed

section \<open>The reply\<close>

definition dns_msg :: "u8 list \<Rightarrow> u8 list \<Rightarrow> u8 list" where
  "dns_msg stack packet = take 300 packet @ drop (min (length packet) 300) (take 300 stack)"

definition dns_reply :: "u8 list \<Rightarrow> u8 list \<Rightarrow> nat \<Rightarrow> u8 list" where
  "dns_reply ip msg q = take 2 msg @ reply_fields @
     take (q - 8) (drop 12 msg) @ dns_answer ip"

definition dns_accepts :: "u8 list \<Rightarrow> bool" where
  "dns_accepts msg \<longleftrightarrow> drop_bit 15 (ntohs_at 2 msg) AND 1 = 0 \<and>
     drop_bit 11 (ntohs_at 2 msg) AND 0xf = 0 \<and> 1 \<le> ntohs_at 4 msg"

lemma length_dns_msg: "300 \<le> length stack \<Longrightarrow> length (dns_msg stack packet) = 300"
  by (simp add: dns_msg_def)

lemma dns_stores:
  assumes "length msg = 300" and "length ip = 4" and "12 \<le> q" and "q \<le> 267"
  shows "\<exists>m. stores (zip [q + 4..<q + 4 + length (dns_answer ip)] (dns_answer ip) @ dns_header_writes) msg =
       Some m \<and> take (q + 4 + length (dns_answer ip)) m = dns_reply ip msg q"
proof -
  let ?a = "q + 4"
  have len: "length (dns_answer ip) = 16" using assms(2) by (simp add: dns_answer_def)
  let ?m = "take ?a msg @ dns_answer ip @ drop (?a + 16) msg"
  have "stores (zip [?a..<?a + length (dns_answer ip)] (dns_answer ip)) msg = Some ?m"
    using stores_run [of ?a "dns_answer ip" msg] assms len by simp
  moreover have "stores dns_header_writes ?m =
      Some (take 2 ?m @ reply_fields @ drop 12 ?m)"
    using assms len by (intro dns_header_stored) simp
  moreover have "take (?a + 16) (take 2 ?m @ reply_fields @ drop 12 ?m) =
      dns_reply ip msg q"
    using assms len by (simp add: dns_reply_def drop_take)
  ultimately show ?thesis
    by (simp add: stores_append len)
qed

text \<open>The result in closed form.\<close>

lemma dns_process_closed:
  fixes packet :: "u8 list"
  assumes "300 \<le> length stack" and "length ip = 4"
  defines "msg \<equiv> dns_msg stack packet"
  shows "\<exists>r. dns_question msg (min (length packet) 300) 12 = Some r \<and>
     dns_server_process stack ip packet = Some
       (case r of None \<Rightarrow> None
        | Some q \<Rightarrow> if 12 \<le> length packet \<and> dns_accepts msg \<and> q \<le> 267
                    then Some (dns_reply ip msg q) else None)"
proof -
  have len: "length msg = 300" using assms(1) by (simp add: msg_def length_dns_msg)
  obtain r where r: "dns_question msg (min (length packet) 300) 12 = Some r"
      "\<forall>q'. r = Some q' \<longrightarrow> 12 \<le> q'"
    using dns_question_bounds [of "min (length packet) 300" msg 12] len by auto
  have m: "take 300 packet @ drop (min (length packet) 300) (take 300 stack) = msg"
    by (simp add: msg_def dns_msg_def)
  have acc: "dns_accepts msg \<longleftrightarrow> \<not> drop_bit 15 (ntohs_at 2 msg) AND 1 \<noteq> 0 \<and>
      \<not> drop_bit 11 (ntohs_at 2 msg) AND 0xf \<noteq> 0 \<and> \<not> ntohs_at 4 msg < 1"
    by (simp only: dns_accepts_def not_less not_not)
  show ?thesis
  proof (cases "12 \<le> length packet \<and> dns_accepts msg")
    case False
    then show ?thesis
      using r(1) by (auto simp: dns_server_process_def MAX_DNS_MSG_SIZE_def sizeof_dns_header_def
          Let_def m acc split: option.split)
  next
    case True
    show ?thesis
    proof (cases r)
      case None
      then show ?thesis
        using r(1) True by (simp add: dns_server_process_def MAX_DNS_MSG_SIZE_def
            sizeof_dns_header_def Let_def m acc)
    next
      case (Some q)
      then have q: "12 \<le> q" using r(2) by simp
      have iff: "q - 12 > 255 \<longleftrightarrow> \<not> q \<le> 267" using q by arith
      show ?thesis
      proof (cases "q \<le> 267")
        case False
        then show ?thesis
          using r(1) True Some iff by (simp add: dns_server_process_def MAX_DNS_MSG_SIZE_def
              sizeof_dns_header_def Let_def m acc)
      next
        case True
        have m12: "\<not> min (length packet) 300 < 12"
          using \<open>12 \<le> length packet \<and> dns_accepts msg\<close> by linarith
        from dns_stores [OF len assms(2) q True] obtain mm where
          "stores (zip [q + 4..<q + 4 + length (dns_answer ip)] (dns_answer ip) @ dns_header_writes) msg =
             Some mm" "take (q + 4 + length (dns_answer ip)) mm = dns_reply ip msg q"
          by blast
        then show ?thesis
          using r(1) \<open>12 \<le> length packet \<and> dns_accepts msg\<close> True Some iff m12
          by (simp add: dns_server_process_def MAX_DNS_MSG_SIZE_def sizeof_dns_header_def Let_def m acc
              del: stores.simps)
      qed
    qed
  qed
qed

text \<open>
  C35: no packet, of any length and contents, makes the server read or write outside of its 300
  byte buffer. A reply has at most 287 bytes, carries the id of the query, is marked as an
  authoritative answer with one question and one answer, and ends with the server's address.
\<close>

theorem dns_reply_safe:
  assumes "300 \<le> length stack" and "length ip = 4"
  shows "\<exists>out. dns_server_process stack ip packet = Some out \<and>
     (\<forall>r. out = Some r \<longrightarrow> 32 \<le> length r \<and> length r \<le> 287 \<and> take 2 r = take 2 packet \<and>
        take 10 (drop 2 r) = reply_fields \<and> drop (length r - 4) r = ip)"
proof -
  let ?msg = "dns_msg stack packet"
  have len: "length ?msg = 300" by (rule length_dns_msg [OF assms(1)])
  obtain r where r: "dns_question ?msg (min (length packet) 300) 12 = Some r"
      "dns_server_process stack ip packet = Some
       (case r of None \<Rightarrow> None
        | Some q \<Rightarrow> if 12 \<le> length packet \<and> dns_accepts ?msg \<and> q \<le> 267
                    then Some (dns_reply ip ?msg q) else None)"
    using dns_process_closed [OF assms] by blast
  have q: "12 \<le> q" if "r = Some q" for q
    using dns_question_bounds [of "min (length packet) 300" ?msg 12] r(1) that len by auto
  have shape: "32 \<le> length (dns_reply ip ?msg q) \<and> length (dns_reply ip ?msg q) \<le> 287 \<and>
      take 2 (dns_reply ip ?msg q) = take 2 packet \<and>
      take 10 (drop 2 (dns_reply ip ?msg q)) = reply_fields \<and>
      drop (length (dns_reply ip ?msg q) - 4) (dns_reply ip ?msg q) = ip"
    if "12 \<le> length packet" "12 \<le> q" "q \<le> 267" for q
  proof -
    have two: "take 2 ?msg = take 2 packet" using that(1) by (simp add: dns_msg_def)
    have l2: "length (take 2 ?msg) = 2" using len by simp
    have lq: "length (take (q - 8) (drop 12 ?msg)) = q - 8" using len that by simp
    have la: "length (dns_answer ip) = 16" using assms(2) by (simp add: dns_answer_def)
    have end4: "drop 12 (dns_answer ip) = ip" using assms(2) by (simp add: dns_answer_def)
    show ?thesis
      unfolding dns_reply_def using that l2 lq la two end4 by simp
  qed
  show ?thesis
    unfolding r(2) using shape q by (auto split: option.split if_splits)
qed

lemma dns_reply_safe_witness:
  "\<exists>out. dns_server_process (replicate 300 7) [192, 168, 4, 1] [1, 2, 1, 0, 0, 1, 0, 0, 0, 0, 0, 0, 0, 0, 1, 0, 1] =
     Some out"
  using dns_reply_safe [of "replicate 300 7" "[192, 168, 4, 1]"
      "[1, 2, 1, 0, 0, 1, 0, 0, 0, 0, 0, 0, 0, 0, 1, 0, 1]"] by auto

text \<open>A query that ends behind the length byte of its first label.\<close>

definition cut_query :: "u8 list" where
  "cut_query = [1, 2, 1, 0, 0, 1, 0, 0, 0, 0, 0, 0, 63]"

lemma length_cut [simp]: "length cut_query = 13"
  by (simp add: cut_query_def)

text \<open>
  C40: the length of the question is not checked against the length of the packet. A packet of 13
  bytes that announces a label of 63 gets a reply that contains 67 bytes of whatever the
  stack held before.
\<close>

theorem dns_reply_leaks:
  assumes "300 \<le> length stack" and "length ip = 4"
  shows "\<exists>r. dns_server_process stack ip cut_query = Some (Some r) \<and>
     take 67 (drop 13 r) = take 67 (drop 13 stack)"
proof -
  let ?msg = "dns_msg stack cut_query"
  have len: "length ?msg = 300" by (rule length_dns_msg [OF assms(1)])
  have msg: "?msg = cut_query @ drop 13 (take 300 stack)"
    by (simp add: dns_msg_def length_cut)
  have "dns_question ?msg 13 76 = Some (Some 76)"
    by (simp add: dns_question.simps)
  then have q: "dns_question ?msg (min (length cut_query) 300) 12 = Some (Some 76)"
    by (subst dns_question.simps) (simp add: len msg, simp add: cut_query_def nth_append)
  have n: "?msg ! i = cut_query ! i" if "i < 13" for i
    using that by (simp add: msg nth_append)
  have c: "cut_query ! 2 = 1" "cut_query ! 3 = 0" "cut_query ! 4 = 0" "cut_query ! 5 = 1"
    by (simp_all add: cut_query_def)
  have acc: "dns_accepts ?msg"
    by (simp add: dns_accepts_def ntohs_at_def n c rd16_def)
  have run: "dns_server_process stack ip cut_query = Some (Some (dns_reply ip ?msg 76))"
    using dns_process_closed [OF assms, of cut_query] q acc by (auto simp: cut_query_def)
  have "take 67 (drop 13 (dns_reply ip ?msg 76)) = take 67 (drop 13 stack)"
    using assms len by (simp add: dns_reply_def drop_take msg del: length_dns_msg)
  with run show ?thesis by blast
qed

lemma dns_reply_leaks_witness:
  "\<exists>r. dns_server_process (replicate 300 7) [192, 168, 4, 1] cut_query = Some (Some r) \<and>
     take 67 (drop 13 r) = replicate 67 7"
  using dns_reply_leaks [of "replicate 300 7" "[192, 168, 4, 1]"] by simp

end
