(* ===== verification/Udp.thy ===== *)
theory Udp
  imports Dhcp Dns
begin

text \<open>
  The sockets of the DHCP and the DNS server (\<open>dhcpserver.c\<close>, \<open>dnsserver.c\<close>) and the callbacks
  as lwIP calls them: the packet is processed, the reply is sent, and the packet is freed. A
  socket is a pcb of lwIP, open or \<open>NULL\<close>. What lwIP answers is an argument; \<open>pbufs\<close>
  counts the packets that are allocated, \<open>datagrams\<close> are the datagrams sent: payload, address
  and port.
\<close>

section \<open>State\<close>

record udp_net =
  pbufs :: int
  datagrams :: "(u8 list \<times> u8 list \<times> u16) list"

definition udp_start :: udp_net where
  "udp_start = \<lparr>pbufs = 0, datagrams = []\<rparr>"

text \<open>\<open>-ENOMEM\<close>; other negative results are those of lwIP.\<close>

definition NO_MEMORY :: int where "NO_MEMORY = -12"

definition PORT_DHCP_SERVER :: u16 where "PORT_DHCP_SERVER = 67"
definition PORT_DHCP_CLIENT :: u16 where "PORT_DHCP_CLIENT = 68"
definition PORT_DNS_SERVER :: u16 where "PORT_DNS_SERVER = 53"

text \<open>The answers to \<open>pbuf_alloc\<close> and to the call that sends.\<close>

record send_answers =
  pbuf_ok :: bool
  send_err :: int

section \<open>Sockets\<close>

text \<open>The result, the socket, and the number of open pcbs.\<close>

definition dhcp_socket_new_dgram :: "bool \<Rightarrow> int \<Rightarrow> int \<times> bool \<times> int" where
  "dhcp_socket_new_dgram udp_ok n = (if \<not> udp_ok then (NO_MEMORY, False, n) else (0, True, n + 1))"

definition dhcp_socket_free :: "bool \<Rightarrow> int \<Rightarrow> bool \<times> int" where
  "dhcp_socket_free udp n = (if udp then (False, n - 1) else (udp, n))"

definition dns_socket_new_dgram :: "bool \<Rightarrow> int \<Rightarrow> int \<times> bool \<times> int" where
  "dns_socket_new_dgram udp_ok n = (if \<not> udp_ok then (NO_MEMORY, False, n) else (0, True, n + 1))"

definition dns_socket_free :: "bool \<Rightarrow> int \<Rightarrow> bool \<times> int" where
  "dns_socket_free udp n = (if udp then (False, n - 1) else (udp, n))"

text \<open>\<open>IP4_ADDR\<close> of the four bytes of \<open>ip\<close>: the address as it stands in memory.\<close>

definition ip4_bytes :: "u32 \<Rightarrow> u8 list" where
  "ip4_bytes ip = [ucast (drop_bit 24 ip), ucast (drop_bit 16 ip), ucast (drop_bit 8 ip), ucast ip]"

text \<open>Sending: the data is copied to a packet of its own, which is freed behind the call.\<close>

definition socket_sendto ::
    "send_answers \<Rightarrow> u8 list \<Rightarrow> u8 list \<Rightarrow> u16 \<Rightarrow> udp_net \<Rightarrow> int \<times> udp_net" where
  "socket_sendto a buf addr port u =
     (let len = min (length buf) 0xffff
      in if \<not> pbuf_ok a then (NO_MEMORY, u)
         else
           let u1 = u\<lparr>pbufs := pbufs u + 1\<rparr>;
               payload = take len buf;
               u2 = (if send_err a = 0 then u1\<lparr>datagrams := datagrams u1 @ [(payload, addr, port)]\<rparr> else u1);
               u3 = u2\<lparr>pbufs := pbufs u2 - 1\<rparr>
           in if send_err a \<noteq> 0 then (send_err a, u3) else (int len, u3))"

definition dhcp_socket_sendto ::
    "send_answers \<Rightarrow> u8 list \<Rightarrow> u32 \<Rightarrow> u16 \<Rightarrow> udp_net \<Rightarrow> int \<times> udp_net" where
  "dhcp_socket_sendto a buf ip port u = socket_sendto a buf (ip4_bytes ip) port u"

definition dns_socket_sendto ::
    "send_answers \<Rightarrow> u8 list \<Rightarrow> u8 list \<Rightarrow> u16 \<Rightarrow> udp_net \<Rightarrow> int \<times> udp_net" where
  "dns_socket_sendto a buf dest port u = socket_sendto a buf dest port u"

section \<open>Callbacks\<close>

text \<open>A packet that arrives is a block of its own; the callback frees it on every path.\<close>

definition dhcp_receive ::
    "send_answers \<Rightarrow> u8 list \<Rightarrow> u32 \<Rightarrow> u8 list \<Rightarrow> dhcp_server \<Rightarrow> udp_net \<Rightarrow> (dhcp_server \<times> udp_net) option" where
  "dhcp_receive a stack ticks packet d u =
     (case dhcp_server_process stack ticks packet d of
        None \<Rightarrow> None
      | Some (reply, d1) \<Rightarrow>
          let u1 = (case reply of
                      None \<Rightarrow> u
                    | Some r \<Rightarrow> snd (dhcp_socket_sendto a r 0xffffffff PORT_DHCP_CLIENT u))
          in Some (d1, u1\<lparr>pbufs := pbufs u1 - 1\<rparr>))"

definition dns_receive ::
    "send_answers \<Rightarrow> u8 list \<Rightarrow> u8 list \<Rightarrow> u8 list \<Rightarrow> u8 list \<Rightarrow> u16 \<Rightarrow> udp_net \<Rightarrow> udp_net option" where
  "dns_receive a stack ip packet src_addr src_port u =
     (case dns_server_process stack ip packet of
        None \<Rightarrow> None
      | Some reply \<Rightarrow>
          let u1 = (case reply of
                      None \<Rightarrow> u
                    | Some r \<Rightarrow> snd (dns_socket_sendto a r src_addr src_port u))
          in Some (u1\<lparr>pbufs := pbufs u1 - 1\<rparr>))"

section \<open>Every packet is freed\<close>

lemma socket_sendto_pbufs: "pbufs (snd (socket_sendto a buf addr port u)) = pbufs u"
  by (simp add: socket_sendto_def Let_def)

lemma socket_sendto_datagrams:
  "datagrams (snd (socket_sendto a buf addr port u)) =
     datagrams u @ (if pbuf_ok a \<and> send_err a = 0 then [(take 0xffff buf, addr, port)] else [])"
  by (simp add: socket_sendto_def Let_def min_def)

lemma dhcp_receive_ok:
  assumes "packet_ok stack packet"
  shows "\<exists>d' u'. dhcp_receive a stack ticks packet d (u\<lparr>pbufs := pbufs u + 1\<rparr>) = Some (d', u') \<and>
     pbufs u' = pbufs u \<and>
     (\<forall>x \<in> set (datagrams u') - set (datagrams u). snd x = ([255, 255, 255, 255], PORT_DHCP_CLIENT))"
proof -
  obtain reply d' where r: "dhcp_server_process stack ticks packet d = Some (reply, d')"
    using dhcp_process_total [OF assms] by blast
  have bytes: "ip4_bytes 0xffffffff = [255, 255, 255, 255]" by (simp add: ip4_bytes_def)
  show ?thesis
    by (cases reply)
      (auto simp: dhcp_receive_def r Let_def dhcp_socket_sendto_def socket_sendto_pbufs
        socket_sendto_datagrams bytes)
qed

lemma dns_receive_ok:
  assumes "300 \<le> length stack" and "length ip = 4"
  shows "\<exists>u'. dns_receive a stack ip packet src port (u\<lparr>pbufs := pbufs u + 1\<rparr>) = Some u' \<and>
     pbufs u' = pbufs u \<and>
     (\<forall>x \<in> set (datagrams u') - set (datagrams u). snd x = (src, port))"
proof -
  obtain reply where r: "dns_server_process stack ip packet = Some reply"
    using dns_process_closed [OF assms, of packet] by blast
  show ?thesis
    by (cases reply)
      (auto simp: dns_receive_def r Let_def dns_socket_sendto_def socket_sendto_pbufs
        socket_sendto_datagrams)
qed

end
