(* ===== verification/Network.thy ===== *)
theory Network
  imports Http_Server Udp
begin

text \<open>
  The access point, \<open>src/network/network.c\<close>, with the opening and closing of the sockets of the
  DHCP and DNS servers, and the section of the main loop that keeps the access point in step
  with the settings and the button. What the SDK and lwIP answer is an argument; what they
  have been told is in the state: the radio, and the number of open pcbs and live blocks.
  The build is a release build, in which \<open>assert\<close> does nothing.
\<close>

section \<open>State\<close>

definition MAX_SSID_LEN :: nat where "MAX_SSID_LEN = 33"
definition MIN_PASS_LEN :: nat where "MIN_PASS_LEN = 8"
definition MAX_PASS_LEN :: nat where "MAX_PASS_LEN = 64"

lemmas net_consts [simp] = MAX_SSID_LEN_def MIN_PASS_LEN_def MAX_PASS_LEN_def

text \<open>The access point that runs on the Wi-Fi chip: its name and password.\<close>

type_synonym radio = "(string \<times> string) option"

text \<open>
  The statics of \<open>network.c\<close>; a socket is open or \<open>NULL\<close>. \<open>lost_pcbs\<close> counts the TCP pcbs that are
  still open when their server state is freed.
\<close>

record 'p network =
  ap_inited :: bool
  ap_started :: bool
  tcp_server_state :: "'p tcp_server option"
  net_dhcp :: dhcp_server
  dhcp_udp :: bool
  dns_ip :: "u8 list"
  dns_udp :: bool
  ap_ssid :: string
  ap_pass :: string
  ap_radio :: radio
  udp_pcbs :: int
  server_blocks :: int
  lost_pcbs :: int

definition network_start :: "'p network" where
  "network_start =
     \<lparr> ap_inited = False, ap_started = False, tcp_server_state = None,
       net_dhcp = dhcp_server_init [0, 0, 0, 0] [0, 0, 0, 0], dhcp_udp = False,
       dns_ip = [0, 0, 0, 0], dns_udp = False, ap_ssid = replicate MAX_SSID_LEN NUL,
       ap_pass = replicate MAX_PASS_LEN NUL, ap_radio = None, udp_pcbs = 0, server_blocks = 0,
       lost_pcbs = 0 \<rparr>"

text \<open>The answers of the SDK and lwIP to the calls of \<open>net_ap_init\<close>.\<close>

record 'p net_answers =
  calloc_ok :: bool
  dhcp_udp_ok :: bool
  dns_udp_ok :: bool
  dns_bind_ok :: bool
  tcp_answers :: "'p listen_answers"
  ap_address :: "u8 list"
  ap_mask :: "u8 list"

section \<open>The sockets of the two servers\<close>

text \<open>The result of the bind of the DHCP server is ignored.\<close>

definition dhcp_start :: "'p net_answers \<Rightarrow> 'p network \<Rightarrow> 'p network" where
  "dhcp_start a n =
     (let n1 = n\<lparr>net_dhcp := dhcp_server_init (ap_address a) (ap_mask a)\<rparr>;
          (res, sock, k) = dhcp_socket_new_dgram (dhcp_udp_ok a) (udp_pcbs n1)
      in n1\<lparr>dhcp_udp := sock, udp_pcbs := k\<rparr>)"

definition dhcp_server_deinit :: "'p network \<Rightarrow> 'p network" where
  "dhcp_server_deinit n =
     (let (sock, k) = dhcp_socket_free (dhcp_udp n) (udp_pcbs n) in n\<lparr>dhcp_udp := sock, udp_pcbs := k\<rparr>)"

definition dns_server_init :: "'p net_answers \<Rightarrow> 'p network \<Rightarrow> 'p network" where
  "dns_server_init a n =
     (let (res, sock, k) = dns_socket_new_dgram (dns_udp_ok a) (udp_pcbs n);
          n1 = n\<lparr>dns_udp := sock, udp_pcbs := k\<rparr>
      in if res \<noteq> 0 then n1
         else if \<not> dns_bind_ok a then n1
         else n1\<lparr>dns_ip := ap_address a\<rparr>)"

definition dns_server_deinit :: "'p network \<Rightarrow> 'p network" where
  "dns_server_deinit n =
     (let (sock, k) = dns_socket_free (dns_udp n) (udp_pcbs n) in n\<lparr>dns_udp := sock, udp_pcbs := k\<rparr>)"

section \<open>The access point\<close>

definition net_ap_get_state :: "'p network \<Rightarrow> bool" where
  "net_ap_get_state n = ap_started n"

definition net_ap_set_state :: "bool \<Rightarrow> 'p network \<Rightarrow> err_code \<times> 'p network" where
  "net_ap_set_state en n =
     (if \<not> ap_inited n then (ERR_NEED_INIT, n)
      else if ap_started n \<noteq> en then
        (ERR_SUCCESS,
         (if en then n\<lparr>ap_radio := Some (cstr (ap_ssid n), cstr (ap_pass n))\<rparr>
          else n\<lparr>ap_radio := None\<rparr>)\<lparr>ap_started := en\<rparr>)
      else (ERR_SUCCESS, n))"

definition free_server :: "'p network \<Rightarrow> 'p network" where
  "free_server n =
     (case tcp_server_state n of
        None \<Rightarrow> n
      | Some srv \<Rightarrow> n\<lparr>tcp_server_state := None, server_blocks := server_blocks n - 1,
                     lost_pcbs := lost_pcbs n + pcbs srv\<rparr>)"

text \<open>The end of \<open>net_ap_deinit\<close>, behind the switching off.\<close>

definition net_teardown :: "'p network \<Rightarrow> 'p network" where
  "net_teardown n =
     (let n2 = n\<lparr>tcp_server_state := snd (http_server_deinit (tcp_server_state n))\<rparr>;
          n3 = dhcp_server_deinit (dns_server_deinit n2);
          n4 = free_server (n3\<lparr>ap_ssid := replicate MAX_SSID_LEN NUL, ap_pass := replicate MAX_PASS_LEN NUL\<rparr>)
      in n4\<lparr>ap_inited := False\<rparr>)"

definition net_ap_deinit :: "'p network \<Rightarrow> err_code \<times> 'p network" where
  "net_ap_deinit n =
     (ERR_SUCCESS, net_teardown (if ap_inited n then snd (net_ap_set_state False n) else n))"

definition net_ap_init ::
    "'p net_answers \<Rightarrow> string option \<Rightarrow> string option \<Rightarrow> 'p network \<Rightarrow> err_code \<times> 'p network" where
  "net_ap_init a ssid_ptr pass_ptr n =
     (if ap_inited n then (ERR_ALREADY_INITED, n)
      else (case (ssid_ptr, pass_ptr) of
              (Some s, Some p) \<Rightarrow>
                if length (cstr s) = 0 \<or> length (cstr s) \<ge> MAX_SSID_LEN then (ERR_PARAM_INVALID, n)
                else if length (cstr p) < MIN_PASS_LEN \<or> length (cstr p) \<ge> MAX_PASS_LEN
                then (ERR_PARAM_INVALID, n)
                else if \<not> calloc_ok a then (ERR_MEM_ALLOC_FAIL, n\<lparr>tcp_server_state := None\<rparr>)
                else
                  let n1 = n\<lparr>tcp_server_state := Some \<lparr>server_pcb = None, pcbs = 0\<rparr>,
                             server_blocks := server_blocks n + 1\<rparr>;
                      n2 = dns_server_init a (dhcp_start a n1);
                      (err, srv) = http_server_init (tcp_answers a) (tcp_server_state n2);
                      n3 = n2\<lparr>tcp_server_state := srv\<rparr>
                  in if err \<noteq> ERR_SUCCESS then (err, snd (net_ap_deinit n3))
                     else (ERR_SUCCESS,
                           n3\<lparr>ap_ssid := strcpy (ap_ssid n3) (cstr s),
                              ap_pass := strcpy (ap_pass n3) (cstr p), ap_inited := True\<rparr>)
            | _ \<Rightarrow> (ERR_PARAM_IS_NULL, n)))"

text \<open>Whether \<open>net_poll\<close> runs the Wi-Fi driver and lwIP, in a build that polls.\<close>

definition net_poll :: "bool \<Rightarrow> 'p network \<Rightarrow> bool" where
  "net_poll arch_poll n \<longleftrightarrow> arch_poll \<and> ap_inited n \<and> ap_started n"

section \<open>The access point in the main loop\<close>

text \<open>A press of the button toggles the setting and writes it; an error is only logged.\<close>

definition button_ap :: "flash_hw \<Rightarrow> bool \<Rightarrow> settings_store \<Rightarrow> settings_store" where
  "button_ap hw press_event st =
     (if press_event then
        snd (settings_write hw (st\<lparr>global_settings :=
               (global_settings st)\<lparr>ap_state := \<not> ap_state (global_settings st)\<rparr>\<rparr>))
      else st)"

definition sync_ap :: "bool \<Rightarrow> settings_store \<Rightarrow> 'p network \<Rightarrow> 'p network" where
  "sync_ap net_ready st n =
     (if net_ready \<and> net_ap_get_state n \<noteq> ap_state (global_settings st)
      then snd (net_ap_set_state (ap_state (global_settings st)) n) else n)"

section \<open>Invariant\<close>

definition net_inv :: "'p network \<Rightarrow> bool" where
  "net_inv n \<longleftrightarrow>
     length (ap_ssid n) = 33 \<and> length (ap_pass n) = 64 \<and>
     ap_radio n = (if ap_started n then Some (cstr (ap_ssid n), cstr (ap_pass n)) else None) \<and>
     udp_pcbs n = (if dhcp_udp n then 1 else 0) + (if dns_udp n then 1 else 0) \<and> lost_pcbs n = 0 \<and>
     (if ap_inited n then
        server_blocks n = 1 \<and>
        (\<exists>srv. tcp_server_state n = Some srv \<and> server_pcb srv \<noteq> None \<and> pcbs srv = 1) \<and>
        0 < length (cstr (ap_ssid n)) \<and> length (cstr (ap_ssid n)) < 33 \<and>
        8 \<le> length (cstr (ap_pass n)) \<and> length (cstr (ap_pass n)) < 64
      else
        server_blocks n = 0 \<and> tcp_server_state n = None \<and> \<not> ap_started n \<and> \<not> dhcp_udp n \<and> \<not> dns_udp n)"

lemmas udp_sockets = dhcp_start_def dhcp_server_deinit_def dns_server_init_def dns_server_deinit_def
  dhcp_socket_new_dgram_def dhcp_socket_free_def dns_socket_new_dgram_def dns_socket_free_def NO_MEMORY_def

lemma network_start_inv: "net_inv network_start"
  by (simp add: net_inv_def network_start_def)

lemma net_ap_set_state_inv: "net_inv n \<Longrightarrow> net_inv (snd (net_ap_set_state en n))"
  by (auto simp: net_ap_set_state_def net_inv_def)

text \<open>What the end of \<open>net_ap_deinit\<close> needs: it runs in states the initialisation left halfway, too.\<close>

definition closable :: "'p network \<Rightarrow> bool" where
  "closable n \<longleftrightarrow>
     udp_pcbs n = (if dhcp_udp n then 1 else 0) + (if dns_udp n then 1 else 0) \<and> lost_pcbs n = 0 \<and>
     \<not> ap_started n \<and> ap_radio n = None \<and>
     (case tcp_server_state n of
        None \<Rightarrow> server_blocks n = 0
      | Some srv \<Rightarrow> server_blocks n = 1 \<and> pcbs srv = (if server_pcb srv = None then 0 else 1))"

lemma net_teardown_inv:
  assumes "closable n"
  shows "net_inv (net_teardown n) \<and> \<not> ap_inited (net_teardown n)"
proof (cases "tcp_server_state n")
  case None
  then show ?thesis using assms
    by (cases "dhcp_udp n"; cases "dns_udp n")
      (simp_all add: closable_def net_teardown_def net_inv_def udp_sockets http_server_deinit_def free_server_def Let_def)
next
  case (Some srv)
  then show ?thesis using assms
    by (cases "dhcp_udp n"; cases "dns_udp n"; cases "server_pcb srv")
      (simp_all add: closable_def net_teardown_def net_inv_def udp_sockets http_server_deinit_def tcp_server_close_def free_server_def Let_def
       )
qed

lemma net_inv_closable: "net_inv n \<Longrightarrow> closable (if ap_inited n then snd (net_ap_set_state False n) else n)"
  by (auto simp: net_inv_def closable_def net_ap_set_state_def)

lemma net_ap_deinit_inv:
  "net_inv n \<Longrightarrow> net_inv (snd (net_ap_deinit n)) \<and> \<not> ap_inited (snd (net_ap_deinit n))"
  unfolding net_ap_deinit_def snd_conv by (rule net_teardown_inv [OF net_inv_closable])

text \<open>The state in which \<open>net_ap_init\<close> has opened its sockets.\<close>

definition net_opened :: "'p net_answers \<Rightarrow> 'p network \<Rightarrow> 'p network" where
  "net_opened a n =
     dns_server_init a (dhcp_start a (n\<lparr>tcp_server_state := Some \<lparr>server_pcb = None, pcbs = 0\<rparr>,
        server_blocks := server_blocks n + 1\<rparr>))"

lemma net_opened_closable:
  "net_inv n \<Longrightarrow> \<not> ap_inited n \<Longrightarrow>
     closable (net_opened a n) \<and> \<not> ap_inited (net_opened a n) \<and>
     tcp_server_state (net_opened a n) = Some \<lparr>server_pcb = None, pcbs = 0\<rparr> \<and>
     length (ap_ssid (net_opened a n)) = 33 \<and> length (ap_pass (net_opened a n)) = 64"
  by (cases "dhcp_udp_ok a"; cases "dns_udp_ok a"; cases "dns_bind_ok a")
    (simp_all add: net_opened_def net_inv_def closable_def udp_sockets Let_def)

lemma tcp_server_open_cases:
  assumes "tcp_server_open a \<lparr>server_pcb = None, pcbs = 0\<rparr> = (err, srv)"
  shows "(err = ERR_SUCCESS \<and> server_pcb srv \<noteq> None \<and> pcbs srv = 1) \<or>
     (err = ERR_FAIL \<and> server_pcb srv = None \<and> pcbs srv = 0)"
  using assms by (auto simp: tcp_server_open_def Let_def split: option.splits if_splits)

lemma net_ap_init_inv:
  assumes "net_inv n" and "net_ap_init a s p n = (err, n')"
  shows "net_inv n' \<and>
     (if err = ERR_SUCCESS then ap_inited n' \<and> \<not> ap_started n' \<and>
        (\<exists>x y. s = Some x \<and> p = Some y \<and> cstr (ap_ssid n') = cstr x \<and> cstr (ap_pass n') = cstr y)
      else ap_inited n' = ap_inited n)"
proof (cases "\<not> ap_inited n \<and> calloc_ok a \<and> (\<exists>x y. s = Some x \<and> p = Some y \<and>
      0 < length (cstr x) \<and> length (cstr x) < 33 \<and> 8 \<le> length (cstr y) \<and> length (cstr y) < 64)")
  case False
  then have "err \<noteq> ERR_SUCCESS" "n' = n \<or> \<not> ap_inited n \<and> n' = n\<lparr>tcp_server_state := None\<rparr>"
    using assms(2) by (auto simp: net_ap_init_def split: if_splits option.splits)
  moreover have "n\<lparr>tcp_server_state := None\<rparr> = n" if "\<not> ap_inited n"
    using assms(1) that by (cases n) (simp add: net_inv_def)
  ultimately have "err \<noteq> ERR_SUCCESS" "n' = n" by auto
  then show ?thesis using assms(1) by simp
next
  case True
  then obtain x y where xy: "s = Some x" "p = Some y" "0 < length (cstr x)" "length (cstr x) < 33"
      "8 \<le> length (cstr y)" "length (cstr y) < 64" by blast
  let ?o = "net_opened a n"
  note o = net_opened_closable [OF assms(1), of a]
  obtain e srv where srv: "tcp_server_open (tcp_answers a) \<lparr>server_pcb = None, pcbs = 0\<rparr> = (e, srv)"
    by fastforce
  let ?n3 = "?o\<lparr>tcp_server_state := Some srv\<rparr>"
  have run: "net_ap_init a s p n = (if e \<noteq> ERR_SUCCESS then (e, snd (net_ap_deinit ?n3))
      else (ERR_SUCCESS, ?n3\<lparr>ap_ssid := strcpy (ap_ssid ?n3) (cstr x),
             ap_pass := strcpy (ap_pass ?n3) (cstr y), ap_inited := True\<rparr>))"
    using True xy o srv unfolding net_opened_def net_ap_init_def Let_def
    by (simp add: http_server_init_def)
  note c = tcp_server_open_cases [OF srv]
  show ?thesis
  proof (cases "e = ERR_SUCCESS")
    case False
    then have "closable ?n3" using o True c by (auto simp: closable_def)
    then show ?thesis
      using net_teardown_inv [of ?n3] False assms(2) run o True by (auto simp: net_ap_deinit_def)
  next
    case ok: True
    have "length (strcpy (ap_ssid ?o) (cstr x)) = 33" "length (strcpy (ap_pass ?o) (cstr y)) = 64"
      using o True xy by (simp_all add: length_strcpy)
    then show ?thesis
      using ok run assms(2) o True xy c NUL_not_in_cstr
      by (auto simp: net_inv_def closable_def)
  qed
qed

section \<open>Every use of the module\<close>

datatype 'p net_op =
    Op_init "'p net_answers" "string option" "string option"
  | Op_deinit
  | Op_set_state bool

fun net_run :: "'p net_op \<Rightarrow> 'p network \<Rightarrow> 'p network" where
  "net_run (Op_init a s p) n = snd (net_ap_init a s p n)"
| "net_run Op_deinit n = snd (net_ap_deinit n)"
| "net_run (Op_set_state en) n = snd (net_ap_set_state en n)"

lemma net_run_inv: "net_inv n \<Longrightarrow> net_inv (net_run op n)"
proof (cases op)
  case (Op_init a s p)
  then show "net_inv n \<Longrightarrow> net_inv (net_run op n)"
    using net_ap_init_inv [of n a s p] by (cases "net_ap_init a s p n") simp
qed (simp_all add: net_ap_deinit_inv net_ap_set_state_inv)

lemma net_fold_inv: "net_inv n \<Longrightarrow> net_inv (fold net_run ops n)"
  by (induction ops arbitrary: n) (auto simp: net_run_inv)

text \<open>
  C30: the access point never leaks and never runs on bad credentials. After any sequence of
  calls of the module, whatever the SDK and lwIP answered and wherever an initialisation failed:
  the radio is on exactly when the module says so, with a name of 1 to 32 characters and a
  password of 8 to 63; and when the module is not initialised, no socket is open, no TCP pcb
  is left behind and no server state is allocated.
\<close>

theorem network_safe:
  fixes ops :: "'p net_op list"
  defines "n \<equiv> fold net_run ops network_start"
  shows "(ap_radio n \<noteq> None \<longleftrightarrow> net_ap_get_state n) \<and>
     (\<forall>s p. ap_radio n = Some (s, p) \<longrightarrow>
        0 < length s \<and> length s < 33 \<and> 8 \<le> length p \<and> length p < 64) \<and>
     lost_pcbs n = 0 \<and>
     (\<not> ap_inited n \<longrightarrow> udp_pcbs n = 0 \<and> server_blocks n = 0 \<and> tcp_server_state n = None)"
proof -
  have inv: "net_inv n" unfolding n_def by (rule net_fold_inv [OF network_start_inv])
  then show ?thesis
    by (auto simp: net_inv_def net_ap_get_state_def split: if_splits)
qed

text \<open>
  The access point follows the settings. After the section of the main loop that handles the
  button and the access point, the radio is on exactly when the setting \<open>ap_state\<close> says so,
  with the name and the password of the start; a press of the button, and nothing else, has
  toggled the setting, even when writing it to flash failed.
\<close>

theorem ap_follows_settings:
  fixes hw :: flash_hw and press_event :: bool and st0 :: settings_store and n :: "'p network"
  assumes "net_inv n" and "ap_inited n"
  defines "st \<equiv> button_ap hw press_event st0"
  shows "ap_state (global_settings st) = (ap_state (global_settings st0) \<noteq> press_event) \<and>
     (let n' = sync_ap True st n
      in ap_radio n' = (if ap_state (global_settings st)
                        then Some (cstr (ap_ssid n), cstr (ap_pass n)) else None) \<and>
         net_ap_get_state n' = ap_state (global_settings st) \<and> net_inv n')"
proof -
  have "ap_state (global_settings st) = (ap_state (global_settings st0) \<noteq> press_event)"
    by (simp add: st_def button_ap_def settings_write_global stamp_def stamp_header_def Let_def)
  moreover have "net_inv (sync_ap True st n)"
    using assms(1) by (simp add: sync_ap_def net_ap_set_state_inv)
  ultimately show ?thesis
    using assms(1,2)
    by (auto simp: Let_def sync_ap_def net_ap_get_state_def net_ap_set_state_def net_inv_def)
qed

definition sample_answers :: "unit net_answers" where
  "sample_answers =
     \<lparr> calloc_ok = True, dhcp_udp_ok = True, dns_udp_ok = True, dns_bind_ok = True,
       tcp_answers = \<lparr>new_pcb = Some (), bind_err = 0, listen_pcb = Some ()\<rparr>,
       ap_address = [192, 168, 4, 1], ap_mask = [255, 255, 255, 0] \<rparr>"

lemma network_safe_witness:
  "let ops = [Op_init sample_answers (Some ''Stairway'') (Some ''12345678''), Op_set_state True,
              Op_set_state False, Op_deinit];
       n = fold net_run ops network_start
   in lost_pcbs n = 0 \<and> udp_pcbs n = 0 \<and> server_blocks n = 0 \<and> tcp_server_state n = None"
proof -
  let ?ops = "[Op_init sample_answers (Some ''Stairway'') (Some ''12345678''), Op_set_state True,
              Op_set_state False, Op_deinit]"
  have "\<not> ap_inited (fold net_run ?ops network_start)"
    using net_ap_deinit_inv [OF net_fold_inv [OF network_start_inv], of "butlast ?ops"] by simp
  then show ?thesis using network_safe [of ?ops] by (simp add: Let_def)
qed

lemma ap_follows_settings_witness:
  "let n = snd (net_ap_init sample_answers (Some ''Stairway'') (Some ''12345678'') network_start);
       st0 = \<lparr>global_settings = default_settings, flash = (\<lambda>_. 0xFF)\<rparr>
   in ap_inited n \<and>
      net_ap_get_state (sync_ap True (button_ap (nor_flash True True) True st0) n) = False"
proof -
  let ?n = "snd (net_ap_init sample_answers (Some ''Stairway'') (Some ''12345678'') network_start)"
  let ?st0 = "\<lparr>global_settings = default_settings, flash = (\<lambda>_. 0xFF :: u8)\<rparr>"
  have "fst (net_ap_init sample_answers (Some ''Stairway'') (Some ''12345678'') network_start) = ERR_SUCCESS"
    by (simp add: net_ap_init_def sample_answers_def network_start_def cstr_def Let_def udp_sockets http_server_init_def tcp_server_open_def)
  then have n: "net_inv ?n" "ap_inited ?n"
    using net_ap_init_inv [OF network_start_inv surjective_pairing] by metis+
  have "ap_state default_settings" by (simp add: default_settings_def)
  then show ?thesis
    using ap_follows_settings [OF n, of "nor_flash True True" True ?st0] n(2) by (simp add: Let_def)
qed

end
