(* ===== verification/Cli_Buffers.thy ===== *)
theory Cli_Buffers
  imports C_Strings
begin

text \<open>
  The data structures of the console library \<open>src/cli/embedded_cli.h\<close>: the ring buffer of
  received characters, the tokens that a command line is cut into in place, and the history
  of command lines, which is kept in one buffer in the same form. Every access to an array is
  checked: an operation that leaves its buffer has no result. A \<open>uint16_t\<close> that is an index
  of the ring buffer wraps as in the code; the other indices and counts are bounded by the sizes
  of the buffers, 64 and 128 bytes, and are natural numbers.
\<close>

section \<open>Ring buffer\<close>

record fifo =
  fifo_buf :: string
  fifo_front :: u16
  fifo_back :: u16
  fifo_size :: u16

definition fifoBufAvailable :: "fifo \<Rightarrow> u16" where
  "fifoBufAvailable q = (if fifo_back q \<ge> fifo_front q then fifo_back q - fifo_front q
                         else fifo_size q - fifo_front q + fifo_back q)"

definition fifoBufPop :: "fifo \<Rightarrow> (char \<times> fifo) option" where
  "fifoBufPop q =
     (if fifo_front q \<noteq> fifo_back q then
        (case char_at (unat (fifo_front q)) (fifo_buf q) of
           None \<Rightarrow> None
         | Some a \<Rightarrow> Some (a, q\<lparr>fifo_front := (fifo_front q + 1) mod fifo_size q\<rparr>))
      else Some (NUL, q))"

definition fifoBufPush :: "char \<Rightarrow> fifo \<Rightarrow> (bool \<times> fifo) option" where
  "fifoBufPush a q =
     (let newBack = (fifo_back q + 1) mod fifo_size q
      in if newBack \<noteq> fifo_front q then
           (case store_text (unat (fifo_back q)) [a] (fifo_buf q) of
              None \<Rightarrow> None
            | Some b \<Rightarrow> Some (True, q\<lparr>fifo_buf := b, fifo_back := newBack\<rparr>))
         else Some (False, q))"

text \<open>What a bounded queue of characters promises its client.\<close>

locale char_queue =
  fixes push :: "char \<Rightarrow> 'q \<Rightarrow> (bool \<times> 'q) option"
    and pop :: "'q \<Rightarrow> (char \<times> 'q) option"
    and available :: "'q \<Rightarrow> u16"
    and wf :: "'q \<Rightarrow> bool"
    and items :: "'q \<Rightarrow> string"
    and room :: "'q \<Rightarrow> nat"
  assumes push: "wf q \<Longrightarrow> \<exists>q'. push a q = Some (length (items q) < room q, q') \<and> wf q' \<and>
      room q' = room q \<and> items q' = (if length (items q) < room q then items q @ [a] else items q)"
    and pop: "wf q \<Longrightarrow> items q = a # s \<Longrightarrow> \<exists>q'. pop q = Some (a, q') \<and> wf q' \<and>
      room q' = room q \<and> items q' = s"
    and available: "wf q \<Longrightarrow> unat (available q) = length (items q)"
begin

text \<open>A character pushed into an empty queue is the only one, and the next one popped.\<close>

lemma one_character:
  assumes "wf q" and "items q = []" and "0 < room q"
  obtains q1 q2 where "push a q = Some (True, q1)" and "available q1 \<noteq> 0" and "pop q1 = Some (a, q2)"
    and "available q2 = 0" and "wf q2" and "items q2 = []" and "room q2 = room q"
proof -
  obtain q1 where q1: "push a q = Some (True, q1)" "wf q1" "room q1 = room q" "items q1 = [a]"
    using push [OF assms(1), of a] assms(2,3) by auto
  obtain q2 where q2: "pop q1 = Some (a, q2)" "wf q2" "room q2 = room q1" "items q2 = []"
    using pop [OF q1(2,4)] by blast
  have "available q1 \<noteq> 0" "available q2 = 0"
    using available [OF q1(2)] available [OF q2(2)] q1(4) q2(4) by (auto simp: unat_eq_0)
  then show thesis using that q1 q2 by simp
qed

end

definition fifo_wf :: "fifo \<Rightarrow> bool" where
  "fifo_wf q \<longleftrightarrow> unat (fifo_size q) = length (fifo_buf q) \<and> fifo_front q < fifo_size q \<and> fifo_back q < fifo_size q"

definition fifo_items :: "fifo \<Rightarrow> string" where
  "fifo_items q = map (\<lambda>k. fifo_buf q ! ((unat (fifo_front q) + k) mod unat (fifo_size q)))
                      [0 ..< unat (fifoBufAvailable q)]"

definition fifo_room :: "fifo \<Rightarrow> nat" where
  "fifo_room q = unat (fifo_size q) - 1"

lemma ring_next:
  "x < n \<Longrightarrow> unat ((x + 1) mod n :: u16) = (if unat x + 1 = unat n then 0 else unat x + 1)"
proof -
  assume "x < n"
  then have "unat x < unat n" by (simp add: word_less_nat_alt)
  moreover have "unat n < 2 ^ 16" using unsigned_less [of n, where ?'a = nat] by simp
  ultimately have "unat (x + 1) = unat x + 1" by (simp add: unat_word_ariths)
  then show ?thesis using \<open>unat x < unat n\<close> by (simp add: unat_mod)
qed

lemma ring_next_mod: "x < n \<Longrightarrow> unat ((x + 1) mod n :: u16) = (unat x + 1) mod unat n"
  by (simp add: ring_next word_less_nat_alt)

lemma fifo_available:
  assumes "fifo_wf q"
  shows "unat (fifoBufAvailable q) =
     (if unat (fifo_back q) \<ge> unat (fifo_front q) then unat (fifo_back q) - unat (fifo_front q)
      else unat (fifo_size q) - unat (fifo_front q) + unat (fifo_back q))"
proof (cases "fifo_back q \<ge> fifo_front q")
  case True
  then show ?thesis by (simp add: fifoBufAvailable_def word_le_nat_alt unat_sub)
next
  case False
  have "unat (fifo_size q) < 2 ^ 16" using unsigned_less [of "fifo_size q", where ?'a = nat] by simp
  moreover have "unat (fifo_size q - fifo_front q) = unat (fifo_size q) - unat (fifo_front q)"
    using assms by (simp add: fifo_wf_def unat_sub word_less_nat_alt word_le_nat_alt)
  ultimately show ?thesis
    using False assms
    by (simp add: fifoBufAvailable_def fifo_wf_def word_le_nat_alt word_less_nat_alt unat_word_ariths)
qed

lemma length_fifo_items: "length (fifo_items q) = unat (fifoBufAvailable q)"
  by (simp add: fifo_items_def)

lemma wrap_once: "x < 2 * n \<Longrightarrow> x mod n = (if x < n then x else x - n)" for x n :: nat
  by (simp add: le_mod_geq)

lemma fifo_push:
  assumes "fifo_wf q"
  shows "\<exists>q'. fifoBufPush a q = Some (length (fifo_items q) < fifo_room q, q') \<and> fifo_wf q' \<and>
      fifo_room q' = fifo_room q \<and>
      fifo_items q' = (if length (fifo_items q) < fifo_room q then fifo_items q @ [a] else fifo_items q)"
proof -
  let ?n = "unat (fifo_size q)" and ?f = "unat (fifo_front q)" and ?b = "unat (fifo_back q)"
  let ?nb = "(fifo_back q + 1) mod fifo_size q"
  have wf: "?f < ?n" "?b < ?n" "length (fifo_buf q) = ?n"
    using assms by (auto simp: fifo_wf_def word_less_nat_alt)
  have nb: "unat ?nb = (if ?b + 1 = ?n then 0 else ?b + 1)"
    using assms by (intro ring_next) (simp add: fifo_wf_def)
  have full: "?nb = fifo_front q \<longleftrightarrow> \<not> length (fifo_items q) < fifo_room q"
    unfolding word_unat_eq_iff nb length_fifo_items fifo_available [OF assms] fifo_room_def
    using wf by auto
  show ?thesis
  proof (cases "?nb = fifo_front q")
    case True
    then show ?thesis using full assms by (simp add: fifoBufPush_def)
  next
    case False
    let ?q = "q\<lparr>fifo_buf := (fifo_buf q)[?b := a], fifo_back := ?nb\<rparr>"
    have st: "store_text ?b [a] (fifo_buf q) = Some ((fifo_buf q)[?b := a])"
      using wf by (simp add: store_text_def upd_conv_take_nth_drop)
    have wf': "fifo_wf ?q"
      using assms wf nb by (auto simp: fifo_wf_def word_less_nat_alt)
    have avail: "unat (fifoBufAvailable ?q) = Suc (unat (fifoBufAvailable q))"
      using wf nb False [unfolded word_unat_eq_iff]
      by (auto simp: fifo_available [OF assms] fifo_available [OF wf'] split: if_splits)
    have last: "(?f + unat (fifoBufAvailable q)) mod ?n = ?b"
      using wf by (simp add: fifo_available [OF assms])
    have others: "(?f + k) mod ?n \<noteq> ?b" if "k < unat (fifoBufAvailable q)" for k
      using wf that wrap_once [of "?f + k" ?n] by (auto simp: fifo_available [OF assms] split: if_splits)
    have "fifo_items ?q = fifo_items q @ [a]"
      using last wf by (simp add: fifo_items_def avail nth_list_update_neq [OF others [symmetric]])
    then show ?thesis
      using False full st wf' by (simp add: fifoBufPush_def fifo_room_def)
  qed
qed

lemma fifo_pop:
  assumes "fifo_wf q" and "fifo_items q = a # s"
  shows "\<exists>q'. fifoBufPop q = Some (a, q') \<and> fifo_wf q' \<and> fifo_room q' = fifo_room q \<and> fifo_items q' = s"
proof -
  let ?n = "unat (fifo_size q)" and ?f = "unat (fifo_front q)" and ?b = "unat (fifo_back q)"
  let ?q = "q\<lparr>fifo_front := (fifo_front q + 1) mod fifo_size q\<rparr>"
  have wf: "?f < ?n" "?b < ?n" "length (fifo_buf q) = ?n"
    using assms by (auto simp: fifo_wf_def word_less_nat_alt)
  have nf: "unat ((fifo_front q + 1) mod fifo_size q) = (if ?f + 1 = ?n then 0 else ?f + 1)"
    using assms(1) by (intro ring_next) (simp add: fifo_wf_def)
  have wf': "fifo_wf ?q"
    using assms(1) wf nf by (auto simp: fifo_wf_def word_less_nat_alt)
  have len: "unat (fifoBufAvailable q) = Suc (length s)"
    using assms(2) length_fifo_items [of q] by simp
  then have ne: "fifo_front q \<noteq> fifo_back q" by (auto simp: fifo_available [OF assms(1)])
  have "unat (fifoBufAvailable ?q) = length s"
    using len wf nf by (auto simp: fifo_available [OF assms(1)] fifo_available [OF wf'] split: if_splits)
  moreover have "(?f + Suc k) mod ?n = (unat ((fifo_front q + 1) mod fifo_size q) + k) mod ?n" for k
    using ring_next_mod [of "fifo_front q" "fifo_size q"] assms(1)
    by (simp add: fifo_wf_def mod_simps)
  ultimately have items: "fifo_items q = fifo_buf q ! ?f # fifo_items ?q"
    using len wf by (simp add: fifo_items_def upt_conv_Cons map_Suc_upt [symmetric] del: upt_Suc)
  then show ?thesis
    using assms ne wf wf' by (simp add: fifoBufPop_def char_at_def fifo_room_def)
qed

interpretation rx: char_queue fifoBufPush fifoBufPop fifoBufAvailable fifo_wf fifo_items fifo_room
  by unfold_locales (rule fifo_push fifo_pop | simp add: length_fifo_items)+

section \<open>Tokens\<close>

text \<open>
  \<open>embeddedCliTokenizeArgs\<close> works in place on the memory from \<open>args\<close> on: \<open>i\<close> is the position
  that is read, \<open>ins\<close> the one that is written.
\<close>

function tokenize_loop :: "string \<Rightarrow> nat \<Rightarrow> nat \<Rightarrow> bool \<Rightarrow> bool \<Rightarrow> (string \<times> nat) option" where
  "tokenize_loop m i ins quotesEnabled escapeActivated =
     (if i \<ge> length m then None
      else if m ! i = NUL then Some (m, ins)
      else if \<not> escapeActivated \<and> m ! i = backslash
        then tokenize_loop m (i + 1) ins quotesEnabled True
      else
        let quote = (\<not> escapeActivated \<and> m ! i = dquote);
            currentChar = (if escapeActivated then m ! i
                           else if quote \<or> \<not> quotesEnabled \<and> m ! i = CHR '' '' then NUL else m ! i);
            quotes' = (if quote then \<not> quotesEnabled else quotesEnabled)
        in if currentChar \<noteq> NUL \<or> ins > 0 \<and> m ! (ins - 1) \<noteq> NUL
           then tokenize_loop (m[ins := currentChar]) (i + 1) (ins + 1) quotes' False
           else tokenize_loop m (i + 1) ins quotes' False)"
  by pat_completeness auto
termination by (relation "measure (\<lambda>(m, i, _). length m - i)") auto

declare tokenize_loop.simps [simp del]

definition embeddedCliTokenizeArgs :: "string \<Rightarrow> string option" where
  "embeddedCliTokenizeArgs args =
     (case tokenize_loop args 0 0 False False of
        None \<Rightarrow> None
      | Some (m, ins) \<Rightarrow> store_text ins [NUL, NUL] m)"

text \<open>
  \<open>getTokenPosition\<close>: the memory from index \<open>i\<close> on, the number of the token there. The inner
  \<open>None\<close> is \<open>CLI_TOKEN_NPOS\<close>.
\<close>

fun token_position :: "string \<Rightarrow> nat \<Rightarrow> nat \<Rightarrow> nat \<Rightarrow> nat option option" where
  "token_position [] pos tokenCount i = None"
| "token_position (c # m) pos tokenCount i =
     (if tokenCount = pos then Some (if c \<noteq> NUL then Some i else None)
      else if c = NUL then
        (case m of
           [] \<Rightarrow> None
         | d # _ \<Rightarrow> if d = NUL then Some None else token_position m pos (tokenCount + 1) (i + 1))
      else token_position m pos tokenCount (i + 1))"

definition getTokenPosition :: "string \<Rightarrow> nat \<Rightarrow> nat option option" where
  "getTokenPosition tokenizedStr pos =
     (if pos = 0 then Some None else token_position tokenizedStr pos 1 0)"

definition embeddedCliGetToken :: "string \<Rightarrow> nat \<Rightarrow> string option option" where
  "embeddedCliGetToken tokenizedStr pos =
     (case getTokenPosition tokenizedStr pos of
        None \<Rightarrow> None
      | Some None \<Rightarrow> Some None
      | Some (Some i) \<Rightarrow> (case string_at i tokenizedStr of None \<Rightarrow> None | Some s \<Rightarrow> Some (Some s)))"

fun count_tokens :: "string \<Rightarrow> nat \<Rightarrow> nat option" where
  "count_tokens (c # d # m) n =
     (if c = NUL then if d = NUL then Some n else count_tokens (d # m) (n + 1)
      else count_tokens (d # m) n)"
| "count_tokens _ n = None"

text \<open>\<open>args\<close> is \<open>NULL\<close> when the command line has no arguments.\<close>

definition embeddedCliGetTokenCount :: "string option \<Rightarrow> nat option" where
  "embeddedCliGetTokenCount tokenizedStr =
     (case tokenizedStr of
        None \<Rightarrow> Some 0
      | Some [] \<Rightarrow> None
      | Some (c # m) \<Rightarrow> if c = NUL then Some 0 else count_tokens (c # m) 1)"

subsection \<open>What the tokens of a line are\<close>

text \<open>
  The reference: a quote or, outside of quotes, a space separates; behind a backslash every
  character stands for itself. \<open>scan_args\<close> writes a separator as \<open>NUL\<close>; \<open>words\<close> cuts there and
  leaves out what is empty.
\<close>

fun scan_args :: "string \<Rightarrow> bool \<Rightarrow> bool \<Rightarrow> string" where
  "scan_args [] q e = []"
| "scan_args (c # s) q e =
     (if e then c # scan_args s q False
      else if c = backslash then scan_args s q True
      else if c = dquote then NUL # scan_args s (\<not> q) False
      else if \<not> q \<and> c = CHR '' '' then NUL # scan_args s q False
      else c # scan_args s q False)"

fun words :: "string \<Rightarrow> string \<Rightarrow> string list" where
  "words cur [] = (if cur = [] then [] else [cur])"
| "words cur (c # s) =
     (if c \<noteq> NUL then words (cur @ [c]) s else if cur = [] then words [] s else cur # words [] s)"

definition tokens :: "string \<Rightarrow> string list" where
  "tokens s = words [] (scan_args s False False)"

text \<open>Strings in a buffer, each behind the other and terminated, as the library keeps them.\<close>

definition flat :: "string list \<Rightarrow> string" where
  "flat ss = concat (map (\<lambda>s. s @ [NUL]) ss)"

definition entries :: "string list \<Rightarrow> bool" where
  "entries ss \<longleftrightarrow> (\<forall>s \<in> set ss. s \<noteq> [] \<and> NUL \<notin> set s)"

lemma flat_simps [simp]: "flat [] = []" "flat (s # ss) = s @ NUL # flat ss" "flat (ss @ ts) = flat ss @ flat ts"
  by (simp_all add: flat_def)

lemma entries_simps [simp]:
  "entries []" "entries (s # ss) \<longleftrightarrow> s \<noteq> [] \<and> NUL \<notin> set s \<and> entries ss"
  "entries (ss @ ts) \<longleftrightarrow> entries ss \<and> entries ts"
  by (auto simp: entries_def)

lemma token_position_skip:
  "NUL \<notin> set s \<Longrightarrow> n < pos \<Longrightarrow> entries (t # ts) \<Longrightarrow>
     token_position (s @ NUL # flat (t # ts) @ r) pos n i =
     token_position (flat (t # ts) @ r) pos (n + 1) (i + length s + 1)"
proof (induction s arbitrary: i)
  case Nil
  then show ?case by (cases t) (auto simp: )
qed auto

lemma token_position_flat:
  "entries ts \<Longrightarrow> n \<le> pos \<Longrightarrow> pos < n + length ts \<Longrightarrow>
     token_position (flat ts @ r) pos n i = Some (Some (i + length (flat (take (pos - n) ts))))"
proof (induction ts arbitrary: n i)
  case (Cons t ts)
  show ?case
  proof (cases "n = pos")
    case True
    then show ?thesis using Cons.prems(1) by (cases t) auto
  next
    case False
    then obtain t' ts' where ts: "ts = t' # ts'" using Cons.prems(2,3) by (cases ts) auto
    have "token_position (flat (t # ts) @ r) pos n i =
        token_position (flat ts @ r) pos (n + 1) (i + length t + 1)"
      using token_position_skip [of t n pos t' ts' r i] Cons.prems False by (simp add: ts)
    also have "\<dots> = Some (Some (i + length t + 1 + length (flat (take (pos - (n + 1)) ts))))"
      using Cons False by (intro Cons.IH) auto
    finally show ?thesis using Cons.prems(2) False by (simp add: take_Cons')
  qed
qed simp

lemma getTokenPosition_flat:
  assumes "entries ts" and "0 < pos" and "pos \<le> length ts"
  shows "getTokenPosition (flat ts @ r) pos = Some (Some (length (flat (take (pos - 1) ts))))"
  using assms token_position_flat [of ts 1 pos r 0] by (simp add: getTokenPosition_def)

lemma string_at_flat:
  assumes "entries ts" and "k < length ts"
  shows "string_at (length (flat (take k ts))) (flat ts @ r) = Some (ts ! k)"
proof -
  have "flat ts = flat (take k ts) @ ts ! k @ NUL # flat (drop (Suc k) ts)"
    by (metis assms(2) flat_simps(2,3) append_take_drop_id Cons_nth_drop_Suc)
  moreover have "NUL \<notin> set (ts ! k)" using assms by (auto simp: entries_def)
  ultimately show ?thesis using string_at_here [of "ts ! k" "flat (take k ts)"] by simp
qed

lemma embeddedCliGetToken_flat:
  assumes "entries ts" and "0 < pos" and "pos \<le> length ts"
  shows "embeddedCliGetToken (flat ts @ r) pos = Some (Some (ts ! (pos - 1)))"
  using assms string_at_flat [of ts "pos - 1" r]
  by (simp add: embeddedCliGetToken_def getTokenPosition_flat)

lemma count_tokens_flat:
  "entries (t # ts) \<Longrightarrow> count_tokens (flat (t # ts) @ NUL # r) n = Some (n + length ts)"
proof (induction ts arbitrary: t n)
  case Nil
  then show ?case
  proof (induction t)
    case (Cons c t)
    then show ?case by (cases t) auto
  qed simp
next
  case (Cons u us)
  from Cons.prems have "count_tokens (flat (t # u # us) @ NUL # r) n = count_tokens (flat (u # us) @ NUL # r) (n + 1)"
  proof (induction t)
    case (Cons c t)
    then show ?case by (cases t; cases u) auto
  qed simp
  then show ?case using Cons by simp
qed

lemma embeddedCliGetTokenCount_flat:
  "entries ts \<Longrightarrow> embeddedCliGetTokenCount (Some (flat ts @ NUL # r)) = Some (length ts)"
proof (cases ts)
  case (Cons t us)
  then show "entries ts \<Longrightarrow> ?thesis"
    using count_tokens_flat [of t us r 1] by (cases t) (auto simp: embeddedCliGetTokenCount_def)
qed (simp add: embeddedCliGetTokenCount_def)

subsection \<open>The tokenizer in place\<close>

definition push_char :: "string \<Rightarrow> char \<Rightarrow> string" where
  "push_char out c = (if c \<noteq> NUL \<or> out \<noteq> [] \<and> last out \<noteq> NUL then out @ [c] else out)"

lemma write_ahead:
  "\<exists>mid'. (out @ mid @ c # rest)[length out := c'] = (out @ [c']) @ mid' @ rest \<and> length mid' = length mid"
  by (cases mid) (auto simp: list_update_append intro: exI [of _ "tl mid @ [c]"])

text \<open>The write position never overtakes the read position, so the loop reads the original text.\<close>

lemma tokenize_loop_scan:
  assumes "NUL \<notin> set rest"
  shows "\<exists>mid'. tokenize_loop (out @ mid @ rest @ NUL # r) (length out + length mid) (length out) q e =
      Some (foldl push_char out (scan_args rest q e) @ mid' @ NUL # r,
            length (foldl push_char out (scan_args rest q e))) \<and>
     length (foldl push_char out (scan_args rest q e)) + length mid' =
       length out + length mid + length rest"
  using assms
proof (induction rest arbitrary: out mid q e)
  case Nil
  then show ?case by (subst tokenize_loop.simps) (simp add: nth_append)
next
  case (Cons c rest)
  let ?m = "out @ mid @ (c # rest) @ NUL # r"
  let ?i = "length out + length mid"
  have c: "c \<noteq> NUL" "NUL \<notin> set rest" "?m ! ?i = c" "\<not> ?i \<ge> length ?m"
    using Cons.prems by (auto simp: nth_append)
  have last: "(length out > 0 \<and> ?m ! (length out - 1) \<noteq> NUL) = (out \<noteq> [] \<and> last out \<noteq> NUL)"
    by (auto simp: nth_append last_conv_nth)
  define st where "st = (\<lambda>c' q' e'. if push_char out c' = out
      then tokenize_loop ?m (?i + 1) (length out) q' e'
      else tokenize_loop (?m[length out := c']) (?i + 1) (length out + 1) q' e')"
  have step: "\<exists>mid'. st c' q' e' = Some (foldl push_char (push_char out c') (scan_args rest q' e') @ mid' @ NUL # r,
        length (foldl push_char (push_char out c') (scan_args rest q' e'))) \<and>
      length (foldl push_char (push_char out c') (scan_args rest q' e')) + length mid' =
        length out + length mid + length (c # rest)" for c' q' e'
  proof (cases "push_char out c' = out")
    case True
    then show ?thesis using Cons.IH [OF c(2), of out "mid @ [c]" q' e'] by (simp add: st_def)
  next
    case False
    then have p: "push_char out c' = out @ [c']" by (simp add: push_char_def split: if_splits)
    obtain mid' where "?m[length out := c'] = (out @ [c']) @ mid' @ rest @ NUL # r" "length mid' = length mid"
      using write_ahead [of out mid c "rest @ NUL # r" c'] by auto
    then show ?thesis using Cons.IH [OF c(2), of "out @ [c']" mid' q' e'] by (simp add: st_def p)
  qed
  have st: "(if c' \<noteq> NUL \<or> length out > 0 \<and> ?m ! (length out - 1) \<noteq> NUL
       then tokenize_loop (?m[length out := c']) (?i + 1) (length out + 1) q' e'
       else tokenize_loop ?m (?i + 1) (length out) q' e') = st c' q' e'" for c' q' e'
    unfolding last by (auto simp: st_def push_char_def)
  have loop: "tokenize_loop ?m ?i (length out) q e =
      (if \<not> e \<and> c = backslash then tokenize_loop ?m (?i + 1) (length out) q True
       else if e then st c q False
       else if c = dquote then st NUL (\<not> q) False
       else if \<not> q \<and> c = CHR '' '' then st NUL q False
       else st c q False)"
    unfolding tokenize_loop.simps [of ?m ?i] c(3) if_not_P [OF c(4)] Let_def st using c(1) by simp
  have skip: "\<exists>mid'. tokenize_loop ?m (?i + 1) (length out) q True =
      Some (foldl push_char out (scan_args rest q True) @ mid' @ NUL # r,
            length (foldl push_char out (scan_args rest q True))) \<and>
      length (foldl push_char out (scan_args rest q True)) + length mid' =
        length out + length mid + length (c # rest)"
    using Cons.IH [OF c(2), of out "mid @ [c]" q True] by simp
  show ?case
  proof (cases "\<not> e \<and> c = backslash")
    case True
    then show ?thesis unfolding loop using skip by auto
  next
    case False
    then show ?thesis unfolding loop using step by auto
  qed
qed

lemma squeeze:
  "(out = [] \<or> last out = NUL) \<Longrightarrow>
     \<exists>r'. foldl push_char out s @ NUL # NUL # r = out @ flat (words [] s) @ NUL # r'"
  "cur \<noteq> [] \<Longrightarrow> NUL \<notin> set cur \<Longrightarrow>
     \<exists>r'. foldl push_char (out @ cur) s @ NUL # NUL # r = out @ flat (words cur s) @ NUL # r'"
proof (induction s arbitrary: out cur)
  case (Cons c s)
  {
    case 1
    then show ?case
      using Cons.IH(1) [of out] Cons.IH(2) [of "[c]" out] by (auto simp: push_char_def)
  next
    case 2
    then have "last (out @ cur) \<noteq> NUL" by (metis last_appendR last_in_set)
    then show ?case
      using 2 Cons.IH(1) [of "out @ cur @ [NUL]"] Cons.IH(2) [of "cur @ [c]" out]
      by (auto simp: push_char_def)
  }
qed auto

lemma entries_words: "NUL \<notin> set cur \<Longrightarrow> entries (words cur s)"
  by (induction cur s rule: words.induct) auto

lemma entries_tokens: "entries (tokens s)"
  by (simp add: tokens_def entries_words)

text \<open>The tokens of a text with room for one more character behind its terminator.\<close>

lemma tokenize_args:
  assumes "NUL \<notin> set s"
  shows "\<exists>r'. embeddedCliTokenizeArgs (s @ NUL # d # r) = Some (flat (tokens s) @ NUL # r') \<and>
     length (flat (tokens s) @ NUL # r') = length s + length r + 2"
proof -
  let ?out = "foldl push_char [] (scan_args s False False)"
  obtain mid where mid: "tokenize_loop (s @ NUL # d # r) 0 0 False False =
      Some (?out @ mid @ NUL # d # r, length ?out)" "length ?out + length mid = length s"
    using tokenize_loop_scan [OF assms, of "[]" "[]" "d # r" False False] by auto
  have "store_text (length ?out) [NUL, NUL] (?out @ mid @ NUL # d # r) =
      Some (?out @ NUL # NUL # drop 2 (mid @ NUL # d # r))"
    by (simp add: store_text_def)
  moreover obtain r' where r': "?out @ NUL # NUL # drop 2 (mid @ NUL # d # r) = flat (tokens s) @ NUL # r'"
    using squeeze(1) [of "[]" "scan_args s False False" "drop 2 (mid @ NUL # d # r)"]
    by (auto simp: tokens_def)
  moreover have "length (?out @ NUL # NUL # drop 2 (mid @ NUL # d # r)) = length s + length r + 2"
    using mid(2) by simp
  ultimately show ?thesis
    unfolding r' using mid(1) by (intro exI [of _ r']) (simp add: embeddedCliTokenizeArgs_def)
qed

text \<open>The list of the tokens, as a command reads them.\<close>

definition tokens_of :: "string option \<Rightarrow> string list option" where
  "tokens_of args =
     (case embeddedCliGetTokenCount args of
        None \<Rightarrow> None
      | Some n \<Rightarrow>
          (case args of
             None \<Rightarrow> Some []
           | Some m \<Rightarrow> those (map (\<lambda>i. case embeddedCliGetToken m i of None \<Rightarrow> None | Some t \<Rightarrow> t) [1 ..< n + 1])))"

lemma those_map_Some: "those (map Some xs) = Some xs"
  by (induction xs) auto

lemma tokens_of_flat:
  assumes "entries ts"
  shows "tokens_of (Some (flat ts @ NUL # r)) = Some ts"
proof -
  have "map (\<lambda>i. case embeddedCliGetToken (flat ts @ NUL # r) i of None \<Rightarrow> None | Some t \<Rightarrow> t) [1 ..< length ts + 1] =
      map Some ts"
    by (rule nth_equalityI) (simp_all add: embeddedCliGetToken_flat [OF assms] del: upt_Suc)
  then show ?thesis
    using assms by (simp add: tokens_of_def embeddedCliGetTokenCount_flat those_map_Some)
qed

lemma tokens_of_None: "tokens_of None = Some []"
  by (simp add: tokens_of_def embeddedCliGetTokenCount_def)

text \<open>Every text can be given as one argument, in quotes.\<close>

definition quote_arg :: "string \<Rightarrow> string" where
  "quote_arg s = dquote # concat (map (\<lambda>c. if c = dquote \<or> c = backslash then [backslash, c] else [c]) s) @ [dquote]"

lemma scan_quoted: "scan_args (quote_arg s @ r) False False = NUL # s @ NUL # scan_args r False False"
proof -
  have "scan_args (concat (map (\<lambda>c. if c = dquote \<or> c = backslash then [backslash, c] else [c]) s) @ dquote # r)
      True False = s @ NUL # scan_args r False False"
    by (induction s) auto
  then show ?thesis by (simp add: quote_arg_def)
qed

lemma words_NUL: "NUL \<notin> set s \<Longrightarrow> words cur (s @ NUL # r) = (if cur @ s = [] then [] else [cur @ s]) @ words [] r"
  by (induction s arbitrary: cur) auto

lemma tokens_quoted: "entries ss \<Longrightarrow> tokens (concat (map (\<lambda>s. quote_arg s @ '' '') ss)) = ss"
proof (induction ss)
  case (Cons s ss)
  then show ?case
    using words_NUL [of s "[]"] by (simp add: tokens_def scan_quoted)
qed (simp add: tokens_def)

section \<open>History\<close>

record cli_history =
  hist_buf :: string
  hist_size :: nat
  hist_current :: nat
  hist_items :: nat

text \<open>The position in the buffer of an item, counted from 1; the inner \<open>None\<close> is \<open>NULL\<close>.\<close>

definition historyGet :: "cli_history \<Rightarrow> nat \<Rightarrow> nat option option" where
  "historyGet h item =
     (if item = 0 \<or> item > hist_items h then Some None else getTokenPosition (hist_buf h) item)"

text \<open>The search of \<open>historyRemove\<close>: the number of the item and its position.\<close>

fun history_find :: "string \<Rightarrow> string \<Rightarrow> nat list \<Rightarrow> (nat \<times> nat) option option" where
  "history_find b str [] = Some None"
| "history_find b str (p # ps) =
     (case getTokenPosition b p of
        Some (Some i) \<Rightarrow>
          (case string_at i b of
             None \<Rightarrow> None
           | Some s \<Rightarrow> if s = str then Some (Some (p, i)) else history_find b str ps)
      | _ \<Rightarrow> None)"

definition historyRemove :: "string \<Rightarrow> cli_history \<Rightarrow> cli_history option" where
  "historyRemove str h =
     (if hist_items h = 0 then Some h
      else case history_find (hist_buf h) str [1 ..< hist_items h + 1] of
             None \<Rightarrow> None
           | Some None \<Rightarrow> Some h
           | Some (Some (itemPosition, item)) \<Rightarrow>
               let h1 = h\<lparr>hist_items := hist_items h - 1\<rparr>
               in if itemPosition = hist_items h1 + 1 then Some h1
                  else case memmove item (item + length str + 1)
                              (hist_size h - (item + length str + 1)) (hist_buf h) of
                         None \<Rightarrow> None
                       | Some b \<Rightarrow> Some (h1\<lparr>hist_buf := b\<rparr>))"

text \<open>
  The loop of \<open>historyPut\<close> that drops old items: how many remain and how many bytes they use
  (nothing when none remains, where the code does not read it).
\<close>

fun history_evict :: "string \<Rightarrow> nat \<Rightarrow> nat \<Rightarrow> nat \<Rightarrow> (nat \<times> nat) option" where
  "history_evict b bsize len 0 = Some (0, 0)"
| "history_evict b bsize len (Suc n) =
     (case getTokenPosition b (Suc n) of
        Some (Some i) \<Rightarrow>
          (case string_at i b of
             None \<Rightarrow> None
           | Some item \<Rightarrow>
               let usedSize = i + length item + 1
               in if usedSize > bsize then None
                  else if bsize - usedSize \<ge> len + 1 then Some (Suc n, usedSize)
                  else history_evict b bsize len n)
      | _ \<Rightarrow> None)"

definition historyPut :: "string \<Rightarrow> cli_history \<Rightarrow> (bool \<times> cli_history) option" where
  "historyPut str h =
     (let len = length str
      in if hist_size h < len + 1 then Some (False, h)
         else case historyRemove str h of
                None \<Rightarrow> None
              | Some h1 \<Rightarrow>
                  (case history_evict (hist_buf h1) (hist_size h1) len (hist_items h1) of
                     None \<Rightarrow> None
                   | Some (n, usedSize) \<Rightarrow>
                       (case if n > 0 then memmove (len + 1) 0 usedSize (hist_buf h1) else Some (hist_buf h1) of
                          None \<Rightarrow> None
                        | Some b1 \<Rightarrow>
                            (case store_text 0 (str @ [NUL]) b1 of
                               None \<Rightarrow> None
                             | Some b2 \<Rightarrow> Some (True, h1\<lparr>hist_buf := b2, hist_items := n + 1\<rparr>)))))"

subsection \<open>The history as a list\<close>

text \<open>The history holds these lines, the newest first.\<close>

definition history_holds :: "cli_history \<Rightarrow> string list \<Rightarrow> bool" where
  "history_holds h ls \<longleftrightarrow>
     entries ls \<and> hist_items h = length ls \<and> length (hist_buf h) = hist_size h \<and>
     (\<exists>r. hist_buf h = flat ls @ r)"

text \<open>As many of the newest lines as fit in \<open>n\<close> bytes.\<close>

fun fitting :: "nat \<Rightarrow> string list \<Rightarrow> string list" where
  "fitting n [] = []"
| "fitting n (s # ss) = (if length s + 1 \<le> n then s # fitting (n - (length s + 1)) ss else [])"

lemma historyGet_holds:
  assumes "history_holds h ls"
  shows "historyGet h item =
     Some (if item = 0 \<or> item > length ls then None else Some (length (flat (take (item - 1) ls))))"
  using assms by (auto simp: history_holds_def historyGet_def getTokenPosition_flat)

lemma history_find_flat:
  assumes "entries ls" and "k \<le> length ls"
  shows "history_find (flat ls @ r) str [k + 1 ..< length ls + 1] =
     Some (if str \<in> set (drop k ls) then
             let j = k + length (takeWhile (\<lambda>s. s \<noteq> str) (drop k ls)) in Some (j + 1, length (flat (take j ls)))
           else None)"
  using assms
proof (induction "length ls - k" arbitrary: k)
  case (Suc n)
  then have k: "k < length ls" by simp
  have "[k + 1 ..< length ls + 1] = (k + 1) # [k + 2 ..< length ls + 1]"
    using k by (simp add: upt_conv_Cons del: upt_Suc)
  moreover have "drop k ls = ls ! k # drop (k + 1) ls" using k by (simp add: Cons_nth_drop_Suc)
  moreover have "getTokenPosition (flat ls @ r) (k + 1) = Some (Some (length (flat (take k ls))))"
    using getTokenPosition_flat [OF assms(1), of "k + 1" r] k by simp
  ultimately show ?case
    using Suc.hyps(1) [of "k + 1"] Suc.hyps(2) Suc.prems string_at_flat [OF assms(1) k, of r]
    by (auto simp: Let_def)
qed auto

lemma remove1_split:
  "str \<in> set ls \<Longrightarrow> ls = takeWhile (\<lambda>s. s \<noteq> str) ls @ str # drop (Suc (length (takeWhile (\<lambda>s. s \<noteq> str) ls))) ls"
  by (induction ls) auto

lemma remove1_takeWhile:
  "remove1 str ls = takeWhile (\<lambda>s. s \<noteq> str) ls @ drop (Suc (length (takeWhile (\<lambda>s. s \<noteq> str) ls))) ls"
  by (induction ls) auto

lemma historyRemove_holds:
  assumes "history_holds h ls"
  shows "\<exists>h'. historyRemove str h = Some h' \<and> history_holds h' (remove1 str ls) \<and>
     hist_size h' = hist_size h \<and> hist_current h' = hist_current h"
proof -
  obtain r where h: "entries ls" "hist_items h = length ls" "length (hist_buf h) = hist_size h"
      "hist_buf h = flat ls @ r"
    using assms by (auto simp: history_holds_def)
  have find: "history_find (hist_buf h) str [1 ..< hist_items h + 1] =
      Some (if str \<in> set ls then Some (length (takeWhile (\<lambda>s. s \<noteq> str) ls) + 1,
              length (flat (take (length (takeWhile (\<lambda>s. s \<noteq> str) ls)) ls))) else None)"
    using history_find_flat [OF h(1), of 0 r str] h(2,4) by (simp add: Let_def)
  show ?thesis
  proof (cases "str \<in> set ls")
    case False
    then show ?thesis
      using assms find by (simp add: historyRemove_def remove1_idem del: upt_Suc)
  next
    case True
    define A where "A = takeWhile (\<lambda>s. s \<noteq> str) ls"
    define B where "B = drop (Suc (length A)) ls"
    have ls: "ls = A @ str # B" "remove1 str ls = A @ B"
      using remove1_split [OF True] remove1_takeWhile [of str ls] by (simp_all add: A_def B_def)
    have takeA: "take (length A) ls = A" by (subst ls(1)) simp
    have find': "history_find (hist_buf h) str [1 ..< hist_items h + 1] =
        Some (Some (length A + 1, length (flat A)))"
      unfolding find A_def [symmetric] takeA using True by simp
    have ent: "entries (A @ B)" using h(1) by (simp add: ls(1))
    show ?thesis
    proof (cases "B = []")
      case True
      then show ?thesis
        using find' h ent unfolding ls(2)
        by (auto simp: historyRemove_def history_holds_def ls(1) Let_def)
    next
      case False
      let ?n = "hist_size h - (length (flat A) + length str + 1)"
      have len: "length (flat A) + length str + 1 + ?n = length (hist_buf h)"
        using h(3,4) by (simp add: ls(1))
      then have "memmove (length (flat A)) (length (flat A) + length str + 1) ?n (hist_buf h) =
          Some (flat A @ flat B @ r @ drop (length (flat A) + ?n) (hist_buf h))"
        by (subst memmove_at) (simp_all add: h(4) ls(1))
      then show ?thesis
        using find' h(2) h(3,4) ent False unfolding ls(2)
        by (auto simp: historyRemove_def history_holds_def ls(1) Let_def)
    qed
  qed
qed

lemma fitting_all: "length (flat ss) \<le> n \<Longrightarrow> fitting n ss = ss"
  by (induction ss arbitrary: n) auto

lemma fitting_snoc: "n < length (flat (ss @ [s])) \<Longrightarrow> fitting n (ss @ [s]) = fitting n ss"
  by (induction ss arbitrary: n) auto

lemma fitting_length: "length (flat (fitting n ss)) \<le> n"
proof (induction n ss rule: fitting.induct)
  case (2 n s ss)
  then show ?case by (cases "length s + 1 \<le> n") auto
qed simp

lemma history_evict_flat:
  assumes "entries ls" and "length (flat ls @ r) = bsize" and "n \<le> length ls"
  shows "\<exists>k \<le> n. history_evict (flat ls @ r) bsize len n = Some (k, length (flat (take k ls))) \<and>
     take k ls = fitting (bsize - (len + 1)) (take n ls) \<and>
     (0 < k \<longrightarrow> length (flat (take k ls)) + len + 1 \<le> bsize)"
  using assms(3)
proof (induction n)
  case (Suc n)
  have n: "n < length ls" using Suc.prems by simp
  have "take (Suc n) ls = take n ls @ [ls ! n]" using n by (rule take_Suc_conv_app_nth)
  then have used: "length (flat (take n ls)) + length (ls ! n) + 1 = length (flat (take (Suc n) ls))"
      and sn: "take (Suc n) ls = take n ls @ [ls ! n]" by simp_all
  have "flat ls = flat (take (Suc n) ls) @ flat (drop (Suc n) ls)"
    by (metis append_take_drop_id flat_simps(3))
  then have le: "length (flat (take (Suc n) ls)) \<le> bsize" using assms(2) by simp
  have evict: "history_evict (flat ls @ r) bsize len (Suc n) =
      (if bsize - length (flat (take (Suc n) ls)) \<ge> len + 1
       then Some (Suc n, length (flat (take (Suc n) ls))) else history_evict (flat ls @ r) bsize len n)"
    using getTokenPosition_flat [OF assms(1), of "Suc n" r] string_at_flat [OF assms(1) n, of r] n le
      used by (simp add: Let_def)
  show ?case
  proof (cases "bsize - length (flat (take (Suc n) ls)) \<ge> len + 1")
    case True
    then show ?thesis
      unfolding evict by (intro exI [of _ "Suc n"]) (simp add: fitting_all)
  next
    case False
    obtain k where k: "k \<le> n" "history_evict (flat ls @ r) bsize len n = Some (k, length (flat (take k ls)))"
        "take k ls = fitting (bsize - (len + 1)) (take n ls)"
        "0 < k \<longrightarrow> length (flat (take k ls)) + len + 1 \<le> bsize"
      using Suc.IH n by auto
    have "fitting (bsize - (len + 1)) (take (Suc n) ls) = fitting (bsize - (len + 1)) (take n ls)"
      using False le used unfolding sn by (intro fitting_snoc) simp
    then show ?thesis
      using k False unfolding evict by (intro exI [of _ k]) simp
  qed
qed (simp add: exI)

lemma historyPut_holds:
  assumes "history_holds h ls" and "str \<noteq> []" and "NUL \<notin> set str" and "length str < hist_size h"
  shows "\<exists>h'. historyPut str h = Some (True, h') \<and>
     history_holds h' (str # fitting (hist_size h - (length str + 1)) (remove1 str ls)) \<and>
     hist_size h' = hist_size h \<and> hist_current h' = hist_current h"
proof -
  let ?ls = "remove1 str ls"
  obtain h1 where h1: "historyRemove str h = Some h1" "history_holds h1 ?ls" "hist_size h1 = hist_size h"
      "hist_current h1 = hist_current h"
    using historyRemove_holds [OF assms(1)] by blast
  obtain r where r: "entries ?ls" "hist_items h1 = length ?ls" "length (hist_buf h1) = hist_size h1"
      "hist_buf h1 = flat ?ls @ r"
    using h1(2) by (auto simp: history_holds_def)
  obtain k where k: "k \<le> length ?ls"
      "history_evict (hist_buf h1) (hist_size h1) (length str) (hist_items h1) = Some (k, length (flat (take k ?ls)))"
      "take k ?ls = fitting (hist_size h1 - (length str + 1)) ?ls"
      "0 < k \<longrightarrow> length (flat (take k ?ls)) + length str + 1 \<le> hist_size h1"
    using history_evict_flat [OF r(1), of r "hist_size h1" "length ?ls" "length str"] r by auto
  let ?used = "length (flat (take k ?ls))"
  obtain b1 where b1: "(if k > 0 then memmove (length str + 1) 0 ?used (hist_buf h1) else Some (hist_buf h1)) = Some b1"
      "length b1 = hist_size h1" "take (length str + 1 + ?used) b1 = take (length str + 1) b1 @ flat (take k ?ls)"
  proof (cases "k > 0")
    case True
    have buf: "take ?used (hist_buf h1) = flat (take k ?ls)"
      unfolding r(4) using append_take_drop_id [of k ?ls] by (metis append_eq_conv_conj append_assoc flat_simps(3))
    then have "memmove (length str + 1) 0 ?used (hist_buf h1) =
        Some (take (length str + 1) (hist_buf h1) @ flat (take k ?ls) @ drop (length str + 1 + ?used) (hist_buf h1))"
      using k(4) True r(3) by (subst memmove_at) auto
    then show ?thesis using that True k(4) r(3) by (auto simp: min_absorb1)
  next
    case False
    then show ?thesis using that [of "hist_buf h1"] r(3) by simp
  qed
  let ?b2 = "str @ [NUL] @ drop (length str + 1) b1"
  have b2: "store_text 0 (str @ [NUL]) b1 = Some ?b2" "length ?b2 = hist_size h1"
    using assms(4) h1(3) b1(2) by (auto simp: store_text_def)
  have "take ?used (drop (length str + 1) b1) = drop (length str + 1) (take (length str + 1 + ?used) b1)"
    by (simp add: take_drop add.commute)
  also have "\<dots> = flat (take k ?ls)"
    unfolding b1(3) using assms(4) h1(3) b1(2) by simp
  finally have "?b2 = flat (str # take k ?ls) @ drop ?used (drop (length str + 1) b1)"
    by (metis append_take_drop_id append_assoc flat_simps(2) append_Cons append_Nil)
  then have "\<exists>r. ?b2 = flat (str # take k ?ls) @ r" by blast
  moreover have "entries (str # take k ?ls)"
    using assms(2,3) r(1) by (auto simp: entries_def dest: in_set_takeD)
  ultimately have "history_holds (h1\<lparr>hist_buf := ?b2, hist_items := k + 1\<rparr>) (str # take k ?ls)"
    using b2(2) k(1) by (auto simp: history_holds_def)
  then show ?thesis
    using h1 k b1(1) b2(1) assms(4) by (auto simp: historyPut_def Let_def)
qed

end
