(* ===== verification/Embedded_Cli.thy ===== *)
theory Embedded_Cli
  imports Cli_Buffers "HOL-Library.Monad_Syntax"
begin

text \<open>
  The line editor of the console: \<open>src/cli/embedded_cli.h\<close> as \<open>src/cli/cli.c\<close> uses it. A
  function that leaves one of its buffers, or reads a string that is not terminated, has no
  result. What \<open>writeChar\<close> has written is the string \<open>cli_output\<close>. A function of the program
  that is bound to a command is a value of the type \<open>'f\<close>, which stands for the function with its
  context; what it does to the rest of the program, of the type \<open>'w\<close>, is the parameter
  \<open>app\<close>. It gets the memory from \<open>args\<close> on, \<open>None\<close> for \<open>NULL\<close>. No function of the program
  calls back into the library, and none is bound to \<open>onCommand\<close>, which stays \<open>NULL\<close>. The flags
  are booleans of their own. Lengths are at most 64, so none of them wraps.
\<close>

section \<open>The state\<close>

datatype 'f cli_function =
    On_help
  | App 'f

text \<open>\<open>CliCommandBinding\<close>; the context is part of the function.\<close>

record 'f cli_binding =
  bind_name :: string
  bind_help :: "string option"
  tokenize_args :: bool
  bind_fun :: "'f cli_function option"

text \<open>\<open>EmbeddedCli\<close> and \<open>EmbeddedCliImpl\<close>; \<open>write_char\<close> says whether \<open>writeChar\<close> is set.\<close>

record 'f embedded_cli =
  write_char :: bool
  cli_output :: string
  invitation :: string
  history :: cli_history
  rx_buffer :: fifo
  cmd_buffer :: string
  cmd_size :: nat
  cmd_max_size :: nat
  bindings :: "'f cli_binding list"
  binding_flags :: "bool list"
  max_bindings :: nat
  input_line_length :: nat
  last_char :: char
  flag_overflow :: bool
  flag_init_complete :: bool
  flag_escape_mode :: bool
  flag_direct_print :: bool
  flag_autocomplete :: bool
  cursor_pos :: nat

text \<open>\<open>AutocompletedCommand\<close>\<close>

record autocompleted =
  first_candidate :: "string option"
  autocompleted_len :: nat
  candidate_count :: nat

type_synonym ('f, 'w) app = "'f \<Rightarrow> string option \<Rightarrow> 'w \<Rightarrow> (string \<times> 'w) option"

section \<open>Output\<close>

abbreviation CR :: char where "CR \<equiv> CHR 0x0D"
abbreviation LF :: char where "LF \<equiv> CHR 0x0A"
abbreviation TAB :: char where "TAB \<equiv> CHR 0x09"
abbreviation BS :: char where "BS \<equiv> CHR 0x08"
abbreviation DEL :: char where "DEL \<equiv> CHR 0x7F"
abbreviation ESC :: char where "ESC \<equiv> CHR 0x1B"
abbreviation space :: char where "space \<equiv> CHR '' ''"

definition lineBreak :: string where "lineBreak = [CR, LF]"
definition escSeqCursorRight :: string where "escSeqCursorRight = ESC # ''[C''"
definition escSeqCursorLeft :: string where "escSeqCursorLeft = ESC # ''[D''"
definition escSeqCursorSave :: string where "escSeqCursorSave = ESC # ''[s''"
definition escSeqCursorRestore :: string where "escSeqCursorRestore = ESC # ''[u''"
definition escSeqInsertChar :: string where "escSeqInsertChar = ESC # ''[@''"
definition escSeqDeleteChar :: string where "escSeqDeleteChar = ESC # ''[P''"

definition writeToOutput :: "string \<Rightarrow> 'f embedded_cli \<Rightarrow> 'f embedded_cli" where
  "writeToOutput str c = c\<lparr>cli_output := cli_output c @ str\<rparr>"

definition moveCursor :: "nat \<Rightarrow> bool \<Rightarrow> 'f embedded_cli \<Rightarrow> 'f embedded_cli" where
  "moveCursor count direction c =
     (if count = 0 then c
      else writeToOutput (ESC # CHR ''['' # dec_digits count @
             [if direction then escSeqCursorRight ! 2 else escSeqCursorLeft ! 2]) c)"

definition clearCurrentLine :: "'f embedded_cli \<Rightarrow> 'f embedded_cli" where
  "clearCurrentLine c =
     (let len = input_line_length c + length (invitation c)
      in (writeToOutput (CR # replicate len space @ [CR]) c)\<lparr>input_line_length := 0, cursor_pos := 0\<rparr>)"

definition isControlChar :: "char \<Rightarrow> bool" where
  "isControlChar c \<longleftrightarrow> c = CR \<or> c = LF \<or> c = BS \<or> c = TAB \<or> c = DEL"

definition isDisplayableChar :: "char \<Rightarrow> bool" where
  "isDisplayableChar c \<longleftrightarrow> 32 \<le> (of_char c :: nat) \<and> (of_char c :: nat) \<le> 126"

section \<open>Autocompletion\<close>

definition candidate_text :: "autocompleted \<Rightarrow> string" where
  "candidate_text cmd = (case first_candidate cmd of None \<Rightarrow> [] | Some s \<Rightarrow> s)"

text \<open>
  The body of the loop of \<open>getAutocompletedCommand\<close> for one binding: the new flag of the
  binding and the result so far. Both names are at least \<open>autocompleted_len\<close> long where they
  are compared.
\<close>

definition autocomplete_step ::
    "nat \<Rightarrow> string \<Rightarrow> string \<Rightarrow> autocompleted \<Rightarrow> bool \<times> autocompleted" where
  "autocomplete_step cmdSize prefix name cmd =
     (if length name < length prefix \<or> take (length prefix) name \<noteq> prefix then (False, cmd)
      else
        let len = length name;
            al = (if candidate_count cmd = 0 \<or> len < autocompleted_len cmd then len
                  else autocompleted_len cmd);
            n = candidate_count cmd + 1
        in (True,
            if n = 1 then \<lparr>first_candidate = Some name, autocompleted_len = al, candidate_count = n\<rparr>
            else \<lparr>first_candidate = first_candidate cmd,
                  autocompleted_len =
                    (case find (\<lambda>j. candidate_text cmd ! j \<noteq> name ! j) [cmdSize ..< al] of
                       Some j \<Rightarrow> j | None \<Rightarrow> al),
                  candidate_count = n\<rparr>))"

fun autocomplete_loop ::
    "nat \<Rightarrow> string \<Rightarrow> string list \<Rightarrow> autocompleted \<Rightarrow> bool list \<times> autocompleted" where
  "autocomplete_loop cmdSize prefix [] cmd = ([], cmd)"
| "autocomplete_loop cmdSize prefix (name # names) cmd =
     (let (flag, cmd1) = autocomplete_step cmdSize prefix name cmd;
          (flags, cmd2) = autocomplete_loop cmdSize prefix names cmd1
      in (flag # flags, cmd2))"

definition getAutocompletedCommand ::
    "string \<Rightarrow> 'f embedded_cli \<Rightarrow> autocompleted \<times> 'f embedded_cli" where
  "getAutocompletedCommand prefix c =
     (let cmd = \<lparr>first_candidate = None, autocompleted_len = 0, candidate_count = 0\<rparr>
      in if bindings c = [] \<or> prefix = [] then (cmd, c)
         else let (flags, cmd1) = autocomplete_loop (cmd_size c) prefix (map bind_name (bindings c)) cmd
              in (cmd1, c\<lparr>binding_flags := flags\<rparr>))"

text \<open>The string in the command buffer.\<close>

definition cmd_string :: "'f embedded_cli \<Rightarrow> string option" where
  "cmd_string c = string_at 0 (cmd_buffer c)"

definition printLiveAutocompletion :: "'f embedded_cli \<Rightarrow> 'f embedded_cli option" where
  "printLiveAutocompletion c =
     (if \<not> flag_autocomplete c then Some c
      else do {
        prefix \<leftarrow> cmd_string c;
        let (cmd, c1) = getAutocompletedCommand prefix c;
        let al = (if candidate_count cmd = 0 then cmd_size c else autocompleted_len cmd);
        let c2 = moveCursor (cursor_pos c) True (writeToOutput escSeqCursorSave c1);
        let c3 = writeToOutput (drop (cmd_size c) (take al (candidate_text cmd))) c2;
        let c4 = writeToOutput (replicate (input_line_length c - al) space) c3;
        Some (writeToOutput escSeqCursorRestore (c4\<lparr>input_line_length := al\<rparr>))
      })"

definition onAutocompleteRequest :: "'f embedded_cli \<Rightarrow> 'f embedded_cli option" where
  "onAutocompleteRequest c = do {
     prefix \<leftarrow> cmd_string c;
     let (cmd, c1) = getAutocompletedCommand prefix c;
     let al = autocompleted_len cmd;
     if candidate_count cmd = 0 then Some c1
     else if candidate_count cmd = 1 \<or> al > cmd_size c then do {
       b1 \<leftarrow> store_text 0 (take al (candidate_text cmd)) (cmd_buffer c);
       b2 \<leftarrow> (if candidate_count cmd = 1 then store_text al [space] b1 else Some b1);
       let al' = (if candidate_count cmd = 1 then al + 1 else al);
       b3 \<leftarrow> store_text al' [NUL] b2;
       rest \<leftarrow> (if cursor_pos c \<le> cmd_size c then string_at (cmd_size c - cursor_pos c) b3 else None);
       Some ((writeToOutput rest (c1\<lparr>cmd_buffer := b3\<rparr>))
               \<lparr>cmd_size := al', input_line_length := al', cursor_pos := 0\<rparr>)
     }
     else do {
       let c2 = clearCurrentLine c1;
       let names = concat (map2 (\<lambda>b flag. if flag then bind_name b @ lineBreak else [])
                                (bindings c2) (binding_flags c2));
       line \<leftarrow> cmd_string c2;
       Some ((writeToOutput (names @ invitation c2 @ line) c2)\<lparr>input_line_length := cmd_size c2\<rparr>)
     }
   }"

section \<open>Editing the line\<close>

definition navigateHistory :: "bool \<Rightarrow> 'f embedded_cli \<Rightarrow> 'f embedded_cli option" where
  "navigateHistory navigateUp c =
     (if hist_items (history c) = 0 \<or>
         navigateUp \<and> hist_current (history c) = hist_items (history c) \<or>
         \<not> navigateUp \<and> hist_current (history c) = 0 then Some c
      else do {
        let c1 = writeToOutput (invitation c) (clearCurrentLine c);
        let current = (if navigateUp then hist_current (history c) + 1 else hist_current (history c) - 1);
        let h = (history c)\<lparr>hist_current := current\<rparr>;
        found \<leftarrow> historyGet h current;
        item \<leftarrow> (case found of None \<Rightarrow> Some [] | Some i \<Rightarrow> string_at i (hist_buf h));
        b \<leftarrow> store_text 0 (item @ [NUL]) (cmd_buffer c1);
        let c2 = c1\<lparr>history := h, cmd_buffer := b, cmd_size := length item\<rparr>;
        line \<leftarrow> cmd_string c2;
        printLiveAutocompletion
          ((writeToOutput line c2)\<lparr>input_line_length := cmd_size c2, cursor_pos := 0\<rparr>)
      })"

definition onEscapedInput :: "char \<Rightarrow> 'f embedded_cli \<Rightarrow> 'f embedded_cli option" where
  "onEscapedInput ch c =
     (if 64 \<le> (of_char ch :: nat) \<and> (of_char ch :: nat) \<le> 126 then do {
        let c1 = c\<lparr>flag_escape_mode := False\<rparr>;
        c2 \<leftarrow> (if ch = CHR ''A'' \<or> ch = CHR ''B'' then navigateHistory (ch = CHR ''A'') c1 else Some c1);
        let c3 = (if ch = CHR ''C'' \<and> cursor_pos c2 > 0
                  then writeToOutput escSeqCursorRight (c2\<lparr>cursor_pos := cursor_pos c2 - 1\<rparr>) else c2);
        if ch = CHR ''D'' then do {
          line \<leftarrow> cmd_string c3;
          Some (if cursor_pos c3 < length line
                then writeToOutput escSeqCursorLeft (c3\<lparr>cursor_pos := cursor_pos c3 + 1\<rparr>) else c3)
        } else Some c3
      } else Some c)"

text \<open>The position of the cursor in the buffer, \<open>strlen (cmdBuffer) - cursorPos\<close>.\<close>

definition insert_pos :: "'f embedded_cli \<Rightarrow> nat option" where
  "insert_pos c = do {
     line \<leftarrow> cmd_string c;
     if cursor_pos c \<le> length line then Some (length line - cursor_pos c) else None
   }"

definition onCharInput :: "char \<Rightarrow> 'f embedded_cli \<Rightarrow> 'f embedded_cli option" where
  "onCharInput ch c =
     (if cmd_size c + 2 \<ge> cmd_max_size c then Some c
      else do {
        insertPos \<leftarrow> insert_pos c;
        b1 \<leftarrow> memmove (insertPos + 1) insertPos (cursor_pos c + 1) (cmd_buffer c);
        b2 \<leftarrow> store_text insertPos [ch] b1;
        let c1 = c\<lparr>cmd_size := cmd_size c + 1, input_line_length := input_line_length c + 1,
                   cmd_buffer := b2\<rparr>;
        let c2 = (if cursor_pos c1 > 0 then writeToOutput escSeqInsertChar c1 else c1);
        Some (writeToOutput [ch] c2)
      })"

definition removeChar :: "'f embedded_cli \<Rightarrow> 'f embedded_cli option" where
  "removeChar c = do {
     let c1 = writeToOutput (escSeqCursorLeft @ escSeqDeleteChar) c;
     insertPos \<leftarrow> insert_pos c1;
     b \<leftarrow> (if insertPos = 0 then None
          else memmove (insertPos - 1) insertPos (cursor_pos c1 + 1) (cmd_buffer c1));
     Some (c1\<lparr>cmd_buffer := b, cmd_size := cmd_size c1 - 1\<rparr>)
   }"

section \<open>Running a command\<close>

definition printBindingHelp :: "'f cli_binding \<Rightarrow> 'f embedded_cli \<Rightarrow> 'f embedded_cli" where
  "printBindingHelp b c =
     (case bind_help b of None \<Rightarrow> c | Some h \<Rightarrow> writeToOutput (TAB # h @ lineBreak) c)"

definition onUnknownCommand :: "string \<Rightarrow> 'f embedded_cli \<Rightarrow> 'f embedded_cli" where
  "onUnknownCommand name c =
     writeToOutput (''Unknown command: '' @ [dquote] @ name @ [dquote] @ ''. Write '' @ [dquote] @ ''help'' @
       [dquote] @ '' for a list of available commands'' @ lineBreak) c"

definition onHelp :: "string option \<Rightarrow> 'f embedded_cli \<Rightarrow> 'f embedded_cli option" where
  "onHelp toks c =
     (if bindings c = [] then Some (writeToOutput (''Help is not available'' @ lineBreak) c)
      else do {
        tokenCount \<leftarrow> embeddedCliGetTokenCount toks;
        if tokenCount = 0 then
          Some (fold (\<lambda>b c. printBindingHelp b (writeToOutput ('' * '' @ bind_name b @ lineBreak) c))
                     (bindings c) c)
        else if tokenCount = 1 then do {
          m \<leftarrow> toks;
          token \<leftarrow> embeddedCliGetToken m 1;
          name \<leftarrow> token;
          Some (case find (\<lambda>b. bind_name b = name) (bindings c) of
                  None \<Rightarrow> onUnknownCommand name c
                | Some b \<Rightarrow>
                    (case bind_help b of
                       None \<Rightarrow> writeToOutput (''Help is not available'' @ lineBreak) c
                     | Some h \<Rightarrow> writeToOutput ('' * '' @ name @ lineBreak @ [TAB] @ h @ lineBreak) c))
        }
        else Some (writeToOutput (''Command '' @ [dquote] @ ''help'' @ [dquote] @
                     '' receives one or zero arguments'' @ lineBreak) c)
      })"

text \<open>
  The loop of \<open>parseCommand\<close> that finds the name and the arguments: the buffer, the offsets
  \<open>cmdName\<close> and \<open>cmdArgs\<close>, and \<open>nameFinished\<close>.
\<close>

definition split_step ::
    "nat \<Rightarrow> string \<times> nat option \<times> nat option \<times> bool \<Rightarrow> string \<times> nat option \<times> nat option \<times> bool" where
  "split_step i s =
     (case s of (b, cmdName, cmdArgs, nameFinished) \<Rightarrow>
        if b ! i = space then
          (if cmdArgs = None then b[i := NUL] else b, cmdName, cmdArgs, nameFinished \<or> cmdName \<noteq> None)
        else if cmdName = None then (b, Some i, cmdArgs, nameFinished)
        else if cmdArgs = None \<and> nameFinished then (b, cmdName, Some i, nameFinished)
        else s)"

text \<open>The call of a bound function, or of its help.\<close>

definition run_binding ::
    "('f, 'w) app \<Rightarrow> 'f cli_binding \<Rightarrow> 'f cli_function \<Rightarrow> string option \<Rightarrow>
      'f embedded_cli \<Rightarrow> 'w \<Rightarrow> ('f embedded_cli \<times> 'w) option" where
  "run_binding app b f args c w = do {
     let c1 = c\<lparr>flag_direct_print := True\<rparr>;
     help \<leftarrow> (case args of
               None \<Rightarrow> Some False
             | Some m \<Rightarrow> do { first \<leftarrow> string_at 0 m; Some (first = ''-h'' \<or> first = ''--help'') });
     (c2, w1) \<leftarrow>
       (if help then Some (printBindingHelp b c1, w)
        else (case f of
                On_help \<Rightarrow> do { c2 \<leftarrow> onHelp args c1; Some (c2, w) }
              | App g \<Rightarrow> do { (printed, w1) \<leftarrow> app g args w; Some (writeToOutput printed c1, w1) }));
     Some (c2\<lparr>flag_direct_print := False\<rparr>, w1)
   }"

text \<open>The second half of \<open>parseCommand\<close>: the search for the binding and its call.\<close>

definition run_command ::
    "('f, 'w) app \<Rightarrow> nat option \<Rightarrow> nat option \<Rightarrow> 'f embedded_cli \<Rightarrow> 'w \<Rightarrow> ('f embedded_cli \<times> 'w) option" where
  "run_command app cmdName cmdArgs c w =
     (case cmdName of
        None \<Rightarrow> Some (c, w)
      | Some n \<Rightarrow> do {
          name \<leftarrow> string_at n (cmd_buffer c);
          case find (\<lambda>b. bind_name b = name) (bindings c) of
            None \<Rightarrow> Some (onUnknownCommand name c, w)
          | Some bd \<Rightarrow>
              (case bind_fun bd of
                 None \<Rightarrow> Some (onUnknownCommand name c, w)
               | Some f \<Rightarrow>
                   (case cmdArgs of
                      None \<Rightarrow> run_binding app bd f None c w
                    | Some a \<Rightarrow>
                        if tokenize_args bd then do {
                          m \<leftarrow> embeddedCliTokenizeArgs (drop a (cmd_buffer c));
                          run_binding app bd f (Some m) (c\<lparr>cmd_buffer := take a (cmd_buffer c) @ m\<rparr>) w
                        }
                        else run_binding app bd f (Some (drop a (cmd_buffer c))) c w))
        })"

definition parseCommand ::
    "('f, 'w) app \<Rightarrow> 'f embedded_cli \<Rightarrow> 'w \<Rightarrow> ('f embedded_cli \<times> 'w) option" where
  "parseCommand app c w =
     (if cmd_size c > length (cmd_buffer c) then None
      else if list_all (\<lambda>ch. ch = space) (take (cmd_size c) (cmd_buffer c)) then Some (c, w)
      else do {
        line \<leftarrow> cmd_string c;
        (put, h) \<leftarrow> historyPut line (history c);
        let (b, cmdName, cmdArgs, nameFinished) =
          fold split_step [0 ..< cmd_size c] (cmd_buffer c, None, None, False);
        b1 \<leftarrow> store_text (cmd_size c + 1) [NUL] b;
        run_command app cmdName cmdArgs (c\<lparr>history := h, cmd_buffer := b1\<rparr>) w
      })"

text \<open>The return key: the line is completed, run and cleared.\<close>

definition enterLine ::
    "('f, 'w) app \<Rightarrow> 'f embedded_cli \<Rightarrow> 'w \<Rightarrow> ('f embedded_cli \<times> 'w) option" where
  "enterLine app c w = do {
     c1 \<leftarrow> onAutocompleteRequest c;
     let c2 = writeToOutput lineBreak c1;
     (c3, w1) \<leftarrow> (if cmd_size c2 > 0 then parseCommand app c2 w else Some (c2, w));
     b \<leftarrow> store_text 0 [NUL] (cmd_buffer c3);
     Some (writeToOutput (invitation c3)
             (c3\<lparr>cmd_size := 0, cmd_buffer := b, input_line_length := 0,
                 history := (history c3)\<lparr>hist_current := 0\<rparr>, cursor_pos := 0\<rparr>), w1)
   }"

definition onControlInput ::
    "('f, 'w) app \<Rightarrow> char \<Rightarrow> 'f embedded_cli \<Rightarrow> 'w \<Rightarrow> ('f embedded_cli \<times> 'w) option" where
  "onControlInput app ch c w =
     (if last_char c = CR \<and> ch = LF \<or> last_char c = LF \<and> ch = CR then Some (c, w)
      else if ch = CR \<or> ch = LF then enterLine app c w
      else if (ch = BS \<or> ch = DEL) \<and> cmd_size c > cursor_pos c
        then do { c1 \<leftarrow> removeChar c; Some (c1, w) }
      else if ch = TAB then do { c1 \<leftarrow> onAutocompleteRequest c; Some (c1, w) }
      else Some (c, w))"

section \<open>Processing the received characters\<close>

definition embeddedCliReceiveChar :: "char \<Rightarrow> 'f embedded_cli \<Rightarrow> 'f embedded_cli option" where
  "embeddedCliReceiveChar ch c = do {
     (ok, q) \<leftarrow> fifoBufPush ch (rx_buffer c);
     Some (c\<lparr>rx_buffer := q, flag_overflow := flag_overflow c \<or> \<not> ok\<rparr>)
   }"

text \<open>The body of the loop of \<open>embeddedCliProcess\<close>.\<close>

definition process_char ::
    "('f, 'w) app \<Rightarrow> char \<Rightarrow> 'f embedded_cli \<Rightarrow> 'w \<Rightarrow> ('f embedded_cli \<times> 'w) option" where
  "process_char app ch c w = do {
     (c1, w1) \<leftarrow>
       (if flag_escape_mode c then do { c1 \<leftarrow> onEscapedInput ch c; Some (c1, w) }
        else if last_char c = ESC \<and> ch = CHR ''['' then Some (c\<lparr>flag_escape_mode := True\<rparr>, w)
        else if isControlChar ch then onControlInput app ch c w
        else if isDisplayableChar ch then do { c1 \<leftarrow> onCharInput ch c; Some (c1, w) }
        else Some (c, w));
     c2 \<leftarrow> printLiveAutocompletion c1;
     Some (c2\<lparr>last_char := ch\<rparr>, w1)
   }"

partial_function (option) process_loop ::
    "('f, 'w) app \<Rightarrow> 'f embedded_cli \<Rightarrow> 'w \<Rightarrow> ('f embedded_cli \<times> 'w) option" where
  "process_loop app c w =
     (if fifoBufAvailable (rx_buffer c) = 0 then Some (c, w)
      else do {
        (ch, q) \<leftarrow> fifoBufPop (rx_buffer c);
        (c1, w1) \<leftarrow> process_char app ch (c\<lparr>rx_buffer := q\<rparr>) w;
        process_loop app c1 w1
      })"

definition embeddedCliProcess ::
    "('f, 'w) app \<Rightarrow> 'f embedded_cli \<Rightarrow> 'w \<Rightarrow> ('f embedded_cli \<times> 'w) option" where
  "embeddedCliProcess app c w =
     (if \<not> write_char c then Some (c, w)
      else do {
        let c1 = (if \<not> flag_init_complete c
                  then writeToOutput (invitation c) (c\<lparr>flag_init_complete := True\<rparr>) else c);
        (c2, w1) \<leftarrow> process_loop app c1 w;
        if flag_overflow c2 then do {
          b \<leftarrow> store_text 0 [NUL] (cmd_buffer c2);
          Some (c2\<lparr>cmd_size := 0, cmd_buffer := b, flag_overflow := False\<rparr>, w1)
        }
        else Some (c2, w1)
      })"

section \<open>Setting up\<close>

text \<open>\<open>EmbeddedCliConfig\<close>; the buffer is always allocated.\<close>

record cli_config =
  rxBufferSize :: u16
  cmdBufferSize :: nat
  historyBufferSize :: nat
  maxBindingCount :: nat
  enableAutoComplete :: bool
  config_invitation :: string

definition embeddedCliDefaultConfig :: cli_config where
  "embeddedCliDefaultConfig =
     \<lparr>rxBufferSize = 64, cmdBufferSize = 64, historyBufferSize = 128, maxBindingCount = 8,
      enableAutoComplete = True, config_invitation = ''> ''\<rparr>"

definition cliInternalBindingCount :: nat where "cliInternalBindingCount = 1"

definition embeddedCliAddBinding ::
    "'f cli_binding \<Rightarrow> 'f embedded_cli \<Rightarrow> bool \<times> 'f embedded_cli" where
  "embeddedCliAddBinding b c =
     (if length (bindings c) = max_bindings c then (False, c)
      else (True, c\<lparr>bindings := bindings c @ [b]\<rparr>))"

definition initInternalBindings :: "'f embedded_cli \<Rightarrow> 'f embedded_cli" where
  "initInternalBindings c =
     snd (embeddedCliAddBinding \<lparr>bind_name = ''help'', bind_help = Some ''Print list of commands'',
                                 tokenize_args = True, bind_fun = Some On_help\<rparr> c)"

definition embeddedCliNew :: "bool \<Rightarrow> cli_config \<Rightarrow> 'f embedded_cli option" where
  "embeddedCliNew malloc_ok config =
     (let n = maxBindingCount config + cliInternalBindingCount
      in if \<not> malloc_ok then None
         else Some (initInternalBindings
           \<lparr>write_char = False, cli_output = [], invitation = config_invitation config,
            history = \<lparr>hist_buf = replicate (historyBufferSize config) NUL,
                       hist_size = historyBufferSize config, hist_current = 0, hist_items = 0\<rparr>,
            rx_buffer = \<lparr>fifo_buf = replicate (unat (rxBufferSize config)) NUL, fifo_front = 0,
                         fifo_back = 0, fifo_size = rxBufferSize config\<rparr>,
            cmd_buffer = replicate (cmdBufferSize config) NUL, cmd_size = 0,
            cmd_max_size = cmdBufferSize config, bindings = [], binding_flags = replicate n False,
            max_bindings = n, input_line_length = 0, last_char = NUL, flag_overflow = False,
            flag_init_complete = False, flag_escape_mode = False, flag_direct_print = False,
            flag_autocomplete = enableAutoComplete config, cursor_pos = 0\<rparr>))"

subsection \<open>The functions of \<open>cli.c\<close>\<close>

text \<open>The static \<open>cli\<close> is \<open>None\<close> before \<open>cli_init\<close>.\<close>

definition cli_init :: "bool \<Rightarrow> nat \<Rightarrow> err_code \<times> 'f embedded_cli option" where
  "cli_init malloc_ok cmd_count =
     (case embeddedCliNew malloc_ok (embeddedCliDefaultConfig\<lparr>maxBindingCount := cmd_count\<rparr>) of
        None \<Rightarrow> (ERR_MEM_ALLOC_FAIL, None)
      | Some c \<Rightarrow> (ERR_SUCCESS, Some (c\<lparr>write_char := True\<rparr>)))"

definition cli_putchar ::
    "('f, 'w) app \<Rightarrow> char \<Rightarrow> 'f embedded_cli option \<Rightarrow> 'w \<Rightarrow>
      (err_code \<times> 'f embedded_cli option \<times> 'w) option" where
  "cli_putchar app ch cli w =
     (case cli of
        None \<Rightarrow> Some (ERR_NEED_INIT, None, w)
      | Some c \<Rightarrow> do {
          c1 \<leftarrow> embeddedCliReceiveChar ch c;
          (c2, w1) \<leftarrow> embeddedCliProcess app c1 w;
          Some (ERR_SUCCESS, Some c2, w1)
        })"

definition cli_add_command ::
    "string \<Rightarrow> string \<Rightarrow> 'f \<Rightarrow> 'f embedded_cli option \<Rightarrow> err_code \<times> 'f embedded_cli option" where
  "cli_add_command cmd_token help f cli =
     (case cli of
        None \<Rightarrow> (ERR_NEED_INIT, None)
      | Some c \<Rightarrow>
          let (ok, c1) = embeddedCliAddBinding \<lparr>bind_name = cmd_token, bind_help = Some help,
                             tokenize_args = True, bind_fun = Some (App f)\<rparr> c
          in (if \<not> ok then ERR_OVERFLOW else ERR_SUCCESS, Some c1))"

end
