(* ===== verification/Console_Spec.thy ===== *)
theory Console_Spec
  imports Embedded_Cli
begin

text \<open>
  What the console does, without its buffers: a line with a cursor, a list of the former lines
  and the last character; and the proof that the library, character by character, does
  exactly that, without ever leaving one of its buffers.
\<close>

section \<open>The console as a line with a cursor\<close>

text \<open>The line is \<open>before @ after\<close>, the cursor between the two; the newest former line comes first.\<close>

record console =
  before :: string
  after :: string
  former :: "string list"
  former_pos :: nat
  in_escape :: bool
  previous :: char

abbreviation console_line :: "console \<Rightarrow> string" where
  "console_line s \<equiv> before s @ after s"

text \<open>The longest prefix that two strings share.\<close>

fun lcp :: "string \<Rightarrow> string \<Rightarrow> string" where
  "lcp (a # x) (b # y) = (if a = b then a # lcp x y else [])"
| "lcp _ _ = []"

definition candidates :: "string list \<Rightarrow> string \<Rightarrow> string list" where
  "candidates names line = (if line = [] then [] else filter (\<lambda>n. take (length line) n = line) names)"

text \<open>
  The completion of a line: the name that it begins, and a space, if there is only one;
  otherwise what the names it begins have in common.
\<close>

definition completed :: "string list \<Rightarrow> string \<Rightarrow> string" where
  "completed names line =
     (case candidates names line of
        [] \<Rightarrow> line
      | [n] \<Rightarrow> n @ [space]
      | n # ns \<Rightarrow> foldl lcp n ns)"

definition complete_line :: "string list \<Rightarrow> console \<Rightarrow> console" where
  "complete_line names s =
     (if candidates names (console_line s) = [] then s
      else s\<lparr>before := completed names (console_line s), after := []\<rparr>)"

text \<open>The name and the arguments of a command line.\<close>

definition line_name :: "string \<Rightarrow> string" where
  "line_name line = takeWhile (\<lambda>c. c \<noteq> space) (dropWhile (\<lambda>c. c = space) line)"

definition line_args :: "string \<Rightarrow> string" where
  "line_args line =
     dropWhile (\<lambda>c. c = space) (dropWhile (\<lambda>c. c \<noteq> space) (dropWhile (\<lambda>c. c = space) line))"

text \<open>What a line does to the program: it runs the function bound to its name on its tokens.\<close>

definition run_line ::
    "('f \<Rightarrow> string list \<Rightarrow> 'w \<Rightarrow> string \<times> 'w) \<Rightarrow> 'f cli_binding list \<Rightarrow> string \<Rightarrow> 'w \<Rightarrow> 'w" where
  "run_line run bs line w =
     (case find (\<lambda>b. bind_name b = line_name line) bs of
        None \<Rightarrow> w
      | Some b \<Rightarrow>
          (case bind_fun b of
             Some (App f) \<Rightarrow>
               let ts = tokens (line_args line)
               in if ts \<noteq> [] \<and> (hd ts = ''-h'' \<or> hd ts = ''--help'') then w else snd (run f ts w)
           | _ \<Rightarrow> w))"

definition remember :: "string \<Rightarrow> console \<Rightarrow> console" where
  "remember line s =
     (if line_name line = [] then s
      else s\<lparr>former := line # fitting (128 - (length line + 1)) (remove1 line (former s))\<rparr>)"

definition enter_line ::
    "('f \<Rightarrow> string list \<Rightarrow> 'w \<Rightarrow> string \<times> 'w) \<Rightarrow> 'f cli_binding list \<Rightarrow> console \<Rightarrow> 'w \<Rightarrow> console \<times> 'w" where
  "enter_line run bs s w =
     (let line = console_line (complete_line (map bind_name bs) s)
      in ((remember line s)\<lparr>before := [], after := [], former_pos := 0\<rparr>,
          if line_name line = [] then w else run_line run bs line w))"

definition show_former :: "nat \<Rightarrow> console \<Rightarrow> console" where
  "show_former pos s =
     s\<lparr>before := (if pos = 0 then [] else former s ! (pos - 1)), after := [], former_pos := pos\<rparr>"

definition escaped_key :: "char \<Rightarrow> console \<Rightarrow> console" where
  "escaped_key ch s =
     (if \<not> (64 \<le> (of_char ch :: nat) \<and> (of_char ch :: nat) \<le> 126) then s
      else
        let s = s\<lparr>in_escape := False\<rparr>
        in if ch = CHR ''A'' then
             (if former_pos s < length (former s) then show_former (former_pos s + 1) s else s)
           else if ch = CHR ''B'' then
             (if former_pos s > 0 then show_former (former_pos s - 1) s else s)
           else if ch = CHR ''C'' then
             (case after s of [] \<Rightarrow> s | c # cs \<Rightarrow> s\<lparr>before := before s @ [c], after := cs\<rparr>)
           else if ch = CHR ''D'' then
             (if before s = [] then s
              else s\<lparr>before := butlast (before s), after := last (before s) # after s\<rparr>)
           else s)"

definition insert_char :: "char \<Rightarrow> console \<Rightarrow> console" where
  "insert_char ch s = (if length (console_line s) < 62 then s\<lparr>before := before s @ [ch]\<rparr> else s)"

text \<open>A character that arrives at the console.\<close>

definition console_key ::
    "('f \<Rightarrow> string list \<Rightarrow> 'w \<Rightarrow> string \<times> 'w) \<Rightarrow> 'f cli_binding list \<Rightarrow> char \<Rightarrow> console \<Rightarrow> 'w \<Rightarrow>
      console \<times> 'w" where
  "console_key run bs ch s w =
     (let (s1, w1) =
        (if in_escape s then (escaped_key ch s, w)
         else if previous s = ESC \<and> ch = CHR ''['' then (s\<lparr>in_escape := True\<rparr>, w)
         else if previous s = CR \<and> ch = LF \<or> previous s = LF \<and> ch = CR then (s, w)
         else if ch = CR \<or> ch = LF then enter_line run bs s w
         else if ch = BS \<or> ch = DEL then (s\<lparr>before := butlast (before s)\<rparr>, w)
         else if ch = TAB then (complete_line (map bind_name bs) s, w)
         else if isDisplayableChar ch then (insert_char ch s, w)
         else (s, w))
      in (s1\<lparr>previous := ch\<rparr>, w1))"

section \<open>How the library represents it\<close>

definition line_ok :: "'f embedded_cli \<Rightarrow> string \<Rightarrow> bool" where
  "line_ok c line \<longleftrightarrow>
     cmd_max_size c = 64 \<and> length (cmd_buffer c) = 64 \<and> (\<exists>r. cmd_buffer c = line @ NUL # r) \<and>
     cmd_size c = length line \<and> length line \<le> 62 \<and> NUL \<notin> set line \<and> cursor_pos c \<le> length line"

definition history_ok :: "cli_history \<Rightarrow> string list \<Rightarrow> nat \<Rightarrow> bool" where
  "history_ok h ls pos \<longleftrightarrow>
     history_holds h ls \<and> hist_size h = 128 \<and> hist_current h = pos \<and> pos \<le> length ls \<and>
     (\<forall>l \<in> set ls. length l \<le> 62)"

definition binding_ok :: "'f cli_binding \<Rightarrow> bool" where
  "binding_ok b \<longleftrightarrow> bind_name b \<noteq> [] \<and> NUL \<notin> set (bind_name b) \<and> length (bind_name b) \<le> 61 \<and>
     tokenize_args b"

definition setup_ok :: "'f embedded_cli \<Rightarrow> bool" where
  "setup_ok c \<longleftrightarrow>
     write_char c \<and> \<not> flag_overflow c \<and> list_all binding_ok (bindings c) \<and>
     fifo_wf (rx_buffer c) \<and> fifo_items (rx_buffer c) = [] \<and> 0 < fifo_room (rx_buffer c)"

definition cli_shows :: "'f embedded_cli \<Rightarrow> console \<Rightarrow> bool" where
  "cli_shows c s \<longleftrightarrow>
     line_ok c (console_line s) \<and> cursor_pos c = length (after s) \<and>
     history_ok (history c) (former s) (former_pos s) \<and>
     flag_escape_mode c = in_escape s \<and> last_char c = previous s"

text \<open>Two states that differ in what is on the screen and how it is printed only.\<close>

definition erase :: "'f embedded_cli \<Rightarrow> 'f embedded_cli" where
  "erase c = c\<lparr>cli_output := [], binding_flags := [], input_line_length := 0, flag_direct_print := False\<rparr>"

abbreviation same_but_screen :: "'f embedded_cli \<Rightarrow> 'f embedded_cli \<Rightarrow> bool" where
  "same_but_screen c c' \<equiv> erase c' = erase c"

lemma erase_fields:
  "cmd_max_size (erase c) = cmd_max_size c" "cmd_buffer (erase c) = cmd_buffer c"
  "cmd_size (erase c) = cmd_size c" "cursor_pos (erase c) = cursor_pos c"
  "bindings (erase c) = bindings c" "history (erase c) = history c" "rx_buffer (erase c) = rx_buffer c"
  "last_char (erase c) = last_char c" "flag_escape_mode (erase c) = flag_escape_mode c"
  "invitation (erase c) = invitation c" "write_char (erase c) = write_char c"
  "flag_overflow (erase c) = flag_overflow c"
  by (simp_all add: erase_def)

lemma same_but_screen_fields:
  assumes "same_but_screen c c'"
  shows "cmd_max_size c' = cmd_max_size c" "cmd_buffer c' = cmd_buffer c"
    "cmd_size c' = cmd_size c" "cursor_pos c' = cursor_pos c"
    "bindings c' = bindings c" "history c' = history c" "rx_buffer c' = rx_buffer c"
    "last_char c' = last_char c" "flag_escape_mode c' = flag_escape_mode c"
    "invitation c' = invitation c" "write_char c' = write_char c"
    "flag_overflow c' = flag_overflow c"
  using assms by (metis erase_fields)+

lemma same_but_screen_shows:
  assumes "same_but_screen c c'"
  shows "cli_shows c' s = cli_shows c s" and "line_ok c' line = line_ok c line"
    and "setup_ok c' = setup_ok c"
  by (simp_all add: cli_shows_def line_ok_def setup_ok_def same_but_screen_fields [OF assms])

lemma erase_screen [simp]:
  "erase (writeToOutput str c) = erase c" "erase (moveCursor n d c) = erase c"
  "erase (c\<lparr>input_line_length := n\<rparr>) = erase c" "erase (c\<lparr>binding_flags := fl\<rparr>) = erase c"
  "erase (snd (getAutocompletedCommand prefix c)) = erase c"
  "erase (c\<lparr>flag_direct_print := d\<rparr>) = erase c"
  by (auto simp: erase_def writeToOutput_def moveCursor_def getAutocompletedCommand_def Let_def
      split: prod.splits)

lemma line_ok_string: "line_ok c line \<Longrightarrow> cmd_string c = Some line"
  using string_at_here [of line "[]"] by (auto simp: line_ok_def cmd_string_def)

lemma printLiveAutocompletion_ok:
  assumes "line_ok c line"
  shows "\<exists>c'. printLiveAutocompletion c = Some c' \<and> same_but_screen c c'"
proof (cases "flag_autocomplete c")
  case True
  obtain cmd c1 where g: "getAutocompletedCommand line c = (cmd, c1)" by fastforce
  then have "same_but_screen c c1" using erase_screen(5) [of line c] by simp
  then show ?thesis
    using True g by (simp add: printLiveAutocompletion_def line_ok_string [OF assms] Let_def)
qed (simp add: printLiveAutocompletion_def)

section \<open>Completion\<close>

lemma lcp_unique:
  "k \<le> length a \<Longrightarrow> k \<le> length b \<Longrightarrow> \<forall>j < k. a ! j = b ! j \<Longrightarrow>
     (k < length a \<longrightarrow> k < length b \<longrightarrow> a ! k \<noteq> b ! k) \<Longrightarrow> lcp a b = take k a"
proof (induction a b arbitrary: k rule: lcp.induct)
  case (1 a x b y)
  show ?case
  proof (cases k)
    case 0
    then show ?thesis using 1 by auto
  next
    case (Suc m)
    then have "a = b" "\<forall>j < m. x ! j = y ! j" using "1.prems"(3) by auto
    then show ?thesis using 1 Suc by auto
  qed
qed auto

lemma first_difference:
  fixes x y :: string
  assumes "k \<le> n"
  defines "j \<equiv> (case find (\<lambda>j. x ! j \<noteq> y ! j) [k ..< n] of Some j \<Rightarrow> j | None \<Rightarrow> n)"
  shows "k \<le> j" and "j \<le> n" and "\<forall>i. k \<le> i \<and> i < j \<longrightarrow> x ! i = y ! i" and "j < n \<longrightarrow> x ! j \<noteq> y ! j"
proof -
  have "k \<le> j \<and> j \<le> n \<and> (\<forall>i. k \<le> i \<and> i < j \<longrightarrow> x ! i = y ! i) \<and> (j < n \<longrightarrow> x ! j \<noteq> y ! j)"
  proof (cases "find (\<lambda>j. x ! j \<noteq> y ! j) [k ..< n]")
    case None
    then have "j = n" by (simp add: j_def)
    then show ?thesis using assms(1) None by (auto simp: find_None_iff)
  next
    case (Some m)
    then have "j = m" by (simp add: j_def)
    moreover obtain i where "i < n - k" "m = k + i" "x ! m \<noteq> y ! m" "\<forall>l < i. x ! (k + l) = y ! (k + l)"
      using Some by (auto simp: find_Some_iff)
    moreover have "\<exists>l < i. u = k + l" if "k \<le> u" "u < k + i" for u
      using that by (intro exI [of _ "u - k"]) auto
    ultimately show ?thesis by auto
  qed
  then show "k \<le> j" and "j \<le> n" and "\<forall>i. k \<le> i \<and> i < j \<longrightarrow> x ! i = y ! i" and "j < n \<longrightarrow> x ! j \<noteq> y ! j"
    by blast+
qed

definition collects :: "string \<Rightarrow> string list \<Rightarrow> autocompleted \<Rightarrow> bool" where
  "collects line cs cmd \<longleftrightarrow>
     candidate_count cmd = length cs \<and> (\<forall>n \<in> set cs. take (length line) n = line) \<and>
     (cs \<noteq> [] \<longrightarrow> first_candidate cmd = Some (hd cs) \<and> length line \<le> autocompleted_len cmd \<and>
        autocompleted_len cmd \<le> length (hd cs) \<and>
        take (autocompleted_len cmd) (hd cs) = foldl lcp (hd cs) (tl cs))"

lemma autocomplete_step_collects:
  assumes "collects line cs cmd" and "take (length line) name = line"
  shows "collects line (cs @ [name]) (snd (autocomplete_step (length line) line name cmd))"
proof -
  have len: "length line \<le> length name" using assms(2) by (metis length_take min.cobounded1)
  show ?thesis
  proof (cases "cs = []")
    case True
    then show ?thesis
      using assms len by (simp add: autocomplete_step_def collects_def Let_def)
  next
    case False
    let ?al = "autocompleted_len cmd" and ?x = "hd cs"
    define n where "n = (if length name < ?al then length name else ?al)"
    define j where "j = (case find (\<lambda>j. ?x ! j \<noteq> name ! j) [length line ..< n] of Some j \<Rightarrow> j | None \<Rightarrow> n)"
    have c: "first_candidate cmd = Some ?x" "length line \<le> ?al" "?al \<le> length ?x"
        "take ?al ?x = foldl lcp ?x (tl cs)" "candidate_count cmd = length cs" "take (length line) ?x = line"
      using assms(1) False by (auto simp: collects_def)
    have n: "length line \<le> n" "n \<le> ?al" "n \<le> length name" "n = ?al \<or> n = length name"
      using c(2) len by (auto simp: n_def)
    note d = first_difference [OF n(1), where x = ?x and y = name, folded j_def]
    have same: "?x ! i = name ! i" if "i < j" for i
    proof (cases "i < length line")
      case True
      then show ?thesis using c(6) assms(2) by (metis nth_take)
    next
      case False
      then show ?thesis using d(3) that by simp
    qed
    have "lcp (take ?al ?x) name = take j (take ?al ?x)"
      using d n c(3) same by (intro lcp_unique) auto
    then have "take j ?x = foldl lcp ?x (tl cs @ [name])"
      using d(2) n(2) by (simp add: c(4) [symmetric] min_absorb1)
    moreover have "snd (autocomplete_step (length line) line name cmd) =
        \<lparr>first_candidate = Some ?x, autocompleted_len = j, candidate_count = length cs + 1\<rparr>"
      using False c(1,5) len assms(2)
      unfolding j_def n_def by (auto simp: autocomplete_step_def Let_def candidate_text_def)
    ultimately show ?thesis
      using assms False d(1,2) n(2) c(3) by (auto simp: collects_def)
  qed
qed

lemma autocomplete_loop_collects:
  "collects line cs cmd \<Longrightarrow>
     collects line (cs @ filter (\<lambda>n. take (length line) n = line) names)
       (snd (autocomplete_loop (length line) line names cmd))"
proof (induction names arbitrary: cs cmd)
  case (Cons name names)
  have skip: "autocomplete_step (length line) line name cmd = (False, cmd)" if "take (length line) name \<noteq> line"
    using that by (auto simp: autocomplete_step_def)
  obtain f cmd1 where step: "autocomplete_step (length line) line name cmd = (f, cmd1)" by fastforce
  show ?case
  proof (cases "take (length line) name = line")
    case True
    then have "collects line (cs @ [name]) cmd1"
      using autocomplete_step_collects [OF Cons.prems True] step by simp
    from Cons.IH [OF this] show ?thesis using True step by (simp add: case_prod_unfold Let_def)
  next
    case False
    then show ?thesis using Cons step skip by (simp add: case_prod_unfold Let_def)
  qed
qed simp

lemma getAutocompletedCommand_collects:
  assumes "cmd_size c = length line"
  shows "collects line (candidates (map bind_name (bindings c)) line) (fst (getAutocompletedCommand line c))"
proof -
  let ?cmd = "\<lparr>first_candidate = None, autocompleted_len = 0, candidate_count = 0\<rparr>"
  have start: "collects line [] ?cmd" by (simp add: collects_def)
  show ?thesis
    using autocomplete_loop_collects [OF start, of "map bind_name (bindings c)"] start assms
    by (auto simp: getAutocompletedCommand_def candidates_def Let_def split: prod.splits)
qed

lemma store_head: "length t \<le> length b \<Longrightarrow> store_text 0 t b = Some (t @ drop (length t) b)"
  by (simp add: store_text_def)

lemma store_next:
  "length t < length b \<Longrightarrow> store_text (length t) [x] (t @ drop (length t) b) = Some ((t @ [x]) @ drop (length (t @ [x])) b)"
  by (simp add: store_text_def)

lemma string_in: "i \<le> length t \<Longrightarrow> \<exists>u. string_at i (t @ NUL # r) = Some u"
  by (simp add: string_at_def)

lemma candidate_names:
  "n \<in> set (candidates names line) \<Longrightarrow> n \<in> set names \<and> take (length line) n = line \<and> line \<noteq> []"
  by (auto simp: candidates_def split: if_splits)

lemma candidate_binding:
  assumes "setup_ok c" and "n \<in> set (candidates (map bind_name (bindings c)) line)"
  shows "n \<noteq> []" and "NUL \<notin> set n" and "length n \<le> 61"
  using candidate_names [OF assms(2)] assms(1) by (auto simp: setup_ok_def list_all_iff binding_ok_def)

lemma completed_more:
  "cs \<noteq> [] \<Longrightarrow> candidates names line = cs \<Longrightarrow>
     completed names line = (if length cs = 1 then hd cs @ [space] else foldl lcp (hd cs) (tl cs))"
  by (cases cs; cases "tl cs") (auto simp: completed_def)

lemma shows_line: "cli_shows c s \<Longrightarrow> line_ok c (console_line s)"
  by (simp add: cli_shows_def)

lemma getAutocompletedCommand_flags:
  "\<exists>cmd fl. getAutocompletedCommand prefix c = (cmd, c\<lparr>binding_flags := fl\<rparr>)"
proof -
  have "\<exists>fl. c = c\<lparr>binding_flags := fl\<rparr>" by (rule exI [of _ "binding_flags c"]) simp
  then show ?thesis by (auto simp: getAutocompletedCommand_def Let_def split: prod.splits)
qed

text \<open>The completed line, when there are candidates for it.\<close>

lemma completed_facts:
  fixes c :: "'f embedded_cli"
  assumes "setup_ok c" and "collects line cs cmd" and "cs \<noteq> []" and "cs = candidates (map bind_name (bindings c)) line"
  defines "n \<equiv> hd cs" and "al \<equiv> autocompleted_len cmd" and "t \<equiv> completed (map bind_name (bindings c)) line"
  shows "n \<noteq> []" "NUL \<notin> set n" "length n \<le> 61" "take (length line) n = line"
    and "candidate_count cmd = length cs" "candidate_text cmd = n" "length line \<le> al" "al \<le> length n"
    and "t = (if length cs = 1 then take al n @ [space] else take al n)"
    and "length t = (if length cs = 1 then al + 1 else al)" "length t \<le> 62" "NUL \<notin> set t" "length line \<le> length t"
proof -
  show n: "n \<noteq> []" "NUL \<notin> set n" "length n \<le> 61" "take (length line) n = line"
    using candidate_binding [OF assms(1), of n line] candidate_names [of n "map bind_name (bindings c)" line] assms(3,4)
    by (auto simp: n_def)
  show cmd: "candidate_count cmd = length cs" "candidate_text cmd = n" "length line \<le> al" "al \<le> length n"
    using assms(2,3) by (auto simp: collects_def candidate_text_def n_def al_def)
  have pre: "take al n = foldl lcp n (tl cs)"
    using assms(2,3) by (auto simp: collects_def n_def al_def)
  show t: "t = (if length cs = 1 then take al n @ [space] else take al n)"
  proof (cases "length cs = 1")
    case True
    then have "take al n = n" using pre by (cases cs) auto
    then show ?thesis using True completed_more [OF assms(3) assms(4) [symmetric]] by (simp add: t_def n_def)
  qed (use completed_more [OF assms(3) assms(4) [symmetric]] pre in \<open>simp add: t_def n_def\<close>)
  show "length t = (if length cs = 1 then al + 1 else al)" "length t \<le> 62" "NUL \<notin> set t" "length line \<le> length t"
    using cmd(3,4) n(2,3) by (auto simp: t dest: in_set_takeD)
qed

text \<open>The code writes it in two parts and ends it with a NUL.\<close>

lemma completed_stored:
  assumes "length buf = 64" and "length n \<le> 61" and "al \<le> length n"
    and "t = (if one then take al n @ [space] else take al n)" and "length t \<le> 62"
  shows "do { b1 \<leftarrow> store_text 0 (take al n) buf;
              b2 \<leftarrow> (if one then store_text al [space] b1 else Some b1);
              store_text (if one then al + 1 else al) [NUL] b2 } = Some (t @ NUL # drop (length t + 1) buf)"
  using store_next [of t buf NUL] store_next [of "take al n" buf space]
    store_head [of "take al n" buf] assms
  by (cases one) (simp_all add: min_absorb2)

lemma onAutocompleteRequest_ok:
  assumes "cli_shows c s" and "setup_ok c"
  shows "\<exists>c'. onAutocompleteRequest c = Some c' \<and> setup_ok c' \<and> bindings c' = bindings c \<and>
     cli_shows c' (complete_line (map bind_name (bindings c)) s)"
proof -
  let ?line = "console_line s"
  define cs where "cs = candidates (map bind_name (bindings c)) ?line"
  obtain cmd fl where g: "getAutocompletedCommand ?line c = (cmd, c\<lparr>binding_flags := fl\<rparr>)"
    using getAutocompletedCommand_flags by blast
  note line = shows_line [OF assms(1)]
  have buf: "cmd_size c = length ?line" "length (cmd_buffer c) = 64" "length ?line \<le> 62"
      "cursor_pos c \<le> length ?line"
    using line by (auto simp: line_ok_def)
  have coll: "collects ?line cs cmd"
    using getAutocompletedCommand_collects [OF buf(1)] g by (simp add: cs_def)
  show ?thesis
  proof (cases "cs = []")
    case True
    then have "candidate_count cmd = 0" using coll by (simp add: collects_def)
    then show ?thesis
      using True assms g same_but_screen_shows [of c "c\<lparr>binding_flags := fl\<rparr>"]
      by (simp add: onAutocompleteRequest_def line_ok_string [OF line] complete_line_def cs_def)
  next
    case False
    let ?n = "hd cs" and ?al = "autocompleted_len cmd"
    let ?t = "completed (map bind_name (bindings c)) ?line"
    note f = completed_facts [OF assms(2) coll False cs_def]
    note n = f(1-4) and cmd = f(5-8) and t = f(9) and len = f(10-13)
    have show_t: "complete_line (map bind_name (bindings c)) s = s\<lparr>before := ?t, after := []\<rparr>"
      using False by (simp add: complete_line_def cs_def)
    show ?thesis
    proof (cases "length cs = 1 \<or> ?al > cmd_size c")
      case True
      let ?b = "?t @ NUL # drop (length ?t + 1) (cmd_buffer c)"
      have b: "do { b1 \<leftarrow> store_text 0 (take ?al ?n) (cmd_buffer c);
                b2 \<leftarrow> (if length cs = 1 then store_text ?al [space] b1 else Some b1);
                store_text (if length cs = 1 then ?al + 1 else ?al) [NUL] b2 } = Some ?b"
        by (rule completed_stored [OF buf(2) n(3) cmd(4) t len(2)])
      have "cmd_size c - cursor_pos c \<le> length ?t" using buf(1) len(4) by simp
      from string_in [OF this] obtain u where u: "string_at (cmd_size c - cursor_pos c) ?b = Some u"
        by blast
      let ?c = "(writeToOutput u (c\<lparr>binding_flags := fl, cmd_buffer := ?b\<rparr>))
                  \<lparr>cmd_size := length ?t, input_line_length := length ?t, cursor_pos := 0\<rparr>"
      have "cursor_pos c \<le> cmd_size c" using buf(1,4) by simp
      then have "onAutocompleteRequest c = Some ?c"
        using True g b u cmd(1,2) len(1) False
        by (auto simp: onAutocompleteRequest_def line_ok_string [OF line] Let_def bind_eq_Some_conv)
      moreover have "cli_shows ?c (s\<lparr>before := ?t, after := []\<rparr>)"
        using assms(1) line len(2,3) buf(2) by (auto simp: cli_shows_def line_ok_def writeToOutput_def)
      moreover have "setup_ok ?c" using assms(2) by (simp add: setup_ok_def writeToOutput_def)
      ultimately show ?thesis unfolding show_t by (simp add: writeToOutput_def)
    next
      case more: False
      then have al: "?al = length ?line" "length cs \<noteq> 1" using cmd(3) buf(1) by simp_all
      then have t': "?t = ?line" using t n(4) by simp
      let ?c2 = "clearCurrentLine (c\<lparr>binding_flags := fl\<rparr>)"
      have c2: "cli_shows ?c2 (s\<lparr>before := ?t, after := []\<rparr>)" "setup_ok ?c2" "bindings ?c2 = bindings c"
        using assms line
        by (auto simp: cli_shows_def line_ok_def setup_ok_def clearCurrentLine_def writeToOutput_def Let_def t')
      then have "cmd_string ?c2 = Some ?line" using line_ok_string [OF shows_line [OF c2(1)]] by (simp add: t')
      then obtain str n where "onAutocompleteRequest c = Some ((writeToOutput str ?c2)\<lparr>input_line_length := n\<rparr>)"
        using more g cmd(1) False
        by (auto simp: onAutocompleteRequest_def line_ok_string [OF line] Let_def)
      then show ?thesis
        unfolding show_t using c2 same_but_screen_shows [of ?c2 "(writeToOutput str ?c2)\<lparr>input_line_length := n\<rparr>"]
          same_but_screen_fields(5) [of ?c2 "(writeToOutput str ?c2)\<lparr>input_line_length := n\<rparr>"]
        by simp
    qed
  qed
qed

section \<open>Editing\<close>

lemma shows_buffer:
  assumes "cli_shows c s"
  obtains r where "cmd_buffer c = before s @ after s @ NUL # r" and "length (cmd_buffer c) = 64"
    and "cmd_size c = length (console_line s)" and "cmd_max_size c = 64"
    and "cursor_pos c = length (after s)" and "NUL \<notin> set (console_line s)"
    and "length (console_line s) \<le> 62"
  using assms by (auto simp: cli_shows_def line_ok_def)

lemma insert_pos_shows: "cli_shows c s \<Longrightarrow> insert_pos c = Some (length (before s))"
  by (auto simp: insert_pos_def line_ok_string [OF shows_line] cli_shows_def)

lemma onCharInput_ok:
  assumes "cli_shows c s" and "setup_ok c" and "ch \<noteq> NUL"
  shows "\<exists>c'. onCharInput ch c = Some c' \<and> setup_ok c' \<and> bindings c' = bindings c \<and>
     cli_shows c' (insert_char ch s)"
proof -
  obtain r where c: "cmd_buffer c = before s @ after s @ NUL # r" "length (cmd_buffer c) = 64"
      "cmd_size c = length (console_line s)" "cmd_max_size c = 64" "cursor_pos c = length (after s)"
      "NUL \<notin> set (console_line s)" "length (console_line s) \<le> 62"
    using shows_buffer [OF assms(1)] .
  show ?thesis
  proof (cases "length (console_line s) < 62")
    case False
    then show ?thesis using assms c by (auto simp: onCharInput_def insert_char_def)
  next
    case True
    let ?i = "length (before s)" and ?n = "cursor_pos c + 1"
    let ?b = "before s @ ch # after s @ NUL # tl r"
    have r: "r \<noteq> []" using c(1,2) True by auto
    have "memmove (?i + 1) ?i ?n (cmd_buffer c) =
        Some (take (?i + 1) (cmd_buffer c) @ take ?n (drop ?i (cmd_buffer c)) @ drop (?i + 1 + ?n) (cmd_buffer c))"
      using c True by (intro memmove_at) auto
    moreover have "take ?n (drop ?i (cmd_buffer c)) = after s @ [NUL]" using c(1,5) by simp
    moreover have "drop (?i + 1 + ?n) (cmd_buffer c) = tl r" using c(1,5) by (simp add: drop_Suc)
    moreover have "length (take (?i + 1) (cmd_buffer c)) = ?i + 1" "take ?i (take (?i + 1) (cmd_buffer c)) = before s"
      using c(1) by simp_all
    ultimately obtain b1 where b1: "memmove (?i + 1) ?i ?n (cmd_buffer c) = Some b1"
        "store_text ?i [ch] b1 = Some ?b"
      by (auto simp: store_text_def)
    obtain str where run: "onCharInput ch c =
        Some (writeToOutput str (c\<lparr>cmd_size := cmd_size c + 1, input_line_length := input_line_length c + 1,
                                   cmd_buffer := ?b\<rparr>))"
      using b1 True c(3,4) insert_pos_shows [OF assms(1)]
      by (cases "cursor_pos c > 0") (auto simp: onCharInput_def Let_def writeToOutput_def)
    have "length ?b = 64" using c(1,2) r by (cases r) auto
    then show ?thesis
      unfolding run using assms True c
      by (auto simp: cli_shows_def line_ok_def setup_ok_def insert_char_def writeToOutput_def)
  qed
qed

lemma removeChar_ok:
  assumes "cli_shows c s" and "setup_ok c" and "before s \<noteq> []"
  shows "\<exists>c'. removeChar c = Some c' \<and> setup_ok c' \<and> bindings c' = bindings c \<and>
     cli_shows c' (s\<lparr>before := butlast (before s)\<rparr>)"
proof -
  obtain r where c: "cmd_buffer c = before s @ after s @ NUL # r" "length (cmd_buffer c) = 64"
      "cmd_size c = length (console_line s)" "cmd_max_size c = 64" "cursor_pos c = length (after s)"
      "NUL \<notin> set (console_line s)" "length (console_line s) \<le> 62"
    using shows_buffer [OF assms(1)] .
  let ?i = "length (before s)" and ?n = "cursor_pos c + 1"
  obtain bs x where bs: "before s = bs @ [x]" using assms(3) by (metis append_butlast_last_id)
  let ?b = "bs @ after s @ NUL # (NUL # r)"
  let ?c1 = "writeToOutput (escSeqCursorLeft @ escSeqDeleteChar) c"
  have sh1: "cli_shows ?c1 s" using assms(1) same_but_screen_shows(1) [of c ?c1] by simp
  have "memmove (?i - 1) ?i ?n (cmd_buffer c) =
      Some (take (?i - 1) (cmd_buffer c) @ take ?n (drop ?i (cmd_buffer c)) @ drop (?i - 1 + ?n) (cmd_buffer c))"
    using c by (intro memmove_at) auto
  moreover have "take ?n (drop ?i (cmd_buffer c)) = after s @ [NUL]" using c(1,5) by simp
  moreover have "drop (?i - 1 + ?n) (cmd_buffer c) = NUL # r" using c(1,5) by (simp add: bs)
  moreover have "take (?i - 1) (cmd_buffer c) = bs" using c(1) by (simp add: bs)
  ultimately have "memmove (?i - 1) ?i ?n (cmd_buffer c) = Some ?b" by simp
  then have run: "removeChar c = Some (?c1\<lparr>cmd_buffer := ?b, cmd_size := cmd_size c - 1\<rparr>)"
    using insert_pos_shows [OF sh1] bs by (simp add: removeChar_def writeToOutput_def)
  have "length ?b = 64" using c(1,2) bs by simp
  then show ?thesis
    unfolding run using assms c bs
    by (auto simp: cli_shows_def line_ok_def setup_ok_def writeToOutput_def)
qed

lemma clearCurrentLine_fields:
  "history (clearCurrentLine c) = history c" "cmd_buffer (clearCurrentLine c) = cmd_buffer c"
  "bindings (clearCurrentLine c) = bindings c" "setup_ok (clearCurrentLine c) = setup_ok c"
  "cmd_max_size (clearCurrentLine c) = cmd_max_size c" "last_char (clearCurrentLine c) = last_char c"
  "flag_escape_mode (clearCurrentLine c) = flag_escape_mode c"
  by (simp_all add: clearCurrentLine_def writeToOutput_def setup_ok_def Let_def)

lemma navigateHistory_ok:
  assumes "cli_shows c s" and "setup_ok c"
  shows "\<exists>c'. navigateHistory up c = Some c' \<and> setup_ok c' \<and> bindings c' = bindings c \<and>
     cli_shows c' (if up then if former_pos s < length (former s) then show_former (former_pos s + 1) s else s
                   else if former_pos s > 0 then show_former (former_pos s - 1) s else s)"
proof -
  have h: "history_holds (history c) (former s)" "hist_current (history c) = former_pos s"
      "former_pos s \<le> length (former s)" "hist_items (history c) = length (former s)"
      "entries (former s)" "\<forall>l \<in> set (former s). length l \<le> 62" "hist_size (history c) = 128"
    using assms(1) by (auto simp: cli_shows_def history_ok_def history_holds_def)
  define pos where "pos = (if up then former_pos s + 1 else former_pos s - 1)"
  define moves where "moves \<longleftrightarrow> (if up then former_pos s < length (former s) else former_pos s > 0)"
  show ?thesis
  proof (cases moves)
    case False
    then show ?thesis using assms h by (auto simp: navigateHistory_def moves_def)
  next
    case True
    let ?h = "(history c)\<lparr>hist_current := pos\<rparr>"
    have pos: "pos \<le> length (former s)" using True h(3) by (auto simp: pos_def moves_def split: if_splits)
    define item where "item = (if pos = 0 then [] else former s ! (pos - 1))"
    have item: "NUL \<notin> set item" "length item \<le> 62"
      using h(5,6) pos by (auto simp: item_def entries_def)
    have h': "history_holds ?h (former s)" using h(1) by (simp add: history_holds_def)
    have get: "do { found \<leftarrow> historyGet ?h pos;
                    case found of None \<Rightarrow> Some [] | Some i \<Rightarrow> string_at i (hist_buf (history c)) } = Some item"
    proof (cases "pos = 0")
      case True
      then show ?thesis by (simp add: historyGet_def item_def)
    next
      case False
      obtain r where "hist_buf (history c) = flat (former s) @ r" using h(1) by (auto simp: history_holds_def)
      then show ?thesis
        using string_at_flat [OF h(5), of "pos - 1" r] pos False
        by (simp add: historyGet_holds [OF h'] item_def)
    qed
    obtain r where c: "length (cmd_buffer c) = 64" "cmd_max_size c = 64"
      using shows_buffer [OF assms(1)] by metis
    let ?b = "item @ NUL # drop (length item + 1) (cmd_buffer c)"
    have b: "store_text 0 (item @ [NUL]) (cmd_buffer c) = Some ?b"
      using item(2) c(1) by (simp add: store_text_def)
    let ?c1 = "writeToOutput (invitation c) (clearCurrentLine c)"
    let ?c2 = "?c1\<lparr>history := ?h, cmd_buffer := ?b, cmd_size := length item\<rparr>"
    let ?c3 = "(writeToOutput item ?c2)\<lparr>input_line_length := length item, cursor_pos := 0\<rparr>"
    have sh: "cli_shows ?c3 (show_former pos s)"
      using assms(1) c item pos h' h(6,7)
      by (simp add: cli_shows_def line_ok_def history_ok_def show_former_def writeToOutput_def
          clearCurrentLine_fields item_def [symmetric])
    have ok3: "setup_ok ?c3" "bindings ?c3 = bindings c"
      using assms(2) by (auto simp: setup_ok_def writeToOutput_def clearCurrentLine_def Let_def)
    have "cmd_string ?c2 = Some item"
      using string_at_here [OF item(1), of "[]"] by (simp add: cmd_string_def)
    moreover obtain found where "historyGet ?h pos = Some found"
        "(case found of None \<Rightarrow> Some [] | Some i \<Rightarrow> string_at i (hist_buf (history c))) = Some item"
      using get by (auto simp: bind_eq_Some_conv)
    moreover have cur: "(if up then hist_current (history c) + 1 else hist_current (history c) - 1) = pos"
      by (simp add: pos_def h(2))
    moreover have guard: "\<not> (hist_items (history c) = 0 \<or> up \<and> hist_current (history c) = hist_items (history c) \<or>
        \<not> up \<and> hist_current (history c) = 0)"
      using True h(2-4) by (auto simp: moves_def split: if_splits)
    ultimately have "navigateHistory up c = printLiveAutocompletion ?c3"
      using b unfolding navigateHistory_def if_not_P [OF guard] Let_def cur
      by (simp add: writeToOutput_def clearCurrentLine_fields cong: option.case_cong)
    moreover obtain c' where "printLiveAutocompletion ?c3 = Some c'" "same_but_screen ?c3 c'"
      using printLiveAutocompletion_ok [OF shows_line [OF sh]] by blast
    ultimately show ?thesis
      using sh ok3 True same_but_screen_shows [of ?c3 c'] same_but_screen_fields(5) [of ?c3 c']
      by (auto simp: moves_def pos_def split: if_splits)
  qed
qed

lemma onEscapedInput_ok:
  assumes "cli_shows c s" and "setup_ok c" and "in_escape s"
  shows "\<exists>c'. onEscapedInput ch c = Some c' \<and> setup_ok c' \<and> bindings c' = bindings c \<and>
     cli_shows c' (escaped_key ch s)"
proof (cases "64 \<le> (of_char ch :: nat) \<and> (of_char ch :: nat) \<le> 126")
  case False
  then show ?thesis using assms by (auto simp: onEscapedInput_def escaped_key_def)
next
  case True
  let ?c1 = "c\<lparr>flag_escape_mode := False\<rparr>" and ?s1 = "s\<lparr>in_escape := False\<rparr>"
  have c1: "cli_shows ?c1 ?s1" "setup_ok ?c1"
    using assms by (auto simp: cli_shows_def line_ok_def setup_ok_def)
  have cur: "cursor_pos c = length (after s)" "cmd_string ?c1 = Some (console_line s)"
    using assms(1) line_ok_string [OF shows_line [OF c1(1)]] by (auto simp: cli_shows_def)
  consider (up) "ch = CHR ''A''" | (down) "ch = CHR ''B''" | (right) "ch = CHR ''C''" | (left) "ch = CHR ''D''"
    | (other) "ch \<notin> {CHR ''A'', CHR ''B'', CHR ''C'', CHR ''D''}" by blast
  then show ?thesis
  proof cases
    case up
    then show ?thesis
      using True navigateHistory_ok [OF c1, of True] by (auto simp: onEscapedInput_def escaped_key_def Let_def)
  next
    case down
    then show ?thesis
      using True navigateHistory_ok [OF c1, of False] by (auto simp: onEscapedInput_def escaped_key_def Let_def)
  next
    case right
    then show ?thesis
      using True assms cur
      by (cases "after s") (auto simp: onEscapedInput_def escaped_key_def Let_def cli_shows_def line_ok_def
          setup_ok_def writeToOutput_def)
  next
    case left
    show ?thesis
    proof (cases "before s" rule: rev_cases)
      case Nil
      then show ?thesis
        using True left c1 cur by (auto simp: onEscapedInput_def escaped_key_def Let_def)
    next
      case (snoc bs x)
      then show ?thesis
        using True left assms cur
        by (auto simp: onEscapedInput_def escaped_key_def Let_def cli_shows_def line_ok_def
            setup_ok_def writeToOutput_def)
    qed
  next
    case other
    then show ?thesis
      using True c1 by (auto simp: onEscapedInput_def escaped_key_def Let_def)
  qed
qed

section \<open>Running a line\<close>

text \<open>The pieces of a line: spaces, the name, spaces, the arguments.\<close>

lemma takeWhile_spaces: "takeWhile (\<lambda>c. c = x) xs = replicate (length (takeWhile (\<lambda>c. c = x) xs)) x"
  by (induction xs) auto

lemma line_parts:
  obtains a b where "line = replicate a space @ line_name line @ replicate b space @ line_args line"
    and "space \<notin> set (line_name line)" and "line_args line = [] \<or> hd (line_args line) \<noteq> space \<and> 0 < b"
    and "line_name line = [] \<Longrightarrow> b = 0 \<and> line_args line = []"
proof -
  let ?l1 = "dropWhile (\<lambda>c. c = space) line"
  let ?l2 = "dropWhile (\<lambda>c. c \<noteq> space) ?l1"
  have 1: "line = replicate (length (takeWhile (\<lambda>c. c = space) line)) space @ ?l1"
    using takeWhile_spaces [of space line] by (metis takeWhile_dropWhile_id)
  have 2: "?l1 = line_name line @ ?l2"
    by (simp add: line_name_def)
  have 3: "?l2 = replicate (length (takeWhile (\<lambda>c. c = space) ?l2)) space @ line_args line"
    using takeWhile_spaces [of space ?l2] unfolding line_args_def by (metis takeWhile_dropWhile_id)
  have h1: "hd (line_args line) \<noteq> space" if "line_args line \<noteq> []"
    using that hd_dropWhile [of "\<lambda>c. c = space" ?l2] by (simp add: line_args_def)
  have h2: "takeWhile (\<lambda>c. c = space) ?l2 \<noteq> []" if "line_args line \<noteq> []"
  proof -
    have "?l2 \<noteq> []" using that by (metis line_args_def dropWhile.simps(1))
    moreover from this have "\<not> hd ?l2 \<noteq> space" by (rule hd_dropWhile)
    ultimately show ?thesis by (metis takeWhile_eq_Nil_iff)
  qed
  have h3: "?l1 = []" if "line_name line = []"
    using that hd_dropWhile [of "\<lambda>c. c = space" line] by (metis line_name_def takeWhile_eq_Nil_iff)
  have facts: "space \<notin> set (line_name line)"
      "line_args line = [] \<or> hd (line_args line) \<noteq> space \<and> 0 < length (takeWhile (\<lambda>c. c = space) ?l2)"
    using h1 h2 by (auto simp only: line_name_def length_greater_0_conv dest: set_takeWhileD)
  have none: "length (takeWhile (\<lambda>c. c = space) ?l2) = 0 \<and> line_args line = []" if "line_name line = []"
    unfolding line_args_def h3 [OF that] by simp
  have "line = replicate (length (takeWhile (\<lambda>c. c = space) line)) space @ line_name line @
      replicate (length (takeWhile (\<lambda>c. c = space) ?l2)) space @ line_args line"
    using 1 2 3 by simp
  from that [OF this facts none] show thesis .
qed

lemma only_spaces: "list_all (\<lambda>c. c = space) line \<longleftrightarrow> line_name line = []"
  unfolding line_name_def
  by (metis dropWhile_eq_Nil_conv hd_dropWhile list.pred_set takeWhile_eq_Nil_iff)

text \<open>The loop over one piece of the line.\<close>

lemma split_spaces:
  "fold split_step [length pre ..< length pre + n] (pre @ replicate n space @ post, nm, None, fin) =
     (pre @ replicate n NUL @ post, nm, None, fin \<or> 0 < n \<and> nm \<noteq> None)"
proof (induction n arbitrary: pre fin)
  case (Suc n)
  have range: "[length pre ..< length pre + Suc n] = length pre # [length (pre @ [NUL]) ..< length (pre @ [NUL]) + n]"
    by (simp add: upt_conv_Cons del: upt_Suc)
  have step: "split_step (length pre) (pre @ replicate (Suc n) space @ post, nm, None, fin) =
      ((pre @ [NUL]) @ replicate n space @ post, nm, None, fin \<or> nm \<noteq> None)"
    by (simp add: split_step_def)
  show ?case
    unfolding range fold_simps(2) step using Suc.IH [of "pre @ [NUL]" "fin \<or> nm \<noteq> None"] by auto
qed simp

lemma split_idle:
  "ar \<noteq> None \<and> fin \<or> ar = None \<and> \<not> fin \<and> space \<notin> set seg \<Longrightarrow>
     fold split_step [length pre ..< length pre + length seg] (pre @ seg @ post, Some n, ar, fin) =
     (pre @ seg @ post, Some n, ar, fin)"
proof (induction seg arbitrary: pre)
  case (Cons c seg)
  have range: "[length pre ..< length pre + length (c # seg)] =
      length pre # [length (pre @ [c]) ..< length (pre @ [c]) + length seg]"
    by (simp add: upt_conv_Cons del: upt_Suc)
  have step: "split_step (length pre) (pre @ (c # seg) @ post, Some n, ar, fin) =
      ((pre @ [c]) @ seg @ post, Some n, ar, fin)"
    using Cons.prems by (auto simp: split_step_def)
  show ?case
    unfolding range fold_simps(2) step using Cons.IH [of "pre @ [c]"] Cons.prems by auto
qed simp

lemma split_first:
  "c \<noteq> space \<Longrightarrow> split_step (length pre) (pre @ c # post, nm, ar, fin) =
     (pre @ c # post, if nm = None then Some (length pre) else nm,
      if nm \<noteq> None \<and> ar = None \<and> fin then Some (length pre) else ar, fin)"
  by (auto simp: split_step_def)

lemma split_word:
  assumes "seg \<noteq> []" and "hd seg \<noteq> space" and "nm = None \<and> \<not> fin \<and> space \<notin> set seg \<or> nm \<noteq> None \<and> fin"
  shows "fold split_step [length pre ..< length pre + length seg] (pre @ seg @ post, nm, None, fin) =
     (pre @ seg @ post, if nm = None then Some (length pre) else nm,
      if nm = None then None else Some (length pre), fin)"
proof -
  obtain c cs where seg: "seg = c # cs" "c \<noteq> space" using assms(1,2) by (cases seg) auto
  have range: "[length pre ..< length pre + length seg] =
      length pre # [length (pre @ [c]) ..< length (pre @ [c]) + length cs]"
    by (simp add: seg(1) upt_conv_Cons del: upt_Suc)
  have step: "split_step (length pre) (pre @ seg @ post, nm, None, fin) =
      ((pre @ [c]) @ cs @ post, if nm = None then Some (length pre) else nm,
       if nm = None then None else Some (length pre), fin)"
    using split_first [OF seg(2), of pre "cs @ post" nm None fin] assms(3) by (auto simp: seg(1))
  show ?thesis
  proof (cases nm)
    case None
    then show ?thesis
      unfolding range fold_simps(2) step
      using split_idle [of None fin cs "pre @ [c]" post "length pre"] assms(3) by (auto simp: seg(1))
  next
    case (Some n)
    then show ?thesis
      unfolding range fold_simps(2) step
      using split_idle [of "Some (length pre)" fin cs "pre @ [c]" post n] assms(3) by (auto simp: seg(1))
  qed
qed

lemma split_line:
  assumes "line_name line \<noteq> []"
  obtains a b where "fold split_step [0 ..< length line] (line @ r, None, None, False) =
      (replicate a NUL @ line_name line @ replicate b NUL @ line_args line @ r, Some a,
       if line_args line = [] then None else Some (a + length (line_name line) + b), 0 < b)"
    and "line_args line = [] \<or> 0 < b" and "length line = a + length (line_name line) + b + length (line_args line)"
proof -
  let ?n = "line_name line" and ?args = "line_args line"
  obtain a b where p: "line = replicate a space @ ?n @ replicate b space @ ?args" "space \<notin> set ?n"
      "?args = [] \<or> hd ?args \<noteq> space \<and> 0 < b"
    using line_parts [of line] by metis
  let ?s1 = "replicate a NUL" and ?s2 = "replicate a NUL @ ?n" and ?s3 = "replicate a NUL @ ?n @ replicate b NUL"
  have len: "length line = a + length ?n + b + length ?args"
    using arg_cong [OF p(1), of length] by simp
  have range: "[0 ..< length line] = [0 ..< a] @ [length ?s1 ..< length ?s1 + length ?n] @
      [length ?s2 ..< length ?s2 + b] @ [length ?s3 ..< length ?s3 + length ?args]"
    using upt_add_eq_append [of 0 a "length ?n + b + length ?args"] upt_add_eq_append [of a "a + length ?n" "b + length ?args"]
      upt_add_eq_append [of "a + length ?n" "a + length ?n + b" "length ?args"]
    by (simp add: len add.assoc)
  have buf: "line @ r = [] @ replicate a space @ (?n @ replicate b space @ ?args @ r)"
    by (subst p(1)) simp
  have hd_n: "hd ?n \<noteq> space" using assms p(2) by (metis hd_in_set)
  have 1: "fold split_step [0 ..< a] (line @ r, None, None, False) =
      (?s1 @ ?n @ (replicate b space @ ?args @ r), None, None, False)"
    using split_spaces [of "[]" a "?n @ replicate b space @ ?args @ r" None False] unfolding buf by simp
  have 2: "fold split_step [length ?s1 ..< length ?s1 + length ?n]
        (?s1 @ ?n @ (replicate b space @ ?args @ r), None, None, False) =
      (?s2 @ replicate b space @ (?args @ r), Some a, None, False)"
    using split_word [OF assms hd_n, of None False ?s1 "replicate b space @ ?args @ r"] p(2) by simp
  have 3: "fold split_step [length ?s2 ..< length ?s2 + b]
        (?s2 @ replicate b space @ (?args @ r), Some a, None, False) =
      (?s3 @ ?args @ r, Some a, None, 0 < b)"
    unfolding split_spaces by simp
  have 4: "fold split_step [length ?s3 ..< length ?s3 + length ?args] (?s3 @ ?args @ r, Some a, None, 0 < b) =
      (?s3 @ ?args @ r, Some a, if ?args = [] then None else Some (a + length ?n + b), 0 < b)"
  proof (cases "?args = []")
    case False
    then show ?thesis
      using split_word [of ?args "Some a" "0 < b" ?s3 r] p(3) by (simp add: add.assoc)
  qed simp
  have "fold split_step [0 ..< length line] (line @ r, None, None, False) =
      (replicate a NUL @ ?n @ replicate b NUL @ ?args @ r, Some a,
       if ?args = [] then None else Some (a + length ?n + b), 0 < b)"
    unfolding range fold_append comp_apply 1 2 3 4 by simp
  then show thesis using that p(3) len by blast
qed

lemma fitting_subset: "set (fitting n ls) \<subseteq> set ls"
  by (induction n ls rule: fitting.induct) auto

text \<open>What a command gets for its arguments: \<open>NULL\<close> or the tokens in place.\<close>

definition args_are :: "string option \<Rightarrow> string list \<Rightarrow> bool" where
  "args_are args ts \<longleftrightarrow>
     entries ts \<and> (args = None \<and> ts = [] \<or> (\<exists>r. args = Some (flat ts @ NUL # r)))"

lemma args_are_tokens: "args_are args ts \<Longrightarrow> tokens_of args = Some ts"
  by (auto simp: args_are_def tokens_of_None tokens_of_flat)

lemma args_are_count: "args_are args ts \<Longrightarrow> embeddedCliGetTokenCount args = Some (length ts)"
  using embeddedCliGetTokenCount_def [of None] by (auto simp: args_are_def embeddedCliGetTokenCount_flat)

lemma args_are_first:
  "args_are (Some m) ts \<Longrightarrow> string_at 0 m = Some (if ts = [] then [] else hd ts)"
  using string_at_flat [of ts 0] string_at_here [of "[]" "[]"]
  by (cases ts) (auto simp: args_are_def)

lemma erase_help [simp]: "erase (printBindingHelp b c) = erase c" "erase (onUnknownCommand n c) = erase c"
  by (simp_all add: printBindingHelp_def onUnknownCommand_def split: option.split)

lemma onUnknownCommand_buffer [simp]: "cmd_buffer (onUnknownCommand n c) = cmd_buffer c"
  by (simp add: onUnknownCommand_def writeToOutput_def)

lemma erase_fold: "(\<And>b c. erase (f b c) = erase c) \<Longrightarrow> erase (fold f bs c) = erase c"
  by (induction bs arbitrary: c) auto

lemma onHelp_ok:
  assumes "args_are args ts"
  shows "\<exists>c'. onHelp args c = Some c' \<and> same_but_screen c c'"
proof -
  have token: "\<exists>m. args = Some m \<and> embeddedCliGetToken m 1 = Some (Some (hd ts))" if "length ts = 1"
    using assms embeddedCliGetToken_flat [of ts 1] that by (cases ts) (auto simp: args_are_def)
  consider "bindings c = []" | "length ts = 0" | "bindings c \<noteq> []" "length ts = 1" | "length ts > 1" "bindings c \<noteq> []"
    by linarith
  then show ?thesis
  proof cases
    case 3
    then obtain m where "args = Some m" "embeddedCliGetToken m 1 = Some (Some (hd ts))" using token by blast
    then show ?thesis
      using 3 args_are_count [OF assms] by (auto simp: onHelp_def split: option.split)
  qed (use args_are_count [OF assms] in \<open>auto simp: onHelp_def intro: erase_fold\<close>)
qed

lemma erase_buffer: "erase (c\<lparr>cmd_buffer := b\<rparr>) = (erase c)\<lparr>cmd_buffer := b\<rparr>"
  by (simp add: erase_def)

text \<open>Two states that may also differ in the bytes of the command line.\<close>

abbreviation same_but_line :: "'f embedded_cli \<Rightarrow> 'f embedded_cli \<Rightarrow> bool" where
  "same_but_line c c' \<equiv> erase (c'\<lparr>cmd_buffer := []\<rparr>) = erase (c\<lparr>cmd_buffer := []\<rparr>)"

lemma same_but_line_fields:
  assumes "same_but_line c c'"
  shows "bindings c' = bindings c" "history c' = history c" "last_char c' = last_char c"
    "flag_escape_mode c' = flag_escape_mode c" "cmd_max_size c' = cmd_max_size c"
    "setup_ok c' = setup_ok c"
  using same_but_screen_fields [OF assms] by (simp_all add: setup_ok_def)

text \<open>A sequence of characters, for the code and for the specification.\<close>

fun cli_putchars ::
    "('f, 'w) app \<Rightarrow> string \<Rightarrow> 'f embedded_cli option \<Rightarrow> 'w \<Rightarrow> ('f embedded_cli option \<times> 'w) option" where
  "cli_putchars app [] cli w = Some (cli, w)"
| "cli_putchars app (ch # chs) cli w =
     (case cli_putchar app ch cli w of
        None \<Rightarrow> None
      | Some (err, cli1, w1) \<Rightarrow> cli_putchars app chs cli1 w1)"

fun console_keys ::
    "('f \<Rightarrow> string list \<Rightarrow> 'w \<Rightarrow> string \<times> 'w) \<Rightarrow> 'f cli_binding list \<Rightarrow> string \<Rightarrow> console \<Rightarrow> 'w \<Rightarrow>
      console \<times> 'w" where
  "console_keys run bs [] s w = (s, w)"
| "console_keys run bs (ch # chs) s w =
     (let (s1, w1) = console_key run bs ch s w in console_keys run bs chs s1 w1)"

lemma console_keys_append:
  "console_keys run bs (xs @ ys) s w =
     (let (s1, w1) = console_keys run bs xs s w in console_keys run bs ys s1 w1)"
  by (induction xs arbitrary: s w) (auto split: prod.splits)

text \<open>What \<open>process_char\<close> does before the completion is shown and the character remembered.\<close>

definition char_op ::
    "('f, 'w) app \<Rightarrow> char \<Rightarrow> 'f embedded_cli \<Rightarrow> 'w \<Rightarrow> ('f embedded_cli \<times> 'w) option" where
  "char_op app ch c w =
     (if flag_escape_mode c then do { c1 \<leftarrow> onEscapedInput ch c; Some (c1, w) }
      else if last_char c = ESC \<and> ch = CHR ''['' then Some (c\<lparr>flag_escape_mode := True\<rparr>, w)
      else if isControlChar ch then onControlInput app ch c w
      else if isDisplayableChar ch then do { c1 \<leftarrow> onCharInput ch c; Some (c1, w) }
      else Some (c, w))"

lemma process_char_op:
  "process_char app ch c w = do {
     (c1, w1) \<leftarrow> char_op app ch c w;
     c2 \<leftarrow> printLiveAutocompletion c1;
     Some (c2\<lparr>last_char := ch\<rparr>, w1)
   }"
  by (simp only: process_char_def char_op_def)

text \<open>
  A program on the console: what its functions do with the tokens of their arguments, whatever
  the memory behind them holds.
\<close>

locale console_program =
  fixes app :: "('f, 'w) app" and run :: "'f \<Rightarrow> string list \<Rightarrow> 'w \<Rightarrow> string \<times> 'w"
  assumes app_runs: "tokens_of args = Some ts \<Longrightarrow> app f args w = Some (run f ts w)"
begin

lemma run_binding_ok:
  assumes "args_are args ts"
  shows "\<exists>c'. run_binding app b f args c w = Some (c',
       case f of On_help \<Rightarrow> w
       | App g \<Rightarrow> if ts \<noteq> [] \<and> (hd ts = ''-h'' \<or> hd ts = ''--help'') then w else snd (run g ts w)) \<and>
     same_but_screen c c'"
proof -
  have asked: "(case args of None \<Rightarrow> Some False
      | Some m \<Rightarrow> do { first \<leftarrow> string_at 0 m; Some (first = ''-h'' \<or> first = ''--help'') }) =
      Some (ts \<noteq> [] \<and> (hd ts = ''-h'' \<or> hd ts = ''--help''))"
    using assms args_are_first [of _ ts] by (cases args) (auto simp: args_are_def)
  obtain c1 where c1: "onHelp args (c\<lparr>flag_direct_print := True\<rparr>) = Some c1"
      "same_but_screen (c\<lparr>flag_direct_print := True\<rparr>) c1"
    using onHelp_ok [OF assms] by blast
  show ?thesis
    using c1 app_runs [OF args_are_tokens [OF assms]]
    by (cases f; cases "ts \<noteq> [] \<and> (hd ts = ''-h'' \<or> hd ts = ''--help'')")
      (auto simp: run_binding_def asked split: prod.splits)
qed

lemma parse_tail:
  assumes "setup_ok c1" and "length (cmd_buffer c1) = 64"
    and "cmd_buffer c1 = pre @ line_args line @ NUL # NUL # r"
    and "string_at n (cmd_buffer c1) = Some (line_name line)" and "NUL \<notin> set line"
  shows "\<exists>c'. run_command app (Some n) (if line_args line = [] then None else Some (length pre)) c1 w =
       Some (c', run_line run (bindings c1) line w) \<and> length (cmd_buffer c') = 64 \<and> same_but_line c1 c'"
proof (cases "find (\<lambda>b. bind_name b = line_name line) (bindings c1)")
  case None
  then show ?thesis
    using assms(2) by (simp add: run_command_def assms(4) run_line_def erase_buffer)
next
  case (Some bd)
  have bd: "tokenize_args bd"
    using assms(1) Some by (auto simp: setup_ok_def list_all_iff binding_ok_def find_Some_iff)
  show ?thesis
  proof (cases "bind_fun bd")
    case None
    then show ?thesis
      using assms(2) Some by (simp add: run_command_def assms(4) run_line_def erase_buffer)
  next
    case f: (Some f)
    have world: "run_line run (bindings c1) line w =
        (case f of On_help \<Rightarrow> w
         | App g \<Rightarrow>
             if tokens (line_args line) \<noteq> [] \<and>
               (hd (tokens (line_args line)) = ''-h'' \<or> hd (tokens (line_args line)) = ''--help'')
             then w else snd (run g (tokens (line_args line)) w))"
      using Some f by (cases f) (simp_all add: run_line_def Let_def)
    show ?thesis
    proof (cases "line_args line = []")
      case True
      then have "args_are None (tokens (line_args line))" by (simp add: args_are_def tokens_def)
      from run_binding_ok [OF this, of bd f c1 w] obtain c' where
        c': "run_binding app bd f None c1 w = Some (c', run_line run (bindings c1) line w)"
          "same_but_screen c1 c'"
        unfolding world by blast
      moreover have "length (cmd_buffer c') = 64"
        using same_but_screen_fields(2) [OF c'(2)] assms(2) by simp
      ultimately show ?thesis
        using Some f True by (simp add: run_command_def assms(4) erase_buffer)
    next
      case False
      have "NUL \<notin> set (line_args line)"
        using assms(5) by (auto simp: line_args_def dest!: set_dropWhileD)
      then obtain r' where m: "embeddedCliTokenizeArgs (drop (length pre) (cmd_buffer c1)) =
          Some (flat (tokens (line_args line)) @ NUL # r')"
          "length (flat (tokens (line_args line)) @ NUL # r') = length (line_args line) + length r + 2"
        using tokenize_args [of "line_args line" NUL r] assms(3) by auto
      let ?m = "flat (tokens (line_args line)) @ NUL # r'"
      let ?c2 = "c1\<lparr>cmd_buffer := take (length pre) (cmd_buffer c1) @ ?m\<rparr>"
      have "args_are (Some ?m) (tokens (line_args line))" by (simp add: args_are_def entries_tokens)
      from run_binding_ok [OF this, of bd f ?c2 w] obtain c' where
        c': "run_binding app bd f (Some ?m) ?c2 w = Some (c', run_line run (bindings c1) line w)"
          "same_but_screen ?c2 c'"
        unfolding world by blast
      moreover have "length (cmd_buffer c') = 64"
        using same_but_screen_fields(2) [OF c'(2)] m(2) assms(2,3) by simp
      ultimately show ?thesis
        using Some f False bd m(1) by (simp add: run_command_def assms(4) erase_buffer)
    qed
  qed
qed

lemma parseCommand_ok:
  assumes "line_ok c line" and "setup_ok c" and "history_ok (history c) ls pos"
  shows "\<exists>c'. parseCommand app c w =
       Some (c', if line_name line = [] then w else run_line run (bindings c) line w) \<and>
     length (cmd_buffer c') = 64 \<and>
     (\<exists>h. same_but_line (c\<lparr>history := h\<rparr>) c' \<and>
        history_ok (h\<lparr>hist_current := 0\<rparr>)
          (if line_name line = [] then ls else line # fitting (128 - (length line + 1)) (remove1 line ls)) 0)"
proof -
  obtain r0 where c: "cmd_buffer c = line @ NUL # r0" "length (cmd_buffer c) = 64"
      "cmd_size c = length line" "length line \<le> 62" "NUL \<notin> set line"
    using assms(1) by (auto simp: line_ok_def)
  obtain d r where r0: "r0 = d # r" using c(1,2,4) by (cases r0) auto
  have h: "history_holds (history c) ls" "hist_size (history c) = 128" "\<forall>l \<in> set ls. length l \<le> 62"
    using assms(3) by (auto simp: history_ok_def)
  have take: "take (cmd_size c) (cmd_buffer c) = line" using c(1,3) by simp
  show ?thesis
  proof (cases "line_name line = []")
    case True
    have "history_ok ((history c)\<lparr>hist_current := 0\<rparr>) ls 0"
      using h by (auto simp: history_ok_def history_holds_def)
    moreover have "parseCommand app c w = Some (c, w)"
      unfolding parseCommand_def take only_spaces using True c(2-4) by simp
    ultimately show ?thesis
      using True c(2) by (auto intro!: exI [of _ "history c"])
  next
    case False
    let ?ls = "line # fitting (128 - (length line + 1)) (remove1 line ls)"
    have "line \<noteq> []" using False by (auto simp: line_name_def)
    then obtain h' where h': "historyPut line (history c) = Some (True, h')" "history_holds h' ?ls"
        "hist_size h' = 128"
      using historyPut_holds [OF h(1), of line] h(2) c(4,5) by auto
    have "\<forall>l \<in> set ?ls. length l \<le> 62"
      using h(3) c(4) fitting_subset [of _ "remove1 line ls"] set_remove1_subset [of line ls] by fastforce
    then have ok: "history_ok (h'\<lparr>hist_current := 0\<rparr>) ?ls 0"
      using h'(2,3) by (simp add: history_ok_def history_holds_def)
    obtain a b where ab: "fold split_step [0 ..< length line] (line @ NUL # r0, None, None, False) =
        (replicate a NUL @ line_name line @ replicate b NUL @ line_args line @ NUL # r0, Some a,
         if line_args line = [] then None else Some (a + length (line_name line) + b), 0 < b)"
        "line_args line = [] \<or> 0 < b"
        "length line = a + length (line_name line) + b + length (line_args line)"
      using split_line [OF False] by metis
    let ?pre = "replicate a NUL @ line_name line @ replicate b NUL"
    let ?b1 = "?pre @ line_args line @ NUL # NUL # r"
    let ?c1 = "c\<lparr>history := h', cmd_buffer := ?b1\<rparr>"
    have b1: "store_text (cmd_size c + 1) [NUL]
        (replicate a NUL @ line_name line @ replicate b NUL @ line_args line @ NUL # r0) = Some ?b1"
      using store_text_at [of "[d]" "[NUL]" "?pre @ line_args line @ [NUL]" r] ab(3) c(3)
      by (simp add: r0 add.assoc)
    have len: "length ?b1 = 64" using c(1,2) ab(3) r0 by simp
    have "\<exists>u. replicate b NUL @ line_args line @ NUL # NUL # r = NUL # u"
      using ab(2) by (cases b) auto
    moreover have "NUL \<notin> set (line_name line)"
      using c(5) by (auto simp: line_name_def dest!: set_takeWhileD set_dropWhileD)
    ultimately have name: "string_at a ?b1 = Some (line_name line)"
      using string_at_here [of "line_name line" "replicate a NUL"] by auto
    have c1: "setup_ok ?c1" "length (cmd_buffer ?c1) = 64" "bindings ?c1 = bindings c"
      using assms(2) len by (auto simp: setup_ok_def)
    have "parseCommand app c w =
        run_command app (Some a) (if line_args line = [] then None else Some (length ?pre)) ?c1 w"
      unfolding parseCommand_def take only_spaces
      using False c(2-4) line_ok_string [OF assms(1)] h'(1) ab(1) b1 by (simp add: c(1,3) add.assoc)
    then obtain c' where c': "parseCommand app c w = Some (c', run_line run (bindings c) line w)"
        "length (cmd_buffer c') = 64" "same_but_line ?c1 c'"
      using parse_tail [OF c1(1,2), of ?pre line r a w] name c(5) by auto
    then show ?thesis
      using False ok by (auto intro!: exI [of _ h'])
  qed
qed

lemma enterLine_ok:
  assumes "cli_shows c s" and "setup_ok c"
  shows "\<exists>c'. enterLine app c w = Some (c', snd (enter_line run (bindings c) s w)) \<and> setup_ok c' \<and>
     bindings c' = bindings c \<and> cli_shows c' (fst (enter_line run (bindings c) s w))"
proof -
  let ?s1 = "complete_line (map bind_name (bindings c)) s"
  let ?line = "console_line ?s1"
  obtain c1 where c1: "onAutocompleteRequest c = Some c1" "setup_ok c1" "bindings c1 = bindings c"
      "cli_shows c1 ?s1"
    using onAutocompleteRequest_ok [OF assms] by blast
  have s1: "former ?s1 = former s" "former_pos ?s1 = former_pos s" "in_escape ?s1 = in_escape s"
      "previous ?s1 = previous s"
    by (simp_all add: complete_line_def)
  let ?c2 = "writeToOutput lineBreak c1"
  have c2: "setup_ok ?c2" "bindings ?c2 = bindings c" "cli_shows ?c2 ?s1"
    using c1 same_but_screen_shows [of c1 ?c2] same_but_screen_fields(5) [of c1 ?c2] by simp_all
  have line: "line_ok ?c2 ?line" "history_ok (history ?c2) (former s) (former_pos s)"
      "flag_escape_mode ?c2 = in_escape s" "last_char ?c2 = previous s" "cmd_size ?c2 = length ?line"
    using c2(3) s1 by (auto simp: cli_shows_def line_ok_def)
  let ?former = "if line_name ?line = [] then former s
      else ?line # fitting (128 - (length ?line + 1)) (remove1 ?line (former s))"
  let ?w = "if line_name ?line = [] then w else run_line run (bindings c) ?line w"
  obtain c3 h where c3: "(if cmd_size ?c2 > 0 then parseCommand app ?c2 w else Some (?c2, w)) = Some (c3, ?w)"
      "length (cmd_buffer c3) = 64" "same_but_line (?c2\<lparr>history := h\<rparr>) c3"
      "history_ok (h\<lparr>hist_current := 0\<rparr>) ?former 0"
  proof (cases "cmd_size ?c2 > 0")
    case True
    then show ?thesis
      using that parseCommand_ok [OF line(1) c2(1) line(2), of w] c2(2) by auto
  next
    case False
    then have "line_name ?line = []" using line(5) by (simp add: line_name_def)
    moreover have "history_ok ((history ?c2)\<lparr>hist_current := 0\<rparr>) (former s) 0"
      using line(2) by (auto simp: history_ok_def history_holds_def)
    ultimately show ?thesis
      using that [of ?c2 "history ?c2"] False line(1) by (simp add: line_ok_def)
  qed
  note f = same_but_line_fields [OF c3(3)]
  have b: "store_text 0 [NUL] (cmd_buffer c3) = Some (NUL # drop 1 (cmd_buffer c3))"
    using c3(2) by (simp add: store_text_def)
  let ?c4 = "writeToOutput (invitation c3)
     (c3\<lparr>cmd_size := 0, cmd_buffer := NUL # drop 1 (cmd_buffer c3), input_line_length := 0,
         history := (history c3)\<lparr>hist_current := 0\<rparr>, cursor_pos := 0\<rparr>)"
  have "enterLine app c w = Some (?c4, ?w)"
    using c1(1) c3(1) b by (simp add: enterLine_def)
  moreover have "enter_line run (bindings c) s w =
      (s\<lparr>before := [], after := [], former := ?former, former_pos := 0\<rparr>, ?w)"
    by (simp add: enter_line_def remember_def Let_def)
  moreover have "setup_ok ?c4" "bindings ?c4 = bindings c"
    using f c2(1,2) by (simp_all add: setup_ok_def writeToOutput_def)
  moreover have "cli_shows ?c4 (s\<lparr>before := [], after := [], former := ?former, former_pos := 0\<rparr>)"
    using f c3(2,4) line by (simp add: cli_shows_def line_ok_def writeToOutput_def)
  ultimately show ?thesis by simp
qed

text \<open>The keys one by one: a character leaves the console that the specification says.\<close>

lemma backspace_ok:
  assumes "cli_shows c s" and "setup_ok c"
  shows "\<exists>c1. (if before s \<noteq> [] then do { c1 \<leftarrow> removeChar c; Some (c1, w) } else Some (c, w)) = Some (c1, w) \<and>
     setup_ok c1 \<and> bindings c1 = bindings c \<and> cli_shows c1 (s\<lparr>before := butlast (before s)\<rparr>)"
proof (cases "before s = []")
  case True
  then have "s\<lparr>before := butlast (before s)\<rparr> = s" by (cases s) simp
  then have "cli_shows c (s\<lparr>before := butlast (before s)\<rparr>)" using assms(1) by argo
  then show ?thesis using assms True by auto
qed (use removeChar_ok [OF assms] in auto)

lemma plain_key_ok:
  assumes "cli_shows c s" and "setup_ok c" and "\<not> in_escape s" and "\<not> (previous s = ESC \<and> ch = CHR ''['')"
    and "\<not> (previous s = CR \<and> ch = LF \<or> previous s = LF \<and> ch = CR)"
  shows "\<exists>s1 w1 c1. console_key run (bindings c) ch s w = (s1\<lparr>previous := ch\<rparr>, w1) \<and>
     char_op app ch c w = Some (c1, w1) \<and> setup_ok c1 \<and> bindings c1 = bindings c \<and> cli_shows c1 s1"
proof -
  have st: "flag_escape_mode c = in_escape s" "last_char c = previous s"
    using assms(1) by (auto simp: cli_shows_def)
  have cur: "cmd_size c > cursor_pos c \<longleftrightarrow> before s \<noteq> []"
    using assms(1) by (auto simp: cli_shows_def line_ok_def)
  consider (enter) "ch = CR \<or> ch = LF" | (rub) "ch = BS \<or> ch = DEL" | (tab) "ch = TAB"
    | (char) "isDisplayableChar ch" "\<not> isControlChar ch"
    | (none) "\<not> isDisplayableChar ch" "\<not> isControlChar ch"
    by (auto simp: isControlChar_def)
  then show ?thesis
  proof cases
    case enter
    obtain s1 w1 where e: "enter_line run (bindings c) s w = (s1, w1)" by fastforce
    have "console_key run (bindings c) ch s w = (s1\<lparr>previous := ch\<rparr>, w1)"
      using e enter assms(3-5) by (auto simp: console_key_def)
    moreover have "char_op app ch c w = enterLine app c w"
      using enter assms(3-5) st by (auto simp: char_op_def isControlChar_def onControlInput_def)
    ultimately show ?thesis using enterLine_ok [OF assms(1,2), of w] e by auto
  next
    case rub
    have "console_key run (bindings c) ch s w = (s\<lparr>before := butlast (before s), previous := ch\<rparr>, w)"
      using rub assms(3-5) by (auto simp: console_key_def)
    moreover have "char_op app ch c w =
        (if before s \<noteq> [] then do { c1 \<leftarrow> removeChar c; Some (c1, w) } else Some (c, w))"
      using rub assms(3-5) st cur by (auto simp: char_op_def isControlChar_def onControlInput_def)
    ultimately show ?thesis using backspace_ok [OF assms(1,2), of w] by auto
  next
    case tab
    have "console_key run (bindings c) ch s w =
        ((complete_line (map bind_name (bindings c)) s)\<lparr>previous := ch\<rparr>, w)"
      using tab assms(3-5) by (auto simp: console_key_def)
    moreover have "char_op app ch c w = do { c1 \<leftarrow> onAutocompleteRequest c; Some (c1, w) }"
      using tab assms(3-5) st by (auto simp: char_op_def isControlChar_def onControlInput_def)
    ultimately show ?thesis using onAutocompleteRequest_ok [OF assms(1,2)] by auto
  next
    case char
    have key: "NUL \<noteq> ch" using char(1) by (auto simp: isDisplayableChar_def)
    have "ch \<noteq> CR" "ch \<noteq> LF" "ch \<noteq> BS" "ch \<noteq> DEL" "ch \<noteq> TAB" using char(2) by (auto simp: isControlChar_def)
    then have "console_key run (bindings c) ch s w = ((insert_char ch s)\<lparr>previous := ch\<rparr>, w)"
      using assms(3-5) char by (auto simp: console_key_def)
    moreover obtain c1 where "onCharInput ch c = Some c1" "setup_ok c1" "bindings c1 = bindings c"
        "cli_shows c1 (insert_char ch s)"
      using onCharInput_ok [OF assms(1,2), of ch] key char(1) by blast
    moreover from this have "char_op app ch c w = Some (c1, w)"
      using char assms(3-5) st by (auto simp: char_op_def)
    ultimately show ?thesis by blast
  next
    case none
    then show ?thesis using assms st by (auto simp: char_op_def console_key_def isControlChar_def)
  qed
qed

lemma char_op_ok:
  assumes "cli_shows c s" and "setup_ok c"
  shows "\<exists>s1 w1 c1. console_key run (bindings c) ch s w = (s1\<lparr>previous := ch\<rparr>, w1) \<and>
     char_op app ch c w = Some (c1, w1) \<and> setup_ok c1 \<and> bindings c1 = bindings c \<and> cli_shows c1 s1"
proof -
  have st: "flag_escape_mode c = in_escape s" "last_char c = previous s"
    using assms(1) by (auto simp: cli_shows_def)
  consider (esc) "in_escape s" | (bracket) "\<not> in_escape s" "previous s = ESC \<and> ch = CHR ''[''"
    | (pair) "\<not> in_escape s" "\<not> (previous s = ESC \<and> ch = CHR ''['')"
        "previous s = CR \<and> ch = LF \<or> previous s = LF \<and> ch = CR"
    | (other) "\<not> in_escape s" "\<not> (previous s = ESC \<and> ch = CHR ''['')"
        "\<not> (previous s = CR \<and> ch = LF \<or> previous s = LF \<and> ch = CR)" by blast
  then show ?thesis
  proof cases
    case esc
    then show ?thesis
      using onEscapedInput_ok [OF assms esc, of ch] st by (auto simp: char_op_def console_key_def)
  next
    case bracket
    have "cli_shows (c\<lparr>flag_escape_mode := True\<rparr>) (s\<lparr>in_escape := True\<rparr>)" "setup_ok (c\<lparr>flag_escape_mode := True\<rparr>)"
      using assms by (simp_all add: cli_shows_def line_ok_def setup_ok_def)
    then show ?thesis
      using bracket st by (intro exI [of _ "s\<lparr>in_escape := True\<rparr>"]) (simp add: char_op_def console_key_def)
  next
    case pair
    then show ?thesis
      using assms st by (auto simp: char_op_def console_key_def isControlChar_def onControlInput_def)
  qed (rule plain_key_ok [OF assms])
qed

text \<open>The library does with a character what the specification says.\<close>

lemma process_char_ok:
  assumes "cli_shows c s" and "setup_ok c"
  shows "\<exists>c'. process_char app ch c w = Some (c', snd (console_key run (bindings c) ch s w)) \<and>
     setup_ok c' \<and> bindings c' = bindings c \<and> cli_shows c' (fst (console_key run (bindings c) ch s w))"
proof -
  obtain s1 w1 c1 where k: "console_key run (bindings c) ch s w = (s1\<lparr>previous := ch\<rparr>, w1)"
    and c1: "char_op app ch c w = Some (c1, w1)" "setup_ok c1" "bindings c1 = bindings c" "cli_shows c1 s1"
    using char_op_ok [OF assms, of ch w] by blast
  obtain c2 where c2: "printLiveAutocompletion c1 = Some c2" "same_but_screen c1 c2"
    using printLiveAutocompletion_ok [OF shows_line [OF c1(4)]] by blast
  have "process_char app ch c w = Some (c2\<lparr>last_char := ch\<rparr>, w1)"
    using c1(1) c2(1) by (simp add: process_char_op)
  moreover have "setup_ok c2" "bindings c2 = bindings c" "cli_shows c2 s1"
    using c1 same_but_screen_shows [OF c2(2)] same_but_screen_fields(5) [OF c2(2)] by simp_all
  then have "setup_ok (c2\<lparr>last_char := ch\<rparr>)" "bindings (c2\<lparr>last_char := ch\<rparr>) = bindings c"
      "cli_shows (c2\<lparr>last_char := ch\<rparr>) (s1\<lparr>previous := ch\<rparr>)"
    by (simp_all add: setup_ok_def cli_shows_def line_ok_def)
  ultimately show ?thesis using k by simp
qed

lemma cli_putchar_ok:
  assumes "cli_shows c s" and "setup_ok c"
  shows "\<exists>c'. cli_putchar app ch (Some c) w =
       Some (ERR_SUCCESS, Some c', snd (console_key run (bindings c) ch s w)) \<and>
     setup_ok c' \<and> bindings c' = bindings c \<and> cli_shows c' (fst (console_key run (bindings c) ch s w))"
proof -
  have q: "fifo_wf (rx_buffer c)" "fifo_items (rx_buffer c) = []" "0 < fifo_room (rx_buffer c)"
    using assms(2) by (auto simp: setup_ok_def)
  obtain q1 q2 where rx: "fifoBufPush ch (rx_buffer c) = Some (True, q1)" "fifoBufAvailable q1 \<noteq> 0"
      "fifoBufPop q1 = Some (ch, q2)" "fifoBufAvailable q2 = 0" "fifo_wf q2" "fifo_items q2 = []"
      "fifo_room q2 = fifo_room (rx_buffer c)"
    using rx.one_character [OF q] by metis
  let ?c1 = "c\<lparr>rx_buffer := q1\<rparr>"
  have recv: "embeddedCliReceiveChar ch c = Some ?c1"
    using rx(1) assms(2) by (simp add: embeddedCliReceiveChar_def setup_ok_def)
  define c2 where "c2 = (if \<not> flag_init_complete ?c1
      then writeToOutput (invitation ?c1) (?c1\<lparr>flag_init_complete := True\<rparr>) else ?c1)"
  have c2: "rx_buffer c2 = q1" "bindings (c2\<lparr>rx_buffer := q2\<rparr>) = bindings c"
      "cli_shows (c2\<lparr>rx_buffer := q2\<rparr>) s" "setup_ok (c2\<lparr>rx_buffer := q2\<rparr>)"
    using assms rx(5-7) by (simp_all add: c2_def writeToOutput_def cli_shows_def line_ok_def setup_ok_def)
  obtain c3 where c3: "process_char app ch (c2\<lparr>rx_buffer := q2\<rparr>) w =
        Some (c3, snd (console_key run (bindings c) ch s w))" "setup_ok c3" "bindings c3 = bindings c"
      "cli_shows c3 (fst (console_key run (bindings c) ch s w))"
    using process_char_ok [OF c2(3,4), of ch w] c2(2) by auto
  have "unat (fifoBufAvailable (rx_buffer c3)) = 0"
    using c3(2) by (simp add: rx.available setup_ok_def)
  then have empty: "fifoBufAvailable (rx_buffer c3) = 0" by (simp add: unat_eq_0)
  have stop: "process_loop app c3 w' = Some (c3, w')" for w'
    by (subst process_loop.simps) (simp add: empty)
  have loop: "process_loop app c2 w = Some (c3, snd (console_key run (bindings c) ch s w))"
    by (subst process_loop.simps) (simp add: c2(1) rx(2,3) c3(1) stop)
  have "write_char ?c1" "\<not> flag_overflow c3" using assms(2) c3(2) by (auto simp: setup_ok_def)
  then have "embeddedCliProcess app ?c1 w = Some (c3, snd (console_key run (bindings c) ch s w))"
    using loop by (simp add: embeddedCliProcess_def c2_def Let_def)
  then show ?thesis
    using recv c3 by (simp add: cli_putchar_def)
qed

lemma cli_putchars_ok:
  "cli_shows c s \<Longrightarrow> setup_ok c \<Longrightarrow>
     \<exists>c'. cli_putchars app chs (Some c) w = Some (Some c', snd (console_keys run (bindings c) chs s w)) \<and>
       setup_ok c' \<and> bindings c' = bindings c \<and> cli_shows c' (fst (console_keys run (bindings c) chs s w))"
proof (induction chs arbitrary: c s w)
  case (Cons ch chs)
  obtain s1 w1 where k: "console_key run (bindings c) ch s w = (s1, w1)" by fastforce
  obtain c1 where c1: "cli_putchar app ch (Some c) w = Some (ERR_SUCCESS, Some c1, w1)" "setup_ok c1"
      "bindings c1 = bindings c" "cli_shows c1 s1"
    using cli_putchar_ok [OF Cons.prems, of ch w] k by auto
  show ?case using Cons.IH [OF c1(4,2), of w1] c1 k by simp
qed auto

end

section \<open>Setting up\<close>

definition console_start :: console where
  "console_start = \<lparr>before = [], after = [], former = [], former_pos = 0, in_escape = False, previous = NUL\<rparr>"

lemma cli_init_ok:
  "\<exists>c. cli_init True n = (ERR_SUCCESS, Some c) \<and> setup_ok c \<and> cli_shows c console_start \<and>
     bindings c = [\<lparr>bind_name = ''help'', bind_help = Some ''Print list of commands'',
                    tokenize_args = True, bind_fun = Some On_help\<rparr>] \<and> max_bindings c = n + 1"
proof -
  have "replicate 64 NUL = [] @ NUL # replicate 63 NUL" by (simp add: numeral_eq_Suc)
  then show ?thesis
    by (auto simp: cli_init_def embeddedCliNew_def embeddedCliDefaultConfig_def Let_def
        initInternalBindings_def embeddedCliAddBinding_def cliInternalBindingCount_def setup_ok_def
        cli_shows_def console_start_def line_ok_def history_ok_def history_holds_def binding_ok_def
        fifo_wf_def fifo_items_def fifoBufAvailable_def fifo_room_def)
qed

lemma cli_add_command_ok:
  assumes "setup_ok c" and "cli_shows c s" and "length (bindings c) < max_bindings c"
    and "name \<noteq> []" and "NUL \<notin> set name" and "length name \<le> 61"
  shows "\<exists>c'. cli_add_command name h f (Some c) = (ERR_SUCCESS, Some c') \<and> setup_ok c' \<and> cli_shows c' s \<and>
     bindings c' = bindings c @ [\<lparr>bind_name = name, bind_help = Some h, tokenize_args = True,
                                  bind_fun = Some (App f)\<rparr>] \<and> max_bindings c' = max_bindings c"
  using assms
  by (auto simp: cli_add_command_def embeddedCliAddBinding_def Let_def setup_ok_def cli_shows_def
      line_ok_def binding_ok_def)

section \<open>Typing a line\<close>

text \<open>What every command keeps, the console keeps.\<close>

definition commands_keep ::
    "('f \<Rightarrow> string list \<Rightarrow> 'w \<Rightarrow> string \<times> 'w) \<Rightarrow> 'f cli_binding list \<Rightarrow> ('w \<Rightarrow> bool) \<Rightarrow> bool" where
  "commands_keep run bs I \<longleftrightarrow>
     (\<forall>b \<in> set bs. \<forall>f. bind_fun b = Some (App f) \<longrightarrow> (\<forall>ts w. I w \<longrightarrow> I (snd (run f ts w))))"

lemma run_line_keeps:
  assumes "commands_keep run bs I" and "I w"
  shows "I (run_line run bs line w)"
proof (cases "find (\<lambda>b. bind_name b = line_name line) bs")
  case (Some b)
  then have "b \<in> set bs" by (auto simp: find_Some_iff)
  then show ?thesis
    using assms Some by (auto simp: run_line_def commands_keep_def Let_def split: option.split cli_function.split)
qed (simp add: run_line_def assms(2))

lemma console_key_world:
  "snd (console_key run bs ch s w) = w \<or> (\<exists>l. snd (console_key run bs ch s w) = run_line run bs l w)"
  by (cases "ch = CR \<or> ch = LF") (auto simp: console_key_def enter_line_def Let_def)

lemma console_keys_keeps:
  assumes "commands_keep run bs I"
  shows "I w \<Longrightarrow> I (snd (console_keys run bs chs s w))"
proof (induction chs arbitrary: s w)
  case (Cons ch chs)
  obtain s1 w1 where k: "console_key run bs ch s w = (s1, w1)" by fastforce
  then have "I w1"
    using console_key_world [of run bs ch s w] run_line_keeps [OF assms Cons.prems] Cons.prems by auto
  then show ?case using Cons.IH [of w1 s1] k by simp
qed simp

definition at_prompt :: "console \<Rightarrow> bool" where
  "at_prompt s \<longleftrightarrow> before s = [] \<and> after s = [] \<and> \<not> in_escape s \<and> previous s \<noteq> ESC \<and> previous s \<noteq> LF"

lemma displayable:
  "isDisplayableChar c \<Longrightarrow> c \<noteq> CR \<and> c \<noteq> LF \<and> c \<noteq> BS \<and> c \<noteq> TAB \<and> c \<noteq> DEL \<and> c \<noteq> ESC \<and> c \<noteq> NUL"
  by (auto simp: isDisplayableChar_def)

lemma console_keys_text:
  "list_all isDisplayableChar line \<Longrightarrow> after s = [] \<Longrightarrow> \<not> in_escape s \<Longrightarrow> previous s \<noteq> ESC \<Longrightarrow>
     length (before s) + length line \<le> 62 \<Longrightarrow>
     console_keys run bs line s w =
       (s\<lparr>before := before s @ line, previous := (if line = [] then previous s else last line)\<rparr>, w)"
proof (induction line arbitrary: s)
  case (Cons c line)
  have c: "isDisplayableChar c" using Cons.prems(1) by simp
  have step: "console_key run bs c s w = (s\<lparr>before := before s @ [c], previous := c\<rparr>, w)"
    using displayable [OF c] c Cons.prems by (auto simp: console_key_def insert_char_def)
  show ?case
    using Cons.IH [of "s\<lparr>before := before s @ [c], previous := c\<rparr>"] Cons.prems displayable [OF c]
    by (auto simp: step)
qed (auto intro: console.equality)

lemma console_keys_enter:
  assumes "list_all isDisplayableChar line" and "at_prompt s" and "length line \<le> 62"
  shows "snd (console_keys run bs (line @ [CR]) s w) =
     (let l = completed (map bind_name bs) line in if line_name l = [] then w else run_line run bs l w)"
proof -
  let ?p = "if line = [] then previous s else last line"
  let ?s = "s\<lparr>before := line, previous := ?p\<rparr>"
  have typed: "console_keys run bs line s w = (?s, w)"
    using console_keys_text [OF assms(1), of s run bs w] assms(2,3) by (simp add: at_prompt_def)
  have "?p \<noteq> LF \<and> ?p \<noteq> ESC"
    using assms(1,2) displayable [of "last line"] by (auto simp: at_prompt_def list_all_iff)
  then have key: "console_key run bs CR ?s w =
      (let (s1, w1) = enter_line run bs ?s w in (s1\<lparr>previous := CR\<rparr>, w1))"
    using assms(2) by (simp add: console_key_def at_prompt_def)
  have "console_line (complete_line (map bind_name bs) ?s) = completed (map bind_name bs) line"
    using assms(2) by (auto simp: complete_line_def at_prompt_def completed_def)
  then have "snd (enter_line run bs ?s w) =
      (let l = completed (map bind_name bs) line in if line_name l = [] then w else run_line run bs l w)"
    by (simp add: enter_line_def Let_def)
  then show ?thesis
    by (simp add: console_keys_append typed key case_prod_unfold Let_def)
qed

text \<open>The return key leads back to the prompt.\<close>

lemma at_prompt_enter:
  assumes "\<not> in_escape s" and "previous s \<noteq> LF"
  shows "at_prompt (fst (console_key run bs CR s w))"
  using assms by (auto simp: console_key_def at_prompt_def enter_line_def remember_def Let_def complete_line_def)

lemma console_keys_prompt:
  assumes "list_all isDisplayableChar line" and "at_prompt s" and "length line \<le> 62"
  shows "at_prompt (fst (console_keys run bs (line @ [CR]) s w))"
proof -
  let ?p = "if line = [] then previous s else last line"
  have "?p \<noteq> LF" using assms(1,2) displayable [of "last line"] by (auto simp: at_prompt_def list_all_iff)
  moreover have "console_keys run bs line s w = (s\<lparr>before := line, previous := ?p\<rparr>, w)"
    using console_keys_text [OF assms(1), of s run bs w] assms(2,3) by (simp add: at_prompt_def)
  ultimately show ?thesis
    using assms(2) by (simp add: console_keys_append split_beta at_prompt_enter at_prompt_def [of s])
qed

text \<open>The line of a command with one argument in quotes.\<close>

lemma completed_space:
  assumes "space \<in> set line" and "\<forall>n \<in> set names. space \<notin> set n"
  shows "completed names line = line"
proof -
  have "take (length line) n \<noteq> line" if "n \<in> set names" for n
    using assms that by (metis in_set_takeD)
  then have "candidates names line = []" by (auto simp: candidates_def filter_empty_conv)
  then show ?thesis by (simp add: completed_def)
qed

lemma quoted_line:
  assumes "space \<notin> set name" and "name \<noteq> []"
  shows "line_name (name @ space # quote_arg a) = name" and "line_args (name @ space # quote_arg a) = quote_arg a"
proof -
  have 1: "dropWhile (\<lambda>c. c = space) (name @ space # quote_arg a) = name @ space # quote_arg a"
    using assms by (cases name) auto
  have 2: "takeWhile (\<lambda>c. c \<noteq> space) (name @ space # quote_arg a) = name"
      "dropWhile (\<lambda>c. c \<noteq> space) (name @ space # quote_arg a) = space # quote_arg a"
    using assms(1) by (auto simp: takeWhile_tail dropWhile_append3 takeWhile_append)
  show "line_name (name @ space # quote_arg a) = name" by (simp only: line_name_def 1 2)
  show "line_args (name @ space # quote_arg a) = quote_arg a"
    unfolding line_args_def 1 2 by (simp add: quote_arg_def)
qed

lemma tokens_quote_arg: "a \<noteq> [] \<Longrightarrow> NUL \<notin> set a \<Longrightarrow> tokens (quote_arg a) = [a]"
  using scan_quoted [of a "[]"] words_NUL [of a "[]" "[]"] by (simp add: tokens_def)

lemma run_quoted:
  assumes "space \<notin> set name" and "name \<noteq> []" and "a \<noteq> []" and "NUL \<notin> set a"
    and "a \<noteq> ''-h''" and "a \<noteq> ''--help''"
    and "find (\<lambda>b. bind_name b = name) bs = Some b" and "bind_fun b = Some (App f)"
  shows "run_line run bs (name @ space # quote_arg a) w = snd (run f [a] w)"
  using assms by (simp add: run_line_def quoted_line tokens_quote_arg)

end
