(* ===== verification/Commands.thy ===== *)
theory Commands
  imports Network Console_Spec
begin

text \<open>
  The commands of the serial console, \<open>src/commands/commands.c\<close>, and the program on the console:
  the commands bound to the library through \<open>src/cli/cli.c\<close>. A command gets the list of its
  arguments, read with \<open>embeddedCliGetTokenCount\<close> and \<open>embeddedCliGetToken\<close>; its result is
  what it prints. The offset and the type of a field are, as in \<open>settings_map\<close>, the access to it.
\<close>

section \<open>The table of settings\<close>

text \<open>\<open>CommandType\<close>, each with the access to the field.\<close>

datatype command_type =
    CTYPE_UINT32 "settings \<Rightarrow> u32" "u32 \<Rightarrow> settings \<Rightarrow> settings"
  | CTYPE_UINT16 "settings \<Rightarrow> u16" "u16 \<Rightarrow> settings \<Rightarrow> settings"
  | CTYPE_UINT8 "settings \<Rightarrow> u8" "u8 \<Rightarrow> settings \<Rightarrow> settings"
  | CTYPE_BOOL "settings \<Rightarrow> bool" "bool \<Rightarrow> settings \<Rightarrow> settings"
  | CTYPE_STRING "settings \<Rightarrow> string" "string \<Rightarrow> settings \<Rightarrow> settings" nat bool

record setting_command =
  cmd_name :: string
  cmd_help :: string
  cmd_label :: string
  cmd_type :: command_type

definition cmd :: "string \<Rightarrow> string \<Rightarrow> string \<Rightarrow> command_type \<Rightarrow> setting_command" where
  "cmd name h label t = \<lparr>cmd_name = name, cmd_help = h, cmd_label = label, cmd_type = t\<rparr>"

definition dist_command :: "sensor \<Rightarrow> command_type" where
  "dist_command i = CTYPE_UINT16 (\<lambda>s. dist_trigger s i)
     (\<lambda>v s. s\<lparr>dist_trigger := (dist_trigger s)(i := v)\<rparr>)"

definition emergency_command :: "emergency_type \<Rightarrow> command_type" where
  "emergency_command i = CTYPE_UINT32 (\<lambda>s. emergency_cnt s i)
     (\<lambda>v s. s\<lparr>emergency_cnt := (emergency_cnt s)(i := v)\<rparr>)"

definition setting_commands :: "setting_command list" where
  "setting_commands =
     [cmd ''light_state'' ''Set state of light sensor (arg0: 0 - disable, 1 - enable)''
        ''Light sensor'' (CTYPE_BOOL use_light_sensor (\<lambda>v s. s\<lparr>use_light_sensor := v\<rparr>)),
      cmd ''light_day'' ''Set day light value (arg0: value)''
        ''Day light value'' (CTYPE_UINT32 light_sensor_day_value (\<lambda>v s. s\<lparr>light_sensor_day_value := v\<rparr>)),
      cmd ''light_night'' ''Set night light value (arg0: value)''
        ''Night light value'' (CTYPE_UINT32 light_sensor_night_value (\<lambda>v s. s\<lparr>light_sensor_night_value := v\<rparr>)),
      cmd ''dist_up_first'' ''Set trigger distance for UP FIRST sensor (arg0: value)''
        ''Sensor UP FIRST trigger value'' (dist_command STAIRWAY_SENS_UP_FIRST),
      cmd ''dist_up_second'' ''Set trigger distance for UP SECOND sensor (arg0: value)''
        ''Sensor UP SECOND trigger value'' (dist_command STAIRWAY_SENS_UP_SECOND),
      cmd ''dist_down_first'' ''Set trigger distance for DOWN FIRST sensor (arg0: value)''
        ''Sensor DOWN FIRST trigger value'' (dist_command STAIRWAY_SENS_DOWN_FIRST),
      cmd ''dist_down_second'' ''Set trigger distance for DOWN SECOND sensor (arg0: value)''
        ''Sensor DOWN SECOND trigger value'' (dist_command STAIRWAY_SENS_DOWN_SECOND),
      cmd ''sens_debouce'' ''Set sensors debounce time (arg0: value)''
        ''Sensor debounce time, ms'' (CTYPE_UINT32 sensor_debouce_time (\<lambda>v s. s\<lparr>sensor_debouce_time := v\<rparr>)),
      cmd ''sens_up_swap'' ''Swap UP sensors (arg0: 0 - no swap, 1 - swap)''
        ''Swap UP sensor'' (CTYPE_BOOL sensor_up_swap (\<lambda>v s. s\<lparr>sensor_up_swap := v\<rparr>)),
      cmd ''sens_down_swap'' ''Swap DOWN sensors (arg0: 0 - no swap, 1 - swap)''
        ''Swap DOWN sensor'' (CTYPE_BOOL sensor_down_swap (\<lambda>v s. s\<lparr>sensor_down_swap := v\<rparr>)),
      cmd ''leds_count'' ''Set leds count (arg0: value)''
        ''Leds count'' (CTYPE_UINT32 led_count (\<lambda>v s. s\<lparr>led_count := v\<rparr>)),
      cmd ''leds_time_interval'' ''Set leds On/Off interval (arg0: value in ms)''
        ''Leds On/Off time interval, ms'' (CTYPE_UINT32 leds_time_interval (\<lambda>v s. s\<lparr>leds_time_interval := v\<rparr>)),
      cmd ''leds_off_timeout'' ''Set leds Off timeout (arg0: value in ms)''
        ''Leds Off timeout, ms'' (CTYPE_UINT32 leds_off_timeout (\<lambda>v s. s\<lparr>leds_off_timeout := v\<rparr>)),
      cmd ''leds_on_value'' ''Set leds On PWM value (arg0: value)''
        ''Leds On value'' (CTYPE_UINT8 led_on_value (\<lambda>v s. s\<lparr>led_on_value := v\<rparr>)),
      cmd ''leds_off_value'' ''Set leds Off PWM value (arg0: value)''
        ''Leds Off value'' (CTYPE_UINT8 led_off_value (\<lambda>v s. s\<lparr>led_off_value := v\<rparr>)),
      cmd ''leds_on_step'' ''Set leds On step size (arg0: value)''
        ''Leds On step'' (CTYPE_UINT8 led_on_step (\<lambda>v s. s\<lparr>led_on_step := v\<rparr>)),
      cmd ''leds_off_step'' ''Set leds Off step size (arg0: value)''
        ''Leds Off step'' (CTYPE_UINT8 led_off_step (\<lambda>v s. s\<lparr>led_off_step := v\<rparr>)),
      cmd ''em_state'' ''Set state of emergency leds (arg0: 0 - disable, 1 - enable)''
        ''Emergency leds'' (CTYPE_BOOL use_emergency (\<lambda>v s. s\<lparr>use_emergency := v\<rparr>)),
      cmd ''em_block_time'' ''Set emergency leds blocking time (after SECOND sensor triggered) (arg0: value ms)''
        ''Emergency blocking time, ms'' (CTYPE_UINT32 emergency_block_ms (\<lambda>v s. s\<lparr>emergency_block_ms := v\<rparr>)),
      cmd ''em_up_cnt'' ''Set emergency UP leds count (arg0: value)''
        ''Emergency UP leds count'' (emergency_command EMERGENCY_UP),
      cmd ''em_down_cnt'' ''Set emergency DOWN leds count (arg0: value)''
        ''Emergency DOWN leds count'' (emergency_command EMERGENCY_DOWN),
      cmd ''ssid'' ''Set wifi SSID (arg0: SSID string, applied after restart)''
        ''WiFi SSID'' (CTYPE_STRING ssid (\<lambda>v s. s\<lparr>ssid := v\<rparr>) SSID_MAX_LEN False),
      cmd ''pass'' ''Set wifi PASS (arg0: PASS string, 8+ chars, applied after restart)''
        ''WiFi PASS'' (CTYPE_STRING pass (\<lambda>v s. s\<lparr>pass := v\<rparr>) PASS_MAX_LEN True)]"

section \<open>Setting a value\<close>

text \<open>\<open>strtoul\<close> stops at the first character that is no digit; \<open>errno\<close> is not read.\<close>

definition parse_uint :: "string \<Rightarrow> u32 \<Rightarrow> err_code + u32" where
  "parse_uint str max_val =
     (if str = [] \<or> \<not> is_digit (hd str) then Inl ERR_PARAM_INVALID
      else let val = snd (strtoul str)
           in if dropWhile is_digit str \<noteq> [] \<or> val > max_val then Inl ERR_PARAM_INVALID else Inr val)"

definition setting_text :: "command_type \<Rightarrow> settings \<Rightarrow> string" where
  "setting_text t s =
     (case t of
        CTYPE_UINT32 get _ \<Rightarrow> dec_digits (unat (get s))
      | CTYPE_UINT16 get _ \<Rightarrow> dec_digits (unat (get s))
      | CTYPE_UINT8 get _ \<Rightarrow> dec_digits (unat (get s))
      | CTYPE_BOOL get _ \<Rightarrow> if get s then ''yes'' else ''no''
      | CTYPE_STRING get _ _ secret \<Rightarrow> if secret then ''********'' else cstr (get s))"

definition newline :: string where "newline = [CHR 0x0A]"

definition print_setting :: "setting_command \<Rightarrow> settings \<Rightarrow> string" where
  "print_setting c s = cmd_label c @ '': '' @ setting_text (cmd_type c) s @ newline"

definition is_string :: "command_type \<Rightarrow> bool" where
  "is_string t = (case t of CTYPE_STRING _ _ _ _ \<Rightarrow> True | _ \<Rightarrow> False)"

text \<open>The switch of \<open>set_setting\<close>: the copy of the settings with the new value in its field.\<close>

definition store_setting :: "command_type \<Rightarrow> string \<Rightarrow> settings \<Rightarrow> err_code + settings" where
  "store_setting t arg s =
     (case t of
        CTYPE_UINT32 _ put \<Rightarrow>
          (case parse_uint arg 0xFFFFFFFF of Inl e \<Rightarrow> Inl e | Inr val \<Rightarrow> Inr (put val s))
      | CTYPE_UINT16 _ put \<Rightarrow>
          (case parse_uint arg 0xFFFF of Inl e \<Rightarrow> Inl e | Inr val \<Rightarrow> Inr (put (ucast val) s))
      | CTYPE_UINT8 _ put \<Rightarrow>
          (case parse_uint arg 0xFF of Inl e \<Rightarrow> Inl e | Inr val \<Rightarrow> Inr (put (ucast val) s))
      | CTYPE_BOOL _ put \<Rightarrow>
          (case parse_uint arg 1 of Inl e \<Rightarrow> Inl e | Inr val \<Rightarrow> Inr (put (val \<noteq> 0) s))
      | CTYPE_STRING get put n _ \<Rightarrow>
          if length arg \<ge> n then Inl ERR_PARAM_INVALID else Inr (put (strcpy (get s) arg) s))"

definition invalid_argument :: string where
  "invalid_argument = ''Invalid argument'' @ newline"

definition set_setting ::
    "flash_hw \<Rightarrow> setting_command \<Rightarrow> string list \<Rightarrow> settings_store \<Rightarrow> string \<times> settings_store" where
  "set_setting hw c args st =
     (case args of
        [arg] \<Rightarrow>
          (case store_setting (cmd_type c) arg (global_settings st) of
             Inl e \<Rightarrow> (invalid_argument, st)
           | Inr new_settings \<Rightarrow>
               if settings_validate (Some new_settings) \<noteq> ERR_SUCCESS then (invalid_argument, st)
               else
                 let (err, st1) = settings_apply hw (Some new_settings) st
                 in if err \<noteq> ERR_SUCCESS then (invalid_argument, st1)
                    else (print_setting c (global_settings st1) @
                          (if is_string (cmd_type c)
                           then ''Need to restart device to apply new WiFi settings'' @ newline else []),
                          st1))
      | _ \<Rightarrow> (invalid_argument, st))"

section \<open>The other commands\<close>

text \<open>\<open>set_default\<close> also gives the delay it passes to \<open>reboot_request\<close>, if it does.\<close>

definition set_default :: "flash_hw \<Rightarrow> settings_store \<Rightarrow> u32 option \<times> settings_store" where
  "set_default hw st = (let (err, restart, st1) = settings_default hw True st in (restart, st1))"

definition set_wifi_state ::
    "flash_hw \<Rightarrow> string list \<Rightarrow> settings_store \<Rightarrow> string \<times> settings_store" where
  "set_wifi_state hw args st =
     (case args of
        [arg] \<Rightarrow>
          (case parse_uint arg 1 of
             Inl e \<Rightarrow> (invalid_argument, st)
           | Inr val \<Rightarrow>
               let (err, st1) = settings_write hw
                     (st\<lparr>global_settings := (global_settings st)\<lparr>ap_state := (val \<noteq> 0)\<rparr>\<rparr>)
               in if err \<noteq> ERR_SUCCESS then (invalid_argument, st1)
                  else (''WiFi AP: '' @ (if ap_state (global_settings st1) then ''on'' else ''off'') @ newline,
                        st1))
      | _ \<Rightarrow> (invalid_argument, st))"

text \<open>One line of the report, with its tabulator.\<close>

definition report_line :: "string \<Rightarrow> string \<Rightarrow> string \<Rightarrow> string" where
  "report_line label v unit_text = CHR 0x09 # label @ '': '' @ v @ unit_text @ newline"

definition yes_no :: "bool \<Rightarrow> string" where "yes_no b = (if b then ''yes'' else ''no'')"
definition enabled :: "bool \<Rightarrow> string" where "enabled b = (if b then ''Enabled'' else ''Disabled'')"

definition get_status :: "status \<Rightarrow> settings \<Rightarrow> 'p network \<Rightarrow> string" where
  "get_status stat s net =
     (let u32_text = (\<lambda>v :: u32. dec_digits (unat v)); u16_text = (\<lambda>v :: u16. dec_digits (unat v));
          u8_text = (\<lambda>v :: u8. dec_digits (unat v))
      in ''People detected: '' @ dec_int (people_count stat) @ newline @
         ''Light sensor: '' @ enabled (use_light_sensor s) @ newline @
         report_line ''Current state'' (if light_state stat then ''Day'' else ''Night'') [] @
         report_line ''Current light'' (u32_text (light_value stat)) [] @
         report_line ''Day value'' (u32_text (light_sensor_day_value s)) [] @
         report_line ''Night value'' (u32_text (light_sensor_night_value s)) [] @
         ''Sensors:'' @ newline @
         report_line ''Trigger UP FIRST'' (u16_text (dist_trigger s STAIRWAY_SENS_UP_FIRST)) '' mm'' @
         report_line ''Trigger UP SECOND'' (u16_text (dist_trigger s STAIRWAY_SENS_UP_SECOND)) '' mm'' @
         report_line ''Trigger DOWN FIRST'' (u16_text (dist_trigger s STAIRWAY_SENS_DOWN_FIRST)) '' mm'' @
         report_line ''Trigger DOWN SECOND'' (u16_text (dist_trigger s STAIRWAY_SENS_DOWN_SECOND)) '' mm'' @
         report_line ''Debounce time'' (u32_text (sensor_debouce_time s)) '' ms'' @
         report_line ''Swap UP'' (yes_no (sensor_up_swap s)) [] @
         report_line ''Swap DOWN'' (yes_no (sensor_down_swap s)) [] @
         ''Leds:'' @ newline @
         report_line ''Leds count'' (u32_text (led_count s)) [] @
         report_line ''On/off interval'' (u32_text (leds_time_interval s)) '' ms'' @
         report_line ''Off timeout'' (u32_text (leds_off_timeout s)) '' ms'' @
         report_line ''On value'' (u8_text (led_on_value s)) [] @
         report_line ''On step'' (u8_text (led_on_step s)) [] @
         report_line ''Off value'' (u8_text (led_off_value s)) [] @
         report_line ''Off step'' (u8_text (led_off_step s)) [] @
         ''Emergency leds: '' @ enabled (use_emergency s) @ newline @
         report_line ''Emergency up count'' (u32_text (emergency_cnt s EMERGENCY_UP)) [] @
         report_line ''Emergency down leds count'' (u32_text (emergency_cnt s EMERGENCY_DOWN)) [] @
         report_line ''Emergency block'' (u32_text (emergency_block_ms s)) '' ms'' @
         ''WiFi AP: '' @ (if net_ap_get_state net then ''Started'' else ''Stopped'') @ newline @
         report_line ''SSID'' (cstr (ssid s)) [])"

section \<open>The program on the console\<close>

text \<open>The functions that are bound, with their contexts.\<close>

datatype console_command =
    Cmd_status
  | Cmd_default
  | Cmd_wifi
  | Cmd_setting setting_command

text \<open>
  What the commands read and change of the program: the settings, the state of the main loop,
  the network and the delay of the last restart that was requested.
\<close>

record 'p command_world =
  con_store :: settings_store
  con_status :: status
  con_network :: "'p network"
  con_reboot :: "u32 option"

definition command_run ::
    "flash_hw \<Rightarrow> console_command \<Rightarrow> string list \<Rightarrow> 'p command_world \<Rightarrow> string \<times> 'p command_world" where
  "command_run hw f args w =
     (case f of
        Cmd_status \<Rightarrow> (get_status (con_status w) (global_settings (con_store w)) (con_network w), w)
      | Cmd_default \<Rightarrow>
          let (restart, st) = set_default hw (con_store w)
          in ([], w\<lparr>con_store := st,
                    con_reboot := (case restart of None \<Rightarrow> con_reboot w | Some d \<Rightarrow> Some d)\<rparr>)
      | Cmd_wifi \<Rightarrow>
          let (printed, st) = set_wifi_state hw args (con_store w) in (printed, w\<lparr>con_store := st\<rparr>)
      | Cmd_setting c \<Rightarrow>
          let (printed, st) = set_setting hw c args (con_store w) in (printed, w\<lparr>con_store := st\<rparr>))"

definition console_app :: "flash_hw \<Rightarrow> (console_command, 'p command_world) app" where
  "console_app hw f args w = map_option (\<lambda>ts. command_run hw f ts w) (tokens_of args)"

interpretation cmds: console_program "console_app hw" "command_run hw"
  by unfold_locales (simp add: console_app_def)

text \<open>The commands in the order in which they are bound: name, help and function.\<close>

fun add_commands ::
    "(string \<times> string \<times> console_command) list \<Rightarrow> console_command embedded_cli option \<Rightarrow>
      err_code \<times> console_command embedded_cli option" where
  "add_commands [] c = (ERR_SUCCESS, c)"
| "add_commands ((name, h, f) # cs) c =
     (let (err, c1) = cli_add_command name h f c
      in if err \<noteq> ERR_SUCCESS then (err, c1) else add_commands cs c1)"

definition console_commands :: "(string \<times> string \<times> console_command) list" where
  "console_commands =
     [(''status'', ''Get system status'', Cmd_status),
      (''default'', ''Restore default settings (no args)'', Cmd_default),
      (''wifi'', ''Set wifi state (arg0: 0 - wifi off, 1 - wifi on)'', Cmd_wifi)] @
     map (\<lambda>c. (cmd_name c, cmd_help c, Cmd_setting c)) setting_commands"

definition commands_init :: "bool \<Rightarrow> err_code \<times> console_command embedded_cli option" where
  "commands_init malloc_ok =
     (let (err, c) = cli_init malloc_ok (length setting_commands + 3)
      in if err \<noteq> ERR_SUCCESS then (err, c) else add_commands console_commands c)"

section \<open>Numbers of the console\<close>

text \<open>
  What a digit string stands for on the console: \<open>strtoul\<close> saturates at \<open>ULONG_MAX\<close>, and
  \<open>parse_uint\<close> does not read \<open>errno\<close>.
\<close>

definition console_number :: "string \<Rightarrow> nat" where
  "console_number str = min (dec_value str) (2 ^ 32 - 1)"

definition number_string :: "string \<Rightarrow> bool" where
  "number_string str \<longleftrightarrow> str \<noteq> [] \<and> list_all is_digit str"

lemma strtoul_digits:
  assumes "number_string str"
  shows "snd (strtoul str) = of_nat (console_number str)"
proof -
  have str: "str \<noteq> []" "\<forall>c \<in> set str. is_digit c"
    using assms by (auto simp: number_string_def list_all_iff)
  then obtain c cs where c: "str = c # cs" "is_digit c" by (cases str) auto
  then have "\<not> is_space c" "c \<noteq> CHR ''-''" "c \<noteq> CHR ''+''"
    using digit_not(1,4,5) by metis+
  moreover have "takeWhile is_digit str = str" using str(2) by (simp add: takeWhile_eq_all_conv)
  ultimately show ?thesis
    using c(1) by (auto simp: strtoul_def Let_def console_number_def min_def not_le)
qed

lemma parse_uint_eq:
  "parse_uint str max_val =
     (if number_string str \<and> console_number str \<le> unat max_val
      then Inr (of_nat (console_number str)) else Inl ERR_PARAM_INVALID)"
proof (cases "number_string str")
  case True
  then have "str \<noteq> []" "is_digit (hd str)" "dropWhile is_digit str = []"
    by (auto simp: number_string_def list_all_iff dropWhile_eq_Nil_conv)
  moreover have "console_number str < 2 ^ 32" by (simp add: console_number_def)
  then have "unat (of_nat (console_number str) :: u32) = console_number str"
    by (simp add: unat_of_nat)
  then have "(of_nat (console_number str) > max_val) \<longleftrightarrow> \<not> console_number str \<le> unat max_val"
    by (auto simp: word_less_nat_alt not_le)
  ultimately show ?thesis
    using True by (simp add: parse_uint_def strtoul_digits Let_def)
next
  case False
  then have "str = [] \<or> dropWhile is_digit str \<noteq> []"
    by (auto simp: number_string_def list_all_iff dropWhile_eq_Nil_conv)
  then show ?thesis using False by (auto simp: parse_uint_def Let_def)
qed

section \<open>Setting a value\<close>

text \<open>The numbers a field can hold; a string field holds none. Storing one.\<close>

definition number_max :: "command_type \<Rightarrow> nat option" where
  "number_max t =
     (case t of CTYPE_UINT32 _ _ \<Rightarrow> Some (2 ^ 32 - 1) | CTYPE_UINT16 _ _ \<Rightarrow> Some (2 ^ 16 - 1)
      | CTYPE_UINT8 _ _ \<Rightarrow> Some (2 ^ 8 - 1) | CTYPE_BOOL _ _ \<Rightarrow> Some 1
      | CTYPE_STRING _ _ _ _ \<Rightarrow> None)"

definition put_number :: "command_type \<Rightarrow> nat \<Rightarrow> settings \<Rightarrow> settings" where
  "put_number t n s =
     (case t of CTYPE_UINT32 _ put \<Rightarrow> put (of_nat n) s | CTYPE_UINT16 _ put \<Rightarrow> put (of_nat n) s
      | CTYPE_UINT8 _ put \<Rightarrow> put (of_nat n) s | CTYPE_BOOL _ put \<Rightarrow> put (n \<noteq> 0) s
      | CTYPE_STRING _ _ _ _ \<Rightarrow> s)"

text \<open>The value of a field, a number or the bytes of a string.\<close>

definition field_value :: "command_type \<Rightarrow> settings \<Rightarrow> nat + string" where
  "field_value t s =
     (case t of CTYPE_UINT32 get _ \<Rightarrow> Inl (unat (get s)) | CTYPE_UINT16 get _ \<Rightarrow> Inl (unat (get s))
      | CTYPE_UINT8 get _ \<Rightarrow> Inl (unat (get s)) | CTYPE_BOOL get _ \<Rightarrow> Inl (of_bool (get s))
      | CTYPE_STRING get _ _ _ \<Rightarrow> Inr (get s))"

lemma store_number:
  assumes "number_max t = Some m"
  shows "store_setting t arg s =
     (if number_string arg \<and> console_number arg \<le> m
      then Inr (put_number t (console_number arg) s) else Inl ERR_PARAM_INVALID)"
proof -
  have ucasts: "ucast (of_nat n :: u32) = (of_nat n :: u16)" "ucast (of_nat n :: u32) = (of_nat n :: u8)"
    for n :: nat by (transfer; simp add: take_bit_of_nat min_def)+
  have one: "(of_nat n :: u32) \<noteq> 0 \<longleftrightarrow> n \<noteq> 0" if "n \<le> 1" for n
    using that by (cases n) auto
  show ?thesis
    using assms
    by (cases t) (auto simp: number_max_def store_setting_def parse_uint_eq put_number_def ucasts one)
qed

text \<open>Every accessor of the table reads back what it wrote and leaves the other fields alone.\<close>

definition field_ok :: "setting_command \<Rightarrow> bool" where
  "field_ok c =
     (let others = (\<lambda>s s'. settings_wf s' = settings_wf s \<and>
            (\<forall>c' \<in> set setting_commands. cmd_name c' \<noteq> cmd_name c \<longrightarrow>
               field_value (cmd_type c') s' = field_value (cmd_type c') s))
      in case cmd_type c of
           CTYPE_UINT32 get put \<Rightarrow> \<forall>v s. get (put v s) = v \<and> others s (put v s)
         | CTYPE_UINT16 get put \<Rightarrow> \<forall>v s. get (put v s) = v \<and> others s (put v s)
         | CTYPE_UINT8 get put \<Rightarrow> \<forall>v s. get (put v s) = v \<and> others s (put v s)
         | CTYPE_BOOL get put \<Rightarrow> \<forall>v s. get (put v s) = v \<and> others s (put v s)
         | CTYPE_STRING get put n _ \<Rightarrow> 0 < n \<and> (\<forall>s. settings_wf s \<longrightarrow> length (get s) = n) \<and>
             (\<forall>v s. get (put v s) = v \<and> (length v = length (get s) \<longrightarrow> others s (put v s))))"

lemma setting_commands_ok: "\<forall>c \<in> set setting_commands. field_ok c"
  by (simp add: setting_commands_def cmd_def field_ok_def field_value_def settings_wf_def Let_def
      dist_command_def emergency_command_def)

text \<open>What the switch of \<open>set_setting\<close> does to the copy of the settings.\<close>

lemma store_setting_cases:
  assumes "store_setting (cmd_type c) arg s = Inr s'" and "c \<in> set setting_commands"
    and "settings_wf s"
  shows "settings_wf s'"
    and "c' \<in> set setting_commands \<Longrightarrow> cmd_name c' \<noteq> cmd_name c \<Longrightarrow>
      field_value (cmd_type c') s' = field_value (cmd_type c') s"
proof -
  have ok: "field_ok c" using assms(2) setting_commands_ok by blast
  have "settings_wf s' \<and> (\<forall>c' \<in> set setting_commands. cmd_name c' \<noteq> cmd_name c \<longrightarrow>
      field_value (cmd_type c') s' = field_value (cmd_type c') s)"
  proof (cases "number_max (cmd_type c)")
    case (Some m)
    then have "s' = put_number (cmd_type c) (console_number arg) s"
      using assms(1) store_number [OF Some] by (auto split: if_splits)
    then show ?thesis
      using ok assms(3) Some
      by (cases "cmd_type c") (simp_all add: put_number_def field_ok_def number_max_def Let_def)
  next
    case None
    then show ?thesis
      using ok assms(1,3)
      by (cases "cmd_type c")
        (auto simp: number_max_def store_setting_def field_ok_def Let_def length_strcpy split: if_splits)
  qed
  then show "settings_wf s'" and "c' \<in> set setting_commands \<Longrightarrow> cmd_name c' \<noteq> cmd_name c \<Longrightarrow>
      field_value (cmd_type c') s' = field_value (cmd_type c') s" by blast+
qed

lemma stamp_field_value:
  assumes "c \<in> set setting_commands"
  shows "field_value (cmd_type c) (stamp s) = field_value (cmd_type c) s"
    and "setting_text (cmd_type c) (stamp s) = setting_text (cmd_type c) s"
  using assms
  by (auto simp: setting_commands_def cmd_def field_value_def setting_text_def dist_command_def
      emergency_command_def stamp_def stamp_header_def Let_def)

lemma put_number_text:
  assumes "field_ok c" and "number_max (cmd_type c) = Some m" and "n \<le> m"
  shows "setting_text (cmd_type c) (put_number (cmd_type c) n s) =
    (if m = 1 then yes_no (n = 1) else dec_digits n)"
  using assms
  by (cases "cmd_type c")
    (auto simp: number_max_def setting_text_def put_number_def field_ok_def Let_def unat_of_nat yes_no_def)

lemma set_setting_one:
  "set_setting hw c [arg] st =
     (case store_setting (cmd_type c) arg (global_settings st) of
        Inl e \<Rightarrow> (invalid_argument, st)
      | Inr s' \<Rightarrow>
          if settings_valid s' then
            (case settings_apply hw (Some s') st of (err, st1) \<Rightarrow>
               if err \<noteq> ERR_SUCCESS then (invalid_argument, st1)
               else (print_setting c (global_settings st1) @
                      (if is_string (cmd_type c)
                       then ''Need to restart device to apply new WiFi settings'' @ newline else []), st1))
          else (invalid_argument, st))"
  by (simp add: set_setting_def Let_def split: sum.splits prod.splits)

lemma print_setting_not_invalid:
  "c \<in> set setting_commands \<Longrightarrow> print_setting c s @ r \<noteq> invalid_argument"
  by (auto simp: setting_commands_def cmd_def print_setting_def invalid_argument_def)

lemma set_setting_outcome:
  assumes "settings_wf (global_settings st)" and "c \<in> set setting_commands"
    and "set_setting hw c args st = (out, st')"
  shows "settings_wf (global_settings st') \<and>
     (\<forall>c' \<in> set setting_commands. cmd_name c' \<noteq> cmd_name c \<longrightarrow>
        field_value (cmd_type c') (global_settings st') = field_value (cmd_type c') (global_settings st)) \<and>
     (st' = st \<and> out = invalid_argument \<or>
      settings_valid (global_settings st') \<and>
      (out \<noteq> invalid_argument \<longrightarrow>
         flash_target hw (flash st') = settings_bytes (global_settings st')))"
proof (cases "\<exists>arg s'. args = [arg] \<and> store_setting (cmd_type c) arg (global_settings st) = Inr s' \<and>
    settings_valid s'")
  case True
  then obtain arg s' where args: "args = [arg]" and valid: "settings_valid s'"
    and s': "store_setting (cmd_type c) arg (global_settings st) = Inr s'" by blast
  obtain err st1 where st1: "settings_apply hw (Some s') st = (err, st1)" by (cases "settings_apply hw (Some s') st")
  have applied: "global_settings st1 = stamp s'"
      "err = ERR_SUCCESS \<longrightarrow> flash_target hw (flash st1) = settings_bytes (global_settings st1)"
    using settings_apply_outcome [OF st1] valid by auto
  have "st' = st1" "out \<noteq> invalid_argument \<longrightarrow> err = ERR_SUCCESS"
    using assms(3) by (auto simp: args set_setting_one s' valid st1 split: if_splits)
  then show ?thesis
    using applied valid store_setting_cases [OF s' assms(2,1)] by (simp add: stamp_field_value)
next
  case False
  then have "out = invalid_argument \<and> st' = st"
    using assms(3) by (auto simp: set_setting_def split: list.splits sum.splits if_splits)
  then show ?thesis using assms(1) by simp
qed

text \<open>
  C24: whatever is typed behind a settings command of the console, the active settings stay
  inside their fields, the field of no other command changes, and they change only to valid ones;
  whenever the command does not answer \<open>Invalid argument\<close>, the flash holds them.
\<close>

theorem set_setting_safe:
  assumes "settings_wf (global_settings st)" and "c \<in> set setting_commands"
    and "set_setting hw c args st = (out, st')"
  shows "settings_wf (global_settings st') \<and>
     (\<forall>c' \<in> set setting_commands. cmd_name c' \<noteq> cmd_name c \<longrightarrow>
        field_value (cmd_type c') (global_settings st') = field_value (cmd_type c') (global_settings st)) \<and>
     (st' = st \<and> out = invalid_argument \<or>
      settings_valid (global_settings st') \<and>
      (out \<noteq> invalid_argument \<longrightarrow>
         flash_target hw (flash st') = settings_bytes (global_settings st')))"
  by (rule set_setting_outcome [OF assms])

theorem set_setting_safe_witness:
  "let st = \<lparr>global_settings = default_settings, flash = (\<lambda>_. 0xFF)\<rparr>;
       c = cmd ''leds_count'' ''Set leds count (arg0: value)'' ''Leds count'' (CTYPE_UINT32 led_count (\<lambda>v s. s\<lparr>led_count := v\<rparr>));
       after = (\<lambda>arg. global_settings (snd (set_setting (nor_flash True True) c [arg] st)));
       ok = (\<lambda>s. settings_valid s \<and> led_on_value s = led_on_value default_settings)
   in ok (after ''1001'') \<and> ok (after ''12'') \<and> ok (after ''x'') \<and> ok (after [])"
proof -
  let ?st = "\<lparr>global_settings = default_settings, flash = (\<lambda>_. 0xFF :: u8)\<rparr>"
  let ?c = "cmd ''leds_count'' ''Set leds count (arg0: value)'' ''Leds count'' (CTYPE_UINT32 led_count (\<lambda>v s. s\<lparr>led_count := v\<rparr>))"
  let ?d = "cmd ''leds_on_value'' ''Set leds On PWM value (arg0: value)'' ''Leds On value'' (CTYPE_UINT8 led_on_value (\<lambda>v s. s\<lparr>led_on_value := v\<rparr>))"
  have c: "?c \<in> set setting_commands" "?d \<in> set setting_commands"
    by (simp_all add: setting_commands_def)
  have "settings_valid s' \<and> led_on_value s' = led_on_value default_settings"
    if "s' = global_settings (snd (set_setting (nor_flash True True) ?c [arg] ?st))" for arg s'
  proof -
    obtain out st' where o: "set_setting (nor_flash True True) ?c [arg] ?st = (out, st')"
      by (cases "set_setting (nor_flash True True) ?c [arg] ?st")
    have "field_value (cmd_type ?d) (global_settings st') = field_value (cmd_type ?d) default_settings"
      using set_setting_safe [OF _ c(1) o] c(2) by (auto simp: cmd_def)
    then have "led_on_value (global_settings st') = led_on_value default_settings"
      by (simp add: cmd_def field_value_def unsigned_word_eqI)
    moreover have "settings_valid (global_settings st')"
      using set_setting_safe [OF _ c(1) o] by auto
    ultimately show ?thesis using that o by simp
  qed
  then show ?thesis unfolding Let_def by blast
qed

text \<open>
  C25: on working flash a numeric settings command accepts exactly the digit strings whose
  saturated value fits the field and gives valid settings; then the number is shown, stored
  in RAM and in flash. So \<open>99999999999\<close> is accepted for a 32 bit field, as 4294967295.
\<close>

theorem set_setting_number:
  assumes "flash_laws hw" and "erase_rc_ok hw" and "program_rc_ok hw"
    and "settings_wf (global_settings st)" and "c \<in> set setting_commands"
    and "number_max (cmd_type c) = Some m"
  shows "let n = console_number arg; s' = put_number (cmd_type c) n (global_settings st);
           (out, st') = set_setting hw c [arg] st
         in if number_string arg \<and> n \<le> m \<and> settings_valid s'
            then out = cmd_label c @ '': '' @ (if m = 1 then yes_no (n = 1) else dec_digits n) @ newline \<and>
                 global_settings st' = stamp s' \<and> flash_target hw (flash st') = settings_bytes (stamp s')
            else out = invalid_argument \<and> st' = st"
proof (cases "number_string arg \<and> console_number arg \<le> m \<and>
    settings_valid (put_number (cmd_type c) (console_number arg) (global_settings st))")
  case True
  let ?s' = "put_number (cmd_type c) (console_number arg) (global_settings st)"
  have store: "store_setting (cmd_type c) arg (global_settings st) = Inr ?s'"
    using True store_number [OF assms(6)] by simp
  have "settings_wf (global_settings (st\<lparr>global_settings := ?s'\<rparr>))"
    using store_setting_cases(1) [OF store assms(5,4)] by simp
  note written = settings_write_succeeds [OF assms(1-3) this]
  obtain st1 where st1: "settings_apply hw (Some ?s') st = (ERR_SUCCESS, st1)"
      "flash_target hw (flash st1) = settings_bytes (stamp ?s')" "global_settings st1 = stamp ?s'"
    using written True settings_write_global [of hw "st\<lparr>global_settings := ?s'\<rparr>"]
    by (cases "settings_write hw (st\<lparr>global_settings := ?s'\<rparr>)") (simp add: settings_apply_def)
  have "\<not> is_string (cmd_type c)"
    using assms(6) by (cases "cmd_type c") (simp_all add: is_string_def number_max_def)
  moreover have "field_ok c" using assms(5) setting_commands_ok by blast
  ultimately show ?thesis
    using True st1 put_number_text [OF _ assms(6), of "console_number arg"]
    by (simp add: set_setting_one store print_setting_def stamp_field_value(2) [OF assms(5)])
next
  case False
  then show ?thesis
    by (auto simp: set_setting_one store_number [OF assms(6)] Let_def)
qed

theorem set_setting_number_witness:
  "let st = \<lparr>global_settings = default_settings, flash = (\<lambda>_. 0xFF)\<rparr>;
       c = cmd ''light_day'' ''Set day light value (arg0: value)'' ''Day light value''
             (CTYPE_UINT32 light_sensor_day_value (\<lambda>v s. s\<lparr>light_sensor_day_value := v\<rparr>));
       (out, st') = set_setting (nor_flash True True) c [''99999999999''] st
   in out = ''Day light value: 4294967295'' @ newline \<and>
      light_sensor_day_value (global_settings st') = 0xFFFFFFFF"
proof -
  let ?st = "\<lparr>global_settings = default_settings, flash = (\<lambda>_. 0xFF :: u8)\<rparr>"
  let ?c = "cmd ''light_day'' ''Set day light value (arg0: value)'' ''Day light value''
      (CTYPE_UINT32 light_sensor_day_value (\<lambda>v s. s\<lparr>light_sensor_day_value := v\<rparr>))"
  have c: "?c \<in> set setting_commands" "number_max (cmd_type ?c) = Some (2 ^ 32 - 1)"
    by (simp_all add: setting_commands_def number_max_def cmd_def)
  have n: "number_string ''99999999999'' \<and> console_number ''99999999999'' = 4294967295"
    by (simp add: number_string_def is_digit_def console_number_def dec_value_def)
  have put: "put_number (cmd_type ?c) 4294967295 default_settings =
      default_settings\<lparr>light_sensor_day_value := 0xFFFFFFFF\<rparr>"
    by (simp add: put_number_def cmd_def)
  have valid: "settings_valid (default_settings\<lparr>light_sensor_day_value := 0xFFFFFFFF\<rparr>)"
    by (simp add: settings_validate_def default_settings_def cbuf_def Let_def strnlen_def cstr_def)
  have digits: "dec_digits 4294967295 = ''4294967295''"
    by (simp add: dec_digits.simps char_of_def bit_Suc_0_iff)
  show ?thesis
    using set_setting_number [OF nor_flash_laws, of True True ?st ?c "2 ^ 32 - 1" "''99999999999''"]
      c n put valid digits
    by (auto simp: nor_flash_def Let_def cmd_def stamp_def stamp_header_def)
qed


end
