(* ===== verification/Console_Program.thy ===== *)
theory Console_Program
  imports Commands
begin

text \<open>
  The console of the program as a whole: the characters of the USB connection go through
  \<open>cli_putchar\<close> into the library, the library runs the commands, the commands change the
  settings. The theorems are about every sequence of characters.
\<close>

section \<open>The bound commands\<close>

definition help_binding :: "'f cli_binding" where
  "help_binding = \<lparr>bind_name = ''help'', bind_help = Some ''Print list of commands'',
                   tokenize_args = True, bind_fun = Some On_help\<rparr>"

definition command_binding :: "string \<times> string \<times> 'f \<Rightarrow> 'f cli_binding" where
  "command_binding e =
     (case e of (name, h, f) \<Rightarrow>
        \<lparr>bind_name = name, bind_help = Some h, tokenize_args = True, bind_fun = Some (App f)\<rparr>)"

definition console_bindings :: "console_command cli_binding list" where
  "console_bindings = help_binding # map command_binding console_commands"

definition name_ok :: "string \<Rightarrow> bool" where
  "name_ok n \<longleftrightarrow> n \<noteq> [] \<and> NUL \<notin> set n \<and> length n \<le> 61 \<and> space \<notin> set n"

lemma add_commands_ok:
  "setup_ok c \<Longrightarrow> cli_shows c s \<Longrightarrow> length (bindings c) + length cs \<le> max_bindings c \<Longrightarrow>
     \<forall>e \<in> set cs. name_ok (fst e) \<Longrightarrow>
     \<exists>c'. add_commands cs (Some c) = (ERR_SUCCESS, Some c') \<and> setup_ok c' \<and> cli_shows c' s \<and>
       bindings c' = bindings c @ map command_binding cs \<and> max_bindings c' = max_bindings c"
proof (induction cs arbitrary: c)
  case (Cons e cs)
  obtain name h f where e: "e = (name, h, f)" by (cases e) auto
  have n: "name \<noteq> []" "NUL \<notin> set name" "length name \<le> 61" using Cons.prems(4) by (auto simp: e name_ok_def)
  have room: "length (bindings c) < max_bindings c" using Cons.prems(3) by simp
  obtain c1 where c1: "cli_add_command name h f (Some c) = (ERR_SUCCESS, Some c1)" "setup_ok c1"
      "cli_shows c1 s" "bindings c1 = bindings c @ [command_binding e]" "max_bindings c1 = max_bindings c"
    using cli_add_command_ok [OF Cons.prems(1,2) room n, of h f] by (auto simp: e command_binding_def)
  show ?case using Cons.IH [OF c1(2,3)] Cons.prems(3,4) c1 by (simp add: e)
qed simp

lemma setting_names:
  "(\<forall>c \<in> set setting_commands. name_ok (cmd_name c)) \<and> distinct (map cmd_name setting_commands) \<and>
     length setting_commands = 23"
  by (simp add: setting_commands_def cmd_def name_ok_def)

lemma console_commands_facts:
  "length console_commands = 26" "\<forall>e \<in> set console_commands. name_ok (fst e)"
  "distinct (map bind_name console_bindings)"
proof -
  show "length console_commands = 26" by (simp add: console_commands_def setting_names)
  show "\<forall>e \<in> set console_commands. name_ok (fst e)"
    using setting_names by (auto simp: console_commands_def name_ok_def)
  have "map bind_name console_bindings =
      [''help'', ''status'', ''default'', ''wifi''] @ map cmd_name setting_commands"
    by (simp add: console_bindings_def console_commands_def help_binding_def command_binding_def comp_def)
  then show "distinct (map bind_name console_bindings)"
    by (simp add: setting_commands_def cmd_def)
qed

text \<open>
  The start-up binds the 27 commands of the console, \<open>help\<close> included, under distinct names in
  a table of exactly that size: nothing is refused, and one command more would be.
\<close>

lemma commands_init_ok:
  "\<exists>c. commands_init True = (ERR_SUCCESS, Some c) \<and> setup_ok c \<and> cli_shows c console_start \<and>
     bindings c = console_bindings \<and> max_bindings c = length console_bindings"
proof -
  obtain c :: "console_command embedded_cli" where c: "cli_init True (length setting_commands + 3) = (ERR_SUCCESS, Some c)" "setup_ok c"
      "cli_shows c console_start" "bindings c = [help_binding]" "max_bindings c = 27"
    using cli_init_ok [of "length setting_commands + 3"] setting_names by (auto simp: help_binding_def)
  then show ?thesis
    using add_commands_ok [of c console_start console_commands] console_commands_facts(1,2)
    by (simp add: commands_init_def console_bindings_def)
qed

lemma commands_init_table:
  "distinct (map bind_name console_bindings) \<and> length console_bindings = 27 \<and>
   fst (cli_add_command name h f (snd (commands_init True))) = ERR_OVERFLOW \<and>
   commands_init False = (ERR_MEM_ALLOC_FAIL, None)"
proof -
  obtain c where "commands_init True = (ERR_SUCCESS, Some c)" "bindings c = console_bindings"
      "max_bindings c = length console_bindings"
    using commands_init_ok by blast
  then show ?thesis
    using console_commands_facts
    by (simp add: cli_add_command_def embeddedCliAddBinding_def console_bindings_def commands_init_def
        cli_init_def embeddedCliNew_def Let_def)
qed

lemma find_setting:
  assumes "c \<in> set setting_commands"
  shows "find (\<lambda>b. bind_name b = cmd_name c) console_bindings =
    Some (command_binding (cmd_name c, cmd_help c, Cmd_setting c))"
proof -
  let ?b = "command_binding (cmd_name c, cmd_help c, Cmd_setting c)"
  have mem: "?b \<in> set console_bindings" and name: "bind_name ?b = cmd_name c"
    using assms by (auto simp: console_bindings_def console_commands_def command_binding_def)
  then obtain b where b: "find (\<lambda>b. bind_name b = cmd_name c) console_bindings = Some b"
    by (metis (mono_tags, lifting) find_None_iff not_Some_eq)
  then have "b \<in> set console_bindings" "bind_name b = cmd_name c" by (auto simp: find_Some_iff)
  then have "b = ?b"
    using mem name console_commands_facts(3) by (metis distinct_map inj_onD)
  with b show ?thesis by simp
qed

section \<open>The code refines the line with a cursor\<close>

text \<open>
  C13: for every sequence of characters that arrives after the start, the library never leaves one
  of its buffers, never loses a character to its ring buffer, and returns; its command
  line, its cursor and its history are those of the specification \<open>console_keys\<close>, and so is
  everything the commands have done to the settings, the network and the restart.
\<close>

theorem console_refines:
  "\<exists>c. cli_putchars (console_app hw) chs (snd (commands_init True)) w =
       Some (Some c, snd (console_keys (command_run hw) console_bindings chs console_start w)) \<and>
     cli_shows c (fst (console_keys (command_run hw) console_bindings chs console_start w)) \<and>
     \<not> flag_overflow c"
proof -
  obtain c where c: "commands_init True = (ERR_SUCCESS, Some c)" "setup_ok c" "cli_shows c console_start"
      "bindings c = console_bindings"
    using commands_init_ok by blast
  then show ?thesis
    using cmds.cli_putchars_ok [OF c(3,2), of hw chs w] by (auto simp: setup_ok_def)
qed

section \<open>The settings stay valid\<close>

definition settings_good :: "'p command_world \<Rightarrow> bool" where
  "settings_good w \<longleftrightarrow> settings_wf (global_settings (con_store w)) \<and> settings_valid (global_settings (con_store w))"

lemma settings_write_good:
  assumes "settings_write hw st = (err, st')"
  shows "settings_wf (global_settings st') = settings_wf (global_settings st)"
    and "settings_validate (Some (global_settings st')) = settings_validate (Some (global_settings st))"
  using settings_write_global [of hw st] assms by simp_all

lemma set_wifi_state_good:
  assumes "settings_wf (global_settings st)" and "settings_valid (global_settings st)"
    and "set_wifi_state hw args st = (out, st')"
  shows "settings_wf (global_settings st') \<and> settings_valid (global_settings st')"
proof -
  have ap: "settings_wf (s\<lparr>ap_state := x\<rparr>) = settings_wf s"
      "settings_validate (Some (s\<lparr>ap_state := x\<rparr>)) = settings_validate (Some s)" for s x
    by (simp_all add: settings_wf_def settings_validate_def)
  show ?thesis
    using assms settings_write_good [of hw] ap
    by (auto simp: set_wifi_state_def Let_def split: list.splits sum.splits prod.splits if_splits)
qed

lemma set_default_good:
  "set_default hw st = (r, st') \<Longrightarrow>
     settings_wf (global_settings st') \<and> settings_valid (global_settings st')"
  using settings_write_good [of hw "st\<lparr>global_settings := default_settings\<rparr>"]
  by (auto simp: set_default_def settings_default_def Let_def split: prod.splits if_splits)

lemma commands_keep_settings: "commands_keep (command_run hw) console_bindings settings_good"
proof -
  have "settings_good (snd (command_run hw f ts w))"
    if b: "b \<in> set console_bindings" "bind_fun b = Some (App f)" and w: "settings_good w" for b f ts w
  proof (cases f)
    case Cmd_status
    then show ?thesis using w by (simp add: command_run_def)
  next
    case Cmd_default
    then show ?thesis
      using set_default_good [of hw "con_store w"]
      by (auto simp: command_run_def settings_good_def split: prod.split)
  next
    case Cmd_wifi
    then show ?thesis
      using w set_wifi_state_good [of "con_store w" hw ts]
      by (auto simp: command_run_def settings_good_def split: prod.split)
  next
    case (Cmd_setting c)
    then have "c \<in> set setting_commands"
      using b by (auto simp: console_bindings_def console_commands_def command_binding_def help_binding_def)
    then show ?thesis
      using w set_setting_outcome [of "con_store w" c hw ts] Cmd_setting
      by (auto simp: command_run_def settings_good_def split: prod.split)
  qed
  then show ?thesis by (auto simp: commands_keep_def)
qed

text \<open>
  Nothing that is typed can break the program: whatever characters arrive, the console
  goes on, and settings that were valid before are valid afterwards.
\<close>

theorem console_keeps_settings:
  assumes "settings_wf (global_settings (con_store w))" and "settings_valid (global_settings (con_store w))"
  shows "\<exists>c w'. cli_putchars (console_app hw) chs (snd (commands_init True)) w = Some (Some c, w') \<and>
     settings_wf (global_settings (con_store w')) \<and> settings_valid (global_settings (con_store w'))"
proof -
  obtain c0 where c0: "commands_init True = (ERR_SUCCESS, Some c0)" "setup_ok c0" "cli_shows c0 console_start"
      "bindings c0 = console_bindings"
    using commands_init_ok by blast
  then obtain c where "cli_putchars (console_app hw) chs (snd (commands_init True)) w =
      Some (Some c, snd (console_keys (command_run hw) console_bindings chs console_start w))"
    using cmds.cli_putchars_ok [OF c0(3,2), of hw chs w] by auto
  moreover have "settings_good (snd (console_keys (command_run hw) console_bindings chs console_start w))"
    using assms by (intro console_keys_keeps [OF commands_keep_settings]) (simp add: settings_good_def)
  ultimately show ?thesis by (auto simp: settings_good_def)
qed

lemma console_keeps_settings_witness:
  "let w = \<lparr>con_store = \<lparr>global_settings = default_settings, flash = (\<lambda>_. 0xFF)\<rparr>, con_status = status_start,
            con_network = (network_start :: unit network), con_reboot = None\<rparr>
   in \<exists>c w'. cli_putchars (console_app (nor_flash True True)) (ESC # ''[Ddefault'' @ [CR, LF, DEL])
        (snd (commands_init True)) w = Some (Some c, w') \<and> settings_valid (global_settings (con_store w'))"
  using console_keeps_settings [of "\<lparr>con_store = \<lparr>global_settings = default_settings, flash = (\<lambda>_. 0xFF)\<rparr>,
        con_status = status_start, con_network = (network_start :: unit network), con_reboot = None\<rparr>"
      "nor_flash True True" "ESC # ''[Ddefault'' @ [CR, LF, DEL]"]
  by (simp add: Let_def) blast

section \<open>Setting a value by typing\<close>

lemma quote_arg_displayable: "list_all isDisplayableChar a \<Longrightarrow> list_all isDisplayableChar (quote_arg a)"
proof -
  have d: "isDisplayableChar dquote" "isDisplayableChar backslash" by (simp_all add: isDisplayableChar_def)
  show "list_all isDisplayableChar a \<Longrightarrow> list_all isDisplayableChar (quote_arg a)"
    by (auto simp: quote_arg_def list_all_iff d)
qed

lemma setting_displayable: "c \<in> set setting_commands \<Longrightarrow> list_all isDisplayableChar (cmd_name c)"
  by (auto simp: setting_commands_def cmd_def isDisplayableChar_def)

lemma console_bindings_names: "\<forall>n \<in> set (map bind_name console_bindings). space \<notin> set n"
proof -
  have "n \<in> {''help''} \<union> fst ` set console_commands" if "n \<in> set (map bind_name console_bindings)" for n
    using that by (auto simp: console_bindings_def help_binding_def command_binding_def split: prod.splits)
      (metis fst_conv image_eqI)
  then show ?thesis using console_commands_facts(2) by (fastforce simp: name_ok_def)
qed

text \<open>At a prompt, the name of a setting and a quoted value run \<open>set_setting\<close> on it.\<close>

lemma console_keys_setting:
  assumes "at_prompt s" and "c \<in> set setting_commands" and "list_all isDisplayableChar a" and "a \<noteq> []"
    and "a \<noteq> ''-h''" and "a \<noteq> ''--help''" and "length (cmd_name c) + length (quote_arg a) \<le> 61"
  shows "snd (console_keys (command_run hw) console_bindings (cmd_name c @ space # quote_arg a @ [CR]) s w) =
     w\<lparr>con_store := snd (set_setting hw c [a] (con_store w))\<rparr>"
proof -
  let ?line = "cmd_name c @ space # quote_arg a"
  have n: "name_ok (cmd_name c)" using assms(2) setting_names by blast
  have line: "list_all isDisplayableChar ?line"
    using setting_displayable [OF assms(2)] quote_arg_displayable [OF assms(3)]
    by (simp add: isDisplayableChar_def [of space])
  have len: "length ?line \<le> 62" using assms(7) by simp
  have nul: "NUL \<notin> set a" using assms(3) displayable by (auto simp: list_all_iff)
  have b: "bind_fun (command_binding (cmd_name c, cmd_help c, Cmd_setting c)) = Some (App (Cmd_setting c))"
    by (simp add: command_binding_def)
  have sp: "space \<notin> set (cmd_name c)" and ne: "cmd_name c \<noteq> []" using n by (simp_all add: name_ok_def)
  have run: "run_line (command_run hw) console_bindings ?line w = snd (command_run hw (Cmd_setting c) [a] w)"
    by (rule run_quoted [OF sp ne assms(4) nul assms(5,6) find_setting [OF assms(2)] b])
  have "line_name ?line \<noteq> []" using n quoted_line(1) [of "cmd_name c" a] by (simp add: name_ok_def)
  moreover have "completed (map bind_name console_bindings) ?line = ?line"
    by (rule completed_space [OF _ console_bindings_names]) simp
  ultimately show ?thesis
    using console_keys_enter [OF line assms(1) len, of "command_run hw" console_bindings w] run
    by (simp add: command_run_def case_prod_unfold Let_def)
qed

text \<open>
  C14: typing a setting works end to end. At an empty prompt, whatever has been typed before, the
  name of a setting, the value in quotes (quotes and backslashes in it escaped) and the return key
  run the command once, with exactly that value: the only effect is that of \<open>set_setting\<close>.
  The value is any printable text but the two that ask for help.
\<close>

theorem console_sets_setting:
  assumes "console_keys (command_run hw) console_bindings chs console_start w0 = (s, w)" and "at_prompt s"
    and "c \<in> set setting_commands" and "list_all isDisplayableChar a" and "a \<noteq> []"
    and "a \<noteq> ''-h''" and "a \<noteq> ''--help''" and "length (cmd_name c) + length (quote_arg a) \<le> 61"
  shows "\<exists>cli. cli_putchars (console_app hw) (chs @ cmd_name c @ space # quote_arg a @ [CR])
       (snd (commands_init True)) w0 =
     Some (Some cli, w\<lparr>con_store := snd (set_setting hw c [a] (con_store w))\<rparr>)"
proof -
  let ?line = "cmd_name c @ space # quote_arg a @ [CR]"
  have world: "snd (console_keys (command_run hw) console_bindings (chs @ ?line) console_start w0) =
      w\<lparr>con_store := snd (set_setting hw c [a] (con_store w))\<rparr>"
    using assms(1) console_keys_setting [OF assms(2-8), of hw w]
    by (simp add: console_keys_append [of _ _ chs])
  obtain c0 where c0: "commands_init True = (ERR_SUCCESS, Some c0)" "setup_ok c0" "cli_shows c0 console_start"
      "bindings c0 = console_bindings"
    using commands_init_ok by blast
  then show ?thesis
    using cmds.cli_putchars_ok [OF c0(3,2), of hw "chs @ ?line" w0] world by auto
qed

lemma console_sets_setting_witness:
  "let w = \<lparr>con_store = \<lparr>global_settings = default_settings, flash = (\<lambda>_. 0xFF)\<rparr>, con_status = status_start,
            con_network = (network_start :: unit network), con_reboot = None\<rparr>;
       c = cmd ''ssid'' ''Set wifi SSID (arg0: SSID string, applied after restart)'' ''WiFi SSID''
             (CTYPE_STRING ssid (\<lambda>v s. s\<lparr>ssid := v\<rparr>) SSID_MAX_LEN False);
       hw = nor_flash True True
   in \<exists>cli. cli_putchars (console_app hw) (''ssid '' @ [dquote] @ ''My Net'' @ [dquote, CR])
        (snd (commands_init True)) w =
      Some (Some cli, w\<lparr>con_store := snd (set_setting hw c [''My Net''] (con_store w))\<rparr>)"
proof -
  let ?w = "\<lparr>con_store = \<lparr>global_settings = default_settings, flash = (\<lambda>_. 0xFF)\<rparr>, con_status = status_start,
            con_network = (network_start :: unit network), con_reboot = None\<rparr>"
  let ?c = "cmd ''ssid'' ''Set wifi SSID (arg0: SSID string, applied after restart)'' ''WiFi SSID''
             (CTYPE_STRING ssid (\<lambda>v s. s\<lparr>ssid := v\<rparr>) SSID_MAX_LEN False)"
  have c: "?c \<in> set setting_commands" by (simp add: setting_commands_def)
  have start: "console_keys (command_run (nor_flash True True)) console_bindings [] console_start ?w = (console_start, ?w)"
    "at_prompt console_start"
    by (simp_all add: at_prompt_def console_start_def)
  have d: "list_all isDisplayableChar ''My Net''" by (simp add: isDisplayableChar_def)
  have q: "quote_arg ''My Net'' = [dquote] @ ''My Net'' @ [dquote]" by (simp add: quote_arg_def)
  show ?thesis
    using console_sets_setting [OF start c d] by (simp add: Let_def q cmd_def)
qed

section \<open>The factory settings by typing\<close>

lemma completed_default: "completed (map bind_name console_bindings) ''default'' = ''default'' @ [space]"
  by (simp add: console_bindings_def console_commands_def help_binding_def command_binding_def
      setting_commands_def cmd_def completed_def candidates_def)

lemma console_keys_default:
  assumes "at_prompt s"
  shows "snd (console_keys (command_run hw) console_bindings (''default'' @ [CR]) s w) =
     snd (command_run hw Cmd_default [] w)"
proof -
  have "find (\<lambda>b. bind_name b = ''default'') console_bindings =
      Some (command_binding (''default'', ''Restore default settings (no args)'', Cmd_default))"
    by (simp add: console_bindings_def console_commands_def help_binding_def command_binding_def)
  then have "run_line (command_run hw) console_bindings (''default'' @ [space]) w = snd (command_run hw Cmd_default [] w)"
    by (simp add: run_line_def line_name_def line_args_def tokens_def command_binding_def)
  moreover have "list_all isDisplayableChar ''default''" by (simp add: isDisplayableChar_def)
  ultimately show ?thesis
    using console_keys_enter [of "''default''" s "command_run hw" console_bindings w] assms completed_default
    by (simp add: line_name_def)
qed

end
