(* ===== verification/Settings_Kept.thy ===== *)
theory Settings_Kept
  imports Console_Program
begin

text \<open>
  Every way in which the program changes its settings: the button, the commands of the console and
  the requests of the web pages. Each of them leaves the store as it is, or gives it good
  settings and writes them; so valid settings stay valid, and with a flash that works the
  settings in RAM are always those that the next start restores.
\<close>

section \<open>What is kept\<close>

definition store_good :: "settings_store \<Rightarrow> bool" where
  "store_good st \<longleftrightarrow> settings_wf (global_settings st) \<and> settings_valid (global_settings st)"

text \<open>A flash that follows the laws of NOR flash and whose operations are executed.\<close>

definition flash_ok :: "flash_hw \<Rightarrow> bool" where
  "flash_ok hw \<longleftrightarrow> flash_laws hw \<and> erase_rc_ok hw \<and> program_rc_ok hw"

text \<open>A start finds exactly these settings, whatever the RAM holds.\<close>

definition restores :: "flash_hw \<Rightarrow> settings_store \<Rightarrow> bool" where
  "restores hw st \<longleftrightarrow> (\<forall>ram. settings_init hw (st\<lparr>global_settings := ram\<rparr>) = (ERR_SUCCESS, st))"

definition store_ok :: "flash_hw \<Rightarrow> settings_store \<Rightarrow> bool" where
  "store_ok hw st \<longleftrightarrow> store_good st \<and> (flash_ok hw \<longrightarrow> restores hw st)"

definition saves :: "flash_hw \<Rightarrow> settings_store \<Rightarrow> settings_store \<Rightarrow> bool" where
  "saves hw st st' \<longleftrightarrow> st' = st \<or> (\<exists>st1. store_good st1 \<and> st' = snd (settings_write hw st1))"

lemma store_good_write: "store_good st \<Longrightarrow> store_good (snd (settings_write hw st))"
  by (simp add: store_good_def settings_write_global)

lemma restores_write:
  assumes "store_good st" and "flash_ok hw"
  shows "restores hw (snd (settings_write hw st))"
proof -
  obtain st' where "settings_write hw st = (ERR_SUCCESS, st')"
    using settings_write_succeeds [of hw st] assms
    by (cases "settings_write hw st") (simp add: flash_ok_def store_good_def)
  then show ?thesis
    using settings_survive_restart [of st hw st' hw] assms(1) by (simp add: restores_def store_good_def)
qed

lemma saves_store_ok: "saves hw st st' \<Longrightarrow> store_ok hw st \<Longrightarrow> store_ok hw st'"
  by (auto simp: saves_def store_ok_def store_good_write restores_write)

lemma settings_init_store_ok: "store_ok hw (snd (settings_init hw st))"
proof -
  let ?img = "flash_target hw (flash st)"
  have good: "store_good (snd (settings_init hw st))"
    using settings_init_valid [of hw st] by (simp add: store_good_def)
  show ?thesis
  proof (cases "\<not> settings_is_valid_header ?img \<or>
      settings_validate (Some (settings_of_bytes ?img)) \<noteq> ERR_SUCCESS")
    case True
    then have "snd (settings_init hw st) = snd (settings_write hw (st\<lparr>global_settings := default_settings\<rparr>))"
      by (simp add: settings_init_def Let_def)
    moreover have "store_good (st\<lparr>global_settings := default_settings\<rparr>)" by (simp add: store_good_def)
    ultimately show ?thesis using restores_write good by (simp add: store_ok_def)
  next
    case False
    then have "restores hw (snd (settings_init hw st))"
      by (simp add: restores_def settings_init_def Let_def)
    then show ?thesis using good by (simp add: store_ok_def)
  qed
qed

section \<open>The contract of an operation on the settings\<close>

locale settings_user =
  fixes hw :: flash_hw and step :: "settings_store \<Rightarrow> settings_store"
  assumes step_saves: "store_good st \<Longrightarrow> saves hw st (step st)"
begin

lemma keeps: "store_ok hw st \<Longrightarrow> store_ok hw (step st)"
  using step_saves [of st] saves_store_ok [of hw st "step st"] by (simp add: store_ok_def)

lemma repeated: "store_ok hw st \<Longrightarrow> store_ok hw ((step ^^ n) st)"
  by (induction n) (simp_all add: keeps)

end

lemma saves_write: "store_good st1 \<Longrightarrow> saves hw st (snd (settings_write hw st1))"
  by (auto simp: saves_def)

lemma saves_same [simp]: "saves hw st st"
  by (simp add: saves_def)

lemma store_good_ap_state:
  "store_good st \<Longrightarrow> store_good (st\<lparr>global_settings := (global_settings st)\<lparr>ap_state := x\<rparr>\<rparr>)"
  by (simp add: store_good_def settings_wf_def settings_valid_iff)

interpretation button: settings_user hw "button_ap hw press"
  by unfold_locales (simp add: button_ap_def saves_write store_good_ap_state)

lemma settings_default_saves: "saves hw st (snd (snd (settings_default hw restart st)))"
  using saves_write [of "st\<lparr>global_settings := default_settings\<rparr>" hw st]
  by (simp add: settings_default_def Let_def store_good_def split_beta)

interpretation reset: settings_user hw "\<lambda>st. snd (snd (settings_default hw restart st))"
  by unfold_locales (rule settings_default_saves)

interpretation default_command: settings_user hw "\<lambda>st. snd (set_default hw st)"
  using settings_default_saves by unfold_locales (simp add: set_default_def split_beta)

lemma settings_apply_saves:
  "settings_wf s \<Longrightarrow> saves hw st (snd (settings_apply hw (Some s) st))"
  using saves_write [of "st\<lparr>global_settings := s\<rparr>" hw st]
  by (simp add: settings_apply_def Let_def store_good_def)

interpretation wifi_command: settings_user hw "\<lambda>st. snd (set_wifi_state hw args st)"
proof
  fix st :: settings_store
  assume "store_good st"
  then have "saves hw st (snd (settings_write hw
      (st\<lparr>global_settings := (global_settings st)\<lparr>ap_state := x\<rparr>\<rparr>)))" for x
    by (intro saves_write store_good_ap_state)
  then show "saves hw st (snd (set_wifi_state hw args st))"
    by (auto simp: set_wifi_state_def split_beta Let_def split: list.split sum.split)
qed

interpretation web_settings: settings_user hw "\<lambda>st. snd (set_settings_json hw json st)"
  by unfold_locales
    (auto simp: set_settings_json_def store_good_def intro!: settings_apply_saves
      dest: json_settings_wf split: option.split sum.split)

text \<open>The commands for the settings share the contract, for every row of their table.\<close>

lemma set_setting_saves:
  assumes "store_good st" and "c \<in> set setting_commands"
  shows "saves hw st (snd (set_setting hw c args st))"
proof (cases "\<exists>arg s'. args = [arg] \<and> store_setting (cmd_type c) arg (global_settings st) = Inr s'")
  case True
  then obtain arg s' where a: "args = [arg]" "store_setting (cmd_type c) arg (global_settings st) = Inr s'"
    by blast
  have "settings_wf s'"
    using store_setting_cases [OF a(2) assms(2)] assms(1) by (simp add: store_good_def)
  then have "saves hw st (snd (settings_apply hw (Some s') st))" by (rule settings_apply_saves)
  then show ?thesis by (simp add: set_setting_def a Let_def split_beta)
next
  case False
  then have "snd (set_setting hw c args st) = st"
    by (auto simp: set_setting_def split: list.split sum.split)
  then show ?thesis by simp
qed

interpretation setting_command: settings_user hw
    "\<lambda>st. if c \<in> set setting_commands then snd (set_setting hw c args st) else st"
  by unfold_locales (simp add: set_setting_saves)

lemma commands_keep_store:
  "commands_keep (command_run hw) console_bindings (\<lambda>w. store_ok hw (con_store w))"
proof -
  have "store_ok hw (con_store (snd (command_run hw f ts w)))"
    if b: "b \<in> set console_bindings" "bind_fun b = Some (App f)" and w: "store_ok hw (con_store w)" for b f ts w
  proof (cases f)
    case (Cmd_setting c)
    then have "c \<in> set setting_commands"
      using b by (auto simp: console_bindings_def console_commands_def command_binding_def help_binding_def)
    then show ?thesis
      using setting_command.keeps [OF w, of c ts] Cmd_setting by (simp add: command_run_def split_beta)
  qed (use w default_command.keeps [OF w] wifi_command.keeps [OF w, of ts] in
      \<open>simp_all add: command_run_def split_beta Let_def\<close>)
  then show ?thesis by (auto simp: commands_keep_def)
qed

section \<open>Requests\<close>

text \<open>What a request may do to the main loop: set the test mode, ask for a restart,
  change the settings, read the clock.\<close>

definition web_effect :: "flash_hw \<Rightarrow> web_world \<Rightarrow> web_world \<Rightarrow> bool" where
  "web_effect hw w w' \<longleftrightarrow>
     (store_ok hw (web_store w) \<longrightarrow> store_ok hw (web_store w')) \<and> later (web_clock w) (web_clock w') \<and>
     (\<exists>b t. web_ctl w' = (web_ctl w)\<lparr>status := (status (web_ctl w))\<lparr>test_mode := b\<rparr>, reboot_ts := t\<rparr>)"

lemma web_effect_same: "web_effect hw w w"
  by (auto simp: web_effect_def intro!: exI [of _ "test_mode (status (web_ctl w))"] exI [of _ "reboot_ts (web_ctl w)"])

lemma post_content_effect:
  assumes "post_content hw req w r h = (w', x)"
  shows "web_effect hw w w'"
proof -
  have same: "web_effect hw w (w\<lparr>web_store := st\<rparr>)" if "store_ok hw (web_store w) \<longrightarrow> store_ok hw st" for st
    using that web_effect_same [of hw w] by (simp add: web_effect_def)
  have test: "web_effect hw w (set_test_mode b w)" for b
    by (auto simp: web_effect_def set_test_mode_def intro!: exI [of _ b] exI [of _ "reboot_ts (web_ctl w)"])
  have restart: "web_effect hw w (w\<lparr>web_ctl := (web_ctl w)\<lparr>reboot_ts := t\<rparr>,
      web_clock := snd (get_time_ms (web_clock w))\<rparr>)" for t
    by (auto simp: web_effect_def intro!: exI [of _ "test_mode (status (web_ctl w))"] exI [of _ t])
  have json: "web_effect hw w (w\<lparr>web_store := snd (set_settings_json hw j (web_store w))\<rparr>)" for j
    by (rule same) (blast intro: web_settings.keeps)
  have dflt: "web_effect hw w (w\<lparr>web_store := snd (snd (settings_default hw b (web_store w)))\<rparr>)" for b
    by (rule same) (blast intro: reset.keeps)
  show ?thesis
    using assms web_effect_same json dflt test restart
    by (auto simp: post_content_def reboot_request_def Let_def split_beta split: option.splits if_splits)
qed

end
