(* ===== verification/Main_Program.thy ===== *)
theory Main_Program
  imports Emergency Settings_Kept "HOL-Library.Monad_Syntax"
begin

text \<open>
  The whole of \<open>main\<close> in \<open>src/main.c\<close>: the start of the program and its loop, from the parts of the
  other theories, in the order of the source. A pass gets what comes from outside: the
  callbacks that lwIP makes during \<open>net_poll\<close>, the button, a character of the console, the ADC,
  and the bytes that the receive interrupt has taken from the bus. The watchdog is only fed.
  An access outside of a buffer, or a loop that does not end, makes a pass \<open>None\<close>.
\<close>

section \<open>State\<close>

text \<open>The statics of all modules; \<open>main_values\<close> is \<open>sen_values\<close>, \<open>main_ready\<close> is \<open>net_ready\<close>.\<close>

record 'p program =
  main_ctl :: controller
  main_clock :: clock
  main_store :: settings_store
  main_leds :: stairway_leds
  main_sensors :: sensors
  main_bus :: "dev_id modbus"
  main_values :: sensors_get
  main_light :: light
  main_net :: "'p network"
  main_ready :: bool
  main_cli :: "console_command embedded_cli option"
  main_conns :: "(con_state option \<times> 'p) list"
  main_heap :: heap
  main_udp :: udp_net

definition WS281x_PIN :: u32 where "WS281x_PIN = 3"
definition LIGHT_SENSOR_PIN :: u32 where "LIGHT_SENSOR_PIN = 0"

section \<open>Starting\<close>

text \<open>
  What the hardware, the SDK and \<open>malloc\<close> answer during the start, and what the flash and the
  clock hold.
\<close>

record 'p boot_answers =
  boot_arch_ok :: bool
  boot_raw :: "nat \<Rightarrow> u32"
  boot_flash :: "nat \<Rightarrow> u8"
  boot_gpios :: u32
  boot_claim_ok :: bool
  boot_mem_ok :: bool
  boot_buf_ok :: bool
  boot_cli_ok :: bool
  boot_net :: "'p net_answers"
  boot_alloc_fails :: "nat \<Rightarrow> bool"

text \<open>The statics before \<open>main\<close> runs are zero.\<close>

definition settings_static :: settings where
  "settings_static = settings_of_bytes (replicate sizeof_settings 0)"

definition leds_static :: stairway_leds where
  "leds_static =
     \<lparr>ws2812_handler = \<lparr>ws_pin = 0, ws_led_count = 0, ws_mem = None, ws_mem_size = 0, frames = []\<rparr>,
      buf = None, emergency_state = (\<lambda>_. False)\<rparr>"

text \<open>
  The start. The results of all calls but two are ignored; the network keeps track of whether it
  could be initialised. \<open>main\<close> returns, here \<open>None\<close>, when the Wi-Fi chip does not start.
\<close>

definition main_init :: "web_env \<Rightarrow> 'p boot_answers \<Rightarrow> 'p program option" where
  "main_init env a =
     (if \<not> boot_arch_ok a then None
      else do {
        let st = snd (settings_init (env_flash env)
                   \<lparr>global_settings = settings_static, flash = boot_flash a\<rparr>);
        let s = global_settings st;
        (_, leds) \<leftarrow> stairway_leds_init (boot_gpios a) (boot_claim_ok a) (boot_mem_ok a) (boot_buf_ok a)
                     s WS281x_PIN leds_static;
        let (err, net) = net_ap_init (boot_net a) (Some (ssid s)) (Some (pass s)) network_start;
        Some \<lparr>main_ctl = controller_start, main_clock = clock_init (boot_raw a), main_store = st,
              main_leds = leds, main_sensors = sensors_start, main_bus = modbus_start,
              main_values = sensors_get_zero, main_light = light_start, main_net = net,
              main_ready = (err = ERR_SUCCESS), main_cli = snd (commands_init (boot_cli_ok a)),
              main_conns = [], main_heap = \<lparr>alloc_fails = boot_alloc_fails a, allocs = 0, live = 0\<rparr>,
              main_udp = udp_start\<rparr>
      })"

section \<open>Polling the network\<close>

text \<open>
  The callbacks that lwIP may make while it is polled: a new connection, an event of a
  connection, a DHCP or a DNS packet, with what the stack holds and what lwIP answers.
\<close>

datatype 'p net_event =
    Accept 'p
  | Connection nat conn_event
  | Dhcp_packet send_answers "u8 list" u32 "u8 list"
  | Dns_packet send_answers "u8 list" "u8 list" "u8 list" u16

definition web_of :: "'p program \<Rightarrow> web_world" where
  "web_of p = \<lparr>web_ctl = main_ctl p, web_store = main_store p, web_clock = main_clock p\<rparr>"

definition with_web :: "web_world \<Rightarrow> 'p program \<Rightarrow> 'p program" where
  "with_web w p = p\<lparr>main_ctl := web_ctl w, main_store := web_store w, main_clock := web_clock w\<rparr>"

definition net_event_run :: "'p lwip \<Rightarrow> web_env \<Rightarrow> 'p net_event \<Rightarrow> 'p program \<Rightarrow> 'p program option" where
  "net_event_run net env ev p =
     (case ev of
        Accept pcb \<Rightarrow>
          (case tcp_server_accept net (Some pcb) ERR_OK (main_heap p) of
             (ret, Some c, Some pcb1, h) \<Rightarrow>
               Some (p\<lparr>main_heap := h, main_conns := main_conns p @ [(Some c, pcb1)]\<rparr>)
           | (ret, con, pcb1, h) \<Rightarrow> Some (p\<lparr>main_heap := h\<rparr>))
      | Connection i e \<Rightarrow>
          if i \<ge> length (main_conns p) then Some p
          else do {
            (ret, con, pcb, w, h) \<leftarrow> conn_callback net env e
               \<lparr>conn_con = fst (main_conns p ! i), conn_pcb = snd (main_conns p ! i),
                conn_world = web_of p, conn_heap = main_heap p\<rparr>;
            Some ((with_web w p)\<lparr>main_heap := h, main_conns := (main_conns p)[i := (con, pcb)]\<rparr>)
          }
      | Dhcp_packet a stack ticks packet \<Rightarrow> do {
          (d, u) \<leftarrow> dhcp_receive a stack ticks packet (net_dhcp (main_net p))
             ((main_udp p)\<lparr>pbufs := pbufs (main_udp p) + 1\<rparr>);
          Some (p\<lparr>main_net := (main_net p)\<lparr>net_dhcp := d\<rparr>, main_udp := u\<rparr>)
        }
      | Dns_packet a stack packet src port \<Rightarrow> do {
          u \<leftarrow> dns_receive a stack (dns_ip (main_net p)) packet src port
             ((main_udp p)\<lparr>pbufs := pbufs (main_udp p) + 1\<rparr>);
          Some (p\<lparr>main_udp := u\<rparr>)
        })"

fun net_events_run :: "'p lwip \<Rightarrow> web_env \<Rightarrow> 'p net_event list \<Rightarrow> 'p program \<Rightarrow> 'p program option" where
  "net_events_run net env [] p = Some p"
| "net_events_run net env (e # es) p = do { p1 \<leftarrow> net_event_run net env e p; net_events_run net env es p1 }"

definition main_poll :: "'p lwip \<Rightarrow> web_env \<Rightarrow> 'p net_event list \<Rightarrow> 'p program \<Rightarrow> 'p program option" where
  "main_poll net env evs p = (if net_poll True (main_net p) then net_events_run net env evs p else Some p)"

section \<open>The sections of the loop\<close>

text \<open>The button, and the access point that follows the settings.\<close>

definition main_button :: "web_env \<Rightarrow> u64 \<Rightarrow> bool \<Rightarrow> 'p program \<Rightarrow> 'p program" where
  "main_button env ts pressed p =
     (let (press_event, k) = button_step ts pressed (main_ctl p);
          st = button_ap (env_flash env) press_event (main_store p)
      in p\<lparr>main_ctl := k, main_store := st, main_net := sync_ap (main_ready p) st (main_net p)\<rparr>)"

text \<open>A character of the console, if there is one.\<close>

definition main_console :: "web_env \<Rightarrow> char option \<Rightarrow> 'p program \<Rightarrow> 'p program option" where
  "main_console env input p =
     (case input of
        None \<Rightarrow> Some p
      | Some ch \<Rightarrow> do {
          (_, c, w) \<leftarrow> cli_putchar (console_app (env_flash env)) ch (main_cli p)
             \<lparr>con_store = main_store p, con_status = status (main_ctl p), con_network = main_net p,
              con_reboot = None\<rparr>;
          let (k, clk) = (case con_reboot w of
                            None \<Rightarrow> (main_ctl p, main_clock p)
                          | Some d \<Rightarrow> reboot_request d (main_ctl p) (main_clock p));
          Some (p\<lparr>main_ctl := k, main_clock := clk, main_store := con_store w, main_cli := c\<rparr>)
        })"

text \<open>
  The light sensor and the distance sensors; \<open>uart\<close> is what the receive interrupt takes from the
  bus until the routine looks at the buffer.
\<close>

definition main_sense ::
    "u16 \<Rightarrow> u8 list list \<Rightarrow> 'p program \<Rightarrow> ((bool \<times> u32) \<times> 'p program) option" where
  "main_sense adc uart p =
     (let s = global_settings (main_store p);
          (reading, l, c1) = light_sensor_get_data s adc (main_light p) (main_clock p)
      in do {
        bus \<leftarrow> rx_irqs uart (main_bus p);
        (sens, bus1, c2) \<leftarrow> stairway_sensors_routine (main_sensors p) bus c1;
        v \<leftarrow> snd (stairway_sensors_get s sens (Some (main_values p)));
        Some (reading, p\<lparr>main_light := l, main_bus := bus1, main_sensors := sens, main_clock := c2,
                      main_values := v\<rparr>)
      })"

definition main_control ::
    "u64 \<Rightarrow> bool \<times> u32 \<Rightarrow> bool \<Rightarrow> bool \<Rightarrow> 'p program \<Rightarrow> (bool option \<times> 'p program) option" where
  "main_control ts reading buf_ok mem_ok p = do {
     (level, k, l, c) \<leftarrow> controller_pass
        \<lparr>env_settings = global_settings (main_store p), env_light = reading, env_sens = main_values p,
         env_buf_ok = buf_ok, env_mem_ok = mem_ok, env_ap = net_ap_get_state (main_net p)\<rparr> ts
        (main_ctl p, main_leds p, main_clock p);
     Some (level, p\<lparr>main_ctl := k, main_leds := l, main_clock := c\<rparr>)
   }"

section \<open>One pass\<close>

record 'p inputs =
  in_events :: "'p net_event list"
  in_pressed :: bool
  in_char :: "char option"
  in_adc :: u16
  in_uart :: "u8 list list"
  in_buf_ok :: bool
  in_mem_ok :: bool

text \<open>A pass ends with the program running on, with the LED of the board, or in a restart.\<close>

datatype 'p outcome =
    Running "bool option" "'p program"
  | Restarting "nat \<Rightarrow> u8"

definition main_pass :: "'p lwip \<Rightarrow> web_env \<Rightarrow> 'p inputs \<Rightarrow> 'p program \<Rightarrow> 'p outcome option" where
  "main_pass net env inp p = do {
     p1 \<leftarrow> main_poll net env (in_events inp) p;
     let (ts, c) = get_time_ms (main_clock p1);
     let p2 = p1\<lparr>main_clock := c\<rparr>;
     if reboot_due ts (main_ctl p2) then Some (Restarting (flash (main_store p2)))
     else do {
       p3 \<leftarrow> main_console env (in_char inp) (main_button env ts (in_pressed inp) p2);
       (reading, p4) \<leftarrow> main_sense (in_adc inp) (in_uart inp) p3;
       (level, p5) \<leftarrow> main_control ts reading (in_buf_ok inp) (in_mem_ok inp) p4;
       Some (Running level p5)
     }
   }"

end
