(* ===== verification/Program_Safety.thy ===== *)
theory Program_Safety
  imports Main_Program
begin

text \<open>
  The invariant of the whole program, and the proof that every pass of its loop keeps it: no
  module leaves its buffers, whatever arrives from the network, the console, the sensors and
  the clock, in whatever order.
\<close>

section \<open>The invariant\<close>

definition conns_ok :: "('p \<Rightarrow> string) \<Rightarrow> (con_state option \<times> 'p) list \<Rightarrow> heap \<Rightarrow> bool" where
  "conns_ok accepted cs h \<longleftrightarrow>
     (\<forall>x \<in> set cs. \<forall>c. fst x = Some c \<longrightarrow> con_inv c \<and> accepted_ok accepted c (snd x)) \<and>
     live h = sum_list (map (con_blocks \<circ> fst) cs)"

definition console_ok :: "console_command embedded_cli option \<Rightarrow> bool" where
  "console_ok cli \<longleftrightarrow>
     (\<forall>c. cli = Some c \<longrightarrow> setup_ok c \<and> bindings c = console_bindings \<and> (\<exists>s. cli_shows c s))"

definition lights_ok :: "controller \<Rightarrow> stairway_leds \<Rightarrow> bool" where
  "lights_ok k l \<longleftrightarrow> leds_inv l \<and> emergency_on k = emergency_state l \<and> count_inv k"

definition access_point_ok :: "bool \<Rightarrow> 'p network \<Rightarrow> bool" where
  "access_point_ok ready n \<longleftrightarrow> net_inv n \<and> (ready \<longrightarrow> ap_inited n) \<and> length (dns_ip n) = 4"

definition program_ok :: "web_env \<Rightarrow> ('p \<Rightarrow> string) \<Rightarrow> 'p program \<Rightarrow> bool" where
  "program_ok env accepted p \<longleftrightarrow>
     lights_ok (main_ctl p) (main_leds p) \<and> store_ok (env_flash env) (main_store p) \<and>
     sensors_inv (main_bus p) \<and> light_inv (main_light p) \<and>
     access_point_ok (main_ready p) (main_net p) \<and> console_ok (main_cli p) \<and>
     conns_ok accepted (main_conns p) (main_heap p) \<and> pbufs (main_udp p) = 0"

section \<open>What may come from outside\<close>

text \<open>
  lwIP calls back only for connections that have a state, in the order it documents; a new
  connection has accepted nothing; the DHCP packets are those of clients that keep to the
  format of the options.
\<close>

definition event_possible :: "('p \<Rightarrow> string) \<Rightarrow> 'p net_event \<Rightarrow> 'p program \<Rightarrow> bool" where
  "event_possible accepted ev p \<longleftrightarrow>
     (case ev of
        Accept pcb \<Rightarrow> accepted pcb = []
      | Connection i e \<Rightarrow>
          i < length (main_conns p) \<and>
          (case fst (main_conns p ! i) of None \<Rightarrow> False | Some c \<Rightarrow> event_allowed e c)
      | Dhcp_packet a stack ticks packet \<Rightarrow> packet_ok stack packet
      | Dns_packet a stack packet src port \<Rightarrow> 300 \<le> length stack)"

fun events_possible :: "'p lwip \<Rightarrow> web_env \<Rightarrow> ('p \<Rightarrow> string) \<Rightarrow> 'p net_event list \<Rightarrow> 'p program \<Rightarrow> bool" where
  "events_possible net env accepted [] p \<longleftrightarrow> True"
| "events_possible net env accepted (e # es) p \<longleftrightarrow>
     event_possible accepted e p \<and>
     (case net_event_run net env e p of None \<Rightarrow> False | Some p1 \<Rightarrow> events_possible net env accepted es p1)"

text \<open>The receive buffer of the bus takes 255 bytes, the converter has 12 bits, memory is there.\<close>

definition inputs_possible :: "'p lwip \<Rightarrow> web_env \<Rightarrow> ('p \<Rightarrow> string) \<Rightarrow> 'p inputs \<Rightarrow> 'p program \<Rightarrow> bool" where
  "inputs_possible net env accepted inp p \<longleftrightarrow>
     (net_poll True (main_net p) \<longrightarrow> events_possible net env accepted (in_events inp) p) \<and>
     in_adc inp \<le> 4095 \<and> unat (receive_counter (main_bus p)) + length (concat (in_uart inp)) \<le> 255 \<and>
     in_buf_ok inp \<and> in_mem_ok inp"

section \<open>Callbacks of the network\<close>

lemma handle_request_effect:
  "handle_request env w req r h = Some (w', x) \<Longrightarrow> web_effect (env_flash env) w w'"
  using post_content_effect [of "env_flash env" _ w] web_effect_same [of "env_flash env" w]
  by (fastforce simp: handle_request_def Let_def split: option.splits if_splits prod.splits)

lemma close_with_world: "close_with net con pcb w h = (ret, con', pcb', w', h') \<Longrightarrow> w' = w"
  by (simp add: close_with_def split_beta)

lemma send_or_close_world: "send_or_close net c pcb w h = Some (ret, con', pcb', w', h') \<Longrightarrow> w' = w"
  by (auto simp: send_or_close_def dest: close_with_world split: option.splits prod.splits if_splits)

lemma conn_callback_effect:
  assumes "conn_callback net env ev s = Some (ret, con, pcb, w, h)"
  shows "web_effect (env_flash env) (conn_world s) w"
proof (cases ev)
  case (Ev_recv p err)
  then show ?thesis
    using assms web_effect_same
    by (auto simp: conn_callback_def tcp_server_recv_def Let_def dest!: close_with_world
        dest: handle_request_effect split: option.splits prod.splits if_splits recv_outcome.splits)
next
  case (Ev_sent n)
  then have "w = conn_world s"
    using assms
    by (auto simp: conn_callback_def tcp_server_sent_def Let_def dest: close_with_world send_or_close_world
        split: option.splits if_splits)
  then show ?thesis by (simp add: web_effect_same)
next
  case Ev_poll
  then have "w = conn_world s"
    using assms
    by (auto simp: conn_callback_def tcp_server_poll_def Let_def dest: close_with_world send_or_close_world
        split: option.splits if_splits)
  then show ?thesis by (simp add: web_effect_same)
next
  case Ev_err
  then show ?thesis using assms by (simp add: conn_callback_def web_effect_same)
qed


lemma sum_list_update_int:
  fixes xs :: "int list"
  shows "i < length xs \<Longrightarrow> sum_list (xs[i := y]) = sum_list xs - xs ! i + y"
  by (induction xs arbitrary: i) (auto split: nat.split)

lemma conns_ok_update:
  assumes "conns_ok accepted cs h" and "i < length cs" and "live h' = live h - con_blocks (fst (cs ! i)) + con_blocks con"
    and "\<forall>c. con = Some c \<longrightarrow> con_inv c \<and> accepted_ok accepted c pcb"
  shows "conns_ok accepted (cs[i := (con, pcb)]) h'"
proof -
  have "x \<in> set cs \<or> x = (con, pcb)" if "x \<in> set (cs[i := (con, pcb)])" for x
    using that set_update_subset_insert by fastforce
  then show ?thesis
    using assms by (fastforce simp: conns_ok_def map_update sum_list_update_int)
qed

lemma conns_ok_new:
  assumes "conns_ok accepted cs h" and "accepted pcb = []"
  shows "conns_ok accepted (cs @ [(Some con_start, pcb)]) (h\<lparr>live := live h + 1\<rparr>)"
proof -
  have "conn_inv accepted (live h) (conn_start pcb w (h\<lparr>live := live h + 1\<rparr>))" for w
    using conn_start_inv [of accepted pcb h w] assms(2) by simp
  then show ?thesis
    using assms(1) by (auto simp: conns_ok_def conn_inv_def conn_start_def)
qed

lemma lights_ok_web:
  "lights_ok k l \<Longrightarrow> lights_ok (k\<lparr>status := (status k)\<lparr>test_mode := b\<rparr>, reboot_ts := t\<rparr>) l"
  by (simp add: lights_ok_def count_inv_def)

lemma access_point_ok_dhcp: "access_point_ok ready n \<Longrightarrow> access_point_ok ready (n\<lparr>net_dhcp := d\<rparr>)"
  by (auto simp: access_point_ok_def net_inv_def)

lemma net_event_ok:
  assumes "program_ok env accepted p" and "tcp_laws net accepted" and "event_possible accepted ev p"
  shows "\<exists>p'. net_event_run net env ev p = Some p' \<and> program_ok env accepted p' \<and> main_bus p' = main_bus p"
proof (cases ev)
  case (Accept pcb)
  have conns: "conns_ok accepted (main_conns p) (main_heap p)" "accepted pcb = []"
    using assms(1,3) Accept by (simp_all add: program_ok_def event_possible_def)
  obtain ok h where m: "malloc (main_heap p) = (ok, h)" by fastforce
  have "conns_ok accepted (main_conns p) (h :: heap)" if "\<not> ok"
    using that conns(1) live_malloc [OF m] by (simp add: conns_ok_def)
  moreover have "conns_ok accepted (main_conns p @ [(Some con_start, pcb)]) h" if ok
    using that conns_ok_new [OF conns] live_malloc [OF m] by (simp add: conns_ok_def)
  ultimately show ?thesis
    using assms(1) by (cases ok)
      (simp_all add: Accept net_event_run_def tcp_server_accept_def m program_ok_def)
next
  case (Connection i e)
  then obtain c where i: "i < length (main_conns p)" "fst (main_conns p ! i) = Some c" "event_allowed e c"
    using assms(3) by (auto simp: event_possible_def split: option.splits)
  let ?s = "\<lparr>conn_con = fst (main_conns p ! i), conn_pcb = snd (main_conns p ! i),
             conn_world = web_of p, conn_heap = main_heap p\<rparr>"
  have conns: "conns_ok accepted (main_conns p) (main_heap p)" using assms(1) by (simp add: program_ok_def)
  then have c: "con_inv c" "accepted_ok accepted c (conn_pcb ?s)"
    using i by (auto simp: conns_ok_def)
  obtain ret con pcb w h where r: "conn_callback net env e ?s = Some (ret, con, pcb, w, h)"
      "live h = live (main_heap p) - con_blocks (Some c) + con_blocks con"
      "\<forall>c. con = Some c \<longrightarrow> con_inv c \<and> accepted_ok accepted c pcb"
    using conn_callback_ok [OF c(1) assms(2) c(2), of "live (main_heap p) - con_blocks (Some c)" e env] i
    by (auto simp: callback_ok_def)
  have eff: "web_effect (env_flash env) (web_of p) w"
    using conn_callback_effect [OF r(1)] by simp
  have "conns_ok accepted ((main_conns p)[i := (con, pcb)]) h"
    using conns_ok_update [OF conns i(1), of h con pcb] r(2,3) i(2) by simp
  then show ?thesis
    using assms(1) i(1) r(1) eff lights_ok_web
    by (auto simp: Connection net_event_run_def program_ok_def with_web_def web_effect_def web_of_def)
next
  case (Dhcp_packet a stack ticks packet)
  then have "packet_ok stack packet" using assms(3) by (simp add: event_possible_def)
  from dhcp_receive_ok [OF this, of a ticks "net_dhcp (main_net p)" "main_udp p"] show ?thesis
    using assms(1)
    by (auto simp: Dhcp_packet net_event_run_def program_ok_def access_point_ok_dhcp)
next
  case (Dns_packet a stack packet src port)
  then have "300 \<le> length stack" "length (dns_ip (main_net p)) = 4"
    using assms(1,3) by (simp_all add: event_possible_def program_ok_def access_point_ok_def)
  from dns_receive_ok [OF this, of a packet src port "main_udp p"] show ?thesis
    using assms(1) by (auto simp: Dns_packet net_event_run_def program_ok_def)
qed

lemma net_events_ok:
  assumes "tcp_laws net accepted"
  shows "program_ok env accepted p \<Longrightarrow> events_possible net env accepted evs p \<Longrightarrow>
     \<exists>p'. net_events_run net env evs p = Some p' \<and> program_ok env accepted p' \<and> main_bus p' = main_bus p"
proof (induction evs arbitrary: p)
  case (Cons e es)
  obtain p1 where p1: "net_event_run net env e p = Some p1" "program_ok env accepted p1" "main_bus p1 = main_bus p"
    using net_event_ok [OF Cons.prems(1) assms, of e] Cons.prems(2) by auto
  then show ?case using Cons.IH [OF p1(2)] Cons.prems(2) by auto
qed simp

lemma main_poll_ok:
  assumes "tcp_laws net accepted" and "program_ok env accepted p"
    and "net_poll True (main_net p) \<longrightarrow> events_possible net env accepted evs p"
  shows "\<exists>p'. main_poll net env evs p = Some p' \<and> program_ok env accepted p' \<and> main_bus p' = main_bus p"
  using net_events_ok [OF assms(1,2)] assms(2,3) by (auto simp: main_poll_def)

section \<open>The sections of the loop\<close>

lemma lights_ok_ctl:
  "lights_ok k l \<Longrightarrow> status k' = status k \<Longrightarrow> emergency_on k' = emergency_on k \<Longrightarrow> lights_ok k' l"
  by (simp add: lights_ok_def count_inv_def)

lemma button_step_frame:
  "button_step ts pressed k = (press, k') \<Longrightarrow> status k' = status k \<and> emergency_on k' = emergency_on k"
  by (auto simp: button_step_def Let_def split: if_splits)

lemma sync_ap_ok: "access_point_ok ready n \<Longrightarrow> access_point_ok ready (sync_ap r st n)"
  using net_ap_set_state_inv [of n]
  by (auto simp: access_point_ok_def sync_ap_def net_ap_set_state_def)

lemma main_button_ok:
  assumes "program_ok env accepted p"
  shows "program_ok env accepted (main_button env ts pressed p) \<and>
     main_bus (main_button env ts pressed p) = main_bus p"
proof -
  obtain press k where b: "button_step ts pressed (main_ctl p) = (press, k)" by fastforce
  have "store_ok (env_flash env) (button_ap (env_flash env) press (main_store p))"
    using button.keeps [of "env_flash env" "main_store p" press] assms by (simp add: program_ok_def)
  then show ?thesis
    using assms sync_ap_ok lights_ok_ctl [of "main_ctl p" _ k] button_step_frame [OF b]
    by (auto simp: program_ok_def main_button_def b Let_def)
qed

lemma program_ok_console:
  "program_ok env accepted p \<Longrightarrow> lights_ok k (main_leds p) \<Longrightarrow> store_ok (env_flash env) st \<Longrightarrow> console_ok c \<Longrightarrow>
     program_ok env accepted (p\<lparr>main_ctl := k, main_clock := clk, main_store := st, main_cli := c\<rparr>)"
  by (simp add: program_ok_def)

lemma cli_putchar_keeps:
  assumes "console_ok cli" and "store_ok hw (con_store w)"
  shows "\<exists>e cli' w'. cli_putchar (console_app hw) ch cli w = Some (e, cli', w') \<and> console_ok cli' \<and>
     store_ok hw (con_store w')"
proof (cases cli)
  case None
  then show ?thesis using assms by (simp add: cli_putchar_def)
next
  case (Some c)
  obtain s where s: "cli_shows c s" "setup_ok c" "bindings c = console_bindings"
    using assms(1) Some by (auto simp: console_ok_def)
  let ?k = "console_key (command_run hw) console_bindings ch s w"
  obtain c' where c': "cli_putchar (console_app hw) ch (Some c) w = Some (ERR_SUCCESS, Some c', snd ?k)"
      "setup_ok c'" "bindings c' = console_bindings" "cli_shows c' (fst ?k)"
    using cmds.cli_putchar_ok [OF s(1,2), of hw ch w] s(3) by metis
  have "store_ok hw (con_store (snd (console_keys (command_run hw) console_bindings [ch] s w)))"
    using assms(2) by (rule console_keys_keeps [OF commands_keep_store])
  then have "store_ok hw (con_store (snd ?k))" by (simp add: split_beta)
  moreover have "console_ok (Some c')" using c' by (auto simp: console_ok_def)
  ultimately show ?thesis using c'(1) Some by blast
qed

lemma main_console_ok:
  assumes "program_ok env accepted p"
  shows "\<exists>p'. main_console env input p = Some p' \<and> program_ok env accepted p' \<and> main_bus p' = main_bus p"
proof (cases input)
  case None
  then show ?thesis using assms by (simp add: main_console_def)
next
  case ch: (Some ch)
  let ?w = "\<lparr>con_store = main_store p, con_status = status (main_ctl p), con_network = main_net p,
             con_reboot = None\<rparr>"
  have lights: "lights_ok (main_ctl p) (main_leds p)" and cli: "console_ok (main_cli p)"
    and store: "store_ok (env_flash env) (con_store ?w)"
    using assms by (simp_all add: program_ok_def)
  obtain e c w where r: "cli_putchar (console_app (env_flash env)) ch (main_cli p) ?w = Some (e, c, w)"
      "console_ok c" "store_ok (env_flash env) (con_store w)"
    using cli_putchar_keeps [OF cli store] by blast
  obtain k clk where k: "(case con_reboot w of None \<Rightarrow> (main_ctl p, main_clock p)
      | Some d \<Rightarrow> reboot_request d (main_ctl p) (main_clock p)) = (k, clk)" by fastforce
  have "lights_ok (fst (reboot_request d (main_ctl p) clk)) (main_leds p)" for d clk
    by (intro lights_ok_ctl [OF lights]) (simp_all add: reboot_request_def split_beta)
  then have "lights_ok k (main_leds p)"
    using k lights by (cases "con_reboot w") (simp_all, metis fst_conv)
  then show ?thesis
    using program_ok_console [OF assms _ r(3,2)] by (simp add: main_console_def ch r(1) k)
qed

lemma sensors_inv_received:
  "sensors_inv m \<Longrightarrow> unat (receive_counter m) + length bs \<le> 255 \<Longrightarrow> sensors_inv (Modbus.received bs m)"
  using received_inv [of m bs] by (simp add: sensors_inv_def Modbus.received_def Let_def)

lemma main_sense_ok:
  assumes "program_ok env accepted p" and "adc \<le> 4095"
    and "unat (receive_counter (main_bus p)) + length (concat uart) \<le> 255"
  shows "\<exists>reading p'. main_sense adc uart p = Some (reading, p') \<and> program_ok env accepted p'"
proof -
  let ?s = "global_settings (main_store p)"
  have bus: "sensors_inv (main_bus p)" and light: "light_inv (main_light p)"
    using assms(1) by (simp_all add: program_ok_def)
  obtain t v l c where l: "light_sensor_get_data ?s adc (main_light p) (main_clock p) = ((t, v), l, c)" "light_inv l"
    using light_hysteresis [OF light assms(2), of ?s "main_clock p"] by metis
  have rx: "rx_irqs uart (main_bus p) = Some (Modbus.received (concat uart) (main_bus p))"
    using rx_irqs_received [OF _ assms(3)] bus by (simp add: sensors_inv_def)
  obtain sens bus1 c2 where r: "stairway_sensors_routine (main_sensors p) (Modbus.received (concat uart) (main_bus p)) c =
      Some (sens, bus1, c2)" "sensors_inv bus1"
    using stairway_sensors_poll [OF sensors_inv_received [OF bus assms(3)], of "main_sensors p" c] by blast
  obtain vals where "stairway_sensors_get ?s sens (Some (main_values p)) = (ERR_SUCCESS, Some vals)"
    using sensors_get_rows [of ?s sens "main_values p"] by blast
  then show ?thesis
    using assms(1) l rx r by (simp add: main_sense_def program_ok_def)
qed

lemma main_control_ok:
  assumes "program_ok env accepted p"
  shows "\<exists>level p'. main_control ts reading True True p = Some (level, p') \<and> program_ok env accepted p'"
proof -
  let ?e = "\<lparr>env_settings = global_settings (main_store p), env_light = reading, env_sens = main_values p,
             env_buf_ok = True, env_mem_ok = True, env_ap = net_ap_get_state (main_net p)\<rparr>"
  have l: "leds_inv (main_leds p)" "emergency_on (main_ctl p) = emergency_state (main_leds p)"
      "count_inv (main_ctl p)" "settings_valid (env_settings ?e)"
    using assms by (simp_all add: program_ok_def lights_ok_def store_ok_def store_good_def)
  obtain level k l' c where r: "controller_pass ?e ts (main_ctl p, main_leds p, main_clock p) = Some (level, k, l', c)"
      "leds_inv l'" "emergency_on k = emergency_state l'"
    using controller_pass_total [OF l(1,2,4), of ts "main_clock p"] by auto
  obtain k1 c1 where r1: "count_pass ?e ts (main_ctl p, main_clock p) = (k1, c1)" by fastforce
  have "count_inv k"
    using count_pass_inv [OF l(3) r1] controller_pass_status [OF r(1)] r1 by (simp add: count_inv_def)
  then show ?thesis
    using assms r by (simp add: main_control_def program_ok_def lights_ok_def)
qed


text \<open>The sections behind the button, one after the other.\<close>

lemma loop_sections_ok:
  assumes "program_ok env accepted q"
    and "in_adc inp \<le> 4095" and "unat (receive_counter (main_bus q)) + length (concat (in_uart inp)) \<le> 255"
    and "in_buf_ok inp" and "in_mem_ok inp"
  shows "\<exists>r reading p4 level p'. main_console env (in_char inp) q = Some r \<and>
     main_sense (in_adc inp) (in_uart inp) r = Some (reading, p4) \<and>
     main_control ts reading (in_buf_ok inp) (in_mem_ok inp) p4 = Some (level, p') \<and> program_ok env accepted p'"
proof -
  obtain r where r: "main_console env (in_char inp) q = Some r" "program_ok env accepted r" "main_bus r = main_bus q"
    using main_console_ok [OF assms(1), of "in_char inp"] by auto
  obtain reading p4 where p4: "main_sense (in_adc inp) (in_uart inp) r = Some (reading, p4)" "program_ok env accepted p4"
    using main_sense_ok [OF r(2), of "in_adc inp" "in_uart inp"] assms(2,3) r(3) by auto
  obtain level p' where p': "main_control ts reading (in_buf_ok inp) (in_mem_ok inp) p4 = Some (level, p')"
      "program_ok env accepted p'"
    using main_control_ok [OF p4(2), of ts reading] assms(4,5) by auto
  show ?thesis using r(1) p4(1) p' by blast
qed

lemma main_pass_ok:
  assumes "tcp_laws net accepted" and "program_ok env accepted p" and "inputs_possible net env accepted inp p"
  shows "\<exists>f. main_pass net env inp p = Some (Restarting f) \<or>
     (\<exists>level p'. main_pass net env inp p = Some (Running level p') \<and> program_ok env accepted p')"
proof -
  obtain p1 where p1: "main_poll net env (in_events inp) p = Some p1" "program_ok env accepted p1"
      "main_bus p1 = main_bus p"
    using main_poll_ok [OF assms(1,2), of "in_events inp"] assms(3) by (auto simp: inputs_possible_def)
  obtain ts c where ts: "get_time_ms (main_clock p1) = (ts, c)" by fastforce
  let ?p2 = "p1\<lparr>main_clock := c\<rparr>"
  have p2: "program_ok env accepted ?p2" using p1(2) by (simp add: program_ok_def)
  let ?p3 = "main_button env ts (in_pressed inp) ?p2"
  have p3: "program_ok env accepted ?p3" "main_bus ?p3 = main_bus p"
    using main_button_ok [OF p2, of ts "in_pressed inp"] p1(3) by simp_all
  obtain r reading p4 level p5 where "main_console env (in_char inp) ?p3 = Some r"
      "main_sense (in_adc inp) (in_uart inp) r = Some (reading, p4)"
      "main_control ts reading (in_buf_ok inp) (in_mem_ok inp) p4 = Some (level, p5)" "program_ok env accepted p5"
    using loop_sections_ok [OF p3(1), of inp ts] assms(3) p3(2) by (auto simp: inputs_possible_def)
  then show ?thesis by (auto simp: main_pass_def Let_def p1(1) ts)
qed

section \<open>From the start\<close>

text \<open>The Wi-Fi chip answers, the pins exist and the LED buffers can be allocated; nothing else is assumed.\<close>

definition boot_possible :: "'p boot_answers \<Rightarrow> bool" where
  "boot_possible a \<longleftrightarrow> boot_arch_ok a \<and> boot_claim_ok a \<and> boot_mem_ok a \<and> boot_buf_ok a \<and>
     WS281x_PIN < boot_gpios a \<and> length (ap_address (boot_net a)) = 4"

lemma stairway_leds_init_frame:
  "stairway_leds_init g ok1 ok2 ok3 s pin l = Some (err, l') \<Longrightarrow> emergency_state l' = emergency_state l"
  by (auto simp: stairway_leds_init_def Let_def split: option.splits if_splits)

lemma net_ap_init_dns:
  fixes n :: "'p network"
  shows "length (dns_ip n) = 4 \<Longrightarrow> length (ap_address a) = 4 \<Longrightarrow> net_ap_init a s p n = (err, n') \<Longrightarrow>
     length (dns_ip n') = 4"
proof -
  assume n: "length (dns_ip n) = 4" and a: "length (ap_address a) = 4" and run: "net_ap_init a s p n = (err, n')"
  have free: "dns_ip (free_server m) = dns_ip m" and server: "dns_ip (dhcp_server_deinit m) = dns_ip m"
    and client: "dns_ip (dns_server_deinit m) = dns_ip m" for m :: "'p network"
    by (auto simp: free_server_def dhcp_server_deinit_def dns_server_deinit_def split_beta split: option.split)
  have deinit: "dns_ip (snd (net_ap_deinit m)) = dns_ip m" for m :: "'p network"
    by (auto simp: net_ap_deinit_def net_teardown_def free server client net_ap_set_state_def Let_def)
  have init: "length (dns_ip (dns_server_init a m)) = 4" if "length (dns_ip m) = 4" for m :: "'p network"
    using that a by (simp add: dns_server_init_def split_beta Let_def)
  have start: "dns_ip (dhcp_start a m) = dns_ip m" for m :: "'p network"
    by (simp add: dhcp_start_def split_beta)
  show "length (dns_ip n') = 4"
    using run n by (auto simp: net_ap_init_def Let_def split_beta deinit init start split: option.splits if_splits)
qed

lemma commands_init_console: "console_ok (snd (commands_init ok))"
  using commands_init_ok commands_init_table by (cases ok) (auto simp: console_ok_def)

lemma main_init_ok:
  assumes "boot_possible a"
  shows "\<exists>p. main_init env a = Some p \<and> program_ok env accepted p \<and> main_bus p = modbus_start \<and>
     main_store p = snd (settings_init (env_flash env) \<lparr>global_settings = settings_static, flash = boot_flash a\<rparr>)"
proof -
  define st where "st = snd (settings_init (env_flash env) \<lparr>global_settings = settings_static, flash = boot_flash a\<rparr>)"
  let ?s = "global_settings st"
  have store: "store_ok (env_flash env) st" by (simp add: st_def settings_init_store_ok)
  then have "settings_valid ?s" by (simp add: store_ok_def store_good_def)
  then obtain l where l: "stairway_leds_init (boot_gpios a) True True True ?s WS281x_PIN leds_static =
      Some (ERR_SUCCESS, l)" "leds_inv l"
    using stairway_leds_init_ok [of ?s WS281x_PIN "boot_gpios a"] assms by (auto simp: boot_possible_def)
  obtain err n where n: "net_ap_init (boot_net a) (Some (ssid ?s)) (Some (pass ?s)) network_start = (err, n)"
    by fastforce
  have "net_inv n \<and> (err = ERR_SUCCESS \<longrightarrow> ap_inited n)"
    using net_ap_init_inv [OF network_start_inv n] by (simp split: if_splits)
  moreover have "length (dns_ip n) = 4"
    using net_ap_init_dns [OF _ _ n] assms by (simp add: boot_possible_def network_start_def)
  ultimately have ap: "access_point_ok (err = ERR_SUCCESS) n" by (simp add: access_point_ok_def)
  have "lights_ok controller_start l"
    using l stairway_leds_init_frame [OF l(1)] controller_start_count_inv
    by (simp add: lights_ok_def controller_start_def leds_static_def)
  then show ?thesis
    using assms store ap l commands_init_console light_start_inv sensors_inv_start
    by (auto simp: main_init_def boot_possible_def st_def [symmetric] n program_ok_def conns_ok_def
        udp_start_def)
qed

text \<open>The states of the program between two passes, from power on, across any number of restarts.\<close>

inductive program_reachable :: "'p lwip \<Rightarrow> web_env \<Rightarrow> ('p \<Rightarrow> string) \<Rightarrow> 'p program \<Rightarrow> bool"
  for net env accepted where
  power_on: "boot_possible a \<Longrightarrow> main_init env a = Some p \<Longrightarrow> program_reachable net env accepted p"
| running: "program_reachable net env accepted p \<Longrightarrow> inputs_possible net env accepted inp p \<Longrightarrow>
     main_pass net env inp p = Some (Running level p') \<Longrightarrow> program_reachable net env accepted p'"
| restarting: "program_reachable net env accepted p \<Longrightarrow> inputs_possible net env accepted inp p \<Longrightarrow>
     main_pass net env inp p = Some (Restarting f) \<Longrightarrow> boot_possible a \<Longrightarrow> boot_flash a = f \<Longrightarrow>
     main_init env a = Some p' \<Longrightarrow> program_reachable net env accepted p'"

lemma program_reachable_ok:
  assumes "tcp_laws net accepted"
  shows "program_reachable net env accepted p \<Longrightarrow> program_ok env accepted p"
proof (induction rule: program_reachable.induct)
  case (power_on a p)
  then show ?case using main_init_ok [OF power_on(1), of env accepted] by auto
next
  case (running p inp level p')
  then show ?case using main_pass_ok [OF assms running.IH running.hyps(2)] by auto
next
  case (restarting p inp f a p')
  then show ?case using main_init_ok [OF restarting.hyps(4), of env accepted] by auto
qed

text \<open>A start restores what the program had when the power was cut.\<close>

lemma main_init_restores:
  assumes "program_ok env accepted p" and "flash_ok (env_flash env)"
    and "boot_possible a" and "boot_flash a = flash (main_store p)"
  shows "\<exists>p'. main_init env a = Some p' \<and> main_store p' = main_store p"
proof -
  have "restores (env_flash env) (main_store p)"
    using assms(1,2) by (simp add: program_ok_def store_ok_def)
  then have "settings_init (env_flash env) ((main_store p)\<lparr>global_settings := settings_static\<rparr>) =
      (ERR_SUCCESS, main_store p)"
    by (simp add: restores_def)
  moreover have "\<lparr>global_settings = settings_static, flash = boot_flash a\<rparr> =
      (main_store p)\<lparr>global_settings := settings_static\<rparr>"
    using assms(4) by (cases "main_store p") simp
  ultimately show ?thesis
    using main_init_ok [OF assms(3), of env] by auto
qed

section \<open>A sample\<close>

definition sample_boot :: "(nat \<Rightarrow> u8) \<Rightarrow> string boot_answers" where
  "sample_boot f =
     \<lparr>boot_arch_ok = True, boot_raw = (\<lambda>_. 700), boot_flash = f, boot_gpios = 30, boot_claim_ok = True,
      boot_mem_ok = True, boot_buf_ok = True, boot_cli_ok = True,
      boot_net = \<lparr>calloc_ok = True, dhcp_udp_ok = True, dns_udp_ok = True, dns_bind_ok = True,
        tcp_answers = \<lparr>new_pcb = Some [], bind_err = 0, listen_pcb = Some []\<rparr>,
        ap_address = [192, 168, 4, 1], ap_mask = [255, 255, 255, 0]\<rparr>,
      boot_alloc_fails = (\<lambda>_. False)\<rparr>"

lemma sample_boot_possible: "boot_possible (sample_boot f)" "boot_flash (sample_boot f) = f"
  by (simp_all add: boot_possible_def sample_boot_def WS281x_PIN_def)

lemma sample_reachable:
  "program_reachable net env accepted (the (main_init env (sample_boot f)))"
  using main_init_ok [OF sample_boot_possible(1) [of f], of env accepted]
  by (auto intro: program_reachable.power_on sample_boot_possible)

definition sample_inputs :: "string inputs" where
  "sample_inputs =
     \<lparr>in_events = [], in_pressed = True, in_char = Some CR, in_adc = 2000, in_uart = [[2, 3], [12]],
      in_buf_ok = True, in_mem_ok = True\<rparr>"

lemma sample_inputs_possible:
  "inputs_possible net env accepted sample_inputs (the (main_init env (sample_boot f)))"
  using main_init_ok [OF sample_boot_possible(1) [of f], of env accepted]
  by (auto simp: inputs_possible_def sample_inputs_def modbus_start_def)

text \<open>The sample start succeeds: the access point is ready, the console is there, no restart is due.\<close>

lemma sample_start:
  fixes env :: web_env and f :: "nat \<Rightarrow> u8"
  defines "p \<equiv> the (main_init env (sample_boot f))"
  shows "main_ready p" and "reboot_ts (main_ctl p) = 0"
    and "\<exists>cli. main_cli p = Some cli \<and> cli_shows cli console_start"
proof -
  define st where "st = snd (settings_init (env_flash env) \<lparr>global_settings = settings_static, flash = f\<rparr>)"
  let ?s = "global_settings st"
  have valid: "settings_valid ?s" and wf: "length (ssid ?s) = 33" "length (pass ?s) = 64"
    using settings_init_valid [of "env_flash env" "\<lparr>global_settings = settings_static, flash = f\<rparr>"]
    by (simp_all add: st_def settings_wf_def)
  then have name: "0 < length (cstr (ssid ?s))" "length (cstr (ssid ?s)) < 33"
      "8 \<le> length (cstr (pass ?s))" "length (cstr (pass ?s)) < 64"
    unfolding settings_valid_iff by (simp_all add: strnlen_def)
  have ap: "fst (net_ap_init (boot_net (sample_boot f)) (Some (ssid ?s)) (Some (pass ?s)) network_start) = ERR_SUCCESS"
    using name by (simp add: sample_boot_def net_ap_init_def network_start_def Let_def udp_sockets
        http_server_init_def tcp_server_open_def)
  obtain l where "stairway_leds_init 30 True True True ?s WS281x_PIN leds_static = Some (ERR_SUCCESS, l)"
    using stairway_leds_init_ok [of ?s WS281x_PIN 30] valid by (auto simp: WS281x_PIN_def)
  then have p: "p = \<lparr>main_ctl = controller_start, main_clock = main_clock p, main_store = st, main_leds = l,
        main_sensors = sensors_start, main_bus = modbus_start, main_values = sensors_get_zero,
        main_light = light_start, main_net = main_net p, main_ready = True,
        main_cli = snd (commands_init True), main_conns = [],
        main_heap = main_heap p, main_udp = udp_start\<rparr>"
    using ap by (simp add: p_def main_init_def st_def [symmetric] sample_boot_def split_beta Let_def)
  show "main_ready p" by (subst p) simp
  show "reboot_ts (main_ctl p) = 0" by (subst p) (simp add: controller_start_def)
  show "\<exists>cli. main_cli p = Some cli \<and> cli_shows cli console_start"
    using commands_init_ok by (subst p) auto
qed

end
