(* ===== verification/Console_Passes.thy ===== *)
theory Console_Passes
  imports Program_Safety
begin

text \<open>
  The whole program over several passes of its loop, while a line is typed on the console: one
  character arrives in some of the passes, nothing comes from the network and the button is
  not pressed. The console, the settings and the time of a restart are what the console alone
  would make of the characters; all the rest of the program goes on in between.
\<close>

section \<open>Passes\<close>

text \<open>A number of passes, if none of them restarts; what may come from outside in each.\<close>

fun main_passes :: "'p lwip \<Rightarrow> web_env \<Rightarrow> 'p inputs list \<Rightarrow> 'p program \<Rightarrow> 'p program option" where
  "main_passes net env [] p = Some p"
| "main_passes net env (inp # inps) p =
     (case main_pass net env inp p of
        Some (Running level p1) \<Rightarrow> main_passes net env inps p1
      | _ \<Rightarrow> None)"

fun passes_possible :: "'p lwip \<Rightarrow> web_env \<Rightarrow> ('p \<Rightarrow> string) \<Rightarrow> 'p inputs list \<Rightarrow> 'p program \<Rightarrow> bool" where
  "passes_possible net env accepted [] p \<longleftrightarrow> True"
| "passes_possible net env accepted (inp # inps) p \<longleftrightarrow>
     inputs_possible net env accepted inp p \<and>
     (case main_pass net env inp p of
        Some (Running level p1) \<Rightarrow> passes_possible net env accepted inps p1
      | _ \<Rightarrow> True)"

definition quiet :: "'p inputs \<Rightarrow> bool" where
  "quiet inp \<longleftrightarrow> in_events inp = [] \<and> \<not> in_pressed inp"

text \<open>The characters that arrive during the passes.\<close>

definition typed :: "'p inputs list \<Rightarrow> string" where
  "typed inps = concat (map (\<lambda>inp. case in_char inp of None \<Rightarrow> [] | Some ch \<Rightarrow> [ch]) inps)"

lemma typed_simps [simp]:
  "typed [] = []"
  "typed (inp # inps) = (case in_char inp of None \<Rightarrow> [] | Some ch \<Rightarrow> [ch]) @ typed inps"
  by (simp_all add: typed_def)

section \<open>The controller does not restart\<close>

named_theorems reboot_frame \<open>steps that leave the time of the restart alone\<close>

lemma sensor_update_reboot [reboot_frame]: "reboot_ts (fst (sensor_update v ts i kc)) = reboot_ts (fst kc)"
  by (cases kc) (simp add: sensor_update_def Let_def split_beta)

lemma sensors_update_reboot [reboot_frame]: "reboot_ts (fst (sensors_update v ts kc)) = reboot_ts (fst kc)"
  by (simp add: sensors_update_def all_sensors_def reboot_frame)

lemma count_events_reboot [reboot_frame]: "reboot_ts (fst (count_events s kc)) = reboot_ts (fst kc)"
  by (cases kc) (simp add: count_events_def on_events_def off_events_def Let_def split_beta)

lemma leave_timeout_reboot [reboot_frame]: "reboot_ts (fst (leave_timeout s kc)) = reboot_ts (fst kc)"
  by (cases kc) (simp add: leave_timeout_def Let_def split_beta)

lemma count_pass_reboot [reboot_frame]: "reboot_ts (fst (count_pass e ts kc)) = reboot_ts (fst kc)"
  by (cases kc) (simp add: count_pass_def Let_def split_beta reboot_frame)

lemma block_stamps_reboot [reboot_frame]: "reboot_ts (fst (block_stamps kc)) = reboot_ts (fst kc)"
  by (cases kc) (simp add: block_stamps_def block_stamp_def all_detectors_def Let_def split_beta)

lemma emergency_steps_reboot [reboot_frame]: "reboot_ts (fst (emergency_steps s ts kl)) = reboot_ts (fst kl)"
  by (cases kl) (simp add: emergency_steps_def emergency_step_def all_emergencies_def Let_def split_beta)

lemma emergency_off_reboot [reboot_frame]: "reboot_ts (fst (emergency_off_step i kl)) = reboot_ts (fst kl)"
  by (cases kl) (simp add: emergency_off_step_def Let_def split_beta)

lemma wave_tick_reboot: "wave_tick s ts kl = Some kl' \<Longrightarrow> reboot_ts (fst kl') = reboot_ts (fst kl)"
  by (cases kl)
    (auto simp: wave_tick_def all_emergencies_def Let_def split_beta reboot_frame split: if_splits)

lemma test_step_reboot: "test_step s klc = Some klc' \<Longrightarrow> reboot_ts (fst klc') = reboot_ts (fst klc)"
  by (cases klc) (auto simp: test_step_def split: if_splits)

lemma refresh_step_reboot:
  "refresh_step b m s klc = Some klc' \<Longrightarrow> reboot_ts (fst klc') = reboot_ts (fst klc)"
  by (cases klc) (auto simp: refresh_step_def Let_def split_beta split: if_splits)

lemma error_led_step_reboot [reboot_frame]:
  "reboot_ts (fst (snd (error_led_step ap kc))) = reboot_ts (fst kc)"
  by (cases kc) (simp add: error_led_step_def Let_def split_beta)

lemma controller_pass_reboot:
  assumes "controller_pass e ts (k, l, c) = Some (level, k', l', c')"
  shows "reboot_ts k' = reboot_ts k"
proof -
  let ?s = "env_settings e"
  obtain k1 c1 where r1: "count_pass e ts (k, c) = (k1, c1)" by fastforce
  obtain k2 c2 where r2: "block_stamps (k1, c1) = (k2, c2)" by fastforce
  obtain k3 l1 where r3: "emergency_steps ?s ts (k2, l) = (k3, l1)" by fastforce
  have "reboot_ts k3 = reboot_ts k"
    using count_pass_reboot [of e ts "(k, c)"] block_stamps_reboot [of "(k1, c1)"]
      emergency_steps_reboot [of ?s ts "(k2, l)"] by (simp add: r1 r2 r3)
  then show ?thesis
    using assms
    by (auto simp: controller_pass_def Let_def r1 r2 r3 split_beta reboot_frame
        dest!: wave_tick_reboot test_step_reboot refresh_step_reboot split: option.splits)
qed

section \<open>A pass in which only the console acts\<close>

lemma button_step_quiet: "button_step ts False k = (press, k') \<Longrightarrow> \<not> press \<and> reboot_ts k' = reboot_ts k"
  by (auto simp: button_step_def Let_def split: if_splits)

lemma main_poll_quiet: "in_events inp = [] \<Longrightarrow> main_poll net env (in_events inp) p = Some p"
  by (simp add: main_poll_def)

lemma main_button_quiet:
  "main_store (main_button env ts False p) = main_store p \<and> main_cli (main_button env ts False p) = main_cli p \<and>
   reboot_ts (main_ctl (main_button env ts False p)) = reboot_ts (main_ctl p) \<and>
   main_clock (main_button env ts False p) = main_clock p"
  using button_step_quiet [of ts "main_ctl p"]
  by (cases "button_step ts False (main_ctl p)") (auto simp: main_button_def button_ap_def Let_def)

lemma main_sense_frame:
  "main_sense adc uart p = Some (reading, p') \<Longrightarrow>
     main_store p' = main_store p \<and> main_cli p' = main_cli p \<and> main_ctl p' = main_ctl p \<and>
     main_net p' = main_net p \<and> main_ready p' = main_ready p"
  by (auto simp: main_sense_def Let_def split_beta split: bind_splits)

lemma main_control_frame:
  "main_control ts reading b m p = Some (level, p') \<Longrightarrow>
     main_store p' = main_store p \<and> main_cli p' = main_cli p \<and>
     reboot_ts (main_ctl p') = reboot_ts (main_ctl p) \<and> main_net p' = main_net p \<and> main_ready p' = main_ready p"
  by (auto simp: main_control_def split_beta dest!: controller_pass_reboot split: bind_splits)

lemma quiet_pass:
  assumes "tcp_laws net accepted" and "program_ok env accepted p" and "inputs_possible net env accepted inp p"
    and "quiet inp" and "reboot_ts (main_ctl p) = 0"
  obtains level p' q r where "main_pass net env inp p = Some (Running level p')"
    and "program_ok env accepted p'" and "program_ok env accepted q"
    and "main_console env (in_char inp) q = Some r"
    and "main_store q = main_store p" and "main_cli q = main_cli p" and "reboot_ts (main_ctl q) = 0"
    and "main_clock q = snd (get_time_ms (main_clock p))"
    and "main_store p' = main_store r" and "main_cli p' = main_cli r"
    and "reboot_ts (main_ctl p') = reboot_ts (main_ctl r)"
proof -
  obtain ts clk where ts: "get_time_ms (main_clock p) = (ts, clk)" by fastforce
  define q where "q = main_button env ts False (p\<lparr>main_clock := clk\<rparr>)"
  have q: "program_ok env accepted q" "main_store q = main_store p" "main_cli q = main_cli p"
      "reboot_ts (main_ctl q) = 0" "main_clock q = clk" "main_bus q = main_bus p"
    using main_button_ok [of env accepted "p\<lparr>main_clock := clk\<rparr>"] main_button_quiet [of env ts "p\<lparr>main_clock := clk\<rparr>"] assms(2,5)
    by (simp_all add: q_def program_ok_def)
  have in_quiet: "in_events inp = []" "in_pressed inp = False" using assms(4) by (simp_all add: quiet_def)
  have "\<not> reboot_due ts (main_ctl (p\<lparr>main_clock := clk\<rparr>))" using assms(5) by (simp add: reboot_due_def)
  then have pass: "main_pass net env inp p = do {
      r \<leftarrow> main_console env (in_char inp) q;
      (reading, p4) \<leftarrow> main_sense (in_adc inp) (in_uart inp) r;
      (level, p5) \<leftarrow> main_control ts reading (in_buf_ok inp) (in_mem_ok inp) p4;
      Some (Running level p5) }"
    using main_poll_quiet [OF in_quiet(1)] by (simp add: main_pass_def ts q_def in_quiet)
  obtain r reading p4 level p' where run: "main_console env (in_char inp) q = Some r"
      "main_sense (in_adc inp) (in_uart inp) r = Some (reading, p4)"
      "main_control ts reading (in_buf_ok inp) (in_mem_ok inp) p4 = Some (level, p')"
      "program_ok env accepted p'"
    using loop_sections_ok [OF q(1), of inp ts] q(6) assms(3) by (auto simp: inputs_possible_def)
  show thesis
    by (rule that [of level p' q r])
      (use q run main_sense_frame [OF run(2)] main_control_frame [OF run(3)] in \<open>simp_all add: pass ts\<close>)
qed

section \<open>What the commands do does not depend on the rest of the program\<close>

definition console_world :: "settings_store \<Rightarrow> 'p command_world" where
  "console_world st =
     \<lparr>con_store = st, con_status = status_start, con_network = network_start, con_reboot = None\<rparr>"

definition alike :: "'p command_world \<Rightarrow> 'p command_world \<Rightarrow> bool" where
  "alike w w' \<longleftrightarrow> con_store w = con_store w' \<and> con_reboot w = con_reboot w'"

lemma command_run_alike: "alike w w' \<Longrightarrow> alike (snd (command_run hw f ts w)) (snd (command_run hw f ts w'))"
  by (cases f) (auto simp: command_run_def alike_def split_beta Let_def split: option.split)

lemma run_line_alike:
  "alike w w' \<Longrightarrow> alike (run_line (command_run hw) bs l w) (run_line (command_run hw) bs l w')"
  by (auto simp: run_line_def Let_def command_run_alike split: option.split cli_function.split)

lemma console_key_alike:
  "alike w w' \<Longrightarrow>
     fst (console_key (command_run hw) bs ch s w) = fst (console_key (command_run hw) bs ch s w') \<and>
     alike (snd (console_key (command_run hw) bs ch s w)) (snd (console_key (command_run hw) bs ch s w'))"
  by (simp add: console_key_def enter_line_def Let_def run_line_alike)

lemma console_keys_alike:
  "alike w w' \<Longrightarrow>
     fst (console_keys (command_run hw) bs chs s w) = fst (console_keys (command_run hw) bs chs s w') \<and>
     alike (snd (console_keys (command_run hw) bs chs s w)) (snd (console_keys (command_run hw) bs chs s w'))"
proof (induction chs arbitrary: s w w')
  case (Cons ch chs)
  show ?case
    using Cons.IH [of "snd (console_key (command_run hw) bs ch s w)" "snd (console_key (command_run hw) bs ch s w')"
        "fst (console_key (command_run hw) bs ch s w')"] console_key_alike [OF Cons.prems, of hw bs ch s]
    by (simp add: split_beta)
qed simp

text \<open>A restart that has been requested stays requested.\<close>

lemma console_keys_no_restart:
  assumes "con_reboot (snd (console_keys (command_run hw) bs chs s w)) = None"
  shows "con_reboot w = None"
proof (rule ccontr)
  have "commands_keep (command_run hw) bs (\<lambda>w. con_reboot w \<noteq> None)"
    by (auto simp: commands_keep_def command_run_def Let_def split_beta
        split: console_command.split option.splits)
  moreover assume "con_reboot w \<noteq> None"
  ultimately have "con_reboot (snd (console_keys (command_run hw) bs chs s w)) \<noteq> None"
    by (rule console_keys_keeps)
  then show False using assms by simp
qed

section \<open>Typing\<close>

lemma main_console_key:
  fixes ch :: char and q :: "'p program"
  assumes "program_ok env accepted q" and "main_cli q = Some c" and "cli_shows c s"
  defines "k \<equiv> console_key (command_run (env_flash env)) console_bindings ch s
                (console_world (main_store q) :: 'p command_world)"
  shows "\<exists>r c'. main_console env (Some ch) q = Some r \<and> main_cli r = Some c' \<and> cli_shows c' (fst k) \<and>
     main_store r = con_store (snd k) \<and>
     reboot_ts (main_ctl r) = (case con_reboot (snd k) of
        None \<Rightarrow> reboot_ts (main_ctl q)
      | Some d \<Rightarrow> fst (get_time_ms (main_clock q)) + ucast d)"
proof -
  let ?w = "\<lparr>con_store = main_store q, con_status = status (main_ctl q), con_network = main_net q,
             con_reboot = None\<rparr>"
  let ?k = "console_key (command_run (env_flash env)) console_bindings ch s ?w"
  have c: "setup_ok c" "bindings c = console_bindings"
    using assms(1,2) by (auto simp: program_ok_def console_ok_def)
  obtain c' where c': "cli_putchar (console_app (env_flash env)) ch (Some c) ?w =
        Some (ERR_SUCCESS, Some c', snd ?k)" "cli_shows c' (fst ?k)"
    using cmds.cli_putchar_ok [OF assms(3) c(1), of "env_flash env" ch ?w] c(2) by metis
  have "alike ?w (console_world (main_store q))" by (simp add: alike_def console_world_def)
  from console_key_alike [OF this] have k: "fst ?k = fst k" "con_store (snd ?k) = con_store (snd k)"
      "con_reboot (snd ?k) = con_reboot (snd k)"
    unfolding k_def alike_def by blast+
  show ?thesis
    using c' by (cases "con_reboot (snd k)")
      (simp_all add: main_console_def assms(2) Let_def k reboot_request_def split_beta)
qed

text \<open>One pass, with a character or without.\<close>

lemma typing_pass:
  fixes net :: "'p lwip" and inp :: "'p inputs"
  assumes "tcp_laws net accepted" and "program_ok env accepted p" and "inputs_possible net env accepted inp p"
    and "quiet inp" and "reboot_ts (main_ctl p) = 0" and "main_cli p = Some c" and "cli_shows c s"
  defines "k \<equiv> console_keys (command_run (env_flash env)) console_bindings (typed [inp]) s
                (console_world (main_store p) :: 'p command_world)"
  shows "\<exists>level p' c'. main_pass net env inp p = Some (Running level p') \<and> program_ok env accepted p' \<and>
     main_cli p' = Some c' \<and> cli_shows c' (fst k) \<and> main_store p' = con_store (snd k) \<and>
     reboot_ts (main_ctl p') = (case con_reboot (snd k) of
        None \<Rightarrow> 0
      | Some d \<Rightarrow> fst (get_time_ms (snd (get_time_ms (main_clock p)))) + ucast d)"
proof -
  obtain level p' q r where run: "main_pass net env inp p = Some (Running level p')" "program_ok env accepted p'"
      and q: "program_ok env accepted q" "main_console env (in_char inp) q = Some r" "main_store q = main_store p"
      "main_cli q = main_cli p" "reboot_ts (main_ctl q) = 0" "main_clock q = snd (get_time_ms (main_clock p))"
      and p': "main_store p' = main_store r" "main_cli p' = main_cli r"
      "reboot_ts (main_ctl p') = reboot_ts (main_ctl r)"
    using quiet_pass [OF assms(1-5)] by metis
  show ?thesis
  proof (cases "in_char inp")
    case None
    then have "r = q" using q(2) by (simp add: main_console_def)
    then show ?thesis
      using run p' q assms(6,7) None by (simp add: k_def console_world_def)
  next
    case (Some ch)
    then show ?thesis
      using main_console_key [OF q(1) _ assms(7), of ch] run p' q assms(6)
      by (auto simp: k_def split_beta split: option.split)
  qed
qed

lemma passes_typing:
  fixes net :: "'p lwip"
  assumes "tcp_laws net accepted"
  shows "program_ok env accepted p \<Longrightarrow> passes_possible net env accepted inps p \<Longrightarrow> \<forall>inp \<in> set inps. quiet inp \<Longrightarrow>
     reboot_ts (main_ctl p) = 0 \<Longrightarrow> main_cli p = Some c \<Longrightarrow> cli_shows c s \<Longrightarrow>
     console_keys (command_run (env_flash env)) console_bindings (typed inps) s
       (console_world (main_store p) :: 'p command_world) = (s', w) \<Longrightarrow> con_reboot w = None \<Longrightarrow>
     \<exists>p' c'. main_passes net env inps p = Some p' \<and> program_ok env accepted p' \<and> main_cli p' = Some c' \<and>
       cli_shows c' s' \<and> main_store p' = con_store w \<and> reboot_ts (main_ctl p') = 0"
proof (induction inps arbitrary: p c s w)
  case Nil
  then show ?case by (auto simp: console_world_def)
next
  case (Cons inp inps)
  let ?run = "command_run (env_flash env)"
  let ?k = "console_keys ?run console_bindings (typed [inp]) s (console_world (main_store p) :: 'p command_world)"
  have all: "console_keys ?run console_bindings (typed inps) (fst ?k) (snd ?k) = (s', w)"
    using Cons.prems(7) console_keys_append [of ?run console_bindings "typed [inp]" "typed inps" s
        "console_world (main_store p) :: 'p command_world"]
    by (simp add: split_beta)
  then have "con_reboot (snd ?k) = None"
    using console_keys_no_restart [of "env_flash env" console_bindings "typed inps" "fst ?k" "snd ?k"] Cons.prems(8)
    by simp
  then obtain level p1 c1 where p1: "main_pass net env inp p = Some (Running level p1)" "program_ok env accepted p1"
      "main_cli p1 = Some c1" "cli_shows c1 (fst ?k)" "main_store p1 = con_store (snd ?k)"
      "reboot_ts (main_ctl p1) = 0"
    using typing_pass [OF assms Cons.prems(1) _ _ Cons.prems(4-6), of inp] Cons.prems(2,3) by auto
  have "alike (snd ?k) (console_world (main_store p1))"
    using p1(5) \<open>con_reboot (snd ?k) = None\<close> by (simp add: alike_def console_world_def)
  from console_keys_alike [OF this, of "env_flash env" console_bindings "typed inps" "fst ?k"]
  obtain w1 where w1: "console_keys ?run console_bindings (typed inps) (fst ?k) (console_world (main_store p1)) = (s', w1)"
      "alike w w1"
    using all by (metis fst_conv prod.collapse snd_conv)
  have "con_reboot w1 = None" "con_store w1 = con_store w" using w1(2) Cons.prems(8) by (simp_all add: alike_def)
  then show ?case
    using Cons.IH [OF p1(2) _ _ p1(6,3,4) w1(1)] Cons.prems(2,3) p1(1) by auto
qed

lemma passes_possible_snoc:
  "passes_possible net env accepted (inps @ [inp]) p \<Longrightarrow>
     passes_possible net env accepted inps p \<and>
     (\<forall>p1. main_passes net env inps p = Some p1 \<longrightarrow> inputs_possible net env accepted inp p1)"
proof (induction inps arbitrary: p)
  case (Cons i inps)
  show ?case
  proof (cases "main_pass net env i p")
    case (Some x)
    then show ?thesis using Cons by (cases x) auto
  qed (use Cons.prems in simp)
qed simp

text \<open>The command for the factory settings, with a flash that works.\<close>

lemma set_default_works:
  assumes "flash_ok hw"
  shows "\<exists>st'. set_default hw st = (Some 1000, st') \<and> global_settings st' = stamp default_settings"
proof -
  let ?st = "st\<lparr>global_settings := default_settings\<rparr>"
  obtain st' where w: "settings_write hw ?st = (ERR_SUCCESS, st')"
    using settings_write_succeeds [of hw ?st] assms
    by (cases "settings_write hw ?st") (simp add: flash_ok_def)
  then have "global_settings st' = stamp default_settings"
    using settings_write_global [of hw ?st] by simp
  then show ?thesis by (simp add: set_default_def settings_default_def w)
qed

section \<open>Passes without a character\<close>

definition silent :: "'p inputs \<Rightarrow> bool" where
  "silent inp \<longleftrightarrow> quiet inp \<and> in_char inp = None"

lemma main_pass_running:
  assumes "main_pass net env inp p = Some (Running level p')"
  obtains p1 ts clk r reading p4 where "main_poll net env (in_events inp) p = Some p1"
    and "get_time_ms (main_clock p1) = (ts, clk)"
    and "main_console env (in_char inp) (main_button env ts (in_pressed inp) (p1\<lparr>main_clock := clk\<rparr>)) = Some r"
    and "main_sense (in_adc inp) (in_uart inp) r = Some (reading, p4)"
    and "main_control ts reading (in_buf_ok inp) (in_mem_ok inp) p4 = Some (level, p')"
proof -
  obtain p1 where p1: "main_poll net env (in_events inp) p = Some p1"
    using assms by (cases "main_poll net env (in_events inp) p") (simp_all add: main_pass_def)
  obtain ts clk where ts: "get_time_ms (main_clock p1) = (ts, clk)" by fastforce
  let ?q = "main_button env ts (in_pressed inp) (p1\<lparr>main_clock := clk\<rparr>)"
  have rest: "do { r \<leftarrow> main_console env (in_char inp) ?q;
      (reading, p4) \<leftarrow> main_sense (in_adc inp) (in_uart inp) r;
      (level, p5) \<leftarrow> main_control ts reading (in_buf_ok inp) (in_mem_ok inp) p4;
      Some (Running level p5) } = Some (Running level p')"
    using assms by (simp add: main_pass_def p1 ts Let_def split: if_splits)
  obtain r where r: "main_console env (in_char inp) ?q = Some r"
    using rest by (cases "main_console env (in_char inp) ?q") simp_all
  obtain reading p4 where p4: "main_sense (in_adc inp) (in_uart inp) r = Some (reading, p4)"
    using rest by (cases "main_sense (in_adc inp) (in_uart inp) r") (auto simp: r)
  have "main_control ts reading (in_buf_ok inp) (in_mem_ok inp) p4 = Some (level, p')"
    using rest by (cases "main_control ts reading (in_buf_ok inp) (in_mem_ok inp) p4") (auto simp: r p4)
  then show thesis using that p1 ts r p4 by blast
qed

lemma silent_pass:
  assumes "main_pass net env inp p = Some (Running level p')" and "silent inp"
  shows "main_store p' = main_store p \<and> reboot_ts (main_ctl p') = reboot_ts (main_ctl p)"
proof -
  have inp: "in_events inp = []" "in_pressed inp = False" "in_char inp = None"
    using assms(2) by (simp_all add: silent_def quiet_def)
  obtain p1 ts clk r reading p4 where p1: "main_poll net env (in_events inp) p = Some p1"
      and "get_time_ms (main_clock p1) = (ts, clk)"
      and "main_console env (in_char inp) (main_button env ts (in_pressed inp) (p1\<lparr>main_clock := clk\<rparr>)) = Some r"
      and r: "main_sense (in_adc inp) (in_uart inp) r = Some (reading, p4)"
      "main_control ts reading (in_buf_ok inp) (in_mem_ok inp) p4 = Some (level, p')"
    by (rule main_pass_running [OF assms(1)])
  then have "r = main_button env ts False (p1\<lparr>main_clock := clk\<rparr>)" by (simp add: inp main_console_def)
  moreover have "p1 = p" using p1 main_poll_quiet [OF inp(1)] by simp
  ultimately show ?thesis
    using main_sense_frame [OF r(1)] main_control_frame [OF r(2)]
      main_button_quiet [of env ts "p\<lparr>main_clock := clk\<rparr>"] by simp
qed

lemma silent_passes:
  "main_passes net env inps p = Some p' \<Longrightarrow> list_all silent inps \<Longrightarrow>
     main_store p' = main_store p \<and> reboot_ts (main_ctl p') = reboot_ts (main_ctl p)"
proof (induction inps arbitrary: p)
  case (Cons inp inps)
  then obtain level p1 where "main_pass net env inp p = Some (Running level p1)" "main_passes net env inps p1 = Some p'"
    by (auto split: option.splits outcome.splits)
  then show ?case using Cons.IH [of p1] silent_pass [of net env inp p level p1] Cons.prems(2) by simp
qed simp

lemma due_pass:
  assumes "in_events inp = []" and "reboot_due (fst (get_time_ms (main_clock p))) (main_ctl p)"
  shows "main_pass net env inp p = Some (Restarting (flash (main_store p)))"
  using assms by (simp add: main_pass_def main_poll_def split_beta Let_def)

section \<open>The access point\<close>

lemma net_event_ready: "net_event_run net env ev p = Some p' \<Longrightarrow> main_ready p' = main_ready p"
  by (cases ev)
    (auto simp: net_event_run_def with_web_def split: bind_splits prod.splits option.splits if_splits)

lemma main_poll_ready: "main_poll net env evs p = Some p' \<Longrightarrow> main_ready p' = main_ready p"
proof -
  have "net_events_run net env evs p = Some p' \<Longrightarrow> main_ready p' = main_ready p"
    by (induction evs arbitrary: p) (auto dest: net_event_ready split: bind_splits)
  then show "main_poll net env evs p = Some p' \<Longrightarrow> main_ready p' = main_ready p"
    by (auto simp: main_poll_def split: if_splits)
qed

lemma main_console_frame:
  "main_console env input q = Some r \<Longrightarrow> main_net r = main_net q \<and> main_ready r = main_ready q"
  by (auto simp: main_console_def Let_def split: bind_splits prod.splits option.splits)

text \<open>Only the return key runs a command.\<close>

lemma console_key_plain: "ch \<noteq> CR \<Longrightarrow> ch \<noteq> LF \<Longrightarrow> snd (console_key run bs ch s w) = w"
  by (auto simp: console_key_def)

lemma main_console_plain:
  fixes q :: "'p program"
  assumes "program_ok env accepted q" and "main_console env input q = Some r"
    and "input \<noteq> Some CR" and "input \<noteq> Some LF"
  shows "main_store r = main_store q"
proof (cases input)
  case None
  then show ?thesis using assms(2) by (simp add: main_console_def)
next
  case (Some ch)
  show ?thesis
  proof (cases "main_cli q")
    case None
    then show ?thesis using assms(2) by (auto simp: main_console_def Some cli_putchar_def)
  next
    case cli: (Some c)
    then obtain s where "cli_shows c s" using assms(1) by (auto simp: program_ok_def console_ok_def)
    from main_console_key [OF assms(1) cli this, of ch] show ?thesis
      using assms(2-4) by (auto simp: Some console_key_plain console_world_def)
  qed
qed

lemma radio_follows_pass:
  assumes "tcp_laws net accepted" and "program_ok env accepted p" and "main_ready p"
    and "inputs_possible net env accepted inp p" and "in_char inp \<noteq> Some CR" and "in_char inp \<noteq> Some LF"
    and "main_pass net env inp p = Some (Running level p')"
  defines "on \<equiv> ap_state (global_settings (main_store p'))" and "n \<equiv> main_net p'"
  shows "main_ready p' \<and> net_ap_get_state n = on \<and>
     ap_radio n = (if on then Some (cstr (ap_ssid n), cstr (ap_pass n)) else None)"
proof -
  obtain p1 ts clk r reading p4 where p: "main_poll net env (in_events inp) p = Some p1"
      and "get_time_ms (main_clock p1) = (ts, clk)"
      and run: "main_console env (in_char inp) (main_button env ts (in_pressed inp) (p1\<lparr>main_clock := clk\<rparr>)) = Some r"
      "main_sense (in_adc inp) (in_uart inp) r = Some (reading, p4)"
      "main_control ts reading (in_buf_ok inp) (in_mem_ok inp) p4 = Some (level, p')"
    by (rule main_pass_running [OF assms(7)])
  then have p1: "program_ok env accepted p1"
    using main_poll_ok [OF assms(1,2), of "in_events inp"] assms(4) by (auto simp: inputs_possible_def)
  have ready: "main_ready p1" using main_poll_ready [OF p] assms(3) by simp
  let ?p2 = "p1\<lparr>main_clock := clk\<rparr>"
  let ?q = "main_button env ts (in_pressed inp) ?p2"
  obtain press k where b: "button_step ts (in_pressed inp) (main_ctl p1) = (press, k)" by fastforce
  let ?st = "button_ap (env_flash env) press (main_store p1)"
  have q: "main_store ?q = ?st" "main_net ?q = sync_ap True ?st (main_net p1)" "main_ready ?q"
    using ready by (simp_all add: main_button_def b Let_def)
  have ap: "net_inv (main_net p1)" "ap_inited (main_net p1)"
    using p1 ready by (auto simp: program_ok_def access_point_ok_def)
  have "program_ok env accepted ?q"
    using main_button_ok [of env accepted ?p2] p1 by (simp add: program_ok_def)
  then have "main_store r = ?st" using main_console_plain [OF _ run(1) assms(5,6)] q(1) by simp
  moreover have "main_net r = sync_ap True ?st (main_net p1)" "main_ready r"
    using main_console_frame [OF run(1)] q by simp_all
  ultimately have "main_store p' = ?st" "n = sync_ap True ?st (main_net p1)" "main_ready p'"
    using main_sense_frame [OF run(2)] main_control_frame [OF run(3)] by (simp_all add: n_def)
  moreover have "ap_ssid (sync_ap True ?st (main_net p1)) = ap_ssid (main_net p1)"
      "ap_pass (sync_ap True ?st (main_net p1)) = ap_pass (main_net p1)"
    by (simp_all add: sync_ap_def net_ap_set_state_def Let_def)
  ultimately show ?thesis
    using ap_follows_settings [OF ap, of "env_flash env" press "main_store p1"] by (simp add: on_def Let_def)
qed

section \<open>Samples\<close>

text \<open>A pass in which a key is pressed on the console, and nothing else happens.\<close>

definition keystroke :: "char option \<Rightarrow> string inputs" where
  "keystroke ch =
     \<lparr>in_events = [], in_pressed = False, in_char = ch, in_adc = 2000, in_uart = [],
      in_buf_ok = True, in_mem_ok = True\<rparr>"

lemma keystroke_quiet [simp]: "quiet (keystroke ch)" "in_char (keystroke ch) = ch"
  by (simp_all add: quiet_def keystroke_def)

lemma typed_keystrokes [simp]: "typed (map (keystroke \<circ> Some) chs) = chs"
  by (induction chs) simp_all

lemma keystroke_possible:
  assumes "program_ok env accepted p"
  shows "inputs_possible net env accepted (keystroke ch) p"
  using assms by (simp add: inputs_possible_def keystroke_def program_ok_def sensors_inv_def modbus_inv_def RECEIVE_BUF_SIZE_def)

lemma keystrokes_possible:
  assumes "tcp_laws net accepted"
  shows "program_ok env accepted p \<Longrightarrow> passes_possible net env accepted (map keystroke chs) p"
proof (induction chs arbitrary: p)
  case (Cons ch chs)
  show ?case
    using main_pass_ok [OF assms Cons.prems keystroke_possible [OF Cons.prems, of net ch]]
      keystroke_possible [OF Cons.prems, of net ch] Cons.IH
    by auto
qed simp

lemma sample_possible:
  "passes_possible plain_lwip env (\<lambda>p. p) (map keystroke chs) (the (main_init env (sample_boot f)))"
  by (rule keystrokes_possible [OF plain_lwip_laws program_reachable_ok [OF plain_lwip_laws sample_reachable]])

lemma console_start_prompt: "at_prompt console_start"
  by (simp add: at_prompt_def console_start_def)

end
