(* ===== verification/Program_Lights.thy ===== *)
theory Program_Lights
  imports Lights_Runs Console_Passes
begin

text \<open>
  The whole program as the lights see it. Whatever the network, the button and the console do, a
  run of the program is a run of the controller of \<open>Lights_Runs\<close>: in each pass the other parts read
  the clock a number of times, and touch of the controller only the test mode, the time of a restart
  and the state of the button. So an arrival lights the stairs in the whole program, too.
\<close>

section \<open>What the other parts touch\<close>

definition others_touch :: "controller \<Rightarrow> controller \<Rightarrow> bool" where
  "others_touch k k' \<longleftrightarrow>
     k' = k\<lparr>status := (status k)\<lparr>test_mode := test_mode (status k')\<rparr>, reboot_ts := reboot_ts k',
       button_prev_ts := button_prev_ts k', button_debounce := button_debounce k', button_state := button_state k'\<rparr>"

lemma others_touch_refl [simp]: "others_touch k k"
  by (simp add: others_touch_def)

lemma others_touch_trans:
  assumes "others_touch k k1" and "others_touch k1 k2"
  shows "others_touch k k2"
  using assms(2) by (subst (asm) others_touch_def, subst (asm) assms(1) [unfolded others_touch_def])
    (simp add: others_touch_def)

text \<open>The part of the program that the lights use.\<close>

definition lights_of :: "'p program \<Rightarrow> controller \<times> stairway_leds \<times> clock" where
  "lights_of p = (main_ctl p, main_leds p, main_clock p)"

definition others_pass :: "'p program \<Rightarrow> 'p program \<Rightarrow> bool" where
  "others_pass p p' \<longleftrightarrow> others_touch (main_ctl p) (main_ctl p') \<and> main_leds p' = main_leds p \<and>
     later (main_clock p) (main_clock p')"

lemma others_pass_refl [simp]: "others_pass p p"
  by (simp add: others_pass_def)

lemma others_pass_trans [trans]: "others_pass p p1 \<Longrightarrow> others_pass p1 p2 \<Longrightarrow> others_pass p p2"
  unfolding others_pass_def using others_touch_trans later_trans by metis

lemma web_effect_touch: "web_effect hw w w' \<Longrightarrow> others_touch (web_ctl w) (web_ctl w') \<and> later (web_clock w) (web_clock w')"
  by (auto simp: web_effect_def others_touch_def)

lemma net_event_others:
  assumes "net_event_run net env ev p = Some p'"
  shows "others_pass p p'"
proof (cases ev)
  case (Accept pcb)
  then show ?thesis using assms
    by (auto simp: net_event_run_def others_pass_def split: prod.splits option.splits)
next
  case (Connection i e)
  show ?thesis
  proof (cases "i < length (main_conns p)")
    case True
    then obtain ret con pcb w h where r: "conn_callback net env e
        \<lparr>conn_con = fst (main_conns p ! i), conn_pcb = snd (main_conns p ! i), conn_world = web_of p,
          conn_heap = main_heap p\<rparr> = Some (ret, con, pcb, w, h)"
      and p': "p' = (with_web w p)\<lparr>main_heap := h, main_conns := (main_conns p)[i := (con, pcb)]\<rparr>"
      using assms by (auto simp: Connection net_event_run_def split: bind_splits)
    have "others_touch (main_ctl p) (web_ctl w) \<and> later (main_clock p) (web_clock w)"
      using web_effect_touch [OF conn_callback_effect [OF r]] by (simp add: web_of_def)
    then show ?thesis by (simp add: p' with_web_def others_pass_def)
  qed (use assms in \<open>simp add: Connection net_event_run_def\<close>)
qed (use assms in \<open>auto simp: net_event_run_def others_pass_def split: bind_splits\<close>)

lemma main_poll_others: "main_poll net env evs p = Some p' \<Longrightarrow> others_pass p p'"
proof -
  have "net_events_run net env evs p = Some p' \<Longrightarrow> others_pass p p'" for evs p
    by (induction evs arbitrary: p) (auto split: bind_splits intro: others_pass_trans net_event_others)
  then show "main_poll net env evs p = Some p' \<Longrightarrow> others_pass p p'"
    by (auto simp: main_poll_def split: if_splits)
qed

lemma main_button_others: "others_pass p (main_button env ts pressed p)"
  by (auto simp: main_button_def button_step_def others_pass_def others_touch_def Let_def split_beta)

lemma main_console_others: "main_console env input p = Some p' \<Longrightarrow> others_pass p p'"
  by (auto simp: main_console_def others_pass_def others_touch_def reboot_request_def Let_def split_beta
      split: option.splits bind_splits)

lemma modbus_send_later: "modbus_master_send q m c = Some (e, m', c') \<Longrightarrow> later c c'"
  by (auto simp: modbus_master_send_def Let_def split_beta split: option.splits if_splits)

lemma modbus_routine_later: "modbus_master_routine m c = Some (call, m', c') \<Longrightarrow> later c c'"
  by (auto simp: modbus_master_routine_def Let_def split_beta split: option.splits if_splits)

lemma sensors_routine_later:
  assumes "stairway_sensors_routine s m c = Some (s', m', c')"
  shows "later c c'"
proof -
  obtain call m1 c1 where r: "modbus_master_routine m c = Some (call, m1, c1)"
    using assms by (auto simp: stairway_sensors_routine_def split: option.splits)
  have "later c (snd (get_time_ms c1))" by (rule later_step [OF modbus_routine_later [OF r]])
  then show ?thesis
    using assms r
    by (auto simp: stairway_sensors_routine_def Let_def split_beta split: option.splits if_splits
        dest!: modbus_send_later later_trans [of c "snd (get_time_ms c1)"])
qed

lemma main_sense_others: "main_sense adc uart p = Some (reading, p') \<Longrightarrow> others_pass p p'"
  by (auto simp: main_sense_def light_sensor_get_data_def others_pass_def Let_def split_beta split: bind_splits
      intro: later_trans [OF later_read] dest!: sensors_routine_later)

section \<open>A pass of the program is a turn of the lights\<close>

text \<open>
  The turn that a pass from \<open>p\<close> to \<open>p'\<close> is: the settings, the values of the sensors, the state of
  the access point, the test mode and the time of the restart are those of \<open>p'\<close>, the time is a
  reading of the clock, and the lights do in this turn what they do in the pass.
\<close>

definition turn_of :: "'p program \<Rightarrow> turn \<Rightarrow> 'p program \<Rightarrow> bool" where
  "turn_of p x p' \<longleftrightarrow>
     env_settings (turn_env x) = global_settings (main_store p') \<and> env_sens (turn_env x) = main_values p' \<and>
     env_ap (turn_env x) = net_ap_get_state (main_net p') \<and>
     turn_test x = test_mode (status (main_ctl p')) \<and> turn_reboot x = reboot_ts (main_ctl p') \<and>
     (\<exists>c. later (main_clock p) c \<and> turn_ts x = fst (get_time_ms c)) \<and>
     controller_run [x] (lights_of p) = Some (lights_of p')"

fun turns_of :: "'p lwip \<Rightarrow> web_env \<Rightarrow> 'p inputs list \<Rightarrow> 'p program \<Rightarrow> turn list \<Rightarrow> bool" where
  "turns_of net env [] p xs \<longleftrightarrow> xs = []"
| "turns_of net env (inp # inps) p [] \<longleftrightarrow> False"
| "turns_of net env (inp # inps) p (x # xs) \<longleftrightarrow>
     (case main_pass net env inp p of
        Some (Running level p') \<Rightarrow> turn_of p x p' \<and> turns_of net env inps p' xs
      | _ \<Rightarrow> False)"

lemma others_turn:
  assumes "others_touch k k'"
  shows "other_parts \<lparr>turn_env = e, turn_ts = ts, turn_reads = n, turn_test = test_mode (status k'),
     turn_reboot = reboot_ts k', turn_button = (button_prev_ts k', button_debounce k', button_state k')\<rparr> k = k'"
  by (subst assms [unfolded others_touch_def]) (simp add: other_parts_def)

text \<open>The controller leaves the test mode as it is.\<close>

lemma detectors_step_test: "test_mode (fst (detectors_step s v stc)) = test_mode (fst stc)"
proof -
  have "test_mode (fst (detector_step s v i stc)) = test_mode (fst stc)" for i stc
    using detector_step_frame [of s v i "fst stc" "snd stc"] by (cases "detector_step s v i stc") simp
  then show ?thesis by (simp add: detectors_step_def all_detectors_def)
qed

lemma controller_pass_test:
  assumes "controller_pass e ts (k, l, c) = Some (level, k', l', c')"
  shows "test_mode (status k') = test_mode (status k)"
proof -
  let ?s = "env_settings e" and ?v = "env_sens e"
  let ?k0 = "k\<lparr>error_led_state := False,
    status := (status k)\<lparr>light_state := fst (env_light e), light_value := snd (env_light e)\<rparr>\<rparr>"
  obtain k1 c1 where r1: "sensors_update ?v ts (?k0, c) = (k1, c1)" by fastforce
  obtain st c2 where r2: "detectors_step ?s ?v (light_block ?s (status k1), c1) = (st, c2)" by fastforce
  obtain k2 c3 where r3: "count_events ?s (k1\<lparr>status := st\<rparr>, c2) = (k2, c3)" by fastforce
  obtain k3 c4 where r4: "leave_timeout ?s (k2, c3) = (k3, c4)" by fastforce
  have "test_mode (status k1) = test_mode (status k)"
    using sensors_update_frame [OF r1 [unfolded sensors_update_def]] by simp
  moreover have "test_mode st = test_mode (status k1)"
    using detectors_step_test [of ?s ?v "(light_block ?s (status k1), c1)"] r2 by (simp add: light_block_def)
  moreover have "test_mode (status k2) = test_mode st" using count_events_status [OF r3] by auto
  moreover have "test_mode (status k3) = test_mode (status k2)" using leave_timeout_status [OF r4] by auto
  moreover have "status k' = status k3"
    using controller_pass_status [OF assms] by (simp add: count_pass_def Let_def r1 r2 r3 r4)
  ultimately show ?thesis by simp
qed

lemma main_pass_turn:
  assumes "main_pass net env inp p = Some (Running level p')"
  shows "\<exists>x. turn_of p x p'"
proof -
  obtain p1 where p1: "main_poll net env (in_events inp) p = Some p1"
    using assms by (auto simp: main_pass_def split: bind_splits)
  obtain ts c where ts: "get_time_ms (main_clock p1) = (ts, c)" by fastforce
  obtain p3 reading p4 where p3: "main_console env (in_char inp) (main_button env ts (in_pressed inp) (p1\<lparr>main_clock := c\<rparr>)) = Some p3"
      and p4: "main_sense (in_adc inp) (in_uart inp) p3 = Some (reading, p4)"
      and p5: "main_control ts reading (in_buf_ok inp) (in_mem_ok inp) p4 = Some (level, p')"
    using assms by (auto simp: main_pass_def p1 ts Let_def split: bind_splits if_splits)
  have "others_pass p p1" by (rule main_poll_others [OF p1])
  moreover have "others_pass p1 (p1\<lparr>main_clock := c\<rparr>)"
    using later_read [of "main_clock p1"] by (simp add: others_pass_def ts)
  moreover have "others_pass (p1\<lparr>main_clock := c\<rparr>) p3"
    using main_button_others main_console_others [OF p3] by (rule others_pass_trans)
  ultimately have all: "others_pass p p4"
    using main_sense_others [OF p4] others_pass_trans by blast
  let ?e = "\<lparr>env_settings = global_settings (main_store p4), env_light = reading, env_sens = main_values p4,
    env_buf_ok = in_buf_ok inp, env_mem_ok = in_mem_ok inp, env_ap = net_ap_get_state (main_net p4)\<rparr>"
  obtain k l clk where r: "controller_pass ?e ts (main_ctl p4, main_leds p4, main_clock p4) = Some (level, k, l, clk)"
      and p': "p' = p4\<lparr>main_ctl := k, main_leds := l, main_clock := clk\<rparr>"
    using p5 by (auto simp: main_control_def split: bind_splits)
  obtain n where n: "main_clock p4 = read_times n (main_clock p)" using all by (auto simp: others_pass_def later_def)
  let ?k = "main_ctl p4"
  let ?x = "\<lparr>turn_env = ?e, turn_ts = ts, turn_reads = n, turn_test = test_mode (status ?k),
    turn_reboot = reboot_ts ?k, turn_button = (button_prev_ts ?k, button_debounce ?k, button_state ?k)\<rparr>"
  have "other_parts ?x (main_ctl p) = ?k" using all by (intro others_turn) (simp add: others_pass_def)
  then have "controller_run [?x] (lights_of p) = Some (lights_of p')"
    using r all n by (simp add: lights_of_def others_pass_def p')
  moreover have "test_mode (status k) = test_mode (status ?k)" "reboot_ts k = reboot_ts ?k"
    using controller_pass_test [OF r] controller_pass_reboot [OF r] by simp_all
  moreover have "later (main_clock p) (main_clock p1)" using main_poll_others [OF p1] by (simp add: others_pass_def)
  ultimately have "turn_of p ?x p'"
    using ts by (auto simp: turn_of_def p' intro: exI [of _ "main_clock p1"])
  then show ?thesis by blast
qed

lemma turns_of_run:
  "turns_of net env inps p xs \<Longrightarrow> m \<le> length inps \<Longrightarrow>
     \<exists>pm. main_passes net env (take m inps) p = Some pm \<and> controller_run (take m xs) (lights_of p) = Some (lights_of pm)"
proof (induction net env inps p xs arbitrary: m rule: turns_of.induct)
  case (3 net env inp inps p x xs)
  show ?case
  proof (cases m)
    case (Suc n)
    obtain level p1 where p1: "main_pass net env inp p = Some (Running level p1)" "turn_of p x p1"
        "turns_of net env inps p1 xs"
      using 3(2) by (auto split: option.splits outcome.splits)
    obtain pm where pm: "main_passes net env (take n inps) p1 = Some pm"
        "controller_run (take n xs) (lights_of p1) = Some (lights_of pm)"
      using "3.IH" [OF p1(1) refl p1(3), of n] 3(3) Suc by auto
    have "controller_run ([x] @ take n xs) (lights_of p) = Some (lights_of pm)"
      unfolding controller_run_append using p1(2) pm(2) by (simp add: turn_of_def)
    then show ?thesis using p1(1) pm(1) Suc by simp
  qed simp
qed simp_all

lemma main_passes_turns:
  "main_passes net env inps p = Some p' \<Longrightarrow> \<exists>xs. turns_of net env inps p xs"
proof (induction inps arbitrary: p)
  case Nil
  have "turns_of net env [] p []" by simp
  then show ?case by blast
next
  case (Cons inp inps)
  obtain level p1 where p1: "main_pass net env inp p = Some (Running level p1)" "main_passes net env inps p1 = Some p'"
    using Cons.prems by (auto split: option.splits outcome.splits)
  obtain x where "turn_of p x p1" using main_pass_turn [OF p1(1)] by blast
  moreover obtain xs where "turns_of net env inps p1 xs" using Cons.IH [OF p1(2)] by blast
  ultimately have "turns_of net env (inp # inps) p (x # xs)" using p1(1) by simp
  then show ?case by blast
qed

text \<open>
  C12: nothing but the controller moves the lights. Over any run of the whole program, whatever
  the network, the console, the button and the bus bring, there is one turn of the controller per
  pass, with the settings, sensor values and test mode of the program after this pass and a
  time its clock has shown, and after any number of passes the controller, the LEDs and the clock of
  the program are those after as many turns.
\<close>

theorem program_is_controller_run:
  assumes "main_passes net env inps p = Some p'"
  shows "\<exists>xs. turns_of net env inps p xs \<and>
     (\<forall>m \<le> length inps. \<exists>pm. main_passes net env (take m inps) p = Some pm \<and>
        controller_run (take m xs) (lights_of p) = Some (lights_of pm))"
  using main_passes_turns [OF assms] turns_of_run by blast

lemma program_is_controller_run_witness:
  "let env = sample_env\<lparr>env_flash := nor_flash True True\<rparr>;
       p = the (main_init env (sample_boot (\<lambda>_. 0xFF)))
   in \<exists>x p'. main_passes plain_lwip env [keystroke (Some CR)] p = Some p' \<and>
        turns_of plain_lwip env [keystroke (Some CR)] p [x] \<and> controller_run [x] (lights_of p) = Some (lights_of p')"
proof -
  define env where "env = sample_env\<lparr>env_flash := nor_flash True True\<rparr>"
  define p where "p = the (main_init env (sample_boot (\<lambda>_. 0xFF)))"
  have ok: "program_ok env (\<lambda>p. p) p"
    unfolding p_def by (rule program_reachable_ok [OF plain_lwip_laws sample_reachable])
  have inp: "inputs_possible plain_lwip env (\<lambda>p. p) (keystroke (Some CR)) p"
    using sample_possible [of env "[Some CR]" "\<lambda>_. 0xFF"] by (simp add: p_def)
  have idle: "reboot_ts (main_ctl p) = 0" unfolding p_def by (rule sample_start)
  obtain level p' where "main_pass plain_lwip env (keystroke (Some CR)) p = Some (Running level p')"
    by (rule quiet_pass [OF plain_lwip_laws ok inp keystroke_quiet(1) idle])
  then have run: "main_passes plain_lwip env [keystroke (Some CR)] p = Some p'" by simp
  obtain xs where xs: "turns_of plain_lwip env [keystroke (Some CR)] p xs"
      "\<forall>m \<le> length [keystroke (Some CR)]. \<exists>pm. main_passes plain_lwip env (take m [keystroke (Some CR)]) p = Some pm \<and>
         controller_run (take m xs) (lights_of p) = Some (lights_of pm)"
    using program_is_controller_run [OF run] by blast
  obtain x where x: "xs = [x]" using xs(1) by (cases xs) (auto split: option.splits outcome.splits)
  have "controller_run [x] (lights_of p) = Some (lights_of p')"
    using spec [OF xs(2), of 1] run x by auto
  then show ?thesis using run xs(1) x unfolding Let_def env_def [symmetric] p_def [symmetric] by blast
qed

section \<open>The lights of the whole program\<close>

text \<open>So what holds of runs of the controller holds in the whole program.\<close>

lemma turns_of_length: "turns_of net env inps p xs \<Longrightarrow> length xs = length inps"
  by (induction net env inps p xs rule: turns_of.induct) (auto split: option.splits outcome.splits)

lemma turns_of_reach:
  assumes "turns_of net env inps p xs"
    and "\<exists>m k l c. m \<le> length xs \<and> controller_run (take m xs) (lights_of p) = Some (k, l, c) \<and> all_stopped k \<and> P l \<and> Q k"
  shows "\<exists>m pm. main_passes net env (take m inps) p = Some pm \<and> P (main_leds pm) \<and> Q (main_ctl pm)"
proof -
  obtain m k l c where m: "m \<le> length xs" "controller_run (take m xs) (lights_of p) = Some (k, l, c)" "P l" "Q k"
    using assms(2) by blast
  obtain pm where "main_passes net env (take m inps) p = Some pm" "Some (k, l, c) = Some (lights_of pm)"
    using turns_of_run [OF assms(1), of m] turns_of_length [OF assms(1)] m(1,2) by auto
  then show ?thesis using m(3,4) by (auto simp: lights_of_def)
qed

lemma program_arrival:
  assumes "turns_of net env inps p (coming @ y # leaving)"
    and "settings_valid s" and "at_rest s (lights_of p)" and "watching i {DETECTOR_STATE_IDLE} 0 (main_ctl p)"
    and "\<forall>x \<in> set (coming @ y # leaving). good_turn s (last_test_mode (main_ctl p)) x"
    and "coming \<noteq> []"
    and "\<forall>x \<in> set coming. seen (turn_env x) i = (True, False) \<and> seen (turn_env x) (other i) = (False, False)"
    and "seen (turn_env y) i = (True, True)" and "seen (turn_env y) (other i) = (False, False)"
    and "walks_off i (map turn_env leaving)"
    and "ticks s (prev_ts (main_ctl p)) (map turn_ts coming) + unat (led_count s)
         < ticks s (prev_ts (main_ctl p)) (map turn_ts (coming @ y # leaving))"
  shows "\<exists>m pm. main_passes net env (take m inps) p = Some pm \<and>
     stairs_set s True (total_ms (main_clock p)) (main_leds pm) \<and> people_count (status (main_ctl pm)) = 1"
  by (rule turns_of_reach [OF assms(1)])
    (use arrival_run [OF assms(2) _ assms(4-11), of "main_leds p" "main_clock p"] assms(3) in \<open>simp add: lights_of_def\<close>)

lemma program_departure:
  assumes "turns_of net env inps p (y # leaving)"
    and "settings_valid s" and "at_rest s (lights_of p)" and "watching i {DETECTOR_STATE_SECOND_LOCK} 1 (main_ctl p)"
    and "\<forall>x \<in> set (y # leaving). good_turn s (last_test_mode (main_ctl p)) x"
    and "seen (turn_env y) i = (True, True)" and "seen (turn_env y) (other i) = (False, False)"
    and "walks_off i (map turn_env leaving)"
    and "unat (led_count s) < ticks s (prev_ts (main_ctl p)) (map turn_ts (y # leaving))"
  shows "\<exists>m pm. main_passes net env (take m inps) p = Some pm \<and>
     stairs_set s False (total_ms (main_clock p)) (main_leds pm) \<and> people_count (status (main_ctl pm)) = 0"
  by (rule turns_of_reach [OF assms(1)])
    (use departure_run [OF assms(2) _ assms(4-9), of "main_leds p" "main_clock p"] assms(3) in \<open>simp add: lights_of_def\<close>)

lemma program_timeout:
  assumes "turns_of net env inps p (y # ys)"
    and "settings_valid s" and "at_rest s (lights_of p)"
    and "watching (other (last_det (main_ctl p))) {DETECTOR_STATE_IDLE} n (main_ctl p)" and "0 < n"
    and "people_ts (status (main_ctl p)) \<le> total_ms (main_clock p)"
    and "ucast (leds_off_timeout s) < total_ms (main_clock p) - people_ts (status (main_ctl p))"
    and "\<forall>x \<in> set (y # ys). good_turn s (last_test_mode (main_ctl p)) x \<and> (\<forall>i. seen (turn_env x) i = (False, False))"
    and "unat (led_count s) < ticks s (prev_ts (main_ctl p)) (map turn_ts (y # ys))"
  shows "\<exists>m pm. main_passes net env (take m inps) p = Some pm \<and>
     stairs_set s False (total_ms (main_clock p)) (main_leds pm) \<and> people_count (status (main_ctl pm)) = 0"
proof (rule turns_of_reach [OF assms(1)])
  have "at_rest s (main_ctl p, main_leds p, main_clock p)" using assms(3) by (simp add: lights_of_def)
  from timeout_run [OF assms(2) this assms(4-9)]
  show "\<exists>m k l c. m \<le> length (y # ys) \<and> controller_run (take m (y # ys)) (lights_of p) = Some (k, l, c) \<and>
      all_stopped k \<and> stairs_set s False (total_ms (main_clock p)) l \<and> people_count (status k) = 0"
    unfolding lights_of_def by blast
qed

end
