(* ===== verification/Count_Runs.thy ===== *)
theory Count_Runs
  imports Lights_Runs
begin

text \<open>
  The count of the people over runs of the controller, from the start on: it is never negative and
  grows by two in a pass at most, so that the 32 bit counter of the code is exact for more than
  \<open>10 ^ 9\<close> passes; and what daylight does to it.
\<close>

section \<open>The rest of a pass starts no wave\<close>

lemma tick_runs: "wave_run (snd (tick_of s on i w)) \<Longrightarrow> wave_run w"
  by (cases on; cases i)
    (auto simp: wave_on_tick_def wave_off_tick_def Let_def split_beta split: if_splits)

lemma the_wave_eq:
  "led_on_up k' = led_on_up k \<and> led_on_down k' = led_on_down k \<and>
     led_off_up k' = led_off_up k \<and> led_off_down k' = led_off_down k \<Longrightarrow>
   the_wave on i k' = the_wave on i k"
  by (cases on; cases i) simp_all

lemma wave_tick_runs:
  assumes "wave_tick s ts (k, l) = Some (k', l')" and "wave_run (the_wave on i k')"
  shows "wave_run (the_wave on i k)"
proof -
  obtain k1 l1 where r1: "emergency_off_step EMERGENCY_UP (k\<lparr>prev_ts := ts\<rparr>, l) = (k1, l1)" by fastforce
  obtain k2 l2 where r2: "emergency_off_step EMERGENCY_DOWN (k1, l1) = (k2, l2)" by fastforce
  have same: "the_wave on i k2 = the_wave on i k"
    by (rule the_wave_eq) (use emergency_off_frame [OF r1] emergency_off_frame [OF r2] in simp)
  have "the_wave on i k' = the_wave on i k \<or> the_wave on i k' = snd (tick_of s on i (the_wave on i k2))"
    using assms(1) by (cases on; cases i)
      (auto simp: wave_tick_def r1 r2 all_emergencies_def Let_def split_beta split: if_splits)
  then show ?thesis using assms(2) same tick_runs [of s on i] by auto
qed

lemma controller_pass_runs:
  assumes "controller_pass e ts (k, l, c) = Some (level, k', l', c')" and "wave_run (the_wave on i k')"
  shows "wave_run (the_wave on i (fst (count_pass e ts (k, c))))"
proof -
  let ?s = "env_settings e"
  obtain k1 c1 where r1: "count_pass e ts (k, c) = (k1, c1)" by fastforce
  obtain k2 c2 where r2: "block_stamps (k1, c1) = (k2, c2)" by fastforce
  obtain k3 l1 where r3: "emergency_steps ?s ts (k2, l) = (k3, l1)" by fastforce
  obtain k4 l2 where r4: "wave_tick ?s ts (k3, l1) = Some (k4, l2)"
    using assms by (auto simp: controller_pass_def Let_def r1 r2 r3 split: option.splits)
  obtain k5 l3 c3 where r5: "test_step ?s (k4, l2, c2) = Some (k5, l3, c3)"
    using assms by (auto simp: controller_pass_def Let_def r1 r2 r3 r4 split: option.splits)
  obtain k6 l4 c4 where r6: "refresh_step (env_buf_ok e) (env_mem_ok e) ?s (k5, l3, c3) = Some (k6, l4, c4)"
    using assms by (auto simp: controller_pass_def Let_def r1 r2 r3 r4 r5 split: option.splits)
  have k': "k' = fst (snd (error_led_step (env_ap e) (k6, c4)))"
    using assms by (simp add: controller_pass_def Let_def r1 r2 r3 r4 r5 r6 split_beta)
  have "the_wave on i k' = the_wave on i k6"
    unfolding k' by (rule the_wave_eq) (auto simp: error_led_step_def split_beta)
  also have "\<dots> = the_wave on i k5"
    by (rule the_wave_eq) (use r6 in \<open>auto simp: refresh_step_def split_beta split: if_splits\<close>)
  also have "\<dots> = the_wave on i k4"
    by (rule the_wave_eq) (use r5 in \<open>auto simp: test_step_def split: if_splits\<close>)
  finally have "wave_run (the_wave on i k3)"
    using wave_tick_runs [OF r4] assms(2) by simp
  moreover have "the_wave on i k3 = the_wave on i k1"
    by (rule the_wave_eq) (use emergency_steps_frame [OF r3] block_stamps_frame [OF r2] in simp)
  ultimately show ?thesis by (simp add: r1)
qed

section \<open>The count\<close>

lemma other_parts_count [simp]:
  "count_inv (other_parts x k) = count_inv k"
  "people_count (status (other_parts x k)) = people_count (status k)"
  by (simp_all add: other_parts_def count_inv_def)

text \<open>One turn.\<close>

lemma turn_count:
  assumes "count_inv k" and "controller_run [x] (k, l, c) = Some (k', l', c')"
  shows "count_inv k'" and "people_count (status k') \<le> people_count (status k) + 2"
    and "block_by_light (status k') \<longleftrightarrow>
      fst (env_light (turn_env x)) \<and> use_light_sensor (env_settings (turn_env x)) \<and> people_count (status k) = 0"
    and "block_by_light (status k') \<Longrightarrow> wave_run (the_wave on i k') \<Longrightarrow> wave_run (the_wave on i k)"
proof -
  let ?k = "other_parts x k" and ?c = "read_times (turn_reads x) c"
  obtain level where pass: "controller_pass (turn_env x) (turn_ts x) (?k, l, ?c) = Some (level, k', l', c')"
    using assms(2) by (auto split: option.splits)
  obtain k1 c1 where r: "count_pass (turn_env x) (turn_ts x) (?k, ?c) = (k1, c1)" by fastforce
  have st: "status k' = status k1" using controller_pass_status [OF pass] r by simp
  have inv: "count_inv ?k" using assms(1) by simp
  show "count_inv k'" using count_pass_inv [OF inv r] by (simp add: count_inv_def st)
  show "people_count (status k') \<le> people_count (status k) + 2"
    using count_pass_bound(1) [OF inv r] by (simp add: st)
  show "block_by_light (status k') \<longleftrightarrow> fst (env_light (turn_env x)) \<and>
      use_light_sensor (env_settings (turn_env x)) \<and> people_count (status k) = 0"
    using count_pass_bound(2) [OF inv r] by (simp add: st)
  assume "block_by_light (status k')" and run: "wave_run (the_wave on i k')"
  then have "the_wave on i k1 = the_wave on i ?k"
    using count_pass_blocked [OF inv r] by (intro the_wave_eq) (simp add: st)
  then show "wave_run (the_wave on i k)"
    using controller_pass_runs [OF pass run] by (simp add: r)
qed

lemma run_count:
  "controller_run xs (k, l, c) = Some (k', l', c') \<Longrightarrow> count_inv k \<Longrightarrow>
     count_inv k' \<and> people_count (status k') \<le> people_count (status k) + 2 * int (length xs)"
proof (induction xs arbitrary: k l c)
  case (Cons x xs)
  obtain k1 l1 c1 where r: "controller_run [x] (k, l, c) = Some (k1, l1, c1)"
      "controller_run xs (k1, l1, c1) = Some (k', l', c')"
    using Cons.prems(1) by (auto split: option.splits)
  note one = turn_count(1,2) [OF Cons.prems(2) r(1)]
  from Cons.IH [OF r(2) one(1)] one(2) show ?case by simp
qed simp

lemma sint_small: "0 \<le> n \<Longrightarrow> n < 2 ^ 31 \<Longrightarrow> sint (word_of_int n :: 32 word) = n"
  by (simp add: sint_word_ariths signed_of_int signed_take_bit_int_eq_self)

text \<open>
  C7: the count of the people over any run of the controller from its start, in any environment. After
  a run and one more turn it is not negative and at most twice the number of turns, so for fewer than
  \<open>2 ^ 30\<close> turns the 32 bit counter of the code holds it without overflow, and its last change has
  been answered. The light blocks the program in a turn exactly when the sensor is in use, sees
  daylight and nobody was counted before the turn: daylight does not interrupt the counting while
  people are on the stairs. In a turn that is blocked nobody is counted, both detectors are idle
  whatever the sensors see, and no light wave starts.
\<close>

theorem people_count_invariant:
  assumes "controller_run xs (controller_start, l, c) = Some (k, l1, c1)"
    and "controller_run [x] (k, l1, c1) = Some (k', l2, c2)"
  shows "0 \<le> people_count (status k') \<and> people_count (status k') \<le> 2 * int (Suc (length xs)) \<and>
     (Suc (length xs) < 2 ^ 30 \<longrightarrow>
        sint (word_of_int (people_count (status k')) :: 32 word) = people_count (status k')) \<and>
     prev_people_count (status k') = people_count (status k') \<and>
     (block_by_light (status k') \<longleftrightarrow>
        fst (env_light (turn_env x)) \<and> use_light_sensor (env_settings (turn_env x)) \<and> people_count (status k) = 0) \<and>
     (block_by_light (status k') \<longrightarrow> people_count (status k') = 0 \<and>
        (\<forall>i. det_state (detector (status k') i) = DETECTOR_STATE_IDLE) \<and>
        (\<forall>on i. wave_run (the_wave on i k') \<longrightarrow> wave_run (the_wave on i k)))"
proof -
  have k: "count_inv k" "people_count (status k) \<le> 2 * int (length xs)"
    using run_count [OF assms(1) controller_start_count_inv]
    by (simp_all add: controller_start_def status_start_def)
  note turn = turn_count [OF k(1) assms(2)]
  have bound: "people_count (status k') \<le> 2 * int (Suc (length xs))" using turn(2) k(2) by simp
  then show ?thesis
    using turn(1,3,4) sint_small [of "people_count (status k')"] by (simp add: count_inv_def)
qed

text \<open>
  At night a person comes in and is counted. At the start, daylight blocks the program although both
  sensors of a detector are active.
\<close>

definition daylight_pass :: turn where
  "daylight_pass = (pass_at DETECTOR_TYPE_UP True True 1)
     \<lparr>turn_env := (turn_env (pass_at DETECTOR_TYPE_UP True True 1))\<lparr>env_light := (True, 90)\<rparr>\<rparr>"

lemma people_count_invariant_witness:
  "(\<exists>xs x k l c k' l' c'. controller_run xs (controller_start, dark_leds 18, still_clock 9) = Some (k, l, c) \<and>
      controller_run [x] (k, l, c) = Some (k', l', c') \<and> people_count (status k') = 1 \<and>
      prev_people_count (status k') = 1 \<and> \<not> block_by_light (status k')) \<and>
   (\<exists>k' l' c'. controller_run [daylight_pass] (controller_start, dark_leds 18, still_clock 9) = Some (k', l', c') \<and>
      block_by_light (status k') \<and> people_count (status k') = 0 \<and> \<not> wave_run (led_on_up k'))"
proof
  let ?start = "(controller_start, dark_leds 18, still_clock 9)"
  obtain m k' l' c' where run: "controller_run (take m arrival_passes) ?start = Some (k', l', c')"
      and one: "people_count (status k') = 1"
    using arrival_run [OF default_settings_valid arrival_passes_facts, folded arrival_passes_def] by blast
  have "take m arrival_passes \<noteq> []"
  proof
    assume "take m arrival_passes = []"
    with run have "k' = controller_start" by (simp only: controller_run.simps option.inject prod.inject)
    then show False using one by (simp add: controller_start_def status_start_def)
  qed
  then obtain xs x where xs: "take m arrival_passes = xs @ [x]" by (metis rev_exhaust)
  then obtain k l c where r: "controller_run xs ?start = Some (k, l, c)" "controller_run [x] (k, l, c) = Some (k', l', c')"
    using run by (auto simp: controller_run_append split: option.splits)
  note people_count_invariant [OF r]
  then have "prev_people_count (status k') = 1" "\<not> block_by_light (status k')" using one by auto
  then show "\<exists>xs x k l c k' l' c'. controller_run xs ?start = Some (k, l, c) \<and>
      controller_run [x] (k, l, c) = Some (k', l', c') \<and> people_count (status k') = 1 \<and>
      prev_people_count (status k') = 1 \<and> \<not> block_by_light (status k')"
    using r one by blast
next
  let ?k = "other_parts daylight_pass controller_start" and ?e = "turn_env daylight_pass"
  have e: "settings_valid (env_settings ?e)" "env_buf_ok ?e" "env_mem_ok ?e" "fst (env_light ?e)"
      "use_light_sensor (env_settings ?e)"
    by (simp_all add: daylight_pass_def pass_at_def default_settings_valid) (simp add: default_settings_def)
  have "emergency_on ?k = emergency_state (dark_leds 18)"
    by (simp add: other_parts_def controller_start_def dark_leds_def)
  then obtain k' l' c' where r: "controller_run [daylight_pass] (controller_start, dark_leds 18, still_clock 9) = Some (k', l', c')"
    using controller_pass_total [OF dark_leds_inv _ e(1-3), of ?k 18 "turn_ts daylight_pass"
        "read_times (turn_reads daylight_pass) (still_clock 9)"] by auto
  have "controller_run [] (controller_start, dark_leds 18, still_clock 9) = Some (controller_start, dark_leds 18, still_clock 9)"
    by simp
  note inv = people_count_invariant [OF this r]
  have start: "people_count (status controller_start) = 0" "\<not> wave_run (the_wave True DETECTOR_TYPE_UP controller_start)"
    by (simp_all add: controller_start_def status_start_def wave_start_def)
  have block: "block_by_light (status k')" using inv e(4,5) start(1) by simp
  then have "people_count (status k') = 0" "\<not> wave_run (the_wave True DETECTOR_TYPE_UP k')"
    using inv start(2) by blast+
  then show "\<exists>k' l' c'. controller_run [daylight_pass] (controller_start, dark_leds 18, still_clock 9) = Some (k', l', c') \<and>
      block_by_light (status k') \<and> people_count (status k') = 0 \<and> \<not> wave_run (led_on_up k')"
    using r block by auto
qed

end
