(* ===== verification/Bus_Interrupts.thy ===== *)
theory Bus_Interrupts
  imports Modbus
begin

text \<open>
  The receive interrupt of the bus runs beside the loop. \<open>modbus_master_routine\<close> of
  \<open>src/modbus_master/modbus_master.c\<close> reads \<open>receive_counter\<close> up to three times, and \<open>receive_buf\<close>
  byte by byte; here each of these accesses is a step of its own, and bytes may arrive between any
  two of them. The theorem: this is always as if the routine had run at one instant, with some of
  the bytes before it and the others after it, which is how the other theories model it.
\<close>

section \<open>The routine, one access after the other\<close>

text \<open>
  Where the routine is: before the test of \<open>busy\<close>, the reading of the clock, the two tests of
  the counter, the test of the timeout, the reading of the counter for the call of
  \<open>decode_modbus\<close>, in \<open>decode_modbus\<close> with the bytes it has read so far, before \<open>busy\<close> is cleared,
  and at the end. The argument is the time since the request, the size, or the call made.
\<close>

datatype 'cb routine_at =
    AT_BUSY
  | AT_CLOCK
  | AT_LENGTH u64
  | AT_FULL u64
  | AT_TIMEOUT u64
  | AT_SIZE
  | AT_BYTES u16 "u8 list"
  | AT_CLEAR "('cb \<times> modbus_call) option"
  | AT_END "('cb \<times> modbus_call) option"

type_synonym 'cb routine_state = "'cb routine_at \<times> 'cb modbus \<times> clock"

fun routine_next :: "'cb routine_state \<Rightarrow> 'cb routine_state option" where
  "routine_next (AT_BUSY, m, c) = Some (if busy m then AT_CLOCK else AT_END None, m, c)"
| "routine_next (AT_CLOCK, m, c) =
     (let (ts, c1) = get_time_ms c in Some (AT_LENGTH (ts - send_ts m), m, c1))"
| "routine_next (AT_LENGTH dt, m, c) =
     Some (if receive_counter m \<ge> answer_len m then AT_SIZE else AT_FULL dt, m, c)"
| "routine_next (AT_FULL dt, m, c) =
     Some (if receive_counter m \<ge> of_nat (RECEIVE_BUF_SIZE - 1) then AT_SIZE else AT_TIMEOUT dt, m, c)"
| "routine_next (AT_TIMEOUT dt, m, c) =
     Some (if dt > ucast (req_timeout (last_request m))
           then AT_CLEAR (cb_call m (error_call MODBUS_ERR_TIMEOUT)) else AT_END None, m, c)"
| "routine_next (AT_SIZE, m, c) = Some (AT_BYTES (ucast (receive_counter m)) [], m, c)"
| "routine_next (AT_BYTES sz v, m, c) =
     (if length v < length (receive_buf m) then Some (AT_BYTES sz (v @ [receive_buf m ! length v]), m, c)
      else map_option (\<lambda>(_, call). (AT_CLEAR call, m, c)) (decode_modbus (Some v) sz m))"
| "routine_next (AT_CLEAR call, m, c) = Some (AT_END call, m\<lparr>busy := False\<rparr>, c)"
| "routine_next (AT_END call, m, c) = None"

text \<open>
  A run from \<open>s\<close>: \<open>n\<close> steps of the routine, and the bytes \<open>bs\<close> in any number of interrupts
  between them. An interrupt that does not return has no step.
\<close>

inductive routine_run :: "'cb routine_state \<Rightarrow> nat \<Rightarrow> u8 list \<Rightarrow> 'cb routine_state \<Rightarrow> bool" for s where
  Called: "routine_run s 0 [] s"
| Code: "routine_run s n bs s1 \<Longrightarrow> routine_next s1 = Some s2 \<Longrightarrow> routine_run s (Suc n) bs s2"
| Interrupt: "routine_run s n bs (a, m, c) \<Longrightarrow> modbus_master_uart_rx_irq fifo m = Some m' \<Longrightarrow>
     routine_run s n (bs @ fifo) (a, m', c)"

text \<open>The steps that are left at most.\<close>

fun routine_left :: "'cb routine_at \<Rightarrow> nat" where
  "routine_left AT_BUSY = 263"
| "routine_left AT_CLOCK = 262"
| "routine_left (AT_LENGTH dt) = 261"
| "routine_left (AT_FULL dt) = 260"
| "routine_left (AT_TIMEOUT dt) = 259"
| "routine_left AT_SIZE = 259"
| "routine_left (AT_BYTES sz v) = 2 + (256 - length v)"
| "routine_left (AT_CLEAR call) = 1"
| "routine_left (AT_END call) = 0"

section \<open>What an interrupt leaves alone\<close>

lemma received_frame [simp]:
  "busy (received bs m) = busy m" "answer_len (received bs m) = answer_len m" "send_ts (received bs m) = send_ts m"
  "last_request (received bs m) = last_request m"
  "received bs (m\<lparr>busy := b\<rparr>) = (received bs m)\<lparr>busy := b\<rparr>"
  by (simp_all add: received_def Let_def)

lemma received_none [simp]: "received [] m = m"
  by (simp add: received_def Let_def)

lemma received_byte:
  assumes "unat (receive_counter m) + length bs \<le> 255" and "length (receive_buf m) = 256"
    and "j < unat (receive_counter m)"
  shows "receive_buf (received bs m) ! j = receive_buf m ! j"
  using assms by (simp add: received_def Let_def nth_append)

lemma irq_received:
  assumes "modbus_inv m" and "modbus_master_uart_rx_irq fifo m = Some m'"
  shows "m' = received fifo m" and "unat (receive_counter m) + length fifo \<le> 255"
  using assms modbus_rx_irq_outcome' [OF assms(1), of fifo]
  by (auto simp: received_def Let_def modbus_inv_def RECEIVE_BUF_SIZE_def split: if_splits)

section \<open>Two readings of the same answer\<close>

text \<open>The same call, as far as the \<open>n\<close> bytes of the answer go.\<close>

definition call_agrees :: "nat \<Rightarrow> ('cb \<times> modbus_call) option \<Rightarrow> ('cb \<times> modbus_call) option \<Rightarrow> bool" where
  "call_agrees n x y \<longleftrightarrow>
     (case (x, y) of
        (Some (f, p), Some (g, q)) \<Rightarrow>
          f = g \<and> status p = status q \<and> raw_len p = raw_len q \<and> payload_len p = payload_len q \<and>
          map_option (take n) (raw_answer p) = map_option (take n) (raw_answer q) \<and>
          map_option (take (n - 3)) (payload p) = map_option (take (n - 3)) (payload q)
      | (x, y) \<Rightarrow> x = None \<and> y = None)"

lemma call_agrees_refl [simp]: "call_agrees n x x"
  by (auto simp: call_agrees_def split: option.split)

lemma take_drop_agree: "take n v = take n b \<Longrightarrow> take (n - k) (drop k v) = take (n - k) (drop k b)"
  by (metis drop_take)

lemma decode_agrees:
  assumes "modbus_inv m" and "busy m" and "length v = 256" and "length b = 256"
    and "answer_len m \<le> ucast sz \<longleftrightarrow> answer_len m \<le> ucast sz'" and "unat sz' \<le> 255"
    and "answer_len m \<le> ucast sz' \<Longrightarrow> take (unat (answer_len m)) v = take (unat (answer_len m)) b"
  shows "\<exists>e call e' call'. decode_modbus (Some v) sz m = Some (e, call) \<and>
     decode_modbus (Some b) sz' m = Some (e', call') \<and> call_agrees (unat (answer_len m)) call' call"
proof (cases "answer_len m \<le> ucast sz'")
  case False
  then show ?thesis
    using assms(5) by (auto simp: decode_modbus_def not_le)
next
  case True
  let ?n = "unat (answer_len m)"
  have n: "?n \<le> 255" using True assms(6)
    by (simp add: word_le_nat_alt unsigned_ucast_eq take_bit_nat_eq_self)
  have n5: "5 \<le> ?n" using assms(1,2) by (simp add: modbus_inv_def)
  have same: "take ?n v = take ?n b" by (rule assms(7) [OF True])
  have bytes: "v ! j = b ! j" if "j < ?n" for j
    using that same by (metis nth_take)
  have frame: "frame_ok ?n v = frame_ok ?n b"
    unfolding frame_ok_def using same by (metis diff_le_self take_take min.absorb1)
  have agrees: "call_agrees ?n (cb_call m (answer_call m b)) (cb_call m (answer_call m v))"
    using same bytes [of 1] bytes [of 2] n5 take_drop_agree [OF same, of 3]
    by (auto simp: call_agrees_def cb_call_def answer_call_def split: option.split)
  show ?thesis
    using decode_modbus_complete [OF assms(1-3) _ n, of sz] decode_modbus_complete [OF assms(1,2,4) True n]
      assms(5) True bytes [of 0] bytes [of 1] n5 frame agrees
    by auto
qed

section \<open>The invariant of a run\<close>

text \<open>
  What holds in the middle of a run that began in \<open>m0\<close> at the clock \<open>c0\<close>, when the bytes \<open>bs\<close> have
  arrived and \<open>busy\<close> is \<open>b\<close>. \<open>once\<close>: it was so when some of these bytes had arrived; no later byte can undo it.
\<close>

definition once :: "'cb modbus \<Rightarrow> u8 list \<Rightarrow> ('cb modbus \<Rightarrow> bool) \<Rightarrow> bool" where
  "once m0 bs P \<longleftrightarrow> (\<exists>xs ys. bs = xs @ ys \<and> P (received xs m0))"

definition answer_ready :: "'cb modbus \<Rightarrow> bool" where
  "answer_ready m \<longleftrightarrow> answer_len m \<le> receive_counter m \<or> 255 \<le> receive_counter m"

definition seen_bytes :: "u8 list \<Rightarrow> 'cb modbus \<Rightarrow> bool" where
  "seen_bytes v m \<longleftrightarrow> (\<forall>j < length v. j < unat (receive_counter m) \<longrightarrow> v ! j = receive_buf m ! j)"

fun routine_ok :: "'cb modbus \<Rightarrow> clock \<Rightarrow> u8 list \<Rightarrow> bool \<Rightarrow> 'cb routine_at \<Rightarrow> clock \<Rightarrow> bool" where
  "routine_ok m0 c0 bs b AT_BUSY c \<longleftrightarrow> c = c0"
| "routine_ok m0 c0 bs b AT_CLOCK c \<longleftrightarrow> c = c0 \<and> busy m0"
| "routine_ok m0 c0 bs b (AT_LENGTH dt) c \<longleftrightarrow>
     busy m0 \<and> c = snd (get_time_ms c0) \<and> dt = fst (get_time_ms c0) - send_ts m0"
| "routine_ok m0 c0 bs b (AT_FULL dt) c \<longleftrightarrow>
     busy m0 \<and> c = snd (get_time_ms c0) \<and> dt = fst (get_time_ms c0) - send_ts m0 \<and>
     once m0 bs (\<lambda>m. receive_counter m < answer_len m0)"
| "routine_ok m0 c0 bs b (AT_TIMEOUT dt) c \<longleftrightarrow>
     busy m0 \<and> c = snd (get_time_ms c0) \<and> dt = fst (get_time_ms c0) - send_ts m0 \<and>
     once m0 bs (\<lambda>m. \<not> answer_ready m)"
| "routine_ok m0 c0 bs b AT_SIZE c \<longleftrightarrow> busy m0 \<and> c = snd (get_time_ms c0) \<and> once m0 bs answer_ready"
| "routine_ok m0 c0 bs b (AT_BYTES sz v) c \<longleftrightarrow>
     busy m0 \<and> c = snd (get_time_ms c0) \<and> length v \<le> 256 \<and> unat sz \<le> 255 \<and>
     once m0 bs (\<lambda>m. answer_ready m \<and> receive_counter m \<le> ucast sz \<and> seen_bytes v m)"
| "routine_ok m0 c0 bs b (AT_CLEAR call) c \<longleftrightarrow>
     once m0 bs (\<lambda>m. \<exists>call'. modbus_master_routine m c0 = Some (call', m\<lparr>busy := False\<rparr>, c) \<and>
       call_agrees (unat (answer_len m0)) call' call)"
| "routine_ok m0 c0 bs b (AT_END call) c \<longleftrightarrow>
     once m0 bs (\<lambda>m. \<exists>call'. modbus_master_routine m c0 = Some (call', m\<lparr>busy := b\<rparr>, c) \<and>
       call_agrees (unat (answer_len m0)) call' call)"

text \<open>The memory of the module: the bytes have arrived, and \<open>busy\<close> is as before or cleared.\<close>

definition bus_after :: "'cb modbus \<Rightarrow> u8 list \<Rightarrow> 'cb routine_at \<Rightarrow> 'cb modbus \<Rightarrow> bool" where
  "bus_after m0 bs a m \<longleftrightarrow> unat (receive_counter m0) + length bs \<le> 255 \<and>
     (m = received bs m0 \<or> (\<exists>call. a = AT_END call) \<and> m = (received bs m0)\<lparr>busy := False\<rparr>)"

lemma once_more: "once m0 bs P \<Longrightarrow> once m0 (bs @ fs) P"
  unfolding once_def by (metis append.assoc)

lemma once_now: "P (received bs m0) \<Longrightarrow> once m0 bs P"
  by (auto simp: once_def intro: exI [of _ bs])

lemma once_mono: "once m0 bs P \<Longrightarrow> (\<And>xs ys. bs = xs @ ys \<Longrightarrow> P (received xs m0) \<Longrightarrow> Q (received xs m0)) \<Longrightarrow> once m0 bs Q"
  by (auto simp: once_def)

lemma routine_ok_more: "routine_ok m0 c0 bs b a c \<Longrightarrow> routine_ok m0 c0 (bs @ fs) b a c"
  by (cases a) (auto intro: once_more)

lemma interrupt_keeps:
  assumes "modbus_inv m0" and "bus_after m0 bs a m" and "modbus_master_uart_rx_irq fifo m = Some m'"
  shows "bus_after m0 (bs @ fifo) a m' \<and> busy m' = busy m"
proof -
  have fit: "unat (receive_counter m0) + length bs \<le> 255" using assms(2) by (simp add: bus_after_def)
  have len: "length (receive_buf m0) = 256" using assms(1) by (simp add: modbus_inv_def RECEIVE_BUF_SIZE_def)
  have inv: "modbus_inv (received bs m0)" by (rule received_inv [OF assms(1) fit])
  have "modbus_inv m"
    using assms(2) inv by (auto simp: bus_after_def modbus_inv_def)
  note m' = irq_received [OF this assms(3)]
  have cnt: "unat (receive_counter m) = unat (receive_counter m0) + length bs"
    using assms(2) unat_received [OF fit] by (auto simp: bus_after_def)
  then have fit': "unat (receive_counter m0) + length (bs @ fifo) \<le> 255" using m'(2) by simp
  then show ?thesis
    using assms(2) m'(1) received_append [OF fit' len] by (auto simp: bus_after_def)
qed

text \<open>The counter grows, and the bytes below it stay.\<close>

lemma earlier:
  assumes "modbus_inv m0" and "unat (receive_counter m0) + length (xs @ ys) \<le> 255"
  shows "receive_counter (received xs m0) \<le> receive_counter (received (xs @ ys) m0)"
    and "j < unat (receive_counter (received xs m0)) \<Longrightarrow>
       receive_buf (received (xs @ ys) m0) ! j = receive_buf (received xs m0) ! j"
proof -
  have len: "length (receive_buf m0) = 256" "length (receive_buf (received xs m0)) = 256"
    using assms received_inv [OF assms(1), of xs] by (simp_all add: modbus_inv_def RECEIVE_BUF_SIZE_def)
  have cnt: "unat (receive_counter (received xs m0)) = unat (receive_counter m0) + length xs"
      "unat (receive_counter (received (xs @ ys) m0)) = unat (receive_counter m0) + length (xs @ ys)"
    using assms(2) by (simp_all add: unat_received)
  then show "receive_counter (received xs m0) \<le> receive_counter (received (xs @ ys) m0)"
    by (simp add: word_le_nat_alt)
  show "receive_buf (received (xs @ ys) m0) ! j = receive_buf (received xs m0) ! j"
    if "j < unat (receive_counter (received xs m0))"
    using received_byte [of "received xs m0" ys, OF _ len(2) that] cnt(1) assms(2)
    unfolding received_append [OF assms(2) len(1), symmetric] by simp
qed

section \<open>Every step keeps it\<close>

lemma decode_received [simp]: "decode_modbus b sz (received bs m) = decode_modbus b sz m"
  unfolding decode_modbus_def cb_call_def received_frame by (rule refl)

lemma routine_atomic:
  "\<not> busy m \<Longrightarrow> modbus_master_routine m c = Some (None, m\<lparr>busy := False\<rparr>, c)"
  "busy m \<Longrightarrow> \<not> answer_ready m \<Longrightarrow> modbus_master_routine m c =
     (if fst (get_time_ms c) - send_ts m > ucast (req_timeout (last_request m))
      then Some (cb_call m (error_call MODBUS_ERR_TIMEOUT), m\<lparr>busy := False\<rparr>, snd (get_time_ms c))
      else Some (None, m\<lparr>busy := True\<rparr>, snd (get_time_ms c)))"
  "busy m \<Longrightarrow> answer_ready m \<Longrightarrow> modbus_master_routine m c =
     map_option (\<lambda>r. (snd r, m\<lparr>busy := False\<rparr>, snd (get_time_ms c)))
       (decode_modbus (Some (receive_buf m)) (ucast (receive_counter m)) m)"
  by (auto simp: modbus_master_routine_def answer_ready_def Let_def split_beta RECEIVE_BUF_SIZE_def
      split: option.split)

lemma counter_size:
  assumes "unat (w :: u32) \<le> 255"
  shows "ucast (ucast w :: u16) = w" "unat (ucast w :: u16) = unat w"
  using assms by (simp_all add: word_unat_eq_iff unsigned_ucast_eq unsigned_take_bit_eq take_bit_nat_eq_self)

text \<open>The bytes that have been read give the call of the routine at the instant the answer was ready.\<close>

lemma bytes_decoded:
  assumes "modbus_inv m0" and "unat (receive_counter m0) + length bs \<le> 255"
    and "routine_ok m0 c0 bs b (AT_BYTES sz v) c" and "length v = 256"
  shows "\<exists>e call. decode_modbus (Some v) sz m0 = Some (e, call) \<and> routine_ok m0 c0 bs b' (AT_CLEAR call) c"
proof -
  let ?n = "unat (answer_len m0)"
  have busy: "busy m0" and c: "c = snd (get_time_ms c0)" and sz: "unat sz \<le> 255" using assms(3) by simp_all
  obtain xs ys where xs: "bs = xs @ ys" "answer_ready (received xs m0)"
      "receive_counter (received xs m0) \<le> ucast sz" "seen_bytes v (received xs m0)"
    using assms(3) by (auto simp: once_def)
  let ?m = "received xs m0"
  define k where "k = unat (receive_counter ?m)"
  have inv: "modbus_inv ?m" using received_inv [OF assms(1), of xs] assms(2) xs(1) by simp
  have len: "length (receive_buf ?m) = 256" using inv by (simp add: modbus_inv_def RECEIVE_BUF_SIZE_def)
  have k: "k \<le> 255" using inv by (simp add: modbus_inv_def RECEIVE_BUF_SIZE_def k_def)
  have size: "ucast (ucast (receive_counter ?m) :: u16) = receive_counter ?m" "unat (ucast (receive_counter ?m) :: u16) = k"
    using k counter_size [of "receive_counter ?m"] by (simp_all add: k_def)
  have uszu: "unat (ucast sz :: u32) = unat sz"
    using sz by (simp add: unsigned_ucast_eq take_bit_nat_eq_self)
  have ready: "?n \<le> k \<or> 255 \<le> k"
    using xs(2) by (simp add: answer_ready_def k_def word_le_nat_alt)
  have le: "k \<le> unat sz" using xs(3) uszu by (simp add: word_le_nat_alt k_def)
  have iff: "answer_len m0 \<le> ucast sz \<longleftrightarrow> answer_len m0 \<le> ucast (ucast (receive_counter ?m) :: u16)"
    unfolding size(1) using ready le sz k by (auto simp: word_le_nat_alt uszu k_def [symmetric])
  have small: "?n \<le> k" if "answer_len m0 \<le> ucast (ucast (receive_counter ?m) :: u16)"
    using that unfolding size(1) by (simp add: word_le_nat_alt k_def)
  have same: "take ?n v = take ?n (receive_buf ?m)" if "answer_len m0 \<le> ucast (ucast (receive_counter ?m) :: u16)"
    using small [OF that] xs(4) assms(4) len k
    by (intro nth_equalityI) (simp_all add: seen_bytes_def k_def [symmetric])
  have k': "unat (ucast (receive_counter ?m) :: u16) \<le> 255" using size(2) k by simp
  obtain e call e' call' where d: "decode_modbus (Some v) sz m0 = Some (e, call)"
      "decode_modbus (Some (receive_buf ?m)) (ucast (receive_counter ?m)) m0 = Some (e', call')"
      "call_agrees ?n call' call"
    using decode_agrees [OF assms(1) busy assms(4) len iff k' same] by blast
  have "modbus_master_routine ?m c0 = Some (call', ?m\<lparr>busy := False\<rparr>, c)"
    using routine_atomic(3) [of ?m c0] busy xs(2) d(2) c by simp
  then have "routine_ok m0 c0 bs b' (AT_CLEAR call) c"
    using d(3) xs(1) by (auto simp: once_def)
  then show ?thesis using d(1) by blast
qed

text \<open>What the two tests of the counter and the reading of it establish.\<close>

lemma full_test:
  assumes "modbus_inv m0" and "unat (receive_counter m0) + length bs \<le> 255"
    and "once m0 bs (\<lambda>m. receive_counter m < answer_len m0)" and "\<not> 255 \<le> receive_counter (received bs m0)"
  shows "once m0 bs (\<lambda>m. \<not> answer_ready m)"
  using assms(2-4)
  by (auto simp: answer_ready_def not_le elim!: once_mono intro: order_le_less_trans [OF earlier(1) [OF assms(1)]])

lemma timeout_test:
  assumes "busy m0" and "once m0 bs (\<lambda>m. \<not> answer_ready m)"
    and "late = (fst (get_time_ms c0) - send_ts m0 > ucast (req_timeout (last_request m0)))"
  shows "once m0 bs (\<lambda>m. \<exists>call'. modbus_master_routine m c0 = Some (call', m\<lparr>busy := \<not> late\<rparr>, snd (get_time_ms c0)) \<and>
     call_agrees (unat (answer_len m0)) call' (if late then cb_call m0 (error_call MODBUS_ERR_TIMEOUT) else None))"
  using assms by (auto simp: routine_atomic(2) cb_call_def elim!: once_mono)

lemma size_reading:
  assumes "modbus_inv m0" and "unat (receive_counter m0) + length bs \<le> 255" and "once m0 bs answer_ready"
  defines "sz \<equiv> ucast (receive_counter (received bs m0)) :: u16"
  shows "unat sz \<le> 255 \<and> once m0 bs (\<lambda>m. answer_ready m \<and> receive_counter m \<le> ucast sz \<and> seen_bytes [] m)"
proof -
  have "unat (receive_counter (received bs m0)) \<le> 255" using unat_received [OF assms(2)] assms(2) by simp
  then have "ucast sz = receive_counter (received bs m0)" "unat sz \<le> 255" using counter_size by (simp_all add: sz_def)
  then show ?thesis
    using assms(2,3) earlier(1) [OF assms(1)] by (auto simp: seen_bytes_def elim!: once_mono)
qed

lemma code_keeps:
  assumes "modbus_inv m0" and "bus_after m0 bs a m" and "routine_ok m0 c0 bs (busy m) a c"
    and "routine_next (a, m, c) = Some (a', m', c')"
  shows "bus_after m0 bs a' m' \<and> routine_ok m0 c0 bs (busy m') a' c' \<and> routine_left a' < routine_left a"
proof -
  have fit: "unat (receive_counter m0) + length bs \<le> 255" using assms(2) by (simp add: bus_after_def)
  have len: "length (receive_buf (received bs m0)) = 256"
    using received_inv [OF assms(1) fit] by (simp add: modbus_inv_def RECEIVE_BUF_SIZE_def)
  have now: "(\<forall>call. a \<noteq> AT_END call) \<Longrightarrow> m = received bs m0" using assms(2) by (auto simp: bus_after_def)
  note facts = assms(2-4) fit
  show ?thesis
  proof (cases a)
    case AT_BUSY
    then show ?thesis using facts now
      by (auto simp: bus_after_def routine_atomic(1) intro!: once_now split: if_splits)
  next
    case AT_CLOCK
    then show ?thesis using facts now by (auto simp: bus_after_def split_beta Let_def)
  next
    case (AT_LENGTH dt)
    then show ?thesis using facts now
      by (auto simp: bus_after_def answer_ready_def not_le intro!: once_now split: if_splits)
  next
    case (AT_FULL dt)
    then show ?thesis using facts now full_test [OF assms(1) fit]
      by (auto simp: bus_after_def answer_ready_def RECEIVE_BUF_SIZE_def intro!: once_now split: if_splits)
  next
    case (AT_TIMEOUT dt)
    then show ?thesis using facts now timeout_test [of m0 bs _ c0, OF _ _ refl]
      by (auto simp: bus_after_def cb_call_def split: if_splits)
  next
    case AT_SIZE
    then show ?thesis using facts now size_reading [OF assms(1) fit] by (auto simp: bus_after_def)
  next
    case (AT_BYTES sz v)
    show ?thesis
    proof (cases "length v < 256")
      case True
      then show ?thesis using facts now AT_BYTES len earlier(2) [OF assms(1)]
        by (auto simp: bus_after_def seen_bytes_def nth_append less_Suc_eq elim!: once_mono)
    next
      case False
      then have "length v = 256" using assms(3) AT_BYTES by simp
      with bytes_decoded [OF assms(1) fit assms(3) [unfolded AT_BYTES], of "busy m"] show ?thesis
        using facts now AT_BYTES len by (auto simp: bus_after_def)
    qed
  next
    case (AT_CLEAR call)
    then show ?thesis using facts now by (auto simp: bus_after_def)
  qed (use assms(4) in simp)
qed

lemma run_keeps:
  assumes "modbus_inv m0"
  shows "routine_run (AT_BUSY, m0, c0) n bs s \<Longrightarrow>
     (case s of (a, m, c) \<Rightarrow> bus_after m0 bs a m \<and> routine_ok m0 c0 bs (busy m) a c \<and> n + routine_left a \<le> 263)"
proof (induction rule: routine_run.induct)
  case Called
  then show ?case using assms by (simp add: bus_after_def modbus_inv_def RECEIVE_BUF_SIZE_def)
next
  case (Code n bs s1 s2)
  obtain a m c a' m' c' where s: "s1 = (a, m, c)" "s2 = (a', m', c')" by (cases s1; cases s2)
  then show ?case using Code.IH Code.hyps(2) code_keeps [OF assms, of bs a m c0 c a' m' c'] by auto
next
  case (Interrupt n bs a m c fifo m')
  then show ?case using interrupt_keeps [OF assms, of bs a m fifo m'] by (auto intro: routine_ok_more)
qed

lemma irq_fits:
  assumes "modbus_inv m" and "unat (receive_counter m) + length bs \<le> 255"
  shows "modbus_master_uart_rx_irq bs m = Some (received bs m)"
  using modbus_rx_irq_outcome' [OF assms(1), of bs] assms(2) by (simp add: received_def Let_def)

section \<open>The interrupt may come at any time\<close>

text \<open>
  C26: the routine of the bus is atomic. However the receive interrupt comes between its accesses
  to the counter and to the bytes, a run of the routine has a next step until it returns, after
  at most 263 steps; and what it has done then is what the routine does at one instant between the
  bytes that came before and those that came after: the same call of the callback with the same
  status and the same bytes of the answer, the same memory, and the same clock.
\<close>

theorem routine_atomic_under_interrupts:
  assumes "modbus_inv m0" and "routine_run (AT_BUSY, m0, c0) n bs (a, m, c)"
  shows "n \<le> 263 \<and> (routine_next (a, m, c) = None \<longleftrightarrow> (\<exists>call. a = AT_END call)) \<and>
     (\<forall>call. a = AT_END call \<longrightarrow>
        (\<exists>xs ys m1 m2 call'. bs = xs @ ys \<and> modbus_master_uart_rx_irq xs m0 = Some m1 \<and>
           modbus_master_routine m1 c0 = Some (call', m2, c) \<and> modbus_master_uart_rx_irq ys m2 = Some m \<and>
           call_agrees (unat (answer_len m0)) call' call))"
proof (intro conjI)
  have run: "bus_after m0 bs a m" "routine_ok m0 c0 bs (busy m) a c" "n + routine_left a \<le> 263"
    using run_keeps [OF assms] by simp_all
  then show "n \<le> 263" by simp
  have fit: "unat (receive_counter m0) + length bs \<le> 255" using run(1) by (simp add: bus_after_def)
  have len: "length (receive_buf m0) = 256" using assms(1) by (simp add: modbus_inv_def RECEIVE_BUF_SIZE_def)
  have "length (receive_buf m) = 256"
    using run(1) received_inv [OF assms(1) fit] by (auto simp: bus_after_def modbus_inv_def RECEIVE_BUF_SIZE_def)
  then have next_step: "routine_next (a, m, c) \<noteq> None" if "\<forall>call. a \<noteq> AT_END call"
    using that run(1,2) bytes_decoded [OF assms(1) fit, of c0 "busy m" _ _ c "busy m"]
    by (cases a) (fastforce simp: bus_after_def split_beta Let_def)+
  then show "routine_next (a, m, c) = None \<longleftrightarrow> (\<exists>call. a = AT_END call)" by (cases a) auto
  show "\<forall>call. a = AT_END call \<longrightarrow>
        (\<exists>xs ys m1 m2 call'. bs = xs @ ys \<and> modbus_master_uart_rx_irq xs m0 = Some m1 \<and>
           modbus_master_routine m1 c0 = Some (call', m2, c) \<and> modbus_master_uart_rx_irq ys m2 = Some m \<and>
           call_agrees (unat (answer_len m0)) call' call)"
  proof (intro allI impI)
    fix call
    assume "a = AT_END call"
    then obtain xs ys call' where xs: "bs = xs @ ys"
        "modbus_master_routine (received xs m0) c0 = Some (call', (received xs m0)\<lparr>busy := busy m\<rparr>, c)"
        "call_agrees (unat (answer_len m0)) call' call"
      using run(2) by (auto simp: once_def)
    let ?m2 = "(received xs m0)\<lparr>busy := busy m\<rparr>"
    have fits: "unat (receive_counter m0) + length xs \<le> 255" "unat (receive_counter ?m2) + length ys \<le> 255"
      using fit xs(1) unat_received [of m0 xs] by simp_all
    have inv: "modbus_inv (received xs m0)" by (rule received_inv [OF assms(1) fits(1)])
    have "busy m \<longrightarrow> busy m0" using run(1) by (auto simp: bus_after_def)
    then have inv2: "modbus_inv ?m2" using inv by (auto simp: modbus_inv_def)
    have "m = (received bs m0)\<lparr>busy := busy m\<rparr>" using run(1) by (auto simp: bus_after_def)
    then have "m = received ys ?m2"
      using received_append [of m0 xs ys] fit len xs(1) by simp
    then show "\<exists>xs ys m1 m2 call'. bs = xs @ ys \<and> modbus_master_uart_rx_irq xs m0 = Some m1 \<and>
           modbus_master_routine m1 c0 = Some (call', m2, c) \<and> modbus_master_uart_rx_irq ys m2 = Some m \<and>
           call_agrees (unat (answer_len m0)) call' call"
      using xs irq_fits [OF assms(1) fits(1)] irq_fits [OF inv2 fits(2)] by metis
  qed
qed

text \<open>A run in which two bytes come between the two tests of the counter, too late for the timeout.\<close>

definition waiting_bus :: "nat modbus" where
  "waiting_bus = modbus_start\<lparr>busy := True, answer_len := 7, last_request := sample_request\<rparr>"

definition late_call :: "(nat \<times> modbus_call) option" where
  "late_call = Some (7, error_call MODBUS_ERR_TIMEOUT)"

lemma waiting_bus_run:
  "\<exists>m c. routine_run (AT_BUSY, waiting_bus, clock_init (\<lambda>_. 500)) 6 [2, 3] (AT_END late_call, m, c)"
proof -
  let ?s = "(AT_BUSY, waiting_bus, clock_init (\<lambda>_. 500))"
  let ?m = "received [2, 3] waiting_bus"
  have inv: "modbus_inv waiting_bus"
    by (simp add: waiting_bus_def modbus_inv_def modbus_start_def sample_request_def)
  have start: "busy waiting_bus" "receive_counter waiting_bus = 0" "answer_len waiting_bus = 7"
      "send_ts waiting_bus = 0" "last_request waiting_bus = sample_request"
    by (simp_all add: waiting_bus_def modbus_start_def)
  obtain c1 where time: "get_time_ms (clock_init (\<lambda>_. 500)) = (500, c1)"
    by (simp add: get_time_ms_def clock_init_def Let_def)
  have "routine_run ?s (Suc 0) [] (AT_CLOCK, waiting_bus, clock_init (\<lambda>_. 500))"
    by (rule Code [OF Called]) (simp add: start)
  then have "routine_run ?s (Suc (Suc 0)) [] (AT_LENGTH 500, waiting_bus, c1)"
    by (rule Code) (simp add: time start)
  then have "routine_run ?s (Suc (Suc (Suc 0))) [] (AT_FULL 500, waiting_bus, c1)"
    by (rule Code) (simp add: start)
  then have "routine_run ?s (Suc (Suc (Suc 0))) ([] @ [2, 3]) (AT_FULL 500, ?m, c1)"
    by (rule Interrupt) (rule irq_fits [OF inv], simp add: start)
  then have "routine_run ?s (Suc (Suc (Suc (Suc 0)))) ([] @ [2, 3]) (AT_TIMEOUT 500, ?m, c1)"
    by (rule Code) (simp add: received_def start RECEIVE_BUF_SIZE_def)
  then have "routine_run ?s (Suc (Suc (Suc (Suc (Suc 0))))) ([] @ [2, 3]) (AT_CLEAR late_call, ?m, c1)"
    by (rule Code) (simp add: start sample_request_def late_call_def cb_call_def)
  then have "routine_run ?s (Suc (Suc (Suc (Suc (Suc (Suc 0)))))) ([] @ [2, 3]) (AT_END late_call, ?m\<lparr>busy := False\<rparr>, c1)"
    by (rule Code) simp
  then show ?thesis by (auto simp: eval_nat_numeral)
qed

lemma routine_atomic_under_interrupts_witness:
  "\<exists>m c xs ys m1 m2 call'.
     routine_run (AT_BUSY, waiting_bus, clock_init (\<lambda>_. 500)) 6 [2, 3] (AT_END late_call, m, c) \<and>
     [2, 3] = xs @ ys \<and> modbus_master_uart_rx_irq xs waiting_bus = Some m1 \<and>
     modbus_master_routine m1 (clock_init (\<lambda>_. 500)) = Some (call', m2, c) \<and>
     modbus_master_uart_rx_irq ys m2 = Some m \<and> call_agrees 7 call' late_call"
proof -
  have inv: "modbus_inv waiting_bus"
    by (simp add: waiting_bus_def modbus_inv_def modbus_start_def sample_request_def)
  obtain m c where run: "routine_run (AT_BUSY, waiting_bus, clock_init (\<lambda>_. 500)) 6 [2, 3] (AT_END late_call, m, c)"
    using waiting_bus_run by blast
  have "unat (answer_len waiting_bus) = 7" by (simp add: waiting_bus_def)
  with routine_atomic_under_interrupts [OF inv run, THEN conjunct2, THEN conjunct2, THEN spec, THEN mp, OF refl]
  show ?thesis using run by metis
qed

end
