(* ===== verification/Button.thy ===== *)
theory Button
  imports Controller
begin

text \<open>
  The button of \<open>Controller\<close> (\<open>button_step\<close>), over any sequence of passes: the access point is
  toggled only after four polls in a row have seen the button pressed, and once for each time
  it is held.
\<close>

definition poll_due :: "u64 \<Rightarrow> controller \<Rightarrow> bool" where
  "poll_due ts k \<longleftrightarrow> ts - button_prev_ts k > BUTTON_POLL_PERIOD"

text \<open>The polls of a run, as pairs of the value read and whether an event was raised.\<close>

fun button_run :: "(u64 \<times> bool) list \<Rightarrow> controller \<Rightarrow> (bool \<times> bool) list \<times> controller" where
  "button_run [] k = ([], k)"
| "button_run ((ts, pressed) # xs) k =
     (let (ev, k1) = button_step ts pressed k; (ps, k2) = button_run xs k1
      in ((if poll_due ts k then [(pressed, ev)] else []) @ ps, k2))"

lemma button_run_append:
  "button_run (xs @ ys) k =
     (let (ps, k1) = button_run xs k; (qs, k2) = button_run ys k1 in (ps @ qs, k2))"
  by (induction xs arbitrary: k) (auto simp: split_beta)

text \<open>
  The history of polls against the state: the last \<open>button_debounce\<close> polls saw the button
  pressed; \<open>button_state\<close> tells that no poll since the last event has seen it released.
\<close>

definition pressed_since :: "nat \<Rightarrow> (bool \<times> bool) list \<Rightarrow> bool" where
  "pressed_since j ps \<longleftrightarrow> (\<forall>i. j \<le> i \<and> i < length ps \<longrightarrow> fst (ps ! i))"

definition events_ok :: "(bool \<times> bool) list \<Rightarrow> bool" where
  "events_ok ps \<longleftrightarrow> (\<forall>j < length ps. snd (ps ! j) \<longrightarrow>
     3 \<le> j \<and> (\<forall>i. j - 3 \<le> i \<and> i \<le> j \<longrightarrow> fst (ps ! i)) \<and>
     (\<forall>i < j. snd (ps ! i) \<longrightarrow> (\<exists>m. i < m \<and> m < j \<and> \<not> fst (ps ! m))))"

definition button_ok :: "(bool \<times> bool) list \<Rightarrow> controller \<Rightarrow> bool" where
  "button_ok ps k \<longleftrightarrow>
     unat (button_debounce k) \<le> 3 \<and> unat (button_debounce k) \<le> length ps \<and>
     pressed_since (length ps - unat (button_debounce k)) ps \<and> events_ok ps \<and>
     (\<not> button_state k \<longrightarrow>
        (\<forall>i < length ps. snd (ps ! i) \<longrightarrow> (\<exists>m. i < m \<and> m < length ps \<and> \<not> fst (ps ! m))))"

lemma events_ok_snoc:
  assumes "events_ok ps"
    and "ev \<Longrightarrow> 3 \<le> length ps \<and> pressed_since (length ps - 3) ps \<and> pressed \<and>
      (\<forall>i < length ps. snd (ps ! i) \<longrightarrow> (\<exists>m. i < m \<and> m < length ps \<and> \<not> fst (ps ! m)))"
  shows "events_ok (ps @ [(pressed, ev)])"
  unfolding events_ok_def
proof (intro allI impI)
  fix j
  assume j: "j < length (ps @ [(pressed, ev)])" "snd ((ps @ [(pressed, ev)]) ! j)"
  show "3 \<le> j \<and> (\<forall>i. j - 3 \<le> i \<and> i \<le> j \<longrightarrow> fst ((ps @ [(pressed, ev)]) ! i)) \<and>
     (\<forall>i < j. snd ((ps @ [(pressed, ev)]) ! i) \<longrightarrow>
        (\<exists>m. i < m \<and> m < j \<and> \<not> fst ((ps @ [(pressed, ev)]) ! m)))"
  proof (cases "j < length ps")
    case True
    with j have s: "snd (ps ! j)" by (simp add: nth_append)
    have a: "3 \<le> j" "\<forall>i. j - 3 \<le> i \<and> i \<le> j \<longrightarrow> fst (ps ! i)"
        "\<forall>i < j. snd (ps ! i) \<longrightarrow> (\<exists>m. i < m \<and> m < j \<and> \<not> fst (ps ! m))"
      using assms(1) True s by (auto simp: events_ok_def)
    have n: "(ps @ [(pressed, ev)]) ! i = ps ! i" if "i \<le> j" for i
      using that True by (simp add: nth_append)
    show ?thesis
      using a n by (metis less_imp_le)
  next
    case False
    then have e: "j = length ps" using j(1) by simp
    with j(2) have ev by simp
    from assms(2) [OF this] show ?thesis
      unfolding e by (auto simp: pressed_since_def nth_append le_less)
  qed
qed

lemma pressed_since_snoc:
  "pressed_since j ps \<Longrightarrow> x \<Longrightarrow> pressed_since j (ps @ [(x, e)])"
  by (auto simp: pressed_since_def nth_append less_Suc_eq)

lemma pressed_since_end: "length ps \<le> j \<Longrightarrow> pressed_since j ps"
  by (auto simp: pressed_since_def)

lemma button_ok_step:
  assumes "button_ok ps k" and "button_step ts pressed k = (ev, k')"
  shows "button_ok (ps @ (if poll_due ts k then [(pressed, ev)] else [])) k'"
proof (cases "poll_due ts k")
  case False
  then show ?thesis using assms by (auto simp: button_step_def poll_due_def)
next
  case True
  let ?d = "unat (button_debounce k)"
  have ok: "?d \<le> 3" "?d \<le> length ps" "pressed_since (length ps - ?d) ps" "events_ok ps"
    "\<not> button_state k \<Longrightarrow>
       \<forall>i < length ps. snd (ps ! i) \<longrightarrow> (\<exists>m. i < m \<and> m < length ps \<and> \<not> fst (ps ! m))"
    using assms(1) by (auto simp: button_ok_def)
  note due = True [unfolded poll_due_def]
  have later: "\<forall>i < length (ps @ [(x, False)]). snd ((ps @ [(x, False)]) ! i) \<longrightarrow>
      (\<exists>m. i < m \<and> m < length (ps @ [(x, False)]) \<and> \<not> fst ((ps @ [(x, False)]) ! m))"
    if rel: "\<not> button_state k \<or> \<not> x" for x
  proof (intro allI impI)
    fix i
    assume i: "i < length (ps @ [(x, False)])" "snd ((ps @ [(x, False)]) ! i)"
    then have il: "i < length ps" "snd (ps ! i)" by (auto simp: nth_append split: if_splits)
    show "\<exists>m. i < m \<and> m < length (ps @ [(x, False)]) \<and> \<not> fst ((ps @ [(x, False)]) ! m)"
    proof (cases x)
      case False
      then show ?thesis using il by (intro exI [of _ "length ps"]) simp
    next
      case True
      then obtain m where "i < m" "m < length ps" "\<not> fst (ps ! m)" using ok(5) rel il by auto
      then show ?thesis by (intro exI [of _ m]) (simp add: nth_append)
    qed
  qed
  consider (released) "\<not> pressed" | (count) "pressed" "button_debounce k < 3"
    | (event) "pressed" "\<not> button_debounce k < 3" "\<not> button_state k"
    | (held) "pressed" "\<not> button_debounce k < 3" "button_state k" by blast
  then show ?thesis
  proof cases
    case released
    then have "ev = False" "k' = k\<lparr>button_prev_ts := ts, button_debounce := 0, button_state := False\<rparr>"
      using assms(2) due by (auto simp: button_step_def)
    then show ?thesis
      using True released events_ok_snoc [OF ok(4), of False False] later [of False]
      by (simp add: button_ok_def pressed_since_end)
  next
    case count
    then have k': "ev = False" "k' = k\<lparr>button_prev_ts := ts, button_debounce := button_debounce k + 1\<rparr>"
      using assms(2) due by (auto simp: button_step_def BUTTON_DEBOUNCE_CNT_def)
    have d: "unat (button_debounce k + 1) = Suc ?d" "Suc ?d \<le> 3"
      using count(2) unat_succ [of "button_debounce k" 3] by (simp_all add: word_less_nat_alt)
    show ?thesis
      using True count ok d pressed_since_snoc [OF ok(3), of True False]
        events_ok_snoc [OF ok(4), of False True] later [of True]
      by (simp add: button_ok_def k')
  next
    case event
    then have k': "ev = True" "k' = k\<lparr>button_prev_ts := ts, button_state := True, button_debounce := 0\<rparr>"
      using assms(2) due by (auto simp: button_step_def BUTTON_DEBOUNCE_CNT_def)
    have d: "?d = 3" using event(2) ok(1) by (simp add: word_less_nat_alt)
    show ?thesis
      using True event ok d events_ok_snoc [OF ok(4), of True True]
      by (simp add: button_ok_def k' pressed_since_end)
  next
    case held
    then have k': "ev = False" "k' = k\<lparr>button_prev_ts := ts\<rparr>"
      using assms(2) due by (auto simp: button_step_def BUTTON_DEBOUNCE_CNT_def)
    have "length (ps @ [(True, False)]) - ?d \<ge> length ps - ?d" by simp
    then have "pressed_since (length (ps @ [(True, False)]) - ?d) (ps @ [(True, False)])"
      using pressed_since_snoc [OF ok(3), of True False] by (auto simp: pressed_since_def)
    then show ?thesis
      using True held ok events_ok_snoc [OF ok(4), of False True]
      by (simp add: button_ok_def k')
  qed
qed

lemma button_run_ok:
  "button_ok (fst (button_run xs controller_start)) (snd (button_run xs controller_start))"
proof (induction xs rule: rev_induct)
  case Nil
  then show ?case
    by (simp add: button_ok_def controller_start_def pressed_since_def events_ok_def)
next
  case (snoc x xs)
  obtain ts pressed where x: "x = (ts, pressed)" by (cases x)
  obtain ps k where r: "button_run xs controller_start = (ps, k)" by fastforce
  obtain ev k1 where s: "button_step ts pressed k = (ev, k1)" by fastforce
  show ?case
    using button_ok_step [OF _ s, of ps] snoc r s by (simp add: button_run_append x)
qed

text \<open>
  The button is debounced. In any run of the main loop, an event is raised only by a poll
  that is at least the fourth in a row to see the button pressed, and between two events
  some poll has seen it released: holding the button toggles the access point once.
\<close>

theorem button_debounced:
  fixes xs :: "(u64 \<times> bool) list"
  defines "ps \<equiv> fst (button_run xs controller_start)"
  assumes "j < length ps" and "snd (ps ! j)"
  shows "3 \<le> j \<and> (\<forall>i. j - 3 \<le> i \<and> i \<le> j \<longrightarrow> fst (ps ! i)) \<and>
     (\<forall>i < j. snd (ps ! i) \<longrightarrow> (\<exists>m. i < m \<and> m < j \<and> \<not> fst (ps ! m)))"
  using button_run_ok [of xs] assms(2,3) unfolding ps_def
  by (simp add: button_ok_def events_ok_def)

lemma button_debounced_witness:
  "let ps = fst (button_run [(600, True), (1200, True), (1800, True), (2400, True)] controller_start)
   in snd (ps ! 3) \<and> fst (ps ! 0)"
proof -
  let ?xs = "[(600, True), (1200, True), (1800, True), (2400, True)] :: (u64 \<times> bool) list"
  have ps: "fst (button_run ?xs controller_start) =
      [(True, False), (True, False), (True, False), (True, True)]"
    by (simp add: button_step_def controller_start_def poll_due_def BUTTON_POLL_PERIOD_def
        BUTTON_DEBOUNCE_CNT_def Let_def)
  then have "3 < length (fst (button_run ?xs controller_start))"
      "snd (fst (button_run ?xs controller_start) ! 3)"
    by simp_all
  from button_debounced [OF this] ps show ?thesis by simp
qed

end
