(* ===== verification/Hardware.thy ===== *)
theory Hardware
  imports Sensors Light
begin

text \<open>
  The code that only talks to the hardware: reading the button through the chip select of the
  flash (\<open>src/button/button.c\<close>), and the set-up of the bus and of the converter, as the list of
  the calls of the SDK. The bits of the RP2040 registers are those of its data sheet, as
  parameters.
\<close>

section \<open>The button\<close>

text \<open>
  What \<open>get_bootsel_button\<close> touches: whether interrupts are enabled, and the control register of
  the chip select pin. While its output is disabled, the pins are read through \<open>gpio_hi_in\<close>, a
  function of the register.
\<close>

record chip =
  irqs_enabled :: bool
  cs_ctrl :: u32

text \<open>The position and the mask of the override field, and its two values.\<close>

record qspi =
  OEOVER_LSB :: nat
  OEOVER_BITS :: u32
  OVERRIDE_LOW :: u32
  OVERRIDE_NORMAL :: u32

definition save_and_disable_interrupts :: "chip \<Rightarrow> bool \<times> chip" where
  "save_and_disable_interrupts c = (irqs_enabled c, c\<lparr>irqs_enabled := False\<rparr>)"

definition restore_interrupts :: "bool \<Rightarrow> chip \<Rightarrow> chip" where
  "restore_interrupts flags c = c\<lparr>irqs_enabled := flags\<rparr>"

text \<open>\<open>hw_write_masked\<close> changes the bits of the mask.\<close>

definition hw_write_masked :: "u32 \<Rightarrow> u32 \<Rightarrow> u32 \<Rightarrow> u32" where
  "hw_write_masked reg values m = reg XOR ((reg XOR values) AND m)"

definition CS_BIT :: u32 where "CS_BIT = push_bit 1 1"

text \<open>The empty loop that waits has no effect.\<close>

definition get_bootsel_button :: "qspi \<Rightarrow> (u32 \<Rightarrow> u32) \<Rightarrow> chip \<Rightarrow> bool \<times> chip" where
  "get_bootsel_button q gpio_hi_in c =
     (let (flags, c1) = save_and_disable_interrupts c;
          c2 = c1\<lparr>cs_ctrl := hw_write_masked (cs_ctrl c1) (push_bit (OEOVER_LSB q) (OVERRIDE_LOW q)) (OEOVER_BITS q)\<rparr>;
          button_state = (gpio_hi_in (cs_ctrl c2) AND CS_BIT = 0);
          c3 = c2\<lparr>cs_ctrl := hw_write_masked (cs_ctrl c2) (push_bit (OEOVER_LSB q) (OVERRIDE_NORMAL q)) (OEOVER_BITS q)\<rparr>
      in (button_state, restore_interrupts flags c3))"

lemma hw_write_masked_twice:
  assumes "reg AND m = v AND m"
  shows "hw_write_masked (hw_write_masked reg u m) v m = reg"
proof (rule bit_word_eqI)
  fix n
  assume "n < LENGTH(32)"
  have "bit (reg AND m) n = bit (v AND m) n" by (simp add: assms)
  then show "bit (hw_write_masked (hw_write_masked reg u m) v m) n = bit reg n"
    by (auto simp: hw_write_masked_def bit_simps)
qed

lemma hw_write_masked_field:
  fixes reg :: u32
  shows "hw_write_masked reg u m AND m = u AND m" and "hw_write_masked reg u m AND NOT m = reg AND NOT m"
  by (rule bit_word_eqI, auto simp: hw_write_masked_def bit_simps)+

text \<open>
  If the chip select was driven normally, reading the button leaves the chip as it was: the flash
  can be read again and the interrupts are as before. The button is read while the output is
  off and no other bit of the register has changed.
\<close>

lemma get_bootsel_button_restores:
  assumes "cs_ctrl c AND OEOVER_BITS q = push_bit (OEOVER_LSB q) (OVERRIDE_NORMAL q) AND OEOVER_BITS q"
  shows "snd (get_bootsel_button q gpio_hi_in c) = c \<and>
     (\<exists>r. r AND OEOVER_BITS q = push_bit (OEOVER_LSB q) (OVERRIDE_LOW q) AND OEOVER_BITS q \<and>
        r AND NOT (OEOVER_BITS q) = cs_ctrl c AND NOT (OEOVER_BITS q) \<and>
        fst (get_bootsel_button q gpio_hi_in c) = (gpio_hi_in r AND CS_BIT = 0))"
proof -
  let ?r = "hw_write_masked (cs_ctrl c) (push_bit (OEOVER_LSB q) (OVERRIDE_LOW q)) (OEOVER_BITS q)"
  have run: "get_bootsel_button q gpio_hi_in c = (gpio_hi_in ?r AND CS_BIT = 0, c)"
    by (simp add: get_bootsel_button_def save_and_disable_interrupts_def restore_interrupts_def
        hw_write_masked_twice [OF assms])
  have low: "?r AND OEOVER_BITS q = push_bit (OEOVER_LSB q) (OVERRIDE_LOW q) AND OEOVER_BITS q"
    by (rule hw_write_masked_field)
  have rest: "?r AND NOT (OEOVER_BITS q) = cs_ctrl c AND NOT (OEOVER_BITS q)"
    by (rule hw_write_masked_field)
  show ?thesis
    unfolding run fst_conv snd_conv by (intro conjI refl exI [of _ ?r] low rest)
qed

section \<open>The bus and the converter\<close>

datatype sdk_call =
    Uart_init nat
  | Uart_set_format nat nat
  | Gpio_function_uart nat
  | Gpio_pull_up nat
  | Gpio_init nat
  | Gpio_set_dir nat bool
  | Gpio_put nat bool
  | Uart_set_fifo_enabled bool
  | Irq_set_exclusive_handler
  | Irq_set_enabled bool
  | Uart_set_irqs_enabled bool bool
  | Adc_init
  | Adc_gpio_init nat
  | Adc_select_input nat

definition MODBUS_MASTER_BAUD :: nat where "MODBUS_MASTER_BAUD = 9600"
definition MODBUS_MASTER_STOP_BITS :: nat where "MODBUS_MASTER_STOP_BITS = 1"
definition MODBUS_MASTER_TX_PIN :: nat where "MODBUS_MASTER_TX_PIN = 8"
definition MODBUS_MASTER_RX_PIN :: nat where "MODBUS_MASTER_RX_PIN = 9"
definition MODBUS_MASTER_DIR_PIN :: nat where "MODBUS_MASTER_DIR_PIN = 4"
definition LED_PIN :: nat where "LED_PIN = 12"

definition modbus_master_init :: "err_code \<times> sdk_call list" where
  "modbus_master_init =
     (ERR_SUCCESS,
      [Uart_init MODBUS_MASTER_BAUD, Uart_set_format 8 MODBUS_MASTER_STOP_BITS,
       Gpio_function_uart MODBUS_MASTER_TX_PIN, Gpio_function_uart MODBUS_MASTER_RX_PIN,
       Gpio_pull_up MODBUS_MASTER_RX_PIN, Gpio_init MODBUS_MASTER_DIR_PIN,
       Gpio_set_dir MODBUS_MASTER_DIR_PIN True, Gpio_put MODBUS_MASTER_DIR_PIN False,
       Gpio_init LED_PIN, Gpio_set_dir LED_PIN True, Uart_set_fifo_enabled False,
       Irq_set_exclusive_handler, Irq_set_enabled True, Uart_set_irqs_enabled True False])"

definition stairway_sensors_init :: "err_code \<times> sdk_call list" where
  "stairway_sensors_init =
     (let (err, calls) = modbus_master_init
      in if err \<noteq> ERR_SUCCESS then (err, calls) else (ERR_SUCCESS, calls))"

text \<open>
  The bytes of an answer reach the interrupt one by one: the FIFO of the UART is off before the
  interrupt of the receiver is enabled, and its handler is installed before that; the driver of
  the bus is left listening.
\<close>

lemma modbus_master_init_order:
  "\<exists>xs ys zs. snd modbus_master_init =
     xs @ Uart_set_fifo_enabled False # ys @ Irq_set_exclusive_handler # zs @ [Uart_set_irqs_enabled True False] \<and>
     Irq_set_enabled True \<notin> set xs \<union> set ys \<and> Irq_set_enabled True \<in> set zs \<and>
     filter (\<lambda>c. \<exists>b. c = Gpio_put MODBUS_MASTER_DIR_PIN b) (snd modbus_master_init) =
       [Gpio_put MODBUS_MASTER_DIR_PIN False]"
  by (rule exI [of _ "take 10 (snd modbus_master_init)"], rule exI [of _ "[]"],
      rule exI [of _ "[Irq_set_enabled True]"])
    (auto simp: modbus_master_init_def)

text \<open>The inputs of the converter, by number, and the calls of \<open>light_sensor_init\<close>.\<close>

definition adc_gpio :: "nat list" where "adc_gpio = [26, 27, 28, 29, 4]"

definition light_sensor_calls :: "u32 \<Rightarrow> sdk_call list" where
  "light_sensor_calls pin =
     (if light_sensor_init pin \<noteq> ERR_SUCCESS then []
      else [Adc_init, Adc_gpio_init (adc_gpio ! unat pin), Adc_select_input (unat pin)])"

lemma light_sensor_calls_inside:
  "light_sensor_calls pin \<noteq> [] \<longleftrightarrow> unat pin < length adc_gpio"
  by (simp add: light_sensor_calls_def light_sensor_init_def adc_gpio_def word_le_nat_alt not_le)

end
