(* ===== verification/Cli_Extra.thy ===== *)
theory Cli_Extra
  imports Console_Spec
begin

text \<open>
  The functions of \<open>src/cli/embedded_cli.h\<close> beside the path from a character to a command: the
  memory that \<open>embeddedCliNew\<close> divides among the buffers, printing in the middle of a line, and
  the search for a token.
\<close>

section \<open>The memory of the console\<close>

text \<open>\<open>CLI_UINT\<close> has four bytes on this processor; the sizes of the structures are the compiler's.\<close>

definition CLI_UINT_SIZE :: nat where "CLI_UINT_SIZE = 4"

definition BYTES_TO_CLI_UINTS :: "nat \<Rightarrow> nat" where
  "BYTES_TO_CLI_UINTS n = (n + CLI_UINT_SIZE - 1) div CLI_UINT_SIZE"

record cli_sizes =
  sizeof_EmbeddedCli :: nat
  sizeof_EmbeddedCliImpl :: nat
  sizeof_CliCommandBinding :: nat

text \<open>The blocks in the order in which \<open>embeddedCliNew\<close> takes them: the last one is the history.\<close>

definition cli_blocks :: "cli_sizes \<Rightarrow> cli_config \<Rightarrow> nat list" where
  "cli_blocks z config =
     (let n = maxBindingCount config + cliInternalBindingCount
      in [sizeof_EmbeddedCli z, sizeof_EmbeddedCliImpl z, unat (rxBufferSize config), cmdBufferSize config,
          n * sizeof_CliCommandBinding z, n, historyBufferSize config])"

definition embeddedCliRequiredSize :: "cli_sizes \<Rightarrow> cli_config \<Rightarrow> u16" where
  "embeddedCliRequiredSize z config =
     of_nat (CLI_UINT_SIZE * sum_list (map BYTES_TO_CLI_UINTS (cli_blocks z config)))"

text \<open>Start and size of each block, from the pointer \<open>buf\<close> on.\<close>

fun carve :: "nat \<Rightarrow> nat list \<Rightarrow> (nat \<times> nat) list" where
  "carve buf [] = []"
| "carve buf (n # ns) = (buf, n) # carve (buf + CLI_UINT_SIZE * BYTES_TO_CLI_UINTS n) ns"

lemma bytes_fit: "n \<le> CLI_UINT_SIZE * BYTES_TO_CLI_UINTS n"
  by (simp add: CLI_UINT_SIZE_def BYTES_TO_CLI_UINTS_def)

lemma carve_bounds:
  "(start, n) \<in> set (carve buf ns) \<Longrightarrow>
     buf \<le> start \<and> start + n \<le> buf + CLI_UINT_SIZE * sum_list (map BYTES_TO_CLI_UINTS ns)"
proof (induction buf ns rule: carve.induct)
  case (2 buf m ns)
  then show ?case
    using bytes_fit [of m] by (auto simp: algebra_simps)
qed simp

lemma carve_disjoint:
  "sorted_wrt (\<lambda>(s, n) (s', n'). s + n \<le> s') (carve buf ns)"
proof (induction buf ns rule: carve.induct)
  case (2 buf m ns)
  have "buf + m \<le> s" if "(s, n) \<in> set (carve (buf + CLI_UINT_SIZE * BYTES_TO_CLI_UINTS m) ns)" for s n
    using carve_bounds [OF that] bytes_fit [of m] by simp
  then show ?case using 2 by auto
qed simp

text \<open>
  The buffers of the console neither overlap nor leave the memory that was allocated, as long as
  the sum fits the 16 bits of \<open>embeddedCliRequiredSize\<close>; for the console of the program it does.
\<close>

lemma cli_memory:
  assumes "CLI_UINT_SIZE * sum_list (map BYTES_TO_CLI_UINTS (cli_blocks z config)) < 2 ^ 16"
  shows "sorted_wrt (\<lambda>(s, n) (s', n'). s + n \<le> s') (carve 0 (cli_blocks z config)) \<and>
     (\<forall>(s, n) \<in> set (carve 0 (cli_blocks z config)). s + n \<le> unat (embeddedCliRequiredSize z config))"
proof -
  have "unat (embeddedCliRequiredSize z config) =
      CLI_UINT_SIZE * sum_list (map BYTES_TO_CLI_UINTS (cli_blocks z config))"
    unfolding embeddedCliRequiredSize_def using assms by (simp only: unat_of_nat) simp
  then show ?thesis
    using carve_disjoint [of 0 "cli_blocks z config"] carve_bounds [of _ _ 0 "cli_blocks z config"] by auto
qed

lemma cli_memory_program:
  "unat (embeddedCliRequiredSize
     \<lparr>sizeof_EmbeddedCli = 16, sizeof_EmbeddedCliImpl = 56, sizeof_CliCommandBinding = 20\<rparr>
     (embeddedCliDefaultConfig\<lparr>maxBindingCount := 26\<rparr>)) = 896"
  by (simp add: embeddedCliRequiredSize_def cli_blocks_def embeddedCliDefaultConfig_def
      cliInternalBindingCount_def BYTES_TO_CLI_UINTS_def CLI_UINT_SIZE_def)

definition embeddedCliNewDefault :: "bool \<Rightarrow> 'f embedded_cli option" where
  "embeddedCliNewDefault malloc_ok = embeddedCliNew malloc_ok embeddedCliDefaultConfig"

section \<open>Printing in the middle of a line\<close>

definition embeddedCliPrint :: "string \<Rightarrow> 'f embedded_cli \<Rightarrow> 'f embedded_cli option" where
  "embeddedCliPrint str c =
     (if \<not> write_char c then Some c
      else
        let cursorPosSave = cursor_pos c;
            c1 = (if \<not> flag_direct_print c then clearCurrentLine c else c);
            c2 = writeToOutput lineBreak (writeToOutput str (c1\<lparr>cursor_pos := cursorPosSave\<rparr>))
        in if \<not> flag_direct_print c2 then do {
             line \<leftarrow> cmd_string c2;
             let c3 = (writeToOutput line (writeToOutput (invitation c2) c2))\<lparr>input_line_length := cmd_size c2\<rparr>;
             printLiveAutocompletion (moveCursor (cursor_pos c3) False c3)
           }
           else Some c2)"

text \<open>Whatever is printed, the line, its cursor and the history stay what they were.\<close>

lemma erase_print:
  "erase ((clearCurrentLine c)\<lparr>cursor_pos := cursor_pos c\<rparr>) = erase c"
  by (simp add: erase_def clearCurrentLine_def writeToOutput_def Let_def)

lemma embeddedCliPrint_ok:
  assumes "cli_shows c s"
  shows "\<exists>c'. embeddedCliPrint str c = Some c' \<and> cli_shows c' s"
proof -
  have line: "line_ok c (console_line s)" using assms by (simp add: cli_shows_def)
  let ?c1 = "(if \<not> flag_direct_print c then clearCurrentLine c else c)\<lparr>cursor_pos := cursor_pos c\<rparr>"
  let ?c2 = "writeToOutput lineBreak (writeToOutput str ?c1)"
  have same: "same_but_screen c ?c2" by (simp add: erase_print)
  then have "line_ok ?c2 (console_line s)" using line same_but_screen_shows(2) by blast
  then have str2: "cmd_string ?c2 = Some (console_line s)" by (rule line_ok_string)
  let ?c3 = "(writeToOutput (console_line s) (writeToOutput (invitation ?c2) ?c2))\<lparr>input_line_length := cmd_size ?c2\<rparr>"
  let ?c4 = "moveCursor (cursor_pos ?c3) False ?c3"
  have same4: "same_but_screen c ?c4" using same by simp
  then have "line_ok ?c4 (console_line s)" using line same_but_screen_shows(2) by blast
  then obtain c5 where c5: "printLiveAutocompletion ?c4 = Some c5" "same_but_screen ?c4 c5"
    using printLiveAutocompletion_ok by blast
  have "cli_shows c5 s" "cli_shows ?c2 s"
    using assms same_but_screen_shows(1) same same4 c5(2) by metis+
  then show ?thesis
    using assms str2 c5(1) by (cases "flag_direct_print ?c2") (simp_all add: embeddedCliPrint_def Let_def)
qed

section \<open>Looking for a token\<close>

definition embeddedCliGetTokenVariable :: "string \<Rightarrow> nat \<Rightarrow> string option option" where
  "embeddedCliGetTokenVariable tokenizedStr pos =
     (case getTokenPosition tokenizedStr pos of
        None \<Rightarrow> None
      | Some None \<Rightarrow> Some None
      | Some (Some i) \<Rightarrow> map_option Some (string_at i tokenizedStr))"

text \<open>The loop; \<open>strcmp\<close> with a \<open>NULL\<close> token has no result.\<close>

fun find_token :: "string \<Rightarrow> string \<Rightarrow> nat list \<Rightarrow> nat option" where
  "find_token m token [] = Some 0"
| "find_token m token (i # is) =
     (case embeddedCliGetToken m i of
        Some (Some t) \<Rightarrow> if t = token then Some i else find_token m token is
      | _ \<Rightarrow> None)"

definition embeddedCliFindToken :: "string option \<Rightarrow> string option \<Rightarrow> nat option" where
  "embeddedCliFindToken tokenizedStr token =
     (case (tokenizedStr, token) of
        (Some m, Some t) \<Rightarrow>
          (case embeddedCliGetTokenCount (Some m) of
             None \<Rightarrow> None
           | Some n \<Rightarrow> find_token m t [1..<n + 1])
      | _ \<Rightarrow> Some 0)"

lemma find_token_flat:
  assumes "entries ts"
  shows "0 < i \<Longrightarrow> i \<le> length ts + 1 \<Longrightarrow>
     find_token (flat ts @ r) t [i..<length ts + 1] =
       Some (if t \<in> set (drop (i - 1) ts) then i + length (takeWhile (\<lambda>x. x \<noteq> t) (drop (i - 1) ts)) else 0)"
proof (induction "length ts + 1 - i" arbitrary: i)
  case 0
  then show ?case by simp
next
  case (Suc n)
  then have i: "i < length ts + 1" by simp
  then obtain x xs where d: "drop (i - 1) ts = x # xs"
    using Suc.prems by (cases "drop (i - 1) ts") auto
  then have x: "ts ! (i - 1) = x" "drop i ts = xs"
    using i Suc.prems by (metis nth_via_drop, metis Suc_diff_1 drop_Suc list.sel(3) tl_drop)
  have "[i..<length ts + 1] = i # [i + 1..<length ts + 1]"
    using i by (simp add: upt_conv_Cons del: upt_Suc)
  moreover have "embeddedCliGetToken (flat ts @ r) i = Some (Some x)"
    using embeddedCliGetToken_flat [OF assms, of i r] Suc.prems i x by simp
  ultimately show ?case
    using Suc.hyps(1) [of "i + 1"] Suc.hyps(2) Suc.prems i x d by (simp del: upt_Suc)
qed

text \<open>The number of the first token that is equal, counted from 1; 0 if there is none.\<close>

lemma embeddedCliFindToken_flat:
  assumes "entries ts"
  shows "embeddedCliFindToken (Some (flat ts @ NUL # r)) (Some t) =
     Some (if t \<in> set ts then Suc (length (takeWhile (\<lambda>x. x \<noteq> t) ts)) else 0)"
  using find_token_flat [OF assms, of 1 "NUL # r" t] embeddedCliGetTokenCount_flat [OF assms]
  by (simp add: embeddedCliFindToken_def del: upt_Suc)

end
