(* ===== verification/Spec2Isabelle.thy ===== *)
theory Spec2Isabelle
  imports Program_Lights Count_Runs Bus_Interrupts Button Hardware Cli_Extra
begin

text \<open>
  A model of the firmware of a stairway light: an RP2040 with a Wi-Fi chip that reads four
  distance sensors over Modbus, counts the people on the stairs, and lets waves of light run over
  a strip of addressable LEDs. Its settings are changed with a button, on a serial console and on
  a web page of its own access point.

  \<^bold>\<open>How the program is put together.\<close> \<open>main\<close> starts the modules and then runs one endless loop;
  there are no threads. A pass of the loop polls the network, which calls back into the HTTP, DHCP
  and DNS servers; restarts if that was asked for; looks at the button; gives one character to the
  console; reads the light sensor and the bus; and runs the controller: sensors, block by light,
  the two detectors, the waves, the emergency lights, and the refresh of the strip. All modules
  share the settings. Only the receive interrupt of the bus runs beside the loop.

  \<^bold>\<open>How it is modelled.\<close> The statics of a module are a record; an operation is a function from the old
  record to the new one and its result. Machine integers keep their width (\<open>u8\<close> to \<open>u64\<close>, with
  wrap-around), signed arithmetic of C is on \<open>int\<close>; the one signed counter that is kept, the number of
  people, is shown to fit its 32 bits for \<open>2 ^ 30\<close> passes. An access outside of a buffer, through \<open>NULL\<close>, or a
  loop that does not end makes an operation \<open>None\<close>, so that ``is not \<open>None\<close>'' is memory safety and
  termination. \<open>ErrCode\<close> is a datatype, each early return a branch.
  What is not under \<open>src/\<close> (the SDK, lwIP, \<open>malloc\<close>, the flash, the pins) is an argument: an
  answer, a record of functions, or the bytes read.

  \<^bold>\<open>The theories and the code.\<close>
    \<^item> Shared: \<open>Prelude\<close> (\<open>global.h\<close>: error codes, sensors, detectors; words and lists), \<open>Crc\<close> (a locale for
      bitwise checksums, used twice), \<open>C_Strings\<close> (\<open>strstr\<close>, \<open>strtoul\<close>, \<open>memmove\<close>, printing of numbers).
    \<^item> \<open>Clock\<close>: \<open>get_time_ms\<close> of \<open>main.c\<close>, a 64 bit clock from the 32 bit counter of the SDK.
    \<^item> \<open>Settings\<close>: \<open>settings/\<close>; the image in the flash with its checksum, start, write, validate, apply, reset.
      \<open>Settings_Kept\<close>: everything that changes settings keeps RAM and flash equal.
    \<^item> \<open>Ws2812\<close>, \<open>Latest_Wins\<close>, \<open>Stairway_Leds\<close>: \<open>ws2812_pio/ws2812.c\<close> and \<open>stairway/stairway_leds.c\<close>; the strip
      refines a list of pixels, and an LED is a register in which the newest event wins, the first of equals.
    \<^item> \<open>Modbus\<close>, \<open>Sensors\<close>, \<open>Light\<close>: \<open>modbus_master/\<close>, \<open>stairway/stairway_sensors.c\<close>, \<open>light_sensor/\<close>.
      \<open>Bus_Interrupts\<close>: the routine of the bus with interrupts between its accesses.
      \<open>Hardware\<close>: the set-up of their pins, and \<open>button/button.c\<close>.
    \<^item> \<open>Controller\<close>: the body of the loop of \<open>main.c\<close>, one definition per section; \<open>Counting\<close>, \<open>Waves\<close>,
      \<open>Emergency\<close>, \<open>Button\<close>: what it does over many passes; \<open>Lights\<close>, \<open>Lights_Runs\<close>: from the sensors to the LEDs;
      \<open>Count_Runs\<close>: the count of the people over any run.
    \<^item> \<open>Dhcp\<close>, \<open>Dns\<close>, \<open>Udp\<close>: the two servers (\<open>network/dhcp_server/\<close>, \<open>network/dns_server/\<close>) and their sockets;
      \<open>Network\<close>: \<open>network/network.c\<close>.
    \<^item> \<open>Http_Json\<close>, \<open>Http_Content\<close>, \<open>Http_Request\<close>, \<open>Http_Server\<close>: \<open>network/http_server/\<close> from the settings as
      text to the callbacks of a TCP connection.
    \<^item> \<open>Cli_Buffers\<close>, \<open>Embedded_Cli\<close>, \<open>Cli_Extra\<close>: \<open>cli/embedded_cli.h\<close> and \<open>cli/cli.c\<close>; \<open>Commands\<close>:
      \<open>commands/commands.c\<close>; \<open>Console_Spec\<close>, \<open>Console_Program\<close>: the console as a line with a cursor, and the
      proof that the code refines it.
    \<^item> \<open>Main_Program\<close>: the start and a pass of the loop, composed of all the above. \<open>Program_Safety\<close>: its
      invariant, kept by every pass. \<open>Console_Passes\<close>: many passes, while a line is typed.
      \<open>Program_Lights\<close>: the program as the lights see it. This theory: what the
      whole program promises.

  \<^bold>\<open>What is shown.\<close> Of the whole: every pass is memory safe and ends, a power cut loses no setting,
  a typed line changes exactly the setting it names or restores the factory settings and restarts, the
  radio follows the settings, and nothing but the controller moves the lights.
  Of the controller: in each pass a detector does what a deterministic automaton prescribes; a passage
  is counted exactly once, in its direction; the count is never negative, and daylight stops the counting
  only on empty stairs; an arrival lights the whole stairs, the last departure or the timeout darkens
  them, LED by LED, after one tick per LED and one more; emergency lights need a confirmed presence. Of
  the LEDs: the fading, and that the order of events of different times does not matter. Of the console: the refinement, and what a typed
  line does. Of the web server: a request is the same however TCP cuts it, is handled once, and
  cannot leave a buffer; sending the settings back changes nothing. Of the bus: an exchange
  delivers the registers, a corrupted one an error, a request exactly one callback, and
  an interrupt in the middle of the routine is as one before or after it. Of the servers: two
  clients never share an address, and replies fit their buffers. The theorems
  \<open>modbus_rx_irq_outcome\<close>, \<open>arrival_lost\<close>, \<open>dhcp_opt_overread\<close> and \<open>dns_reply_leaks\<close> show where the code
  does not do what it should.

  \<^bold>\<open>Locales.\<close> \<open>crc_engine\<close>, \<open>pixel_strip\<close>, \<open>latest_wins\<close>, \<open>char_queue\<close>, \<open>json_scalar\<close>, \<open>page_handler\<close>,
  \<open>console_program\<close> and \<open>settings_user\<close> state what one part promises another; each is interpreted on
  the definitions of the code.

  \<^bold>\<open>Assumptions.\<close> \<open>flash_laws\<close> and \<open>flash_ok\<close>: the flash takes an erase and a program as its data
  sheet says, or fails. \<open>tcp_laws\<close>, \<open>event_allowed\<close>: lwIP acknowledges what it accepted, and calls back
  only for open connections. \<open>packet_ok\<close>: the options of a DHCP packet are well formed (without it
  the server reads behind its message). \<open>inputs_possible\<close>: at most 255 bytes arrive on the bus between
  two passes (with one more the interrupt handler does not return), and the LED buffers can be allocated
  (when they cannot, the next event writes outside of the old buffer). \<open>clock_forward\<close>: the 64 bit total
  of the clock does not wrap. Each theorem names those it needs.

  \<^bold>\<open>Bounds.\<close> Sizes are those of the code: a line of the console has 64 bytes, its history 128, its
  ring buffer 64; the bus 255 and 32 bytes; a DHCP message 548, a DNS message 300. Loops are structural
  or have a measure; \<open>process_loop\<close> of the console is a \<open>partial_function\<close> and the interrupt handler a
  \<open>while_option\<close>, and both are shown to return, the latter exactly while the buffer has room. No
  definition uses fuel.

  \<^bold>\<open>Not modelled.\<close> The PIO program, which is assembly of another processor; the log output and the
  help texts, which are only printed; the feeding of the watchdog; \<open>embeddedCliFree\<close>, which is never
  called; the variants that are not compiled (\<open>EMULATE_SENSORS\<close>, \<open>DUMP_DATA\<close>); the files that only
  configure lwIP or the build; the HTML of the pages, which is a parameter. In \<open>Main_Program\<close>
  the receive interrupt runs before the routine of the bus; \<open>Bus_Interrupts\<close> shows that bytes which come in
  the middle of it make no difference. That it may come while a request is being built is left aside.
\<close>

section \<open>What the program promises\<close>

text \<open>
  C4: the whole program is safe. In every state it can reach, from power on and across restarts,
  with any contents of the flash, whatever lwIP, the console, the sensors, the button and the
  clock deliver: the next pass leaves no buffer and ends; the settings are valid; the number of
  people is not negative; the radio is on exactly when the program thinks so, with a legal name
  and password; and the heap holds the blocks of the open connections and no others.
\<close>

theorem program_safe:
  assumes "tcp_laws net accepted" and "program_reachable net env accepted p"
  shows "(\<forall>inp. inputs_possible net env accepted inp p \<longrightarrow> main_pass net env inp p \<noteq> None) \<and>
     settings_wf (global_settings (main_store p)) \<and> settings_valid (global_settings (main_store p)) \<and>
     0 \<le> people_count (status (main_ctl p)) \<and>
     (ap_radio (main_net p) \<noteq> None \<longleftrightarrow> net_ap_get_state (main_net p)) \<and>
     (\<forall>n w. ap_radio (main_net p) = Some (n, w) \<longrightarrow>
        0 < length n \<and> length n < 33 \<and> 8 \<le> length w \<and> length w < 64) \<and>
     live (main_heap p) = sum_list (map (con_blocks \<circ> fst) (main_conns p)) \<and> pbufs (main_udp p) = 0"
proof -
  have ok: "program_ok env accepted p" by (rule program_reachable_ok [OF assms])
  have "main_pass net env inp p \<noteq> None" if "inputs_possible net env accepted inp p" for inp
    using main_pass_ok [OF assms(1) ok that] by auto
  moreover have "net_inv (main_net p)" using ok by (simp add: program_ok_def access_point_ok_def)
  ultimately show ?thesis
    using ok
    by (auto simp: program_ok_def store_ok_def store_good_def lights_ok_def count_inv_def conns_ok_def
        net_inv_def net_ap_get_state_def split: if_splits)
qed

lemma program_safe_witness:
  "let env = sample_env\<lparr>env_flash := nor_flash True True\<rparr>;
       p = the (main_init env (sample_boot (\<lambda>_. 0xFF)))
   in main_pass plain_lwip env sample_inputs p \<noteq> None \<and>
      live (main_heap p) = sum_list (map (con_blocks \<circ> fst) (main_conns p)) \<and>
      0 \<le> people_count (status (main_ctl p)) \<and> settings_valid (global_settings (main_store p))"
  using program_safe [OF plain_lwip_laws sample_reachable] sample_inputs_possible by (simp add: Let_def)

text \<open>
  C5: no setting is lost. With a flash that works, cutting the power between any two passes and
  starting again brings back exactly the settings that were active, whoever changed them
  last: the button, the console or a web page.
\<close>

theorem power_cut_keeps_settings:
  assumes "tcp_laws net accepted" and "program_reachable net env accepted p" and "flash_ok (env_flash env)"
    and "boot_possible a" and "boot_flash a = flash (main_store p)"
  shows "\<exists>p'. main_init env a = Some p' \<and> main_store p' = main_store p"
  by (rule main_init_restores [OF program_reachable_ok [OF assms(1,2)] assms(3,4,5)])

lemma power_cut_keeps_settings_witness:
  "let env = sample_env\<lparr>env_flash := nor_flash True True\<rparr>;
       p = the (main_init env (sample_boot (\<lambda>_. 0xFF)))
   in \<exists>p'. main_init env (sample_boot (flash (main_store p))) = Some p' \<and> main_store p' = main_store p"
proof -
  have "flash_ok (env_flash (sample_env\<lparr>env_flash := nor_flash True True\<rparr>))"
    by (simp add: flash_ok_def nor_flash_laws) (simp add: nor_flash_def)
  from power_cut_keeps_settings [OF plain_lwip_laws sample_reachable this sample_boot_possible(1)
      sample_boot_possible(2)]
  show ?thesis by (simp add: Let_def)
qed

text \<open>
  C9: a setting typed on the console reaches the program. In any reachable state whose console shows
  an empty prompt, let the name of a setting, the value in quotes and the return key arrive in any
  number of passes, some of them without a character, while nobody presses the button and no
  packet comes: every pass returns, the store is what \<open>set_setting\<close> makes of it, in RAM and in the
  flash, no restart is requested, and the console shows an empty prompt again.
\<close>

theorem program_sets_setting:
  fixes net :: "'p lwip"
  assumes "tcp_laws net accepted" and "program_reachable net env accepted p"
    and "reboot_ts (main_ctl p) = 0" and "main_cli p = Some cli" and "cli_shows cli s" and "at_prompt s"
    and "passes_possible net env accepted inps p" and "\<forall>inp \<in> set inps. quiet inp"
    and "typed inps = cmd_name c @ space # quote_arg a @ [CR]"
    and "c \<in> set setting_commands" and "list_all isDisplayableChar a" and "a \<noteq> []"
    and "a \<noteq> ''-h''" and "a \<noteq> ''--help''" and "length (cmd_name c) + length (quote_arg a) \<le> 61"
  shows "\<exists>p' cli' s'. main_passes net env inps p = Some p' \<and>
     main_store p' = snd (set_setting (env_flash env) c [a] (main_store p)) \<and>
     reboot_ts (main_ctl p') = 0 \<and> main_cli p' = Some cli' \<and> cli_shows cli' s' \<and> at_prompt s'"
proof -
  let ?line = "cmd_name c @ space # quote_arg a" and ?w = "console_world (main_store p) :: 'p command_world"
  let ?k = "console_keys (command_run (env_flash env)) console_bindings (typed inps) s ?w"
  have typed: "typed inps = ?line @ [CR]" using assms(9) by simp
  have line: "list_all isDisplayableChar ?line"
    using setting_displayable [OF assms(10)] quote_arg_displayable [OF assms(11)]
    by (simp add: isDisplayableChar_def [of space])
  have "snd ?k = ?w\<lparr>con_store := snd (set_setting (env_flash env) c [a] (con_store ?w))\<rparr>"
    unfolding assms(9) by (rule console_keys_setting [OF assms(6,10-15)])
  then have w: "con_store (snd ?k) = snd (set_setting (env_flash env) c [a] (main_store p))"
      "con_reboot (snd ?k) = None"
    by (simp_all add: console_world_def)
  have prompt: "at_prompt (fst ?k)"
    unfolding typed using console_keys_prompt [OF line assms(6)] assms(15) by simp
  show ?thesis
    using passes_typing [OF assms(1) program_reachable_ok [OF assms(1,2)] assms(7,8,3,4,5) _ w(2)] w(1) prompt
    by (metis prod.collapse)
qed

lemma program_sets_setting_witness:
  "let env = sample_env\<lparr>env_flash := nor_flash True True\<rparr>;
       p = the (main_init env (sample_boot (\<lambda>_. 0xFF)));
       c = cmd ''ssid'' ''Set wifi SSID (arg0: SSID string, applied after restart)'' ''WiFi SSID''
             (CTYPE_STRING ssid (\<lambda>v s. s\<lparr>ssid := v\<rparr>) SSID_MAX_LEN False);
       keys = ''ssid '' @ [dquote] @ ''My Net'' @ [dquote, CR]
   in \<exists>p'. main_passes plain_lwip env (map keystroke (map Some keys)) p = Some p' \<and>
        main_store p' = snd (set_setting (env_flash env) c [''My Net''] (main_store p))"
proof -
  define env where "env = sample_env\<lparr>env_flash := nor_flash True True\<rparr>"
  define p where "p = the (main_init env (sample_boot (\<lambda>_. 0xFF)))"
  define c where "c = cmd ''ssid'' ''Set wifi SSID (arg0: SSID string, applied after restart)'' ''WiFi SSID''
             (CTYPE_STRING ssid (\<lambda>v s. s\<lparr>ssid := v\<rparr>) SSID_MAX_LEN False)"
  define inps where "inps = map keystroke (map Some (''ssid '' @ [dquote] @ ''My Net'' @ [dquote, CR]))"
  have reach: "program_reachable plain_lwip env (\<lambda>p. p) p" unfolding p_def by (rule sample_reachable)
  obtain cli where cli: "main_cli p = Some cli" "cli_shows cli console_start"
    using sample_start(3) unfolding p_def by blast
  have idle: "reboot_ts (main_ctl p) = 0" unfolding p_def by (rule sample_start)
  have q: "quote_arg ''My Net'' = [dquote] @ ''My Net'' @ [dquote]" by (simp add: quote_arg_def)
  have name: "cmd_name c = ''ssid''" by (simp add: c_def cmd_def)
  have inps: "typed inps = cmd_name c @ space # quote_arg ''My Net'' @ [CR]" "\<forall>inp \<in> set inps. quiet inp"
    by (simp_all add: inps_def q name)
  have c: "c \<in> set setting_commands" by (simp add: c_def setting_commands_def)
  have d: "list_all isDisplayableChar ''My Net''" by (simp add: isDisplayableChar_def)
  have possible: "passes_possible plain_lwip env (\<lambda>p. p) inps p"
    unfolding inps_def p_def by (rule sample_possible)
  have "length (cmd_name c) + length (quote_arg ''My Net'') \<le> 61" by (simp add: q name)
  then have "\<exists>p'. main_passes plain_lwip env inps p = Some p' \<and>
      main_store p' = snd (set_setting (env_flash env) c [''My Net''] (main_store p))"
    using program_sets_setting [OF plain_lwip_laws reach idle cli console_start_prompt possible inps(2,1) c d] by auto
  then show ?thesis unfolding Let_def env_def [symmetric] p_def [symmetric] c_def [symmetric] inps_def [symmetric] .
qed

text \<open>
  C10: the factory settings can be restored from the console. In any reachable state with an empty prompt,
  let the word \<open>default\<close> arrive in any number of passes, and then the return key: with a flash that works,
  the default settings are active and written, and a restart is requested one second after the
  time of that pass. It stays requested, the first pass that reads this time or a later one
  restarts, and the program that starts then has the default settings.
\<close>

theorem program_restores_defaults:
  fixes net :: "'p lwip"
  assumes "tcp_laws net accepted" and "program_reachable net env accepted p"
    and "reboot_ts (main_ctl p) = 0" and "main_cli p = Some cli" and "cli_shows cli s" and "at_prompt s"
    and "passes_possible net env accepted (inps @ [inp]) p" and "\<forall>i \<in> set (inps @ [inp]). quiet i"
    and "typed inps = ''default''" and "in_char inp = Some CR" and "flash_ok (env_flash env)"
  shows "\<exists>p1 level p2. main_passes net env inps p = Some p1 \<and> main_pass net env inp p1 = Some (Running level p2) \<and>
     global_settings (main_store p2) = stamp default_settings \<and>
     reboot_ts (main_ctl p2) = fst (get_time_ms (snd (get_time_ms (main_clock p1)))) + 1000 \<and>
     (\<forall>later p3. main_passes net env later p2 = Some p3 \<and> list_all silent later \<longrightarrow>
        reboot_ts (main_ctl p3) = reboot_ts (main_ctl p2) \<and>
        (\<forall>i. in_events i = [] \<and> reboot_due (fst (get_time_ms (main_clock p3))) (main_ctl p3) \<longrightarrow>
           main_pass net env i p3 = Some (Restarting (flash (main_store p2))))) \<and>
     (\<forall>a :: 'p boot_answers. boot_possible a \<and> boot_flash a = flash (main_store p2) \<longrightarrow>
        (\<exists>q. main_init env a = Some q \<and> main_store q = main_store p2))"
proof -
  let ?hw = "env_flash env" and ?w = "console_world (main_store p) :: 'p command_world"
  let ?s1 = "s\<lparr>before := ''default'', previous := CHR ''t''\<rparr>"
  have keys: "console_keys (command_run ?hw) console_bindings ''default'' s ?w = (?s1, ?w)"
    using console_keys_text [of "''default''" s "command_run ?hw" console_bindings ?w] assms(6)
    by (simp add: at_prompt_def isDisplayableChar_def)
  have possible: "passes_possible net env accepted inps p"
    "main_passes net env inps p = Some p1 \<Longrightarrow> inputs_possible net env accepted inp p1" for p1
    using passes_possible_snoc [OF assms(7)] by blast+
  obtain p1 cli1 where p1: "main_passes net env inps p = Some p1" "program_ok env accepted p1"
      "main_cli p1 = Some cli1" "cli_shows cli1 ?s1" "main_store p1 = main_store p" "reboot_ts (main_ctl p1) = 0"
    using passes_typing [OF assms(1) program_reachable_ok [OF assms(1,2)] possible(1) _ assms(3,4,5), of ?s1 ?w]
      assms(8,9) keys by (auto simp: console_world_def)
  obtain st where st: "set_default ?hw (main_store p) = (Some 1000, st)" "global_settings st = stamp default_settings"
    using set_default_works [OF assms(11)] by blast
  have "snd (console_keys (command_run ?hw) console_bindings [CR] ?s1 ?w) = snd (command_run ?hw Cmd_default [] ?w)"
    using console_keys_default [OF assms(6), of ?hw ?w]
    by (simp only: console_keys_append keys prod.case Let_def)
  then have k: "con_store (snd (console_keys (command_run ?hw) console_bindings [CR] ?s1 ?w)) = st"
      "con_reboot (snd (console_keys (command_run ?hw) console_bindings [CR] ?s1 ?w)) = Some 1000"
    by (simp_all add: command_run_def console_world_def st)
  obtain level p2 where p2: "main_pass net env inp p1 = Some (Running level p2)" "program_ok env accepted p2"
      "main_store p2 = st"
      "reboot_ts (main_ctl p2) = fst (get_time_ms (snd (get_time_ms (main_clock p1)))) + 1000"
    using typing_pass [OF assms(1) p1(2) possible(2) [OF p1(1)] _ p1(6,3,4)] assms(8,10) k
    by (auto simp: p1(5))
  have later: "main_passes net env later p2 = Some p3 \<and> list_all silent later \<longrightarrow>
      reboot_ts (main_ctl p3) = reboot_ts (main_ctl p2) \<and>
      (\<forall>i. in_events i = [] \<and> reboot_due (fst (get_time_ms (main_clock p3))) (main_ctl p3) \<longrightarrow>
         main_pass net env i p3 = Some (Restarting (flash (main_store p2))))" for later p3
    using silent_passes [of net env later p2 p3] due_pass by metis
  have boot: "boot_possible a \<and> boot_flash a = flash (main_store p2) \<longrightarrow>
      (\<exists>q. main_init env a = Some q \<and> main_store q = main_store p2)" for a :: "'p boot_answers"
    using main_init_restores [OF p2(2) assms(11)] by blast
  have defaults: "global_settings (main_store p2) = stamp default_settings" using p2(3) st(2) by simp
  show ?thesis
    by (intro exI conjI allI) (rule p1(1) p2(1) defaults p2(4) later boot)+
qed

lemma program_restores_defaults_witness:
  "let env = sample_env\<lparr>env_flash := nor_flash True True\<rparr>;
       p = the (main_init env (sample_boot (\<lambda>_. 0xFF)))
   in \<exists>p1 level p2. main_passes plain_lwip env (map keystroke (map Some ''default'')) p = Some p1 \<and>
        main_pass plain_lwip env (keystroke (Some CR)) p1 = Some (Running level p2) \<and>
        global_settings (main_store p2) = stamp default_settings"
proof -
  define env where "env = sample_env\<lparr>env_flash := nor_flash True True\<rparr>"
  define p where "p = the (main_init env (sample_boot (\<lambda>_. 0xFF)))"
  define inps where "inps = map keystroke (map Some ''default'')"
  have reach: "program_reachable plain_lwip env (\<lambda>p. p) p" unfolding p_def by (rule sample_reachable)
  obtain cli where cli: "main_cli p = Some cli" "cli_shows cli console_start"
    using sample_start(3) unfolding p_def by blast
  have idle: "reboot_ts (main_ctl p) = 0" unfolding p_def by (rule sample_start)
  have inps: "typed inps = ''default''" "\<forall>i \<in> set (inps @ [keystroke (Some CR)]). quiet i"
    by (simp_all add: inps_def)
  have "inps @ [keystroke (Some CR)] = map keystroke (map Some ''default'' @ [Some CR])" by (simp add: inps_def)
  then have possible: "passes_possible plain_lwip env (\<lambda>p. p) (inps @ [keystroke (Some CR)]) p"
    unfolding p_def by (simp only: sample_possible)
  have "flash_ok (env_flash env)" by (simp add: env_def flash_ok_def nor_flash_laws) (simp add: nor_flash_def)
  then have "\<exists>p1 level p2. main_passes plain_lwip env inps p = Some p1 \<and>
      main_pass plain_lwip env (keystroke (Some CR)) p1 = Some (Running level p2) \<and>
      global_settings (main_store p2) = stamp default_settings"
    using program_restores_defaults [OF plain_lwip_laws reach idle cli console_start_prompt possible inps(2,1)
        keystroke_quiet(2)] by blast
  then show ?thesis unfolding Let_def env_def [symmetric] p_def [symmetric] inps_def [symmetric] .
qed

text \<open>
  C11: the radio follows the settings. When the network could be initialised, every pass in which the return
  key does not arrive on the console ends with the access point on exactly when the setting
  \<open>ap_state\<close> says so, with its name and password, whoever has changed the setting: a web page in the
  same pass, the button in the same pass, or the console in the pass before.
\<close>

theorem program_radio_follows:
  assumes "tcp_laws net accepted" and "program_reachable net env accepted p" and "main_ready p"
    and "inputs_possible net env accepted inp p" and "in_char inp \<noteq> Some CR" and "in_char inp \<noteq> Some LF"
    and "main_pass net env inp p = Some (Running level p')"
  shows "main_ready p' \<and> net_ap_get_state (main_net p') = ap_state (global_settings (main_store p')) \<and>
     ap_radio (main_net p') = (if ap_state (global_settings (main_store p'))
        then Some (cstr (ap_ssid (main_net p')), cstr (ap_pass (main_net p'))) else None)"
  by (rule radio_follows_pass [OF assms(1) program_reachable_ok [OF assms(1,2)] assms(3-7)])

lemma program_radio_follows_witness:
  "let env = sample_env\<lparr>env_flash := nor_flash True True\<rparr>;
       p = the (main_init env (sample_boot (\<lambda>_. 0xFF)))
   in \<exists>level p'. main_pass plain_lwip env (keystroke (Some CHR ''x'')) p = Some (Running level p') \<and>
        net_ap_get_state (main_net p') = ap_state (global_settings (main_store p'))"
proof -
  define env where "env = sample_env\<lparr>env_flash := nor_flash True True\<rparr>"
  define p where "p = the (main_init env (sample_boot (\<lambda>_. 0xFF)))"
  have reach: "program_reachable plain_lwip env (\<lambda>p. p) p" unfolding p_def by (rule sample_reachable)
  have ok: "program_ok env (\<lambda>p. p) p" by (rule program_reachable_ok [OF plain_lwip_laws reach])
  have start: "main_ready p" "reboot_ts (main_ctl p) = 0" unfolding p_def by (rule sample_start)+
  have possible: "inputs_possible plain_lwip env (\<lambda>p. p) (keystroke (Some CHR ''x'')) p"
    by (rule keystroke_possible [OF ok])
  obtain level p' where run: "main_pass plain_lwip env (keystroke (Some CHR ''x'')) p = Some (Running level p')"
    using quiet_pass [OF plain_lwip_laws ok possible keystroke_quiet(1) start(2)] by metis
  have "net_ap_get_state (main_net p') = ap_state (global_settings (main_store p'))"
    using program_radio_follows [OF plain_lwip_laws reach start(1) possible _ _ run] by simp
  then show ?thesis using run unfolding Let_def env_def [symmetric] p_def [symmetric] by blast
qed

end
